(* ===== verification/Prelude.thy ===== *)
theory Prelude
  imports "HOL-Library.Word"
begin

unbundle bit_operations_syntax

text \<open>
  What the component theories share: the machine types of \<open>Include/my_types.h\<close>
  (\<open>UInt8\<close>, \<open>UInt32\<close>, \<open>UInt64\<close>), C memory idioms on byte lists (\<open>memcpy\<close> into the
  middle of an array, big- and little-endian loads and stores of 32-bit words,
  bytewise exclusive or), and the list and word lemmas the component proofs use.

  A C array is a list of its elements. A pointer into an input buffer is the list of the
  bytes from that pointer on, so \<open>input += n\<close> is \<open>drop n input\<close>.
\<close>

section \<open>Machine types\<close>

type_synonym byte = "8 word"
type_synonym u32 = "32 word"
type_synonym u64 = "64 word"

section \<open>Collections of facts\<close>

named_theorems mem_simps \<open>lengths and contents of arrays after C memory operations\<close>
named_theorems endian_simps \<open>loads undo stores\<close>

section \<open>Ranges\<close>

lemma unat_byte [simp]: "unat (b :: byte) < 256"
proof -
  have "unat b < 2 ^ LENGTH(8)" by (rule unsigned_less)
  then show ?thesis by simp
qed

lemma uint_byte [simp]: "uint (b :: byte) < 256"
proof -
  have "uint b < 2 ^ LENGTH(8)" by (rule unsigned_less)
  then show ?thesis by simp
qed

section \<open>Memory operations on arrays\<close>

text \<open>\<open>memcpy (dst + off, src, length src)\<close>: the copied region must lie inside \<open>dst\<close>.\<close>

definition blit :: "'a list \<Rightarrow> nat \<Rightarrow> 'a list \<Rightarrow> 'a list" where
  "blit dst off src = take off dst @ src @ drop (off + length src) dst"

lemma length_blit [mem_simps]:
  "off + length src \<le> length dst \<Longrightarrow> length (blit dst off src) = length dst"
  by (simp add: blit_def)

lemma take_blit [mem_simps]:
  "off \<le> length dst \<Longrightarrow> take (off + length src) (blit dst off src) = take off dst @ src"
  by (simp add: blit_def)

lemma blit_full [mem_simps]:
  "off + length src = length dst \<Longrightarrow> blit dst off src = take off dst @ src"
  by (simp add: blit_def)

text \<open>Bytewise exclusive or of two buffers.\<close>

definition xor_bytes :: "byte list \<Rightarrow> byte list \<Rightarrow> byte list" where
  "xor_bytes xs ys = map2 (XOR) xs ys"

lemma length_xor_bytes [simp]: "length (xor_bytes xs ys) = min (length xs) (length ys)"
  by (simp add: xor_bytes_def)

lemma nth_xor_bytes [simp]:
  "i < length xs \<Longrightarrow> i < length ys \<Longrightarrow> xor_bytes xs ys ! i = xs ! i XOR ys ! i"
  by (simp add: xor_bytes_def)

lemma xor_bytes_cancel [simp]:
  "length xs \<le> length ys \<Longrightarrow> xor_bytes (xor_bytes xs ys) ys = xs"
  by (rule nth_equalityI) (simp_all add: xor.assoc)

text \<open>A loop of \<open>buf[i] ^= t[i]\<close>.\<close>

lemma xor_loop:
  "n \<le> length d \<Longrightarrow> n \<le> length t \<Longrightarrow>
    foldl (\<lambda>d i. d[i := d ! i XOR t ! i]) d [0..<n] = xor_bytes (take n d) t @ drop n d"
proof (induction n)
  case (Suc n)
  then have "xor_bytes (take (Suc n) d) t = xor_bytes (take n d) t @ [d ! n XOR t ! n]"
    by (intro nth_equalityI) (auto simp: nth_append less_Suc_eq)
  moreover have "drop n d = d ! n # drop (Suc n) d" using Suc.prems by (simp add: Cons_nth_drop_Suc)
  ultimately show ?case using Suc by (simp add: list_update_append nth_append)
qed (simp add: xor_bytes_def)

lemma xor_bytes_commute: "xor_bytes xs ys = xor_bytes ys xs"
proof (rule nth_equalityI)
  show "length (xor_bytes xs ys) = length (xor_bytes ys xs)" by (simp add: min.commute)
qed (simp add: xor.commute)

section \<open>Loads and stores of 32-bit words\<close>

text \<open>
  \<open>GET_ULONG_BE\<close> and \<open>PUT_ULONG_BE\<close> of \<open>sha2.c\<close>, \<open>GET_ULONG_LE\<close> and
  \<open>PUT_ULONG_LE\<close> of \<open>aes.c\<close> and \<open>aesx.c\<close>.
\<close>

definition get_ulong_be :: "byte list \<Rightarrow> nat \<Rightarrow> u32" where
  "get_ulong_be b i =
     push_bit 24 (ucast (b ! i)) OR push_bit 16 (ucast (b ! (i + 1)))
     OR push_bit 8 (ucast (b ! (i + 2))) OR ucast (b ! (i + 3))"

definition put_ulong_be :: "u32 \<Rightarrow> byte list \<Rightarrow> nat \<Rightarrow> byte list" where
  "put_ulong_be n b i =
     b[i := ucast (drop_bit 24 n), i + 1 := ucast (drop_bit 16 n),
       i + 2 := ucast (drop_bit 8 n), i + 3 := ucast n]"

definition get_ulong_le :: "byte list \<Rightarrow> nat \<Rightarrow> u32" where
  "get_ulong_le b i =
     ucast (b ! i) OR push_bit 8 (ucast (b ! (i + 1)))
     OR push_bit 16 (ucast (b ! (i + 2))) OR push_bit 24 (ucast (b ! (i + 3)))"

definition put_ulong_le :: "u32 \<Rightarrow> byte list \<Rightarrow> nat \<Rightarrow> byte list" where
  "put_ulong_le n b i =
     b[i := ucast n, i + 1 := ucast (drop_bit 8 n),
       i + 2 := ucast (drop_bit 16 n), i + 3 := ucast (drop_bit 24 n)]"

definition be32 :: "u32 \<Rightarrow> byte list" where
  "be32 n = [ucast (drop_bit 24 n), ucast (drop_bit 16 n), ucast (drop_bit 8 n), ucast n]"

definition le32 :: "u32 \<Rightarrow> byte list" where
  "le32 n = [ucast n, ucast (drop_bit 8 n), ucast (drop_bit 16 n), ucast (drop_bit 24 n)]"

lemma length_be32 [simp]: "length (be32 n) = 4"
  by (simp add: be32_def)

lemma length_le32 [simp]: "length (le32 n) = 4"
  by (simp add: le32_def)

lemma length_put_ulong_be [mem_simps, simp]: "length (put_ulong_be n b i) = length b"
  by (simp add: put_ulong_be_def)

lemma length_put_ulong_le [mem_simps, simp]: "length (put_ulong_le n b i) = length b"
  by (simp add: put_ulong_le_def)

lemma byte_lane_cases:
  fixes k :: nat
  assumes "k < 32"
  obtains "k < 8" | j where "k = 8 + j" "j < 8" | j where "k = 16 + j" "j < 8"
    | j where "k = 24 + j" "j < 8"
proof -
  have "k < 8 \<or> (\<exists>j. k = 8 + j \<and> j < 8) \<or> (\<exists>j. k = 16 + j \<and> j < 8) \<or> (\<exists>j. k = 24 + j \<and> j < 8)"
    using assms by presburger
  then show ?thesis using that by blast
qed

lemma get_put_be [endian_simps]: "get_ulong_be (be32 n) 0 = n"
proof (rule bit_word_eqI)
  fix k assume "k < LENGTH(32)"
  then have "k < 32" by simp
  then show "bit (get_ulong_be (be32 n) 0) k = bit n k"
    by (cases rule: byte_lane_cases) (simp_all add: get_ulong_be_def be32_def bit_simps)
qed

lemma get_put_le [endian_simps]: "get_ulong_le (le32 n) 0 = n"
proof (rule bit_word_eqI)
  fix k assume "k < LENGTH(32)"
  then have "k < 32" by simp
  then show "bit (get_ulong_le (le32 n) 0) k = bit n k"
    by (cases rule: byte_lane_cases) (simp_all add: get_ulong_le_def le32_def bit_simps)
qed

text \<open>A store is a \<open>blit\<close> of the word's bytes.\<close>

lemma list_update_four:
  assumes "i + 4 \<le> length b"
  shows "b[i := w, i + 1 := x, i + 2 := y, i + 3 := z] = blit b i [w, x, y, z]"
proof -
  obtain p q r s t zs where b: "b = p @ q # r # s # t # zs" and p: "length p = i"
  proof -
    have "length (take i b) = i" using assms by simp
    moreover obtain q r s t zs where "drop i b = q # r # s # t # zs"
    proof -
      have "Suc (Suc (Suc (Suc 0))) \<le> length (drop i b)" using assms by simp
      then show ?thesis using that by (auto simp del: length_drop simp: Suc_le_length_iff)
    qed
    ultimately show ?thesis using that by (metis append_take_drop_id)
  qed
  show ?thesis unfolding b p [symmetric] by (simp add: blit_def list_update_append)
qed

lemma put_ulong_be_blit: "i + 4 \<le> length b \<Longrightarrow> put_ulong_be n b i = blit b i (be32 n)"
  unfolding put_ulong_be_def be32_def by (rule list_update_four)

lemma put_ulong_le_blit: "i + 4 \<le> length b \<Longrightarrow> put_ulong_le n b i = blit b i (le32 n)"
  unfolding put_ulong_le_def le32_def by (rule list_update_four)

text \<open>Storing a list of words one after the other.\<close>

lemma length_concat_be32 [simp]: "length (concat (map be32 ws)) = 4 * length ws"
  by (induction ws) simp_all

lemma length_concat_le32 [simp]: "length (concat (map le32 ws)) = 4 * length ws"
  by (induction ws) simp_all

lemma take_concat_be32: "take (4 * n) (concat (map be32 ws)) = concat (map be32 (take n ws))"
proof (induction ws arbitrary: n)
  case (Cons w ws)
  then show ?case by (cases n) simp_all
qed simp

lemma put_words_be:
  "n \<le> length ws \<Longrightarrow> 4 * n \<le> length out \<Longrightarrow>
    foldl (\<lambda>b i. put_ulong_be (ws ! i) b (4 * i)) out [0..<n] =
    concat (map be32 (take n ws)) @ drop (4 * n) out"
proof (induction n)
  case (Suc n)
  let ?p = "concat (map be32 (take n ws))"
  have "put_ulong_be (ws ! n) (?p @ drop (4 * n) out) (4 * n) =
      blit (?p @ drop (4 * n) out) (4 * n) (be32 (ws ! n))"
    using Suc.prems by (intro put_ulong_be_blit) simp
  also have "\<dots> = ?p @ be32 (ws ! n) @ drop (4 * Suc n) out"
    using Suc.prems by (simp add: blit_def add.commute)
  finally show ?case using Suc by (simp add: take_Suc_conv_app_nth)
qed simp

section \<open>Words\<close>

lemma unat_and_63: "unat (w AND 63 :: u32) = unat w mod 64"
proof -
  have "w AND 63 = take_bit 6 w"
    by (simp add: take_bit_eq_mask mask_eq_exp_minus_1)
  then have "unat (w AND 63) = take_bit 6 (unat w)"
    by (simp only: unsigned_take_bit_eq)
  then show ?thesis by (simp add: take_bit_eq_mod)
qed

lemma and_all_ones [simp]: "(w :: u32) AND 4294967295 = w"
proof -
  have "w AND 4294967295 = take_bit LENGTH(32) w"
    by (simp add: take_bit_eq_mask mask_eq_exp_minus_1)
  then show ?thesis by (simp only: take_bit_length_eq)
qed

section \<open>Addition with a carry\<close>

lemma nat_add_mod_carry:
  fixes n K L :: nat
  assumes "n < K"
  shows "(L + n) mod K = (if K \<le> L mod K + n then L mod K + n - K else L mod K + n)"
proof -
  have less: "L mod K < K" using assms by simp
  have "(L + n) mod K = (L mod K + n) mod K" by (simp add: mod_add_left_eq)
  also have "\<dots> = (if K \<le> L mod K + n then L mod K + n - K else L mod K + n)"
  proof (cases "K \<le> L mod K + n")
    case True
    then have "L mod K + n - K < K" using assms less by linarith
    with True show ?thesis by (simp add: le_mod_geq)
  next
    case False
    then show ?thesis by simp
  qed
  finally show ?thesis .
qed

lemma nat_add_div_carry:
  fixes n K L :: nat
  assumes "n < K"
  shows "(L + n) div K = L div K + (if K \<le> L mod K + n then 1 else 0)"
proof -
  have "(L + n) div K = L div K + (L mod K + n) div K"
    using assms by (simp add: div_add1_eq [of L n])
  moreover have "(L mod K + n) div K = (if K \<le> L mod K + n then 1 else 0)"
  proof -
    have "L mod K + n < 2 * K" using assms mod_less_divisor [of K L] by linarith
    then show ?thesis using assms by (auto simp: div_nat_eqI)
  qed
  ultimately show ?thesis by simp
qed

lemma carry_iff:
  fixes n K L :: nat
  assumes "n < K"
  shows "(L + n) mod K < n \<longleftrightarrow> K \<le> L mod K + n"
proof -
  have "L mod K < K" using assms by simp
  then show ?thesis unfolding nat_add_mod_carry [OF assms] by auto
qed

section \<open>Words as four bytes\<close>

text \<open>The word with the bytes \<open>a\<close> (highest) to \<open>d\<close>; in \<open>aes.c\<close> the macro \<open>V(a,b,c,d)\<close>.\<close>

definition V :: "byte \<Rightarrow> byte \<Rightarrow> byte \<Rightarrow> byte \<Rightarrow> u32" where
  "V a b c d = push_bit 24 (ucast a) OR push_bit 16 (ucast b) OR push_bit 8 (ucast c) OR ucast d"

lemma bit_V:
  "bit (V a b c d) k \<longleftrightarrow>
    (if k < 8 then bit d k else if k < 16 then bit c (k - 8) else if k < 24 then bit b (k - 16)
     else if k < 32 then bit a (k - 24) else False)"
  by (auto simp: V_def bit_simps dest: bit_imp_le_length)

definition by0 :: "u32 \<Rightarrow> byte" where "by0 w = ucast w"
definition by1 :: "u32 \<Rightarrow> byte" where "by1 w = ucast (drop_bit 8 w)"
definition by2 :: "u32 \<Rightarrow> byte" where "by2 w = ucast (drop_bit 16 w)"
definition by3 :: "u32 \<Rightarrow> byte" where "by3 w = ucast (drop_bit 24 w)"

lemma bytes_of_V [simp]:
  "by0 (V a b c d) = d" "by1 (V a b c d) = c" "by2 (V a b c d) = b" "by3 (V a b c d) = a"
  by (rule bit_word_eqI; simp add: by0_def by1_def by2_def by3_def bit_simps bit_V)+

lemma V_bytes: "V (by3 w) (by2 w) (by1 w) (by0 w) = w"
  by (rule bit_word_eqI) (auto simp: by0_def by1_def by2_def by3_def bit_simps bit_V)

lemma V_cases:
  obtains a b c d where "w = V a b c d"
  using V_bytes by metis

lemma V_eq [simp]: "V a b c d = V a' b' c' d' \<longleftrightarrow> a = a' \<and> b = b' \<and> c = c' \<and> d = d'"
  by (metis bytes_of_V)

lemma V_xor [simp]: "V a b c d XOR V a' b' c' d' = V (a XOR a') (b XOR b') (c XOR c') (d XOR d')"
  by (rule bit_word_eqI) (auto simp: bit_xor_iff bit_V)

lemma le32_V [simp]: "le32 (V a b c d) = [d, c, b, a]"
  by (metis by0_def by1_def by2_def by3_def bytes_of_V le32_def)

lemma V_zero: "V 0 0 0 0 = 0"
  by (simp add: V_def)

lemma unat_ucast_byte [simp]: "unat (ucast (b :: byte) :: u32) = unat b"
proof -
  have "unat b < 2 ^ 32" by (rule less_trans [OF unat_byte]) simp
  then show ?thesis by (simp add: unsigned_ucast_eq take_bit_nat_eq_self)
qed

lemma bytes_xor_V:
  "ucast d XOR push_bit 8 (ucast c) XOR push_bit 16 (ucast b) XOR push_bit 24 (ucast a) = V a b c d"
  by (rule bit_word_eqI) (auto simp: bit_V bit_simps dest: bit_imp_le_length)

lemma get_ulong_le_V: "get_ulong_le b i = V (b ! (i + 3)) (b ! (i + 2)) (b ! (i + 1)) (b ! i)"
  by (simp add: get_ulong_le_def V_def ac_simps)

lemma nat4_cases: "j < (4 :: nat) \<Longrightarrow> j = 0 \<or> j = 1 \<or> j = 2 \<or> j = 3"
  by auto

lemma le32_get:
  assumes "i + 4 \<le> length b"
  shows "le32 (get_ulong_le b i) = take 4 (drop i b)"
proof -
  have "take 4 (drop i b) = [b ! i, b ! (i + 1), b ! (i + 2), b ! (i + 3)]"
  proof (intro nth_equalityI)
    fix k assume "k < length (take 4 (drop i b))"
    then have "k < 4" by simp
    from nat4_cases [OF this] assms show "take 4 (drop i b) ! k = [b ! i, b ! (i + 1), b ! (i + 2), b ! (i + 3)] ! k"
      by (elim disjE) (simp_all add: add.commute)
  qed (use assms in simp)
  then show ?thesis by (simp add: get_ulong_le_V)
qed

text \<open>Checking a fact on every byte.\<close>

definition all_bytes :: "byte list" where
  "all_bytes =
     [0, 1, 2, 3, 4, 5, 6, 7, 8, 9, 10, 11, 12, 13, 14, 15, 16, 17, 18, 19,
      20, 21, 22, 23, 24, 25, 26, 27, 28, 29, 30, 31, 32, 33, 34, 35, 36, 37, 38, 39,
      40, 41, 42, 43, 44, 45, 46, 47, 48, 49, 50, 51, 52, 53, 54, 55, 56, 57, 58, 59,
      60, 61, 62, 63, 64, 65, 66, 67, 68, 69, 70, 71, 72, 73, 74, 75, 76, 77, 78, 79,
      80, 81, 82, 83, 84, 85, 86, 87, 88, 89, 90, 91, 92, 93, 94, 95, 96, 97, 98, 99,
      100, 101, 102, 103, 104, 105, 106, 107, 108, 109, 110, 111, 112, 113, 114, 115, 116, 117, 118, 119,
      120, 121, 122, 123, 124, 125, 126, 127, 128, 129, 130, 131, 132, 133, 134, 135, 136, 137, 138, 139,
      140, 141, 142, 143, 144, 145, 146, 147, 148, 149, 150, 151, 152, 153, 154, 155, 156, 157, 158, 159,
      160, 161, 162, 163, 164, 165, 166, 167, 168, 169, 170, 171, 172, 173, 174, 175, 176, 177, 178, 179,
      180, 181, 182, 183, 184, 185, 186, 187, 188, 189, 190, 191, 192, 193, 194, 195, 196, 197, 198, 199,
      200, 201, 202, 203, 204, 205, 206, 207, 208, 209, 210, 211, 212, 213, 214, 215, 216, 217, 218, 219,
      220, 221, 222, 223, 224, 225, 226, 227, 228, 229, 230, 231, 232, 233, 234, 235, 236, 237, 238, 239,
      240, 241, 242, 243, 244, 245, 246, 247, 248, 249, 250, 251, 252, 253, 254, 255]"

lemma all_bytes_upt: "all_bytes = map word_of_nat [0..<256]"
  by (simp add: all_bytes_def upt_rec)

lemma set_all_bytes: "b \<in> set all_bytes"
proof -
  have "\<forall>n\<in>{0..<256}. word_of_nat n \<in> set all_bytes" unfolding all_bytes_upt set_map set_upt by blast
  moreover have "unat b \<in> {0..<256}" using unat_byte [of b] by simp
  ultimately have "word_of_nat (unat b) \<in> set all_bytes" by blast
  then show ?thesis by simp
qed

lemma byte_exhaust: "list_all P all_bytes \<Longrightarrow> P b"
  by (simp add: list_all_iff set_all_bytes)

text \<open>Naming the value of a \<open>let\<close>.\<close>

lemma let_eqI: "a = b \<Longrightarrow> f b = c \<Longrightarrow> (let x = a in f x) = c"
  by simp

lemma upt_16: "[0..<16] = [0, 1, 2, 3, 4, 5, 6, 7, 8, 9, 10, 11, 12, 13, 14, 15 :: nat]"
  by (simp add: upt_rec)

section \<open>Loops that scatter values into an array\<close>

lemma scatter_nth:
  assumes "inj_on f (set ks)" "\<And>k. k \<in> set ks \<Longrightarrow> f k < length l" "k \<in> set ks"
  shows "foldl (\<lambda>l k. l[f k := g k]) l ks ! f k = g k"
  using assms
proof (induction ks rule: rev_induct)
  case (snoc i ks)
  have len: "length (foldl (\<lambda>l k. l[f k := g k]) l ks) = length l"
    by (induction ks arbitrary: l) auto
  show ?case
  proof (cases "k = i")
    case True
    then show ?thesis using snoc.prems by (simp add: len)
  next
    case False
    then have "f k \<noteq> f i" "k \<in> set ks" using snoc.prems by (auto simp: inj_on_def)
    then show ?thesis using snoc False by (simp add: inj_on_def)
  qed
qed simp

lemma scatter_frame:
  "(\<And>k. k \<in> set ks \<Longrightarrow> f k \<noteq> j) \<Longrightarrow> foldl (\<lambda>l k. l[f k := g k]) l ks ! j = l ! j"
  by (induction ks arbitrary: l) auto

lemma length_scatter [simp]: "length (foldl (\<lambda>l k. l[f k := g k]) l ks) = length l"
  by (induction ks arbitrary: l) auto

lemma scatter_upt:
  "n \<le> length l \<Longrightarrow> foldl (\<lambda>l k. l[k := g k]) l [0..<n] = map g [0..<n] @ drop n l"
proof (induction n)
  case (Suc n)
  then have "drop n l = l ! n # drop (Suc n) l" by (simp add: Cons_nth_drop_Suc)
  then show ?case using Suc by (simp add: list_update_append)
qed simp

end
