(* ===== verification/Sha2.thy ===== *)
theory Sha2
  imports Prelude
begin

unbundle bit_operations_syntax

text \<open>
  The SHA-256 and SHA-224 hash of \<open>Crypto/C-Code/AES256/sha2.c\<close>: the context of
  \<open>sha2.h\<close>, \<open>sha2_starts\<close>, \<open>sha2_process\<close> (the compression of one 64-byte block),
  \<open>sha2_update\<close>, \<open>sha2_finish\<close> and the one-shot \<open>sha2\<close>.

  Each function that writes through \<open>ctx\<close> returns the new context. \<open>UInt32\<close> is
  \<open>32 word\<close>, so additions and shifts wrap as in C; the C \<open>int\<close> lengths are \<open>int\<close>.
  The sixty-four unrolled macro calls of \<open>sha2_process\<close> are a loop over the round
  number: call \<open>t\<close> passes the eight variables \<open>A..H\<close> rotated \<open>t\<close> places.
\<close>

section \<open>The context\<close>

record sha2_context =
  total0 :: u32
  total1 :: u32
  state :: "u32 list"
  buffer :: "byte list"
  ipad :: "byte list"
  opad :: "byte list"
  is224 :: int

section \<open>Setting up\<close>

definition sha2_starts :: "sha2_context \<Rightarrow> int \<Rightarrow> sha2_context" where
  "sha2_starts ctx v224 =
    ctx\<lparr>total0 := 0, total1 := 0,
        state :=
          (if v224 = 0
           then [0x6A09E667, 0xBB67AE85, 0x3C6EF372, 0xA54FF53A,
                 0x510E527F, 0x9B05688C, 0x1F83D9AB, 0x5BE0CD19]
           else [0xC1059ED8, 0x367CD507, 0x3070DD17, 0xF70E5939,
                 0xFFC00B31, 0x68581511, 0x64F98FA7, 0xBEFA4FA4]),
        is224 := v224\<rparr>"

section \<open>The compression function\<close>

text \<open>The macros of \<open>sha2_process\<close>.\<close>

definition SHR :: "u32 \<Rightarrow> nat \<Rightarrow> u32" where
  "SHR x n = drop_bit n (x AND 0xFFFFFFFF)"

definition ROTR :: "u32 \<Rightarrow> nat \<Rightarrow> u32" where
  "ROTR x n = SHR x n OR push_bit (32 - n) x"

definition S0 :: "u32 \<Rightarrow> u32" where
  "S0 x = ROTR x 7 XOR ROTR x 18 XOR SHR x 3"

definition S1 :: "u32 \<Rightarrow> u32" where
  "S1 x = ROTR x 17 XOR ROTR x 19 XOR SHR x 10"

definition S2 :: "u32 \<Rightarrow> u32" where
  "S2 x = ROTR x 2 XOR ROTR x 13 XOR ROTR x 22"

definition S3 :: "u32 \<Rightarrow> u32" where
  "S3 x = ROTR x 6 XOR ROTR x 11 XOR ROTR x 25"

definition F0 :: "u32 \<Rightarrow> u32 \<Rightarrow> u32 \<Rightarrow> u32" where
  "F0 x y z = (x AND y) OR (z AND (x OR y))"

definition F1 :: "u32 \<Rightarrow> u32 \<Rightarrow> u32 \<Rightarrow> u32" where
  "F1 x y z = z XOR (x AND (y XOR z))"

text \<open>\<open>R(t)\<close> extends the message schedule \<open>W\<close> in place.\<close>

definition R_sched :: "nat \<Rightarrow> u32 list \<Rightarrow> u32 list" where
  "R_sched t W = W[t := S1 (W ! (t - 2)) + W ! (t - 7) + S0 (W ! (t - 15)) + W ! (t - 16)]"

text \<open>
  \<open>P(a,b,c,d,e,f,g,h,x,K)\<close> on the variables \<open>A..H\<close>, kept as a list of eight; its first
  eight arguments are the positions of the variables it is called with.
\<close>

definition P_step :: "nat \<Rightarrow> nat \<Rightarrow> nat \<Rightarrow> nat \<Rightarrow> nat \<Rightarrow> nat \<Rightarrow> nat \<Rightarrow> nat \<Rightarrow> u32 \<Rightarrow> u32 \<Rightarrow>
    u32 list \<Rightarrow> u32 list" where
  "P_step a b c d e f g h x K v =
    (let temp1 = v ! h + S3 (v ! e) + F1 (v ! e) (v ! f) (v ! g) + K + x;
         temp2 = S2 (v ! a) + F0 (v ! a) (v ! b) (v ! c)
     in v[d := v ! d + temp1, h := temp1 + temp2])"

text \<open>The constants of the 64 calls.\<close>

definition sha2_K :: "u32 list" where
  "sha2_K =
     [0x428A2F98, 0x71374491, 0xB5C0FBCF, 0xE9B5DBA5, 0x3956C25B, 0x59F111F1,
      0x923F82A4, 0xAB1C5ED5, 0xD807AA98, 0x12835B01, 0x243185BE, 0x550C7DC3,
      0x72BE5D74, 0x80DEB1FE, 0x9BDC06A7, 0xC19BF174, 0xE49B69C1, 0xEFBE4786,
      0x0FC19DC6, 0x240CA1CC, 0x2DE92C6F, 0x4A7484AA, 0x5CB0A9DC, 0x76F988DA,
      0x983E5152, 0xA831C66D, 0xB00327C8, 0xBF597FC7, 0xC6E00BF3, 0xD5A79147,
      0x06CA6351, 0x14292967, 0x27B70A85, 0x2E1B2138, 0x4D2C6DFC, 0x53380D13,
      0x650A7354, 0x766A0ABB, 0x81C2C92E, 0x92722C85, 0xA2BFE8A1, 0xA81A664B,
      0xC24B8B70, 0xC76C51A3, 0xD192E819, 0xD6990624, 0xF40E3585, 0x106AA070,
      0x19A4C116, 0x1E376C08, 0x2748774C, 0x34B0BCB5, 0x391C0CB3, 0x4ED8AA4A,
      0x5B9CCA4F, 0x682E6FF3, 0x748F82EE, 0x78A5636F, 0x84C87814, 0x8CC70208,
      0x90BEFFFA, 0xA4506CEB, 0xBEF9A3F7, 0xC67178F2]"

text \<open>
  In call \<open>t\<close> the \<open>j\<close>-th argument of \<open>P\<close> is the variable at position
  \<open>(j + 7 * t) mod 8\<close>: \<open>P(A,B,..,H)\<close>, \<open>P(H,A,..,G)\<close>, and so on.
\<close>

definition role :: "nat \<Rightarrow> nat \<Rightarrow> nat" where
  "role t j = (j + 7 * t) mod 8"

definition sha2_round :: "u32 list \<times> u32 list \<Rightarrow> nat \<Rightarrow> u32 list \<times> u32 list" where
  "sha2_round = (\<lambda>(W, v) t.
     let W = (if t < 16 then W else R_sched t W)
     in (W, P_step (role t 0) (role t 1) (role t 2) (role t 3) (role t 4) (role t 5)
               (role t 6) (role t 7) (W ! t) (sha2_K ! t) v))"

definition sha2_process :: "sha2_context \<Rightarrow> byte list \<Rightarrow> sha2_context" where
  "sha2_process ctx data =
    (let W = map (\<lambda>i. get_ulong_be data (4 * i)) [0..<16] @ replicate 48 0;
         v = snd (foldl sha2_round (W, state ctx) [0..<64])
     in ctx\<lparr>state := map2 (+) (state ctx) v\<rparr>)"

section \<open>Hashing a stream\<close>

text \<open>\<open>while (ilen >= 64)\<close>: whole blocks straight from the input.\<close>

function sha2_blocks :: "sha2_context \<Rightarrow> byte list \<Rightarrow> int \<Rightarrow> sha2_context \<times> byte list \<times> int" where
  "sha2_blocks ctx input ilen =
    (if ilen \<ge> 64 then sha2_blocks (sha2_process ctx input) (drop 64 input) (ilen - 64)
     else (ctx, input, ilen))"
  by pat_completeness auto
termination
  by (relation "measure (\<lambda>(ctx, input, ilen). nat ilen)") auto

declare sha2_blocks.simps [simp del]

definition sha2_update :: "sha2_context \<Rightarrow> byte list \<Rightarrow> int \<Rightarrow> sha2_context" where
  "sha2_update ctx input ilen =
    (if ilen \<le> 0 then ctx
     else
       let left = unat (total0 ctx AND 0x3F);
           fill = 64 - int left;
           ctx = ctx\<lparr>total0 := total0 ctx + word_of_int ilen\<rparr>;
           ctx = ctx\<lparr>total0 := total0 ctx AND 0xFFFFFFFF\<rparr>;
           ctx = (if total0 ctx < word_of_int ilen then ctx\<lparr>total1 := total1 ctx + 1\<rparr> else ctx);
           (ctx, input, ilen, left) =
             (if left \<noteq> 0 \<and> ilen \<ge> fill
              then let ctx = ctx\<lparr>buffer := blit (buffer ctx) left (take (nat fill) input)\<rparr>;
                       ctx = sha2_process ctx (buffer ctx)
                   in (ctx, drop (nat fill) input, ilen - fill, 0)
              else (ctx, input, ilen, left));
           (ctx, input, ilen) = sha2_blocks ctx input ilen
       in if ilen > 0 then ctx\<lparr>buffer := blit (buffer ctx) left (take (nat ilen) input)\<rparr>
          else ctx)"

definition sha2_padding :: "byte list" where
  "sha2_padding = 0x80 # replicate 63 0"

text \<open>
  \<open>sha2_finish\<close> returns the context and the output array it has written to: 28 bytes
  of it for SHA-224, 32 for SHA-256.
\<close>

definition sha2_finish :: "sha2_context \<Rightarrow> byte list \<Rightarrow> sha2_context \<times> byte list" where
  "sha2_finish ctx out =
    (let high = drop_bit 29 (total0 ctx) OR push_bit 3 (total1 ctx);
         low = push_bit 3 (total0 ctx);
         msglen = put_ulong_be high (replicate 8 0) 0;
         msglen = put_ulong_be low msglen 4;
         last = total0 ctx AND 0x3F;
         padn = (if last < 56 then 56 - last else 120 - last);
         ctx = sha2_update ctx sha2_padding (sint padn);
         ctx = sha2_update ctx msglen 8;
         out = put_ulong_be (state ctx ! 0) out 0;
         out = put_ulong_be (state ctx ! 1) out 4;
         out = put_ulong_be (state ctx ! 2) out 8;
         out = put_ulong_be (state ctx ! 3) out 12;
         out = put_ulong_be (state ctx ! 4) out 16;
         out = put_ulong_be (state ctx ! 5) out 20;
         out = put_ulong_be (state ctx ! 6) out 24;
         out = (if is224 ctx = 0 then put_ulong_be (state ctx ! 7) out 28 else out)
     in (ctx, out))"

text \<open>
  An automatic variable of type \<open>sha2_context\<close> is uninitialised: the functions below
  take its initial contents as an argument, and the theorems hold for every one.
\<close>

definition sha2 :: "sha2_context \<Rightarrow> byte list \<Rightarrow> int \<Rightarrow> byte list \<Rightarrow> int \<Rightarrow> byte list" where
  "sha2 ctx input ilen out v224 =
    (let ctx = sha2_starts ctx v224;
         ctx = sha2_update ctx input ilen
     in snd (sha2_finish ctx out))"

end
