(* ===== verification/Sha2_Spec.thy ===== *)
theory Sha2_Spec
  imports Sha2
begin

unbundle bit_operations_syntax

text \<open>
  The Secure Hash Standard for SHA-224 and SHA-256, stated on byte strings, and the
  refinement of \<open>sha2.c\<close> to it: the rotating-variable compression function is the
  standard's, a context built by \<open>sha2_starts\<close> and any sequence of \<open>sha2_update\<close>
  calls represents the bytes passed so far, and \<open>sha2_finish\<close> writes the digest of
  exactly those bytes.
\<close>

section \<open>The standard\<close>

definition Ch :: "u32 \<Rightarrow> u32 \<Rightarrow> u32 \<Rightarrow> u32" where
  "Ch x y z = (x AND y) XOR (NOT x AND z)"

definition Maj :: "u32 \<Rightarrow> u32 \<Rightarrow> u32 \<Rightarrow> u32" where
  "Maj x y z = (x AND y) XOR (x AND z) XOR (y AND z)"

definition big_sigma0 :: "u32 \<Rightarrow> u32" where
  "big_sigma0 x = word_rotr 2 x XOR word_rotr 13 x XOR word_rotr 22 x"

definition big_sigma1 :: "u32 \<Rightarrow> u32" where
  "big_sigma1 x = word_rotr 6 x XOR word_rotr 11 x XOR word_rotr 25 x"

definition small_sigma0 :: "u32 \<Rightarrow> u32" where
  "small_sigma0 x = word_rotr 7 x XOR word_rotr 18 x XOR drop_bit 3 x"

definition small_sigma1 :: "u32 \<Rightarrow> u32" where
  "small_sigma1 x = word_rotr 17 x XOR word_rotr 19 x XOR drop_bit 10 x"

text \<open>The message schedule of a block, one word per round.\<close>

fun schedule :: "byte list \<Rightarrow> nat \<Rightarrow> u32" where
  "schedule M t =
    (if t < 16 then get_ulong_be M (4 * t)
     else small_sigma1 (schedule M (t - 2)) + schedule M (t - 7)
          + small_sigma0 (schedule M (t - 15)) + schedule M (t - 16))"

declare schedule.simps [simp del]

text \<open>One round: the eight working variables move down by one place.\<close>

fun spec_round :: "u32 \<Rightarrow> u32 \<Rightarrow> u32 list \<Rightarrow> u32 list" where
  "spec_round kt wt [a, b, c, d, e, f, g, h] =
    (let t1 = h + big_sigma1 e + Ch e f g + kt + wt;
         t2 = big_sigma0 a + Maj a b c
     in [t1 + t2, a, b, c, d + t1, e, f, g])"
| "spec_round kt wt vs = vs"

fun spec_rounds :: "byte list \<Rightarrow> u32 list \<Rightarrow> nat \<Rightarrow> u32 list" where
  "spec_rounds M H 0 = H"
| "spec_rounds M H (Suc t) = spec_round (sha2_K ! t) (schedule M t) (spec_rounds M H t)"

definition compress :: "u32 list \<Rightarrow> byte list \<Rightarrow> u32 list" where
  "compress H M = map2 (+) H (spec_rounds M H 64)"

text \<open>All whole blocks of a byte string.\<close>

fun absorb :: "u32 list \<Rightarrow> byte list \<Rightarrow> u32 list" where
  "absorb H m = (if length m < 64 then H else absorb (compress H m) (drop 64 m))"

declare absorb.simps [simp del]

definition H_init :: "int \<Rightarrow> u32 list" where
  "H_init v224 =
    (if v224 = 0
     then [0x6A09E667, 0xBB67AE85, 0x3C6EF372, 0xA54FF53A,
           0x510E527F, 0x9B05688C, 0x1F83D9AB, 0x5BE0CD19]
     else [0xC1059ED8, 0x367CD507, 0x3070DD17, 0xF70E5939,
           0xFFC00B31, 0x68581511, 0x64F98FA7, 0xBEFA4FA4])"

text \<open>Padding: a one bit, zero bits up to 56 modulo 64 bytes, the length in bits.\<close>

definition be64 :: "u64 \<Rightarrow> byte list" where
  "be64 n = be32 (ucast (drop_bit 32 n)) @ be32 (ucast n)"

definition pad_bytes :: "nat \<Rightarrow> byte list" where
  "pad_bytes n =
     0x80 # replicate (if n mod 64 < 56 then 55 - n mod 64 else 119 - n mod 64) 0
     @ be64 (word_of_nat (8 * n))"

definition digest_length :: "int \<Rightarrow> nat" where
  "digest_length v224 = (if v224 = 0 then 32 else 28)"

definition sha_digest :: "int \<Rightarrow> byte list \<Rightarrow> byte list" where
  "sha_digest v224 m =
     take (digest_length v224) (concat (map be32 (absorb (H_init v224) (m @ pad_bytes (length m)))))"

section \<open>The compression function refines the standard's\<close>

lemma ROTR_rotr:
  assumes "0 < n" "n < 32"
  shows "ROTR x n = word_rotr n x"
proof (rule bit_word_eqI)
  fix k assume k: "k < LENGTH(32)"
  show "bit (ROTR x n) k = bit (word_rotr n x) k"
  proof (cases "k + n < 32")
    case True
    then have "(k + n) mod 32 = k + n" by simp
    with True assms k show ?thesis
      by (auto simp: ROTR_def SHR_def bit_simps ac_simps)
  next
    case False
    then have "(k + n) mod 32 = k + n - 32" using assms k by (simp add: mod_if)
    with False assms k show ?thesis
      by (auto simp: ROTR_def SHR_def bit_simps ac_simps dest: bit_imp_le_length)
  qed
qed

lemma SHR_drop: "SHR x n = drop_bit n x"
  by (simp add: SHR_def)

lemma S0_sigma: "S0 x = small_sigma0 x" "S1 x = small_sigma1 x"
  "S2 x = big_sigma0 x" "S3 x = big_sigma1 x"
  by (simp_all add: S0_def S1_def S2_def S3_def small_sigma0_def small_sigma1_def
      big_sigma0_def big_sigma1_def ROTR_rotr SHR_drop)

lemma F0_Maj: "F0 x y z = Maj x y z"
  by (rule bit_word_eqI) (auto simp: F0_def Maj_def bit_simps)

lemma F1_Ch: "F1 x y z = Ch x y z"
  by (rule bit_word_eqI) (auto simp: F1_def Ch_def bit_simps)

lemmas sha2_macro_specs = S0_sigma F0_Maj F1_Ch

text \<open>The eight variables read in the order of call \<open>t\<close>.\<close>

definition view :: "nat \<Rightarrow> u32 list \<Rightarrow> u32 list" where
  "view t v = map (\<lambda>j. v ! role t j) [0..<8]"

lemma length_view [simp]: "length (view t v) = 8"
  by (simp add: view_def)

lemma upt_8: "[0..<8] = [0, 1, 2, 3, 4, 5, 6, 7 :: nat]"
  by (simp add: upt_rec)

lemma role_Suc: "role (Suc t) j = (role t j + 7) mod 8"
  by (simp add: role_def mod_simps algebra_simps)

text \<open>The position of argument \<open>j\<close> as an offset from that of argument 0.\<close>

lemma role_offset: "role t j = (role t 0 + j) mod 8"
  by (simp add: role_def mod_simps add.commute)

lemma role0_cases:
  obtains "role t 0 = 0" | "role t 0 = 1" | "role t 0 = 2" | "role t 0 = 3"
    | "role t 0 = 4" | "role t 0 = 5" | "role t 0 = 6" | "role t 0 = 7"
proof -
  have "role t 0 < 8" by (simp add: role_def)
  then have "role t 0 \<in> {0, 1, 2, 3, 4, 5, 6, 7}" by auto
  then show ?thesis using that by blast
qed

lemma list8_cases:
  assumes "length v = 8"
  obtains a b c d e f g h where "v = [a, b, c, d, e, f, g, h]"
proof -
  have "length v = Suc (Suc (Suc (Suc (Suc (Suc (Suc (Suc 0)))))))" using assms by simp
  then show ?thesis using that by (auto simp: length_Suc_conv)
qed

lemma length_P_step [simp]: "length (P_step a b c d e f g h x k v) = length v"
  by (simp add: P_step_def Let_def)

definition call_P :: "nat \<Rightarrow> u32 \<Rightarrow> u32 \<Rightarrow> u32 list \<Rightarrow> u32 list" where
  "call_P t x k v =
    P_step (role t 0) (role t 1) (role t 2) (role t 3) (role t 4) (role t 5)
      (role t 6) (role t 7) x k v"

lemma view_call_P:
  assumes "length v = 8"
  shows "view (Suc t) (call_P t x k v) = spec_round k x (view t v)"
proof -
  obtain a b c d e f g h where v: "v = [a, b, c, d, e, f, g, h]"
    using assms by (rule list8_cases)
  note r = role_offset [of t "Suc 0"] role_offset [of t 2] role_offset [of t 3]
    role_offset [of t 4] role_offset [of t 5] role_offset [of t 6] role_offset [of t 7]
  show ?thesis
    by (cases rule: role0_cases [of t])
      (simp_all add: v view_def upt_8 role_Suc r call_P_def P_step_def Let_def sha2_macro_specs)
qed

lemma view_0: "length v = 8 \<Longrightarrow> view 0 v = v"
  by (erule list8_cases) (simp add: view_def upt_8 role_def)

lemma view_64: "length v = 8 \<Longrightarrow> view 64 v = v"
  by (erule list8_cases) (simp add: view_def upt_8 role_def)

definition rounds_inv :: "byte list \<Rightarrow> u32 list \<Rightarrow> nat \<Rightarrow> u32 list \<times> u32 list \<Rightarrow> bool" where
  "rounds_inv M H t = (\<lambda>(W, v).
     length W = 64 \<and> length v = 8 \<and> (\<forall>i < 64. i < 16 \<or> i < t \<longrightarrow> W ! i = schedule M i)
     \<and> view t v = spec_rounds M H t)"

lemma rounds_inv_step:
  assumes inv: "rounds_inv M H t (W, v)" and t: "t < 64"
  shows "rounds_inv M H (Suc t) (sha2_round (W, v) t)"
proof -
  define W' where "W' = (if t < 16 then W else R_sched t W)"
  have W: "length W = 64" "\<And>i. i < 64 \<Longrightarrow> i < 16 \<or> i < t \<Longrightarrow> W ! i = schedule M i"
    and v: "length v = 8" "view t v = spec_rounds M H t"
    using inv by (auto simp: rounds_inv_def)
  have W't: "W' ! t = schedule M t"
  proof (cases "t < 16")
    case True
    then show ?thesis using W t by (simp add: W'_def)
  next
    case False
    then have "W' ! t = S1 (W ! (t - 2)) + W ! (t - 7) + S0 (W ! (t - 15)) + W ! (t - 16)"
      using W t by (simp add: W'_def R_sched_def)
    also have "\<dots> = schedule M t"
      using W t False by (subst schedule.simps) (simp add: S0_sigma)
    finally show ?thesis .
  qed
  have "W' ! i = schedule M i" if "i < 64" "i < 16 \<or> i < Suc t" for i
    using that W W't by (cases "i = t") (auto simp: W'_def R_sched_def)
  moreover have "sha2_round (W, v) t = (W', call_P t (W' ! t) (sha2_K ! t) v)"
    by (simp add: sha2_round_def W'_def call_P_def Let_def)
  moreover have "length W' = 64" using W by (simp add: W'_def R_sched_def)
  moreover have "length (call_P t (W' ! t) (sha2_K ! t) v) = 8"
    using v by (simp add: call_P_def)
  ultimately show ?thesis
    using v by (simp add: rounds_inv_def view_call_P W't)
qed

lemma rounds_inv_foldl:
  "rounds_inv M H 0 s \<Longrightarrow> t \<le> 64 \<Longrightarrow> rounds_inv M H t (foldl sha2_round s [0..<t])"
proof (induction t)
  case (Suc t)
  then have "rounds_inv M H t (foldl sha2_round s [0..<t])" by simp
  then show ?case using Suc.prems rounds_inv_step
    by (metis Suc_le_lessD foldl_Cons foldl_Nil foldl_append prod.collapse upt_Suc_append zero_le)
qed simp

lemma sha2_process_compress:
  assumes "length (state ctx) = 8"
  shows "sha2_process ctx M = ctx\<lparr>state := compress (state ctx) M\<rparr>"
proof -
  let ?W = "map (\<lambda>i. get_ulong_be M (4 * i)) [0..<16] @ replicate 48 0"
  let ?s = "foldl sha2_round (?W, state ctx) [0..<64]"
  have "rounds_inv M (state ctx) 0 (?W, state ctx)"
    using assms by (auto simp: rounds_inv_def view_0 nth_append schedule.simps)
  then have "rounds_inv M (state ctx) 64 ?s"
    by (rule rounds_inv_foldl) simp
  then have "snd ?s = spec_rounds M (state ctx) 64"
    by (auto simp: rounds_inv_def view_64 split: prod.splits)
  then show ?thesis by (simp add: sha2_process_def compress_def Let_def)
qed

end
