(* ===== verification/Stream_Hash.thy ===== *)
theory Stream_Hash
  imports Prelude
begin

text \<open>
  The interface of an incremental hash as the C code offers it: \<open>starts\<close>, \<open>update\<close> with
  a buffer and a length, \<open>finish\<close> into an output array. The provider promises that a
  context represents the bytes passed so far and that \<open>finish\<close> writes their digest. The
  clients (file hashing, HMAC, key derivation, the file decryptor) are proved against
  these laws only.
\<close>

locale stream_hash =
  fixes starts :: "'c \<Rightarrow> int \<Rightarrow> 'c"
    and update :: "'c \<Rightarrow> byte list \<Rightarrow> int \<Rightarrow> 'c"
    and finish :: "'c \<Rightarrow> byte list \<Rightarrow> 'c \<times> byte list"
    and wf :: "'c \<Rightarrow> bool"
    and rep :: "int \<Rightarrow> byte list \<Rightarrow> 'c \<Rightarrow> bool"
    and digest :: "int \<Rightarrow> byte list \<Rightarrow> byte list"
  assumes rep_starts: "wf c \<Longrightarrow> rep v [] (starts c v)"
    and rep_update: "rep v m c \<Longrightarrow> n < 2 ^ 31 \<Longrightarrow> nat n \<le> length x \<Longrightarrow>
      rep v (m @ take (nat n) x) (update c x n)"
    and finish_digest: "rep v m c \<Longrightarrow> 32 \<le> length out \<Longrightarrow>
      snd (finish c out) = digest v m @ drop (length (digest v m)) out"
    and finish_wf: "rep v m c \<Longrightarrow> wf (fst (finish c out))"
    and rep_wf: "rep v m c \<Longrightarrow> wf c"
    and digest_size: "length (digest v m) \<le> 32"
begin

lemma rep_update_all:
  "rep v m c \<Longrightarrow> length x < 2 ^ 31 \<Longrightarrow> rep v (m @ x) (update c x (int (length x)))"
  using rep_update [of v m c "int (length x)" x] by simp

lemma rep_start_update:
  assumes "wf c" "length x < 2 ^ 31"
  shows "rep v x (update (starts c v) x (int (length x)))"
  using rep_update_all [OF rep_starts [OF assms(1)] assms(2), of v] by simp

text \<open>Any sequence of updates appends its chunks.\<close>

lemma rep_updates:
  assumes "rep v m c" and "\<And>x. x \<in> set xs \<Longrightarrow> length x < 2 ^ 31"
  shows "rep v (m @ concat xs) (foldl (\<lambda>c x. update c x (int (length x))) c xs)"
  using assms
proof (induction xs arbitrary: c m)
  case (Cons x xs)
  have "rep v (m @ x) (update c x (int (length x)))"
    using Cons.prems by (intro rep_update_all) simp_all
  from Cons.IH [OF this] Cons.prems(2) show ?case by simp
qed simp

text \<open>How the input is cut into chunks does not matter.\<close>

lemma finish_chunks:
  assumes "wf c" "wf c'" "concat xs = concat ys" "32 \<le> length out"
    and "\<And>x. x \<in> set xs \<union> set ys \<Longrightarrow> length x < 2 ^ 31"
  shows "snd (finish (foldl (\<lambda>c x. update c x (int (length x))) (starts c v) xs) out) =
         snd (finish (foldl (\<lambda>c x. update c x (int (length x))) (starts c' v) ys) out)"
proof -
  have "rep v ([] @ concat xs) (foldl (\<lambda>c x. update c x (int (length x))) (starts c v) xs)"
    "rep v ([] @ concat ys) (foldl (\<lambda>c x. update c x (int (length x))) (starts c' v) ys)"
    using assms(1,2,5) by (blast intro: rep_updates rep_starts)+
  then show ?thesis using assms(3,4) by (simp add: finish_digest)
qed

lemma length_finish:
  "rep v m c \<Longrightarrow> 32 \<le> length out \<Longrightarrow> length (snd (finish c out)) = length out"
  using digest_size [of v m] by (simp add: finish_digest)

end

end
