(* ===== verification/Sha2_Stream.thy ===== *)
theory Sha2_Stream
  imports Sha2_Spec Stream_Hash
begin

unbundle bit_operations_syntax

text \<open>
  \<open>sha2_starts\<close>, \<open>sha2_update\<close> and \<open>sha2_finish\<close> implement an incremental hash: the
  abstraction relation between a context and the bytes it has been fed, its preservation
  by every call (the 64-bit byte counter held in two 32-bit words included), and the
  digest \<open>sha2_finish\<close> writes.
\<close>

section \<open>Absorbing whole blocks\<close>

lemma schedule_cong:
  "(\<And>i. i < 64 \<Longrightarrow> M ! i = N ! i) \<Longrightarrow> schedule M t = schedule N t"
proof (induction M t rule: schedule.induct)
  case (1 M t)
  show ?case
  proof (cases "t < 16")
    case True
    then have "get_ulong_be M (4 * t) = get_ulong_be N (4 * t)"
      using "1.prems" by (simp add: get_ulong_be_def)
    then show ?thesis using True by (simp add: schedule.simps [of M t] schedule.simps [of N t])
  next
    case False
    then show ?thesis
      using "1.IH" "1.prems" by (simp add: schedule.simps [of M t] schedule.simps [of N t])
  qed
qed

lemma spec_rounds_cong:
  assumes "\<And>i. i < 64 \<Longrightarrow> M ! i = N ! i"
  shows "spec_rounds M H t = spec_rounds N H t"
proof -
  have "schedule M k = schedule N k" for k using assms by (rule schedule_cong)
  then show ?thesis by (induction t) simp_all
qed

lemma compress_append: "64 \<le> length x \<Longrightarrow> compress H (x @ y) = compress H x"
  unfolding compress_def by (subst spec_rounds_cong [of "x @ y" x]) (simp_all add: nth_append)

lemma length_spec_round: "length v = 8 \<Longrightarrow> length (spec_round k x v) = 8"
  by (erule list8_cases) (simp add: Let_def)

lemma length_compress: "length H = 8 \<Longrightarrow> length (compress H M) = 8"
proof -
  assume H: "length H = 8"
  have "length (spec_rounds M H t) = 8" for t
    by (induction t) (simp_all add: H length_spec_round)
  then show ?thesis by (simp add: compress_def H)
qed

lemma length_absorb: "length H = 8 \<Longrightarrow> length (absorb H m) = 8"
  by (induction H m rule: absorb.induct) (subst absorb.simps, simp add: length_compress)

lemma absorb_short: "length m < 64 \<Longrightarrow> absorb H m = H"
  by (simp add: absorb.simps)

lemma absorb_block: "length b = 64 \<Longrightarrow> absorb H (b @ m) = absorb (compress H b) m"
  by (subst absorb.simps) (simp add: compress_append)

lemma absorb_append: "64 dvd length x \<Longrightarrow> absorb H (x @ y) = absorb (absorb H x) y"
proof (induction H x rule: absorb.induct)
  case (1 H x)
  show ?case
  proof (cases "length x < 64")
    case True
    then have "x = []" using "1.prems" by (auto dest: dvd_imp_le)
    then show ?thesis by (simp add: absorb_short)
  next
    case False
    then have "64 dvd length (drop 64 x)" using "1.prems" by simp
    from "1.IH" [OF False this] False show ?thesis
      by (simp add: absorb.simps [of H x] absorb.simps [of H "x @ y"] compress_append)
  qed
qed

text \<open>The bytes of a message after its last whole block.\<close>

definition residue :: "byte list \<Rightarrow> byte list" where
  "residue m = drop (64 * (length m div 64)) m"

lemma length_residue [simp]: "length (residue m) = length m mod 64"
  by (simp add: residue_def minus_mult_div_eq_mod)

lemma residue_short: "length m < 64 \<Longrightarrow> residue m = m"
  by (simp add: residue_def)

lemma whole_residue: "take (64 * (length m div 64)) m @ residue m = m"
  by (simp add: residue_def)

lemma residue_append: "residue (m @ x) = residue (residue m @ x)"
proof -
  let ?q = "length m div 64"
  have len: "length m + length x = length m mod 64 + length x + ?q * 64" by simp
  have "(length m + length x) div 64 = ?q + (length m mod 64 + length x) div 64"
    unfolding len by (rule div_mult_self1) simp
  then have "residue (m @ x) =
    drop (64 * ((length m mod 64 + length x) div 64)) (drop (64 * ?q) (m @ x))"
    by (simp add: residue_def algebra_simps)
  also have "drop (64 * ?q) (m @ x) = residue m @ x" by (simp add: residue_def)
  finally show ?thesis
    by (simp only: residue_def [of "residue m @ x"] length_append length_residue)
qed

lemma residue_block: "length b = 64 \<Longrightarrow> residue (b @ m) = residue m"
proof -
  assume "length b = 64"
  then have "residue b = []" by (simp add: residue_def)
  then show ?thesis by (simp only: residue_append [of b] append_Nil)
qed

lemma absorb_residue: "absorb H (m @ x) = absorb (absorb H m) (residue m @ x)"
proof -
  let ?w = "take (64 * (length m div 64)) m"
  have w: "64 dvd length ?w" by simp
  have "absorb H m = absorb (absorb H ?w) (residue m)"
    using absorb_append [OF w, of H "residue m"] by (simp add: whole_residue)
  then have m: "absorb H m = absorb H ?w" by (simp add: absorb_short)
  have "m @ x = ?w @ (residue m @ x)" by (metis append_assoc whole_residue)
  then show ?thesis by (simp only: m absorb_append [OF w])
qed

section \<open>The block loop\<close>

lemma sha2_blocks_absorb:
  assumes "length (state ctx) = 8" "0 \<le> n" "nat n \<le> length x"
  shows "sha2_blocks ctx x n =
    (ctx\<lparr>state := absorb (state ctx) (take (nat n) x)\<rparr>, drop (64 * (nat n div 64)) x, n mod 64)"
  using assms
proof (induction ctx x n rule: sha2_blocks.induct)
  case (1 ctx x n)
  show ?case
  proof (cases "n \<ge> 64")
    case True
    let ?ctx = "sha2_process ctx x"
    have ctx: "?ctx = ctx\<lparr>state := compress (state ctx) x\<rparr>"
      using "1.prems"(1) by (rule sha2_process_compress)
    have nn: "nat n = 64 + nat (n - 64)" using True by simp
    have x: "x = take 64 x @ drop 64 x" by simp
    have c: "compress (state ctx) x = compress (state ctx) (take 64 x)"
      using "1.prems" True compress_append [of "take 64 x" _ "drop 64 x"] by simp
    have "take (nat n) x = take 64 x @ take (nat (n - 64)) (drop 64 x)"
      using nn by (metis take_add)
    then have a: "absorb (state ctx) (take (nat n) x) =
        absorb (compress (state ctx) x) (take (nat (n - 64)) (drop 64 x))"
      using "1.prems" True by (simp add: absorb_block c)
    have "nat n div 64 = Suc (nat (n - 64) div 64)" using nn by simp
    then have d: "drop (64 * (nat n div 64)) x = drop (64 * (nat (n - 64) div 64)) (drop 64 x)"
      by (simp add: add.commute)
    have "(n - 64) mod 64 = n mod 64" by simp
    then show ?thesis
      using "1.IH" [OF True] "1.prems" True
      by (subst sha2_blocks.simps) (simp add: ctx a d length_compress)
  next
    case False
    then show ?thesis using "1.prems"
      by (subst sha2_blocks.simps) (simp add: absorb_short)
  qed
qed

section \<open>Contexts represent the bytes fed to them\<close>

definition sha2_wf :: "sha2_context \<Rightarrow> bool" where
  "sha2_wf ctx \<longleftrightarrow> length (buffer ctx) = 64"

definition sha2_rep :: "int \<Rightarrow> byte list \<Rightarrow> sha2_context \<Rightarrow> bool" where
  "sha2_rep v m ctx \<longleftrightarrow>
     state ctx = absorb (H_init v) m
     \<and> length (buffer ctx) = 64 \<and> take (length m mod 64) (buffer ctx) = residue m
     \<and> total0 ctx = word_of_nat (length m) \<and> total1 ctx = word_of_nat (length m div 2 ^ 32)
     \<and> is224 ctx = v"

lemma length_H_init [simp]: "length (H_init v) = 8"
  by (simp add: H_init_def)

lemma sha2_rep_starts: "sha2_wf ctx \<Longrightarrow> sha2_rep v [] (sha2_starts ctx v)"
  by (simp add: sha2_rep_def sha2_wf_def sha2_starts_def absorb_short residue_def)
    (simp add: H_init_def)

lemma sha2_rep_wf: "sha2_rep v m ctx \<Longrightarrow> sha2_wf ctx"
  by (simp add: sha2_rep_def sha2_wf_def)

text \<open>The byte counter: a 32-bit addition, with a carry detected by wrap-around.\<close>

lemma counter_carry:
  assumes "n < 2 ^ 32"
  shows "(word_of_nat (L + n) :: u32) < word_of_nat n \<longleftrightarrow> 2 ^ 32 \<le> L mod 2 ^ 32 + n"
proof -
  have "(word_of_nat (L + n) :: u32) < word_of_nat n \<longleftrightarrow> (L + n) mod 2 ^ 32 < n mod 2 ^ 32"
    by (simp only: word_less_nat_alt unat_of_nat len_num0 len_num1 len_bit0 len_bit1) simp
  also have "\<dots> \<longleftrightarrow> 2 ^ 32 \<le> L mod 2 ^ 32 + n"
    using assms by (simp only: mod_less carry_iff)
  finally show ?thesis .
qed

lemma rep_residue: "sha2_rep v m ctx \<Longrightarrow> unat (total0 ctx AND 63) = length m mod 64"
proof -
  assume "sha2_rep v m ctx"
  then have "unat (total0 ctx AND 63) = length m mod 2 ^ 32 mod 64"
    by (simp add: sha2_rep_def unat_and_63 unat_of_nat)
  also have "\<dots> = length m mod 64" by (simp add: mod_mod_cancel)
  finally show ?thesis .
qed

text \<open>The two halves of \<open>sha2_update\<close>: counting the bytes, then absorbing them.\<close>

definition count_bytes :: "sha2_context \<Rightarrow> int \<Rightarrow> sha2_context" where
  "count_bytes ctx n =
    (let t = total0 ctx + word_of_int n
     in ctx\<lparr>total0 := t, total1 := (if t < word_of_int n then total1 ctx + 1 else total1 ctx)\<rparr>)"

definition absorb_input :: "sha2_context \<Rightarrow> nat \<Rightarrow> byte list \<Rightarrow> int \<Rightarrow> sha2_context" where
  "absorb_input ctx left x n =
    (let (ctx, x, n, left) =
       (if left \<noteq> 0 \<and> n \<ge> 64 - int left
        then (sha2_process (ctx\<lparr>buffer := blit (buffer ctx) left (take (64 - left) x)\<rparr>)
                (blit (buffer ctx) left (take (64 - left) x)),
              drop (64 - left) x, n - (64 - int left), 0)
        else (ctx, x, n, left));
       (ctx, x, n) = sha2_blocks ctx x n
     in if n > 0 then ctx\<lparr>buffer := blit (buffer ctx) left (take (nat n) x)\<rparr> else ctx)"

lemma sha2_update_halves:
  "sha2_update ctx x n =
    (if n \<le> 0 then ctx
     else absorb_input (count_bytes ctx n) (unat (total0 ctx AND 63)) x n)"
proof -
  obtain l where l: "l = unat (total0 ctx AND 63)" by blast
  have fill: "nat (64 - int l) = 64 - l" by simp
  show ?thesis
    unfolding sha2_update_def Let_def l [symmetric]
    by (cases "l = 0") (simp_all add: absorb_input_def count_bytes_def Let_def fill)
qed

lemma count_bytes_rep:
  assumes "sha2_rep v m ctx" "0 < n" "n < 2 ^ 31"
  shows "count_bytes ctx n =
    ctx\<lparr>total0 := word_of_nat (length m + nat n), total1 := word_of_nat ((length m + nat n) div 2 ^ 32)\<rparr>"
proof -
  obtain k where n: "n = int k" using assms(2) nonneg_int_cases [of n] by auto
  have k: "k < 2 ^ 32" using assms(3) n by simp
  show ?thesis
    using assms(1) counter_carry [OF k, of "length m"] nat_add_div_carry [OF k, of "length m"]
    by (simp add: count_bytes_def Let_def n sha2_rep_def)
qed

text \<open>Absorbing: the buffer is filled up first, then whole blocks, then the rest is kept.\<close>

lemma absorb_input_direct:
  assumes "left = 0 \<or> n < 64 - int left" "0 \<le> n" "nat n \<le> length x"
    and "length (state ctx) = 8" "length (buffer ctx) = 64" "left < 64"
    and "take left (buffer ctx) = d" "length d = left"
  shows "\<exists>b. absorb_input ctx left x n =
      ctx\<lparr>state := absorb (state ctx) (d @ take (nat n) x), buffer := b\<rparr>
    \<and> length b = 64 \<and> take ((left + nat n) mod 64) b = residue (d @ take (nat n) x)"
proof (cases "left = 0")
  case True
  let ?y = "take (nat n) x"
  let ?r = "drop (64 * (nat n div 64)) x"
  have bl: "sha2_blocks ctx x n = (ctx\<lparr>state := absorb (state ctx) ?y\<rparr>, ?r, n mod 64)"
    using assms by (intro sha2_blocks_absorb) auto
  have lr: "nat (n mod 64) = nat n mod 64" using assms(2) by (simp add: nat_mod_distrib)
  have "length ?y = nat n" using assms(3) by simp
  then have r: "take (nat (n mod 64)) ?r = residue ?y"
    unfolding lr residue_def by (simp only: drop_take minus_mult_div_eq_mod)
  show ?thesis
  proof (cases "n mod 64 = 0")
    case z: True
    then have "nat n mod 64 = 0" using lr by simp
    then have "length (residue ?y) = 0" using \<open>length ?y = nat n\<close> by (simp only: length_residue)
    then have "residue ?y = []" by (simp only: length_0_conv)
    then show ?thesis using True z assms \<open>nat n mod 64 = 0\<close>
      by (intro exI [of _ "buffer ctx"]) (simp add: absorb_input_def bl)
  next
    case False
    then have pos: "n mod 64 > 0" by (simp add: order_less_le)
    have "nat n mod 64 \<le> 64" by simp
    then show ?thesis using True pos assms
      by (intro exI [of _ "blit (buffer ctx) 0 (residue ?y)"])
        (simp add: absorb_input_def bl r blit_def)
  qed
next
  case False
  let ?y = "take (nat n) x"
  have n: "nat n < 64 - left" "n < 64" using assms False by auto
  then have short: "length (d @ ?y) < 64" using assms(8) by simp
  have bl: "sha2_blocks ctx x n = (ctx, x, n)" using n by (simp add: sha2_blocks.simps)
  show ?thesis
  proof (cases "n = 0")
    case True
    then show ?thesis using assms False short bl
      by (intro exI [of _ "buffer ctx"])
        (simp add: absorb_input_def absorb_short residue_short)
  next
    case nz: False
    then show ?thesis using assms False short n
      by (intro exI [of _ "blit (buffer ctx) left ?y"])
        (simp add: absorb_input_def bl absorb_short residue_short blit_def)
  qed
qed

lemma absorb_input_fill:
  assumes "left \<noteq> 0" "64 - int left \<le> n" "nat n \<le> length x"
    and "length (state ctx) = 8" "length (buffer ctx) = 64" "left < 64"
    and "take left (buffer ctx) = d" "length d = left"
  shows "\<exists>b. absorb_input ctx left x n =
      ctx\<lparr>state := absorb (state ctx) (d @ take (nat n) x), buffer := b\<rparr>
    \<and> length b = 64 \<and> take ((left + nat n) mod 64) b = residue (d @ take (nat n) x)"
proof -
  let ?F = "64 - left"
  let ?b = "d @ take ?F x"
  let ?ctx = "ctx\<lparr>buffer := ?b, state := compress (state ctx) ?b\<rparr>"
  let ?y = "take (nat (n - int ?F)) (drop ?F x)"
  have n: "nat n = ?F + nat (n - int ?F)" and nF: "n - (64 - int left) = n - int ?F"
    using assms(2,6) by auto
  have lb: "length ?b = 64" using assms n by simp
  have b: "blit (buffer ctx) left (take ?F x) = ?b"
    using assms n by (simp add: blit_def)
  have y: "d @ take (nat n) x = ?b @ ?y" by (simp add: n take_add)
  have "absorb_input ctx left x n = absorb_input ?ctx 0 (drop ?F x) (n - int ?F)"
    using assms(1,2,4) nF by (simp add: absorb_input_def b sha2_process_compress)
  moreover have "\<exists>c. absorb_input ?ctx 0 (drop ?F x) (n - int ?F) =
      ?ctx\<lparr>state := absorb (state ?ctx) ([] @ ?y), buffer := c\<rparr>
    \<and> length c = 64 \<and> take ((0 + nat (n - int ?F)) mod 64) c = residue ([] @ ?y)"
    using assms n lb by (intro absorb_input_direct) (auto simp: length_compress)
  moreover have "(left + nat n) mod 64 = nat (n - int ?F) mod 64"
  proof -
    have "left + nat n = nat (n - int ?F) + 64" using n assms(6) by linarith
    then show ?thesis by simp
  qed
  moreover have "absorb (state ctx) (d @ take (nat n) x) = absorb (compress (state ctx) ?b) ?y"
    unfolding y by (rule absorb_block [OF lb])
  moreover have "residue (d @ take (nat n) x) = residue ?y"
    unfolding y by (rule residue_block [OF lb])
  ultimately show ?thesis by auto
qed

lemma sha2_rep_update:
  assumes rep: "sha2_rep v m ctx" and n: "n < 2 ^ 31" "nat n \<le> length x"
  shows "sha2_rep v (m @ take (nat n) x) (sha2_update ctx x n)"
proof (cases "n \<le> 0")
  case True
  then show ?thesis using rep by (simp add: sha2_update_halves)
next
  case False
  let ?left = "length m mod 64"
  let ?c = "count_bytes ctx n"
  have c: "?c = ctx\<lparr>total0 := word_of_nat (length m + nat n),
      total1 := word_of_nat ((length m + nat n) div 2 ^ 32)\<rparr>"
    using rep False n by (intro count_bytes_rep) auto
  have st: "length (state ctx) = 8" using rep by (simp add: sha2_rep_def length_absorb)
  have "\<exists>b. absorb_input ?c ?left x n =
      ?c\<lparr>state := absorb (state ?c) (residue m @ take (nat n) x), buffer := b\<rparr>
    \<and> length b = 64 \<and> take ((?left + nat n) mod 64) b = residue (residue m @ take (nat n) x)"
  proof (cases "?left = 0 \<or> n < 64 - int ?left")
    case True
    then show ?thesis using rep False n st
      by (intro absorb_input_direct) (auto simp: sha2_rep_def c)
  next
    case False
    then show ?thesis using rep n st
      by (intro absorb_input_fill) (auto simp: sha2_rep_def c)
  qed
  then obtain b where ab: "absorb_input ?c ?left x n =
      ?c\<lparr>state := absorb (state ?c) (residue m @ take (nat n) x), buffer := b\<rparr>"
    and b: "length b = 64" "take ((?left + nat n) mod 64) b = residue (m @ take (nat n) x)"
    by (auto simp only: residue_append [of m])
  let ?y = "take (nat n) x"
  have ly: "length (m @ ?y) = length m + nat n" using n(2) by simp
  have "sha2_update ctx x n = absorb_input ?c ?left x n"
    using False by (simp add: sha2_update_halves rep_residue [OF rep])
  also have "\<dots> = ?c\<lparr>state := absorb (state ?c) (residue m @ ?y), buffer := b\<rparr>"
    by (rule ab)
  also have "absorb (state ?c) (residue m @ ?y) = absorb (H_init v) (m @ ?y)"
    using rep by (simp add: c sha2_rep_def absorb_residue [of _ m])
  finally have u: "sha2_update ctx x n = ?c\<lparr>state := absorb (H_init v) (m @ ?y), buffer := b\<rparr>" .
  have "(?left + nat n) mod 64 = length (m @ ?y) mod 64"
    unfolding ly by (rule mod_add_left_eq)
  then show ?thesis
    using rep b unfolding u c sha2_rep_def ly by simp
qed

section \<open>The digest\<close>

text \<open>The message length in bits, assembled from the two counter words.\<close>

lemma bit_word_of_nat_iff: "bit (word_of_nat n :: 'a::len word) k \<longleftrightarrow> k < LENGTH('a) \<and> bit n k"
  by transfer (simp add: bit_take_bit_iff bit_of_nat_iff_bit)

lemma bit_mult_8: "bit (8 * n :: nat) k \<longleftrightarrow> 3 \<le> k \<and> bit n (k - 3)"
proof -
  have "8 * n = push_bit 3 n" by (simp add: push_bit_eq_mult)
  then show ?thesis by (simp add: bit_push_bit_iff_nat)
qed

lemma length_words:
  "push_bit 3 (word_of_nat L :: u32) = ucast (word_of_nat (8 * L) :: u64)" (is "?low")
  "drop_bit 29 (word_of_nat L :: u32) OR push_bit 3 (word_of_nat (L div 2 ^ 32)) =
   ucast (drop_bit 32 (word_of_nat (8 * L) :: u64))" (is "?high")
proof -
  show ?low
    by (rule bit_word_eqI)
      (auto simp: bit_push_bit_iff bit_unsigned_iff bit_word_of_nat_iff bit_mult_8
        simp del: of_nat_mult)
  have "bit (L div 2 ^ 32) k = bit L (32 + k)" for k
    by (simp only: drop_bit_eq_div [symmetric] bit_drop_bit_eq o_def)
  then have d: "bit (L div 4294967296) k = bit L (32 + k)" for k by simp
  show ?high
  proof (rule bit_word_eqI)
    fix k assume "k < LENGTH(32)"
    then have k: "k < 32" by simp
    show "bit (drop_bit 29 (word_of_nat L :: u32) OR push_bit 3 (word_of_nat (L div 2 ^ 32))) k =
      bit (ucast (drop_bit 32 (word_of_nat (8 * L) :: u64)) :: u32) k"
    proof (cases "k < 3")
      case True
      then show ?thesis
        by (simp add: bit_or_iff bit_drop_bit_eq bit_push_bit_iff bit_unsigned_iff
            bit_word_of_nat_iff bit_mult_8 del: of_nat_mult)
    next
      case False
      then obtain j where j: "k = 3 + j" by (metis le_add_diff_inverse not_less)
      with k show ?thesis
        by (simp add: bit_or_iff bit_drop_bit_eq bit_push_bit_iff bit_unsigned_iff
            bit_word_of_nat_iff bit_mult_8 d del: of_nat_mult)
    qed
  qed
qed

lemma msglen_be64:
  "put_ulong_be l (put_ulong_be h (replicate 8 0) 0) 4 = be32 h @ be32 l"
proof -
  have "put_ulong_be h (replicate 8 0) 0 = be32 h @ replicate 4 0"
    by (simp add: put_ulong_be_blit blit_def)
  then show ?thesis by (simp add: put_ulong_be_blit blit_def)
qed

text \<open>The padding length \<open>padn\<close>.\<close>

definition pad_len :: "nat \<Rightarrow> nat" where
  "pad_len n = (if n mod 64 < 56 then 56 - n mod 64 else 120 - n mod 64)"

lemma pad_len_le: "pad_len n \<le> 64"
  by (auto simp: pad_len_def)

lemma padn_value:
  assumes "sha2_rep v m ctx"
  shows "sint (if total0 ctx AND 0x3F < 56 then 56 - (total0 ctx AND 0x3F)
               else 120 - (total0 ctx AND 0x3F)) = int (pad_len (length m))"
proof -
  let ?w = "total0 ctx AND 63"
  let ?r = "length m mod 64"
  have "?w = word_of_nat (unat ?w)" by simp
  then have r: "?w = word_of_nat ?r" "?r < 64" unfolding rep_residue [OF assms] by simp_all
  have less: "?w < 56 \<longleftrightarrow> ?r < 56" using rep_residue [OF assms] by (simp add: word_less_nat_alt)
  have "56 - ?w = word_of_nat (56 - ?r)" if "?r < 56"
    unfolding r(1) using that by (simp add: of_nat_diff)
  moreover have "120 - ?w = word_of_nat (120 - ?r)"
    unfolding r(1) using r(2) by (simp add: of_nat_diff)
  ultimately have "(if ?w < 56 then 56 - ?w else 120 - ?w) = word_of_nat (pad_len (length m))"
    unfolding less pad_len_def by simp
  moreover have "sint (word_of_nat k :: u32) = int k" if "k < 2 ^ 31" for k
    using that by (simp add: signed_of_nat signed_take_bit_int_eq_self)
  moreover have "pad_len (length m) < 2 ^ 31" using pad_len_le [of "length m"] by simp
  ultimately show ?thesis by simp
qed

lemma pad_bytes_split:
  "pad_bytes n = take (pad_len n) sha2_padding @ be64 (word_of_nat (8 * n))"
proof -
  have "pad_len n = Suc (if n mod 64 < 56 then 55 - n mod 64 else 119 - n mod 64)"
    using mod_less_divisor [of 64 n] by (auto simp: pad_len_def)
  moreover have "n mod 64 < 64" by simp
  ultimately show ?thesis by (auto simp: pad_bytes_def sha2_padding_def min_def)
qed

lemma length_sha2_padding [simp]: "length sha2_padding = 64"
  by (simp add: sha2_padding_def)

text \<open>After the two updates of \<open>sha2_finish\<close> the context has absorbed the padded message.\<close>

lemma sha2_finish_absorbed:
  assumes rep: "sha2_rep v m ctx"
  shows "\<exists>c. sha2_rep v (m @ pad_bytes (length m)) c \<and> fst (sha2_finish ctx out) = c \<and>
    snd (sha2_finish ctx out) =
      foldl (\<lambda>b i. put_ulong_be (state c ! i) b (4 * i)) out [0..<digest_length v div 4]"
proof -
  let ?p = "int (pad_len (length m))"
  let ?c1 = "sha2_update ctx sha2_padding ?p"
  let ?len = "be64 (word_of_nat (8 * length m))"
  let ?c2 = "sha2_update ?c1 ?len 8"
  have r1: "sha2_rep v (m @ take (pad_len (length m)) sha2_padding) ?c1"
    using sha2_rep_update [OF rep, of ?p sha2_padding] pad_len_le [of "length m"] by simp
  have "length ?len = 8" by (simp add: be64_def)
  then have "sha2_rep v ((m @ take (pad_len (length m)) sha2_padding) @ ?len) ?c2"
    using sha2_rep_update [OF r1, of 8 ?len] by simp
  then have r2: "sha2_rep v (m @ pad_bytes (length m)) ?c2"
    by (simp add: pad_bytes_split)
  have tot: "total0 ctx = word_of_nat (length m)" "total1 ctx = word_of_nat (length m div 2 ^ 32)"
    using rep by (simp_all add: sha2_rep_def)
  have len: "put_ulong_be (push_bit 3 (total0 ctx))
      (put_ulong_be (drop_bit 29 (total0 ctx) OR push_bit 3 (total1 ctx)) (replicate 8 0) 0) 4 = ?len"
    unfolding msglen_be64 tot length_words(2) be64_def unfolding length_words(1) by simp
  have v: "is224 ?c2 = v" using r2 by (simp add: sha2_rep_def)
  have up7: "[0..<7] = [0, 1, 2, 3, 4, 5, 6 :: nat]" by (simp add: upt_rec)
  have fin: "sha2_finish ctx out = (?c2,
      foldl (\<lambda>b i. put_ulong_be (state ?c2 ! i) b (4 * i)) out [0..<digest_length v div 4])"
    unfolding sha2_finish_def Let_def padn_value [OF rep] len v
    by (simp add: digest_length_def upt_8 up7)
  show ?thesis using r2 unfolding fin by simp
qed

lemma sha2_finish_digest:
  assumes rep: "sha2_rep v m ctx" and out: "32 \<le> length out"
  shows "snd (sha2_finish ctx out) = sha_digest v m @ drop (length (sha_digest v m)) out"
proof -
  obtain c where c: "sha2_rep v (m @ pad_bytes (length m)) c"
    and fin: "snd (sha2_finish ctx out) =
      foldl (\<lambda>b i. put_ulong_be (state c ! i) b (4 * i)) out [0..<digest_length v div 4]"
    using sha2_finish_absorbed [OF rep] by blast
  let ?s = "absorb (H_init v) (m @ pad_bytes (length m))"
  let ?n = "digest_length v div 4"
  have s: "state c = ?s" "length ?s = 8"
    using c by (simp_all add: sha2_rep_def length_absorb)
  have n: "?n \<le> 8" "4 * ?n = digest_length v" "4 * ?n \<le> length out"
    using out by (simp_all add: digest_length_def)
  have "snd (sha2_finish ctx out) = concat (map be32 (take ?n ?s)) @ drop (4 * ?n) out"
    using s n out unfolding fin by (subst put_words_be) simp_all
  moreover have "concat (map be32 (take ?n ?s)) = take (4 * ?n) (concat (map be32 ?s))"
    by (simp add: take_concat_be32)
  ultimately show ?thesis using s n by (simp add: sha_digest_def)
qed

section \<open>The interface\<close>

lemma length_sha_digest: "length (sha_digest v m) = digest_length v"
proof -
  have "length (absorb (H_init v) (m @ pad_bytes (length m))) = 8"
    by (simp add: length_absorb)
  then show ?thesis by (simp add: sha_digest_def digest_length_def)
qed

interpretation sh: stream_hash sha2_starts sha2_update sha2_finish sha2_wf sha2_rep sha_digest
proof unfold_locales
  fix v m c out
  assume "sha2_rep v m c"
  then show "sha2_wf (fst (sha2_finish c out))"
    using sha2_finish_absorbed sha2_rep_wf by blast
qed (auto simp: sha2_rep_starts sha2_rep_update sha2_finish_digest sha2_rep_wf
    length_sha_digest digest_length_def)

text \<open>Calls leave the HMAC pads and the variant of the context alone.\<close>

named_theorems sha2_frame \<open>fields that the hash functions do not write\<close>

definition pads :: "sha2_context \<Rightarrow> byte list \<times> byte list \<times> int" where
  "pads ctx = (ipad ctx, opad ctx, is224 ctx)"

lemma pads_updates [sha2_frame]:
  "pads (ctx\<lparr>buffer := b\<rparr>) = pads ctx" "pads (ctx\<lparr>state := s\<rparr>) = pads ctx"
  "pads (ctx\<lparr>total0 := t\<rparr>) = pads ctx" "pads (ctx\<lparr>total1 := u\<rparr>) = pads ctx"
  by (simp_all add: pads_def)

lemma pads_process [sha2_frame]: "pads (sha2_process ctx x) = pads ctx"
  by (simp add: sha2_process_def Let_def sha2_frame)

lemma pads_starts [sha2_frame]: "pads (sha2_starts ctx v) = (ipad ctx, opad ctx, v)"
  by (simp add: sha2_starts_def pads_def)

lemma pads_blocks: "sha2_blocks ctx x n = (c, y, k) \<Longrightarrow> pads c = pads ctx"
proof (induction ctx x n rule: sha2_blocks.induct)
  case (1 ctx x n)
  then show ?case
    by (auto simp: sha2_blocks.simps [of ctx x n] sha2_frame split: if_splits)
qed

lemma pads_absorb [sha2_frame]: "pads (absorb_input ctx l x n) = pads ctx"
  by (auto simp: absorb_input_def sha2_frame split: prod.splits if_splits dest!: pads_blocks)

lemma pads_update [sha2_frame]: "pads (sha2_update ctx x n) = pads ctx"
  by (simp add: sha2_update_halves count_bytes_def Let_def sha2_frame)

lemma pads_finish [sha2_frame]: "pads (fst (sha2_finish ctx out)) = pads ctx"
  by (simp add: sha2_finish_def Let_def sha2_frame)

end
