(* ===== verification/Sha2_Hmac.thy ===== *)
theory Sha2_Hmac
  imports Sha2_Stream
begin

unbundle bit_operations_syntax

text \<open>
  HMAC-SHA-256 and HMAC-SHA-224 of \<open>sha2.c\<close> (\<open>sha2_hmac_starts\<close>, \<open>_update\<close>,
  \<open>_finish\<close>, \<open>_reset\<close> and the one-shot \<open>sha2_hmac\<close>), and the proof that they compute
  the HMAC of the key and of the bytes passed. Automatic arrays and contexts are
  uninitialised in C; the model takes their first contents as arguments (\<open>cty\<close>,
  \<open>sum0\<close>, \<open>tmpbuf\<close>).
\<close>

section \<open>The functions\<close>

definition hmac_xor_key :: "byte list \<Rightarrow> sha2_context \<Rightarrow> nat \<Rightarrow> sha2_context" where
  "hmac_xor_key key ctx i =
    ctx\<lparr>ipad := (ipad ctx)[i := ipad ctx ! i XOR key ! i],
        opad := (opad ctx)[i := opad ctx ! i XOR key ! i]\<rparr>"

definition sha2_hmac_starts :: "sha2_context \<Rightarrow> byte list \<Rightarrow> sha2_context \<Rightarrow> byte list \<Rightarrow> int \<Rightarrow>
    int \<Rightarrow> sha2_context" where
  "sha2_hmac_starts cty sum0 ctx key keylen v224 =
    (let (key, keylen) =
       (if keylen > 64 then (sha2 cty key keylen sum0 v224, if v224 \<noteq> 0 then 28 else 32)
        else (key, keylen));
       ctx = ctx\<lparr>ipad := replicate 64 0x36, opad := replicate 64 0x5C\<rparr>;
       ctx = foldl (hmac_xor_key key) ctx [0..<nat keylen];
       ctx = sha2_starts ctx v224
     in sha2_update ctx (ipad ctx) 64)"

definition sha2_hmac_update :: "sha2_context \<Rightarrow> byte list \<Rightarrow> int \<Rightarrow> sha2_context" where
  "sha2_hmac_update ctx input ilen = sha2_update ctx input ilen"

definition sha2_hmac_finish :: "byte list \<Rightarrow> sha2_context \<Rightarrow> byte list \<Rightarrow> sha2_context \<times> byte list" where
  "sha2_hmac_finish tmpbuf ctx out =
    (let v224 = is224 ctx;
         hlen = (if v224 = 0 then 32 else 28);
         (ctx, tmpbuf) = sha2_finish ctx tmpbuf;
         ctx = sha2_starts ctx v224;
         ctx = sha2_update ctx (opad ctx) 64;
         ctx = sha2_update ctx tmpbuf hlen
     in sha2_finish ctx out)"

definition sha2_hmac_reset :: "sha2_context \<Rightarrow> sha2_context" where
  "sha2_hmac_reset ctx =
    (let ctx = sha2_starts ctx (is224 ctx) in sha2_update ctx (ipad ctx) 64)"

definition sha2_hmac :: "sha2_context \<Rightarrow> byte list \<Rightarrow> byte list \<Rightarrow> sha2_context \<Rightarrow> byte list \<Rightarrow> int \<Rightarrow>
    byte list \<Rightarrow> int \<Rightarrow> byte list \<Rightarrow> int \<Rightarrow> byte list" where
  "sha2_hmac cty sum0 tmpbuf ctx key keylen input ilen out v224 =
    (let ctx = sha2_hmac_starts cty sum0 ctx key keylen v224;
         ctx = sha2_hmac_update ctx input ilen
     in snd (sha2_hmac_finish tmpbuf ctx out))"

section \<open>The specification\<close>

text \<open>The key, hashed when it is longer than a block, filled up with zero bytes.\<close>

definition hmac_key_block :: "int \<Rightarrow> byte list \<Rightarrow> byte list" where
  "hmac_key_block v K =
    (let k = (if 64 < length K then sha_digest v K else K) in k @ replicate (64 - length k) 0)"

definition hmac_pad :: "int \<Rightarrow> byte list \<Rightarrow> byte \<Rightarrow> byte list" where
  "hmac_pad v K c = map (\<lambda>k. k XOR c) (hmac_key_block v K)"

definition hmac_spec :: "int \<Rightarrow> byte list \<Rightarrow> byte list \<Rightarrow> byte list" where
  "hmac_spec v K m = sha_digest v (hmac_pad v K 0x5C @ sha_digest v (hmac_pad v K 0x36 @ m))"

lemma length_hmac_key_block [simp]: "length (hmac_key_block v K) = 64"
  by (simp add: hmac_key_block_def Let_def length_sha_digest digest_length_def)

lemma length_hmac_pad [simp]: "length (hmac_pad v K c) = 64"
  by (simp add: hmac_pad_def)

section \<open>Refinement\<close>

text \<open>The key loop turns the constant pads into the key block xored with them.\<close>

lemma hmac_xor_key_loop:
  assumes "n \<le> 64" "n \<le> length key"
  shows "foldl (hmac_xor_key key) (ctx\<lparr>ipad := replicate 64 a, opad := replicate 64 b\<rparr>) [0..<n] =
    ctx\<lparr>ipad := map (\<lambda>k. k XOR a) (take n key @ replicate (64 - n) 0),
        opad := map (\<lambda>k. k XOR b) (take n key @ replicate (64 - n) 0)\<rparr>"
  using assms
proof (induction n)
  case (Suc n)
  have "replicate (64 - n) c = c # replicate (64 - Suc n) c" for c :: byte
    using Suc.prems by (metis Suc_diff_Suc Suc_le_lessD replicate_Suc)
  then have "(map (\<lambda>k. k XOR c) (take n key @ replicate (64 - n) 0))[n := c XOR key ! n] =
      map (\<lambda>k. k XOR c) (take (Suc n) key @ replicate (64 - Suc n) 0)" for c :: byte
    using Suc.prems by (simp add: take_Suc_conv_app_nth list_update_append xor.commute)
  moreover have "map (\<lambda>k. k XOR c) (take n key @ replicate (64 - n) 0) ! n = c" for c :: byte
    using Suc.prems by (simp add: nth_append)
  ultimately show ?case using Suc by (simp add: hmac_xor_key_def del: map_append)
qed simp

definition hmac_rep :: "int \<Rightarrow> byte list \<Rightarrow> byte list \<Rightarrow> sha2_context \<Rightarrow> bool" where
  "hmac_rep v K m ctx \<longleftrightarrow>
     sha2_rep v (hmac_pad v K 0x36 @ m) ctx \<and> pads ctx = (hmac_pad v K 0x36, hmac_pad v K 0x5C, v)"

lemma hmac_rep_first_block:
  assumes "sha2_wf ctx" "pads ctx = (hmac_pad v K 0x36, hmac_pad v K 0x5C, w)"
  shows "hmac_rep v K [] (sha2_update (sha2_starts ctx v) (ipad (sha2_starts ctx v)) 64)"
proof -
  have i: "ipad ctx = hmac_pad v K 0x36" "opad ctx = hmac_pad v K 0x5C"
    using assms(2) by (simp_all add: pads_def)
  then have "ipad (sha2_starts ctx v) = hmac_pad v K 0x36" by (simp add: sha2_starts_def)
  then show ?thesis
    using sh.rep_start_update [OF assms(1), of "hmac_pad v K 0x36" v] i
    by (simp add: hmac_rep_def sha2_frame)
qed

lemma hmac_rep_starts:
  assumes "sha2_wf ctx" "sha2_wf cty" "length sum0 = 32" "length K < 2 ^ 31"
  shows "hmac_rep v K [] (sha2_hmac_starts cty sum0 ctx K (int (length K)) v)"
proof -
  define k where "k = (if 64 < length K then sha2 cty K (int (length K)) sum0 v else K)"
  define n where "n = (if 64 < length K then if v \<noteq> 0 then 28 else 32 else length K)"
  have long: "sha2 cty K (int (length K)) sum0 v = sha_digest v K @ drop (digest_length v) sum0"
    using assms sh.finish_digest [OF sh.rep_start_update [OF assms(2,4)], of sum0 v]
    by (simp add: sha2_def Let_def length_sha_digest)
  have nk: "n \<le> 64" "n \<le> length k"
    using assms(3) by (auto simp: n_def k_def long length_sha_digest digest_length_def)
  have blk: "take n k @ replicate (64 - n) 0 = hmac_key_block v K"
    by (simp add: n_def k_def long hmac_key_block_def length_sha_digest digest_length_def)
  let ?c = "ctx\<lparr>ipad := hmac_pad v K 0x36, opad := hmac_pad v K 0x5C\<rparr>"
  have "sha2_hmac_starts cty sum0 ctx K (int (length K)) v =
      sha2_update (sha2_starts ?c v) (ipad (sha2_starts ?c v)) 64"
    using hmac_xor_key_loop [OF nk, where ctx = ctx and a = "0x36" and b = "0x5C"]
    unfolding blk hmac_pad_def [symmetric]
    by (auto simp: sha2_hmac_starts_def Let_def n_def k_def split: if_splits)
  then show ?thesis
    using assms(1) hmac_rep_first_block [of ?c v K] by (simp add: pads_def sha2_wf_def)
qed

lemma hmac_rep_update:
  "hmac_rep v K m ctx \<Longrightarrow> n < 2 ^ 31 \<Longrightarrow> nat n \<le> length x \<Longrightarrow>
    hmac_rep v K (m @ take (nat n) x) (sha2_hmac_update ctx x n)"
  using sha2_rep_update [of v "hmac_pad v K 0x36 @ m" ctx n x]
  by (simp add: hmac_rep_def sha2_hmac_update_def sha2_frame)

text \<open>The outer hash, on the context the inner one leaves.\<close>

lemma hmac_finish_outer:
  assumes rep: "hmac_rep v K m ctx" and tmp: "length tmpbuf = 32"
  obtains c where "sha2_hmac_finish tmpbuf ctx out = sha2_finish c out"
    and "sha2_rep v (hmac_pad v K 0x5C @ sha_digest v (hmac_pad v K 0x36 @ m)) c"
    and "pads c = pads ctx"
proof -
  let ?f = "sha2_finish ctx tmpbuf"
  let ?inner = "sha_digest v (hmac_pad v K 0x36 @ m)"
  let ?ca = "sha2_starts (fst ?f) v"
  let ?cb = "sha2_update ?ca (opad ?ca) 64"
  let ?c = "sha2_update ?cb (snd ?f) (int (digest_length v))"
  have r: "sha2_rep v (hmac_pad v K 0x36 @ m) ctx" and v: "is224 ctx = v"
    and p: "opad (fst ?f) = hmac_pad v K 0x5C" "ipad (fst ?f) = hmac_pad v K 0x36"
    using rep pads_finish [of ctx tmpbuf] by (auto simp: hmac_rep_def pads_def sha2_frame)
  have o: "opad ?ca = hmac_pad v K 0x5C" using p by (simp add: sha2_starts_def)
  have snd: "snd ?f = ?inner @ drop (digest_length v) tmpbuf"
    using sh.finish_digest [OF r, of tmpbuf] tmp by (simp add: length_sha_digest)
  have wf: "sha2_wf (fst ?f)" by (rule sh.finish_wf [OF r])
  have c1: "sha2_rep v (hmac_pad v K 0x5C) ?cb"
    using sh.rep_start_update [OF wf, of "hmac_pad v K 0x5C" v] o by simp
  have "sha2_rep v (hmac_pad v K 0x5C @ ?inner) ?c"
    using sh.rep_update [OF c1, of "int (digest_length v)" "snd ?f"] tmp
    by (simp add: snd length_sha_digest digest_length_def split: if_splits)
  moreover have "sha2_hmac_finish tmpbuf ctx out = sha2_finish ?c out"
    by (simp add: sha2_hmac_finish_def v Let_def case_prod_unfold digest_length_def)
  moreover have "pads ?c = pads ctx"
    using rep unfolding pads_update pads_starts p hmac_rep_def by simp
  ultimately show ?thesis using that by blast
qed

text \<open>HMAC under a fixed key is an incremental hash too.\<close>

interpretation hm: stream_hash
  "\<lambda>ctx v. sha2_hmac_starts cty sum0 ctx K (int (length K)) v" sha2_hmac_update
  "sha2_hmac_finish tmpbuf"
  "\<lambda>ctx. sha2_wf ctx \<and> sha2_wf cty \<and> length sum0 = 32 \<and> length tmpbuf = 32 \<and> length K < 2 ^ 31"
  "\<lambda>v m ctx. hmac_rep v K m ctx \<and> sha2_wf cty \<and> length sum0 = 32 \<and> length tmpbuf = 32
     \<and> length K < 2 ^ 31"
  "\<lambda>v m. hmac_spec v K m"
  for cty sum0 tmpbuf K
proof (unfold_locales, goal_cases)
  case 1 then show ?case by (simp add: hmac_rep_starts)
next
  case 2 then show ?case by (simp add: hmac_rep_update)
next
  case (3 v m c out)
  then obtain c' where "sha2_hmac_finish tmpbuf c out = sha2_finish c' out"
    and "sha2_rep v (hmac_pad v K 0x5C @ sha_digest v (hmac_pad v K 0x36 @ m)) c'"
    by (metis hmac_finish_outer)
  then show ?case using 3 by (simp add: sh.finish_digest hmac_spec_def)
next
  case (4 v m c out)
  then obtain c' where "sha2_hmac_finish tmpbuf c out = sha2_finish c' out"
    and "sha2_rep v (hmac_pad v K 0x5C @ sha_digest v (hmac_pad v K 0x36 @ m)) c'"
    by (metis hmac_finish_outer)
  then show ?case using 4 by (simp add: sh.finish_wf)
next
  case 5 then show ?case by (auto simp: hmac_rep_def sha2_rep_wf)
next
  case 6 then show ?case by (simp add: hmac_spec_def length_sha_digest digest_length_def)
qed

end
