(* ===== verification/Sha2_File.thy ===== *)
theory Sha2_File
  imports Sha2_Hmac
begin

text \<open>
  Hashing a file: \<open>sha2_file\<close> and \<open>shad2_file\<close> of \<open>sha2.c\<close>. The file system is
  outside the code: a file is what the C library calls return. \<open>None\<close> stands for
  \<open>fopen\<close> returning \<open>NULL\<close>; otherwise the list of the blocks the successive
  \<open>fread\<close> calls deliver (each at most the 1024 bytes asked for, the first empty one
  ends the loop) and whether \<open>ferror\<close> is set afterwards.
\<close>

type_synonym c_file = "(byte list list \<times> bool) option"

definition file_reads :: "byte list list \<Rightarrow> byte list list" where
  "file_reads blocks = takeWhile (\<lambda>b. b \<noteq> []) blocks"

definition sha2_file :: "sha2_context \<Rightarrow> c_file \<Rightarrow> byte list \<Rightarrow> int \<Rightarrow> int \<times> byte list" where
  "sha2_file ctx path out v224 =
    (case path of
       None \<Rightarrow> (1, out)
     | Some (blocks, err) \<Rightarrow>
         let ctx = sha2_starts ctx v224;
             ctx = foldl (\<lambda>ctx buf. sha2_update ctx buf (int (length buf))) ctx (file_reads blocks);
             out = snd (sha2_finish ctx out)
         in (if err then 2 else 0, out))"

definition shad2_file :: "sha2_context \<Rightarrow> c_file \<Rightarrow> byte list \<Rightarrow> int \<Rightarrow> int \<times> byte list" where
  "shad2_file ctx path out v224 =
    (case path of
       None \<Rightarrow> (1, out)
     | Some (blocks, err) \<Rightarrow>
         let ctx = sha2_starts ctx v224;
             ctx = sha2_update ctx (replicate 64 0) 64;
             ctx = foldl (\<lambda>ctx buf. sha2_update ctx buf (int (length buf))) ctx (file_reads blocks);
             (ctx, out) = sha2_finish ctx out;
             ctx = sha2_starts ctx v224;
             ctx = sha2_update ctx out 32;
             (ctx, out) = sha2_finish ctx out
         in (if err then 2 else 0, out))"

text \<open>What the C library guarantees: a read never delivers more than it was asked for.\<close>

definition reads_ok :: "byte list list \<Rightarrow> bool" where
  "reads_ok blocks \<longleftrightarrow> (\<forall>b \<in> set blocks. length b \<le> 1024)"

lemma reads_small: "reads_ok blocks \<Longrightarrow> b \<in> set (file_reads blocks) \<Longrightarrow> length b < 2 ^ 31"
  by (auto simp: reads_ok_def file_reads_def dest!: set_takeWhileD)

lemma sha2_file_digest:
  assumes "sha2_wf ctx" "reads_ok blocks" "length out = 32"
  shows "sha2_file ctx (Some (blocks, err)) out v =
    (if err then 2 else 0,
     sha_digest v (concat (file_reads blocks)) @ drop (digest_length v) out)"
proof -
  have "sha2_rep v ([] @ concat (file_reads blocks))
      (foldl (\<lambda>c x. sha2_update c x (int (length x))) (sha2_starts ctx v) (file_reads blocks))"
    using assms by (intro sh.rep_updates sh.rep_starts reads_small)
  from sh.finish_digest [OF this, of out] assms show ?thesis
    by (simp add: sha2_file_def Let_def length_sha_digest)
qed

lemma shad2_file_digest:
  assumes "sha2_wf ctx" "reads_ok blocks" "length out = 32"
  shows "shad2_file ctx (Some (blocks, err)) out v =
    (if err then 2 else 0,
     sha_digest v (sha_digest v (replicate 64 0 @ concat (file_reads blocks)) @ drop (digest_length v) out)
       @ drop (digest_length v) out)"
proof -
  let ?m = "replicate 64 0 @ concat (file_reads blocks)"
  let ?s = "sha2_update (sha2_starts ctx v) (replicate 64 0) 64"
  let ?f = "foldl (\<lambda>c x. sha2_update c x (int (length x))) ?s (file_reads blocks)"
  let ?t = "sha2_starts (fst (sha2_finish ?f out)) v"
  have "sha2_rep v (replicate 64 0) ?s"
    using sh.rep_start_update [OF assms(1), of "replicate 64 0" v] by simp
  then have f: "sha2_rep v ?m ?f"
    using assms by (intro sh.rep_updates reads_small)
  let ?o = "snd (sha2_finish ?f out)"
  have o: "?o = sha_digest v ?m @ drop (digest_length v) out"
    using sh.finish_digest [OF f, of out] assms by (simp add: length_sha_digest)
  then have lo: "length ?o = 32" using sh.length_finish [OF f, of out] assms(3) by simp
  then have "sha2_rep v ?o (sha2_update ?t ?o 32)"
    using sh.rep_start_update [OF sh.finish_wf [OF f], of ?o v] by simp
  from sh.finish_digest [OF this, of ?o] lo
  have "snd (sha2_finish (sha2_update ?t ?o 32) ?o) = sha_digest v ?o @ drop (digest_length v) ?o"
    by (simp add: length_sha_digest)
  moreover have "drop (digest_length v) ?o = drop (digest_length v) out"
    by (simp add: o length_sha_digest)
  ultimately show ?thesis
    by (simp add: shad2_file_def Let_def case_prod_unfold o)
qed

end
