(* ===== verification/Sha2_Vectors.thy ===== *)
theory Sha2_Vectors
  imports Sha2_Hmac
begin

unbundle bit_operations_syntax

text \<open>
  The constants of \<open>sha2.c\<close> and a test vector. The round constants are checked against
  the cube roots of the first 64 primes and the initial state against square roots; the
  digest of a concrete message is evaluated by rewriting, on functions that keep every
  intermediate word a numeral below \<open>2 ^ 32\<close>.
\<close>

section \<open>The constants\<close>

text \<open>The primes with the integer parts of their square and cube roots.\<close>

definition primes_icbrt :: "(int \<times> int) list" where
  "primes_icbrt =
    [(2, 1), (3, 1), (5, 1), (7, 1), (11, 2), (13, 2), (17, 2), (19, 2), (23, 2), (29, 3),
     (31, 3), (37, 3), (41, 3), (43, 3), (47, 3), (53, 3), (59, 3), (61, 3), (67, 4), (71, 4),
     (73, 4), (79, 4), (83, 4), (89, 4), (97, 4), (101, 4), (103, 4), (107, 4), (109, 4), (113, 4),
     (127, 5), (131, 5), (137, 5), (139, 5), (149, 5), (151, 5), (157, 5), (163, 5), (167, 5),
     (173, 5), (179, 5), (181, 5), (191, 5), (193, 5), (197, 5), (199, 5), (211, 5), (223, 6),
     (227, 6), (229, 6), (233, 6), (239, 6), (241, 6), (251, 6), (257, 6), (263, 6), (269, 6),
     (271, 6), (277, 6), (281, 6), (283, 6), (293, 6), (307, 6), (311, 6)]"

definition primes_isqrt :: "(int \<times> int) list" where
  "primes_isqrt = [(2, 1), (3, 1), (5, 2), (7, 2), (11, 3), (13, 3), (17, 4), (19, 4)]"

text \<open>
  The word \<open>f\<close> holds the first 32 bits of the fraction of the cube (square) root of
  \<open>p\<close>, whose integer part is \<open>i\<close>.
\<close>

definition cbrt_word :: "int \<times> int \<Rightarrow> u32 \<Rightarrow> bool" where
  "cbrt_word = (\<lambda>(p, i) f.
     let r = i * 4294967296 + uint f
     in r * r * r \<le> p * 4294967296 ^ 3 \<and> p * 4294967296 ^ 3 < (r + 1) * (r + 1) * (r + 1))"

definition sqrt_word :: "int \<times> int \<Rightarrow> u32 \<Rightarrow> bool" where
  "sqrt_word = (\<lambda>(p, i) f.
     let r = i * 4294967296 + uint f
     in r * r \<le> p * 4294967296 ^ 2 \<and> p * 4294967296 ^ 2 < (r + 1) * (r + 1))"

lemma sha2_K_roots: "list_all2 cbrt_word primes_icbrt sha2_K"
  by (simp add: primes_icbrt_def sha2_K_def cbrt_word_def)

lemma H_init_roots: "list_all2 sqrt_word primes_isqrt (H_init 0)"
  by (simp add: primes_isqrt_def H_init_def sqrt_word_def)

section \<open>Evaluating a digest\<close>

definition norm32 :: "u32 \<Rightarrow> u32" where
  "norm32 x = x"

lemma norm32_eval:
  "norm32 (numeral m) = word_of_nat (numeral m mod 4294967296)" "norm32 0 = 0" "norm32 1 = 1"
proof -
  have "(word_of_nat (numeral m mod 2 ^ LENGTH(32)) :: u32) = word_of_nat (numeral m)"
    by (simp only: word_of_nat_eq_iff take_bit_eq_mod mod_mod_trivial)
  then show "norm32 (numeral m) = word_of_nat (numeral m mod 4294967296)"
    by (simp add: norm32_def)
qed (simp_all add: norm32_def)

definition round_out :: "u32 \<Rightarrow> u32 \<Rightarrow> u32 list \<Rightarrow> u32 list" where
  "round_out t1 t2 v =
    [norm32 (t1 + t2), v ! 0, v ! 1, v ! 2, norm32 (v ! 3 + t1), v ! 4, v ! 5, v ! 6]"

lemma round_out_eval:
  "round_out t1 t2 [a, b, c, d, e, f, g, h] =
    [norm32 (t1 + t2), a, b, c, norm32 (d + t1), e, f, g]"
  by (simp add: round_out_def)

fun run_rounds :: "u32 list \<Rightarrow> u32 list \<Rightarrow> u32 list \<Rightarrow> u32 list" where
  "run_rounds (k # ks) (w # ws) v = run_rounds ks ws (spec_round k w v)"
| "run_rounds ks ws v = v"

lemma run_rounds_eval:
  "run_rounds (k # ks) (w # ws) [a, b, c, d, e, f, g, h] =
    run_rounds ks ws (round_out (norm32 (h + S3 e + F1 e f g + k + w)) (norm32 (S2 a + F0 a b c))
      [a, b, c, d, e, f, g, h])"
  by (simp add: round_out_def norm32_def sha2_macro_specs Let_def)

lemma run_rounds_append:
  "length ks = length ws \<Longrightarrow> run_rounds (ks @ [k]) (ws @ [w]) v = spec_round k w (run_rounds ks ws v)"
  by (induction ks ws v rule: run_rounds.induct) auto

lemma spec_rounds_run:
  "t \<le> 64 \<Longrightarrow> spec_rounds M H t = run_rounds (take t sha2_K) (map (schedule M) [0..<t]) H"
proof (induction t)
  case (Suc t)
  moreover have "length sha2_K = 64" by (simp add: sha2_K_def)
  ultimately show ?case by (simp add: take_Suc_conv_app_nth run_rounds_append)
qed simp

text \<open>The schedule, kept newest word first.\<close>

fun extend :: "nat \<Rightarrow> u32 list \<Rightarrow> u32 list" where
  "extend 0 ws = rev ws"
| "extend (Suc n) ws =
    extend n (norm32 (S1 (ws ! 1) + ws ! 6 + S0 (ws ! 14) + ws ! 15) # ws)"

lemma extend_eval:
  "extend (numeral k) ws =
    extend (pred_numeral k) (norm32 (S1 (ws ! 1) + ws ! 6 + S0 (ws ! 14) + ws ! 15) # ws)"
    "extend (Suc 0) ws = extend 0 (norm32 (S1 (ws ! 1) + ws ! 6 + S0 (ws ! 14) + ws ! 15) # ws)"
  by (simp_all add: numeral_eq_Suc)

lemma extend_schedule:
  "16 \<le> t \<Longrightarrow> extend n (rev (map (schedule M) [0..<t])) = map (schedule M) [0..<t + n]"
proof (induction n arbitrary: t)
  case (Suc n)
  let ?ws = "rev (map (schedule M) [0..<t])"
  have "?ws ! j = schedule M (t - Suc j)" if "j < t" for j
    using that by (simp add: rev_nth)
  then have "norm32 (S1 (?ws ! 1) + ?ws ! 6 + S0 (?ws ! 14) + ?ws ! 15) # ?ws =
      rev (map (schedule M) [0..<Suc t])"
    using Suc.prems
    by (simp add: norm32_def schedule.simps [of M t] S0_sigma numeral_2_eq_2)
  then have "extend (Suc n) ?ws = extend n (rev (map (schedule M) [0..<Suc t]))"
    by (simp only: extend.simps)
  also have "\<dots> = map (schedule M) [0..<Suc t + n]"
    using Suc.prems by (intro Suc.IH) simp
  finally show ?case by simp
qed simp

lemma compress_run:
  "compress H M =
    map2 (+) H (run_rounds sha2_K (extend 48 (rev (map (\<lambda>i. get_ulong_be M (4 * i)) [0..<16]))) H)"
proof -
  have "map (\<lambda>i. get_ulong_be M (4 * i)) [0..<16] = map (schedule M) [0..<16]"
    by (rule map_cong [OF refl]) (simp add: schedule.simps [of M])
  moreover have "extend 48 (rev (map (schedule M) [0..<16])) = map (schedule M) [0..<64]"
    using extend_schedule [of 16 48 M] by simp
  moreover have "take 64 sha2_K = sha2_K" by (simp add: sha2_K_def)
  ultimately show ?thesis by (simp only: compress_def spec_rounds_run [OF order_refl])
qed

lemmas round_macros = S0_def S1_def S2_def S3_def F0_def F1_def ROTR_def SHR_def

definition abc_block :: "byte list" where
  "abc_block =
    [0x61, 0x62, 0x63, 0x80, 0, 0, 0, 0, 0, 0, 0, 0, 0, 0, 0, 0,
     0, 0, 0, 0, 0, 0, 0, 0, 0, 0, 0, 0, 0, 0, 0, 0,
     0, 0, 0, 0, 0, 0, 0, 0, 0, 0, 0, 0, 0, 0, 0, 0,
     0, 0, 0, 0, 0, 0, 0, 0, 0, 0, 0, 0, 0, 0, 0, 24]"

lemma replicate_52: "replicate 52 (0 :: byte) =
    [0, 0, 0, 0, 0, 0, 0, 0, 0, 0, 0, 0, 0, 0, 0, 0, 0, 0, 0, 0, 0, 0, 0, 0, 0, 0,
     0, 0, 0, 0, 0, 0, 0, 0, 0, 0, 0, 0, 0, 0, 0, 0, 0, 0, 0, 0, 0, 0, 0, 0, 0, 0]"
  by (simp add: numeral_eq_Suc)

lemma abc_padded: "[0x61, 0x62, 0x63] @ pad_bytes 3 = abc_block"
  by (simp add: pad_bytes_def be64_def be32_def abc_block_def replicate_52)

lemma abc_words:
  "rev (map (\<lambda>i. get_ulong_be abc_block (4 * i)) [0..<16]) =
    [24, 0, 0, 0, 0, 0, 0, 0, 0, 0, 0, 0, 0, 0, 0, 0x61626380]"
  by (simp add: upt_16 get_ulong_be_def abc_block_def)

lemma abc_run:
  "run_rounds sha2_K (extend 48 [24, 0, 0, 0, 0, 0, 0, 0, 0, 0, 0, 0, 0, 0, 0, 0x61626380]) (H_init 0) =
    [0x506E3058, 0xD39A2165, 0x04D24D6C, 0xB85E2CE9, 0x5EF50F24, 0xFB121210, 0x948D25B6, 0x961F4894]"
  by (simp add: norm32_eval round_out_eval run_rounds_eval extend_eval round_macros sha2_K_def
      H_init_def del: run_rounds.simps(1) extend.simps(2))

lemma abc_digest:
  "sha_digest 0 [0x61, 0x62, 0x63] =
    [0xBA, 0x78, 0x16, 0xBF, 0x8F, 0x01, 0xCF, 0xEA, 0x41, 0x41, 0x40, 0xDE, 0x5D, 0xAE, 0x22, 0x23,
     0xB0, 0x03, 0x61, 0xA3, 0x96, 0x17, 0x7A, 0x9C, 0xB4, 0x10, 0xFF, 0x61, 0xF2, 0x00, 0x15, 0xAD]"
proof -
  have l: "length abc_block = 64" by (simp add: abc_block_def)
  have "absorb (H_init 0) abc_block = compress (H_init 0) abc_block"
    using absorb_block [of abc_block _ "[]"] by (simp add: l absorb_short)
  also have "\<dots> = map2 (+) (H_init 0)
      [0x506E3058, 0xD39A2165, 0x04D24D6C, 0xB85E2CE9, 0x5EF50F24, 0xFB121210, 0x948D25B6, 0x961F4894]"
    unfolding compress_run abc_words abc_run ..
  finally have a: "absorb (H_init 0) abc_block = map2 (+) (H_init 0)
      [0x506E3058, 0xD39A2165, 0x04D24D6C, 0xB85E2CE9, 0x5EF50F24, 0xFB121210, 0x948D25B6, 0x961F4894]" .
  have "sha_digest 0 [0x61, 0x62, 0x63] = take 32 (concat (map be32 (absorb (H_init 0) abc_block)))"
  proof -
    have n: "length [0x61, 0x62, 0x63 :: byte] = 3" by simp
    show ?thesis unfolding sha_digest_def n abc_padded [symmetric] by (simp add: digest_length_def)
  qed
  then show ?thesis unfolding a by (simp add: H_init_def be32_def)
qed

end
