(* ===== verification/Sha2_Props.thy ===== *)
theory Sha2_Props
  imports Sha2_File Sha2_Vectors
begin

unbundle bit_operations_syntax

text \<open>
  The properties of \<open>sha2.c\<close>: what each exported function computes, for every initial
  content of the context and of the output array, and a test vector.
\<close>

text \<open>A context after \<open>memset (ctx, 0, sizeof (sha2_context))\<close>, for concrete instances.\<close>

definition zero_ctx :: sha2_context where
  "zero_ctx = \<lparr>total0 = 0, total1 = 0, state = replicate 8 0, buffer = replicate 64 0,
     ipad = replicate 64 0, opad = replicate 64 0, is224 = 0\<rparr>"

lemma zero_ctx_wf [simp]: "sha2_wf zero_ctx"
  by (simp add: zero_ctx_def sha2_wf_def)

text \<open>The 64 unrolled, variable-rotating macro calls of \<open>sha2_process\<close> compute the
  compression function of the Secure Hash Standard and change nothing but \<open>state\<close>.\<close>

theorem sha2_process_fips:
  assumes "length (state ctx) = 8"
  shows "sha2_process ctx data = ctx\<lparr>state := compress (state ctx) data\<rparr>"
  using assms by (rule sha2_process_compress)

theorem sha2_process_fips_witness:
  "sha2_process zero_ctx (replicate 64 1) =
    zero_ctx\<lparr>state := compress (state zero_ctx) (replicate 64 1)\<rparr>"
  by (rule sha2_process_fips) (simp add: zero_ctx_def)

text \<open>C1. \<open>sha2_starts\<close>, any sequence of \<open>sha2_update\<close> calls and \<open>sha2_finish\<close> write the
  digest of the concatenated chunks, however the message is cut, and leave the rest of
  the output array alone (for SHA-224 its last four bytes are not written).\<close>

theorem sha2_streaming_digest:
  assumes "sha2_wf ctx" and "\<forall>x \<in> set chunks. length x < 2 ^ 31" and "length out = 32"
  shows "snd (sha2_finish
      (foldl (\<lambda>c x. sha2_update c x (int (length x))) (sha2_starts ctx v) chunks) out) =
    sha_digest v (concat chunks) @ drop (digest_length v) out"
proof -
  have "sha2_rep v ([] @ concat chunks)
      (foldl (\<lambda>c x. sha2_update c x (int (length x))) (sha2_starts ctx v) chunks)"
    using assms by (intro sh.rep_updates sh.rep_starts) auto
  from sh.finish_digest [OF this, of out] assms(3) show ?thesis by (simp add: length_sha_digest)
qed

theorem sha2_streaming_digest_witness:
  "snd (sha2_finish
      (foldl (\<lambda>c x. sha2_update c x (int (length x))) (sha2_starts zero_ctx 1) [[1, 2], [], [3]])
      (replicate 32 7)) =
    sha_digest 1 (concat [[1, 2], [], [3]]) @ drop (digest_length 1) (replicate 32 7)"
  by (rule sha2_streaming_digest) simp_all

text \<open>The two 32-bit counter words hold the number of bytes passed so far modulo
  \<open>2 ^ 64\<close>: the carry of each 32-bit addition is detected and never lost.\<close>

theorem sha2_byte_counter:
  assumes "sha2_wf ctx" and "\<forall>x \<in> set chunks. length x < 2 ^ 31"
  shows "let c = foldl (\<lambda>c x. sha2_update c x (int (length x))) (sha2_starts ctx v) chunks
     in (unat (total0 c) + 2 ^ 32 * unat (total1 c)) = length (concat chunks) mod 2 ^ 64"
proof -
  let ?L = "length (concat chunks)"
  have "sha2_rep v ([] @ concat chunks)
      (foldl (\<lambda>c x. sha2_update c x (int (length x))) (sha2_starts ctx v) chunks)"
    using assms by (intro sh.rep_updates sh.rep_starts) auto
  moreover have "?L mod 2 ^ 32 + 2 ^ 32 * (?L div 2 ^ 32 mod 2 ^ 32) = ?L mod 2 ^ 64"
    using mod_mult2_eq [of ?L "2 ^ 32" "2 ^ 32"] by simp
  ultimately show ?thesis
    unfolding Let_def sha2_rep_def by (simp add: unat_of_nat del: length_concat)
qed

theorem sha2_byte_counter_witness:
  "let c = foldl (\<lambda>c x. sha2_update c x (int (length x))) (sha2_starts zero_ctx 0)
        [replicate 100 1, [2, 3]]
   in (unat (total0 c) + 2 ^ 32 * unat (total1 c)) =
      length (concat [replicate 100 (1 :: byte), [2, 3]]) mod 2 ^ 64"
  by (rule sha2_byte_counter) simp_all

text \<open>C2. The incremental HMAC functions write the HMAC of the key (hashed when longer than
  a block) and of the concatenated chunks, whatever the uninitialised automatic arrays and
  the context contained before.\<close>

theorem sha2_hmac_streaming:
  assumes "sha2_wf ctx" "sha2_wf cty" "length sum0 = 32" "length tmpbuf = 32" "length out = 32"
    and "length K < 2 ^ 31" and "\<forall>x \<in> set chunks. length x < 2 ^ 31"
  shows "snd (sha2_hmac_finish tmpbuf
      (foldl (\<lambda>c x. sha2_hmac_update c x (int (length x)))
        (sha2_hmac_starts cty sum0 ctx K (int (length K)) v) chunks) out) =
    hmac_spec v K (concat chunks) @ drop (digest_length v) out"
proof -
  have "hmac_rep v K ([] @ concat chunks)
      (foldl (\<lambda>c x. sha2_hmac_update c x (int (length x)))
        (sha2_hmac_starts cty sum0 ctx K (int (length K)) v) chunks)"
    using hm.rep_updates [where xs = chunks, OF hm.rep_starts] assms by blast
  with assms hm.finish_digest [where out = out and tmpbuf = tmpbuf and cty = cty and ?sum0.0 = sum0 and K = K and v = v]
  show ?thesis by (simp add: hmac_spec_def length_sha_digest)
qed

theorem sha2_hmac_streaming_witness:
  "snd (sha2_hmac_finish (replicate 32 9)
      (foldl (\<lambda>c x. sha2_hmac_update c x (int (length x)))
        (sha2_hmac_starts zero_ctx (replicate 32 5) zero_ctx (replicate 70 1)
          (int (length (replicate 70 (1 :: byte)))) 0) [[1], [2, 3]]) (replicate 32 7)) =
    hmac_spec 0 (replicate 70 1) (concat [[1], [2, 3]]) @ drop (digest_length 0) (replicate 32 7)"
  by (rule sha2_hmac_streaming) simp_all

text \<open>After \<open>sha2_hmac_finish\<close>, \<open>sha2_hmac_reset\<close> makes the context ready for another
  message under the same key: the pads survive \<open>sha2_finish\<close> and \<open>sha2_starts\<close>.\<close>

theorem sha2_hmac_reset_reusable:
  assumes "sha2_wf ctx" "sha2_wf cty" "length sum0 = 32" "length tmpbuf = 32" "length out = 32"
    and "length K < 2 ^ 31" "length x < 2 ^ 31" "length y < 2 ^ 31"
  shows "let c = sha2_hmac_update (sha2_hmac_starts cty sum0 ctx K (int (length K)) v) x (int (length x));
       c = sha2_hmac_reset (fst (sha2_hmac_finish tmpbuf c out))
     in snd (sha2_hmac_finish tmpbuf (sha2_hmac_update c y (int (length y))) out) =
        hmac_spec v K y @ drop (digest_length v) out"
proof -
  let ?c = "sha2_hmac_update (sha2_hmac_starts cty sum0 ctx K (int (length K)) v) x (int (length x))"
  let ?r = "sha2_hmac_reset (fst (sha2_hmac_finish tmpbuf ?c out))"
  have c: "hmac_rep v K x ?c"
    using assms hmac_rep_update [OF hmac_rep_starts, of ctx cty sum0 K "int (length x)" x v] by simp
  then obtain d where d: "fst (sha2_hmac_finish tmpbuf ?c out) = fst (sha2_finish d out)"
    "sha2_rep v (hmac_pad v K 0x5C @ sha_digest v (hmac_pad v K 0x36 @ x)) d" "pads d = pads ?c"
    using hmac_finish_outer [OF c assms(4), of out] by metis
  have "pads (fst (sha2_finish d out)) = (hmac_pad v K 0x36, hmac_pad v K 0x5C, v)"
    using d(3) c by (simp add: sha2_frame hmac_rep_def)
  then have "hmac_rep v K [] ?r"
    using hmac_rep_first_block [OF sh.finish_wf [OF d(2)], of out v K v]
    by (simp add: sha2_hmac_reset_def d(1) Let_def pads_def)
  then have "hmac_rep v K y (sha2_hmac_update ?r y (int (length y)))"
    using hmac_rep_update [of v K "[]" ?r "int (length y)" y] assms by simp
  with assms hm.finish_digest [where out = out and tmpbuf = tmpbuf and cty = cty and ?sum0.0 = sum0 and K = K and v = v]
  show ?thesis by (simp add: Let_def hmac_spec_def length_sha_digest)
qed

theorem sha2_hmac_reset_reusable_witness:
  "let c = sha2_hmac_update (sha2_hmac_starts zero_ctx (replicate 32 5) zero_ctx [1, 2]
         (int (length [1, 2 :: byte])) 1) [8] (int (length [8 :: byte]));
       c = sha2_hmac_reset (fst (sha2_hmac_finish (replicate 32 4) c (replicate 32 0)))
   in snd (sha2_hmac_finish (replicate 32 4) (sha2_hmac_update c [6, 6] (int (length [6, 6 :: byte])))
         (replicate 32 0)) =
      hmac_spec 1 [1, 2] [6, 6] @ drop (digest_length 1) (replicate 32 0)"
  by (rule sha2_hmac_reset_reusable) simp_all

text \<open>C3. \<open>sha2_file\<close> returns 1 and writes nothing when the file does not open; otherwise it
  writes the digest of the bytes read and returns 2 exactly when the stream had an error.\<close>

theorem sha2_file_correct:
  assumes "sha2_wf ctx" and "length out = 32" and "\<forall>bs e. path = Some (bs, e) \<longrightarrow> reads_ok bs"
  shows "sha2_file ctx path out v =
    (case path of
       None \<Rightarrow> (1, out)
     | Some (blocks, err) \<Rightarrow>
         (if err then 2 else 0,
          sha_digest v (concat (file_reads blocks)) @ drop (digest_length v) out))"
proof (cases path)
  case None
  then show ?thesis by (simp add: sha2_file_def)
next
  case (Some p)
  then show ?thesis using assms by (cases p) (simp add: sha2_file_digest)
qed

theorem sha2_file_correct_witness:
  "sha2_file zero_ctx (Some ([replicate 1024 1, [2]], True)) (replicate 32 7) 0 =
    (case Some ([replicate 1024 1, [2]], True) of
       None \<Rightarrow> (1, replicate 32 7)
     | Some (blocks, err) \<Rightarrow>
         (if err then 2 else 0,
          sha_digest 0 (concat (file_reads blocks)) @ drop (digest_length 0) (replicate 32 7)))"
  by (rule sha2_file_correct) (simp_all add: reads_ok_def)

text \<open>\<open>shad2_file\<close> writes the hash of the hash of a zero block and the file, for SHA-256;
  for SHA-224 the second pass hashes 32 bytes of which the first pass wrote only 28, so
  the result depends on the last four bytes the caller left in \<open>output\<close>.\<close>

theorem shad2_file_correct:
  assumes "sha2_wf ctx" and "length out = 32" and "reads_ok blocks"
  shows "shad2_file ctx (Some (blocks, err)) out v =
    (if err then 2 else 0,
     if v = 0
     then sha_digest 0 (sha_digest 0 (replicate 64 0 @ concat (file_reads blocks)))
     else sha_digest v (sha_digest v (replicate 64 0 @ concat (file_reads blocks)) @ drop 28 out)
       @ drop 28 out)"
  using shad2_file_digest [OF assms(1,3,2), of err v] assms(2) by (simp add: digest_length_def)

theorem shad2_file_correct_witness:
  "shad2_file zero_ctx (Some ([[1, 2, 3]], False)) (replicate 32 7) 1 =
    (if False then 2 else 0,
     if (1 :: int) = 0
     then sha_digest 0 (sha_digest 0 (replicate 64 0 @ concat (file_reads [[1, 2, 3]])))
     else sha_digest 1 (sha_digest 1 (replicate 64 0 @ concat (file_reads [[1, 2, 3]]))
         @ drop 28 (replicate 32 7)) @ drop 28 (replicate 32 7))"
  by (rule shad2_file_correct) (simp_all add: reads_ok_def)

text \<open>The 64 constants of the calls in \<open>sha2_process\<close> are the first 32 fraction bits of
  the cube roots of the first 64 primes, and \<open>sha2_starts\<close> loads those of the square roots
  of the first eight.\<close>

theorem sha2_constants:
  "list_all2 cbrt_word primes_icbrt sha2_K \<and>
   list_all2 sqrt_word primes_isqrt (state (sha2_starts ctx 0))"
proof -
  have "state (sha2_starts ctx 0) = H_init 0" by (simp add: sha2_starts_def H_init_def)
  then show ?thesis using sha2_K_roots H_init_roots by simp
qed

text \<open>The one-shot \<open>sha2\<close> on the three bytes \<open>abc\<close> writes the digest of the standard's
  first test vector, from any context and over any output array.\<close>

theorem sha2_abc_vector:
  assumes "sha2_wf ctx" and "length out = 32"
  shows "sha2 ctx [0x61, 0x62, 0x63] 3 out 0 =
    [0xBA, 0x78, 0x16, 0xBF, 0x8F, 0x01, 0xCF, 0xEA, 0x41, 0x41, 0x40, 0xDE, 0x5D, 0xAE, 0x22, 0x23,
     0xB0, 0x03, 0x61, 0xA3, 0x96, 0x17, 0x7A, 0x9C, 0xB4, 0x10, 0xFF, 0x61, 0xF2, 0x00, 0x15, 0xAD]"
proof -
  have "sha2_rep 0 [0x61, 0x62, 0x63] (sha2_update (sha2_starts ctx 0) [0x61, 0x62, 0x63] 3)"
    using sh.rep_start_update [OF assms(1), of "[0x61, 0x62, 0x63]" 0] by simp
  from sh.finish_digest [OF this, of out] assms(2) show ?thesis
    by (simp add: sha2_def Let_def abc_digest)
qed

theorem sha2_abc_vector_witness:
  "sha2 zero_ctx [0x61, 0x62, 0x63] 3 (replicate 32 0) 0 =
    [0xBA, 0x78, 0x16, 0xBF, 0x8F, 0x01, 0xCF, 0xEA, 0x41, 0x41, 0x40, 0xDE, 0x5D, 0xAE, 0x22, 0x23,
     0xB0, 0x03, 0x61, 0xA3, 0x96, 0x17, 0x7A, 0x9C, 0xB4, 0x10, 0xFF, 0x61, 0xF2, 0x00, 0x15, 0xAD]"
  by (rule sha2_abc_vector) simp_all

end
