(* ===== verification/Aes_Gen.thy ===== *)
theory Aes_Gen
  imports Aes_Tables
begin

unbundle bit_operations_syntax

text \<open>
  \<open>aesx_gen_tables\<close> of \<open>aesx.c\<close> (and the same function of \<open>aes.c\<close>, which its
  configuration leaves out in favour of the literal tables), and the proof that it fills
  the static arrays with exactly the literal tables, whatever they and the automatic
  arrays \<open>pow\<close> and \<open>log\<close> contained before. The C \<open>int\<close> variables \<open>x\<close>, \<open>y\<close>, \<open>z\<close> never
  leave the range of a few bits above a byte, so they are \<open>int\<close>.
\<close>

section \<open>The generator\<close>

definition XTIME :: "int \<Rightarrow> int" where
  "XTIME x = push_bit 1 x XOR (if x AND 0x80 \<noteq> 0 then 0x1B else 0)"

definition ROTL8 :: "u32 \<Rightarrow> u32" where
  "ROTL8 x = (push_bit 8 x AND 0xFFFFFFFF) OR drop_bit 24 x"

definition gen_pow_step :: "int list \<times> int list \<times> int \<Rightarrow> nat \<Rightarrow> int list \<times> int list \<times> int" where
  "gen_pow_step = (\<lambda>(pow, log, x) i.
     (pow[i := x], log[nat x := int i], (x XOR XTIME x) AND 0xFF))"

definition gen_rcon_step :: "u32 list \<times> int \<Rightarrow> nat \<Rightarrow> u32 list \<times> int" where
  "gen_rcon_step = (\<lambda>(R, x) i. (R[i := word_of_int x], XTIME x AND 0xFF))"

definition rol_byte :: "int \<Rightarrow> int" where
  "rol_byte y = (push_bit 1 y OR drop_bit 7 y) AND 0xFF"

definition gen_affine :: "int \<Rightarrow> int" where
  "gen_affine x =
    (let y = x; y = rol_byte y;
         x = x XOR y; y = rol_byte y;
         x = x XOR y; y = rol_byte y;
         x = x XOR y; y = rol_byte y
     in x XOR (y XOR 0x63))"

definition gen_sbox_step :: "int list \<Rightarrow> int list \<Rightarrow> byte list \<times> byte list \<Rightarrow> nat \<Rightarrow>
    byte list \<times> byte list" where
  "gen_sbox_step pow log = (\<lambda>(F, R) i.
     let x = gen_affine (pow ! nat (255 - log ! i))
     in (F[i := word_of_int x], R[nat x := word_of_nat i]))"

definition gen_MUL :: "int list \<Rightarrow> int list \<Rightarrow> int \<Rightarrow> int \<Rightarrow> int" where
  "gen_MUL pow log x y =
    (if x \<noteq> 0 \<and> y \<noteq> 0 then pow ! nat ((log ! nat x + log ! nat y) mod 255) else 0)"

text \<open>The entries of \<open>FT0\<close> and \<open>RT0\<close> for an S-box value \<open>x\<close>.\<close>

definition gen_f0 :: "int \<Rightarrow> u32" where
  "gen_f0 x =
    (let y = XTIME x AND 0xFF;
         z = (y XOR x) AND 0xFF
     in word_of_int y XOR push_bit 8 (word_of_int x) XOR push_bit 16 (word_of_int x)
        XOR push_bit 24 (word_of_int z))"

definition gen_r0 :: "int list \<Rightarrow> int list \<Rightarrow> int \<Rightarrow> u32" where
  "gen_r0 pow log x =
    word_of_int (gen_MUL pow log 0x0E x)
    XOR push_bit 8 (word_of_int (gen_MUL pow log 0x09 x))
    XOR push_bit 16 (word_of_int (gen_MUL pow log 0x0D x))
    XOR push_bit 24 (word_of_int (gen_MUL pow log 0x0B x))"

definition gen_round_step :: "int list \<Rightarrow> int list \<Rightarrow> aes_tables \<Rightarrow> nat \<Rightarrow> aes_tables" where
  "gen_round_step pow log T i =
    (let f0 = gen_f0 (uint (tFSb T ! i)); f1 = ROTL8 f0; f2 = ROTL8 f1; f3 = ROTL8 f2;
         r0 = gen_r0 pow log (uint (tRSb T ! i)); r1 = ROTL8 r0; r2 = ROTL8 r1; r3 = ROTL8 r2
     in T\<lparr>tFT0 := (tFT0 T)[i := f0], tFT1 := (tFT1 T)[i := f1],
          tFT2 := (tFT2 T)[i := f2], tFT3 := (tFT3 T)[i := f3],
          tRT0 := (tRT0 T)[i := r0], tRT1 := (tRT1 T)[i := r1],
          tRT2 := (tRT2 T)[i := r2], tRT3 := (tRT3 T)[i := r3]\<rparr>)"

definition gen_tables :: "nat \<Rightarrow> int list \<Rightarrow> int list \<Rightarrow> aes_tables \<Rightarrow> aes_tables" where
  "gen_tables n pow log T =
    (let (pow, log, _) = foldl gen_pow_step (pow, log, 1) [0..<256];
         R = fst (foldl gen_rcon_step (tRCON T, 1) [0..<n]);
         FSb = (tFSb T)[0 := 0x63];
         RSb = (tRSb T)[0x63 := 0];
         (FSb, RSb) = foldl (gen_sbox_step pow log) (FSb, RSb) [1..<256]
     in foldl (gen_round_step pow log) (T\<lparr>tFSb := FSb, tRSb := RSb, tRCON := R\<rparr>) [0..<256])"

definition aes_gen_tables :: "int list \<Rightarrow> int list \<Rightarrow> aes_tables \<Rightarrow> aes_tables" where
  "aes_gen_tables = gen_tables 10"

definition aesx_gen_tables :: "int list \<Rightarrow> int list \<Rightarrow> aes_tables \<Rightarrow> aes_tables" where
  "aesx_gen_tables = gen_tables 16"

section \<open>Powers of the generator and their logarithms\<close>

definition pow_list :: "int list" where
  "pow_list =
     [1, 3, 5, 15, 17, 51, 85, 255, 26, 46, 114, 150, 161, 248, 19, 53,
      95, 225, 56, 72, 216, 115, 149, 164, 247, 2, 6, 10, 30, 34, 102, 170,
      229, 52, 92, 228, 55, 89, 235, 38, 106, 190, 217, 112, 144, 171, 230, 49,
      83, 245, 4, 12, 20, 60, 68, 204, 79, 209, 104, 184, 211, 110, 178, 205,
      76, 212, 103, 169, 224, 59, 77, 215, 98, 166, 241, 8, 24, 40, 120, 136,
      131, 158, 185, 208, 107, 189, 220, 127, 129, 152, 179, 206, 73, 219, 118, 154,
      181, 196, 87, 249, 16, 48, 80, 240, 11, 29, 39, 105, 187, 214, 97, 163,
      254, 25, 43, 125, 135, 146, 173, 236, 47, 113, 147, 174, 233, 32, 96, 160,
      251, 22, 58, 78, 210, 109, 183, 194, 93, 231, 50, 86, 250, 21, 63, 65,
      195, 94, 226, 61, 71, 201, 64, 192, 91, 237, 44, 116, 156, 191, 218, 117,
      159, 186, 213, 100, 172, 239, 42, 126, 130, 157, 188, 223, 122, 142, 137, 128,
      155, 182, 193, 88, 232, 35, 101, 175, 234, 37, 111, 177, 200, 67, 197, 84,
      252, 31, 33, 99, 165, 244, 7, 9, 27, 45, 119, 153, 176, 203, 70, 202,
      69, 207, 74, 222, 121, 139, 134, 145, 168, 227, 62, 66, 198, 81, 243, 14,
      18, 54, 90, 238, 41, 123, 141, 140, 143, 138, 133, 148, 167, 242, 13, 23,
      57, 75, 221, 124, 132, 151, 162, 253, 28, 36, 108, 180, 199, 82, 246, 1]"

definition log_list :: "int list" where
  "log_list =
     [0, 255, 25, 1, 50, 2, 26, 198, 75, 199, 27, 104, 51, 238, 223, 3,
      100, 4, 224, 14, 52, 141, 129, 239, 76, 113, 8, 200, 248, 105, 28, 193,
      125, 194, 29, 181, 249, 185, 39, 106, 77, 228, 166, 114, 154, 201, 9, 120,
      101, 47, 138, 5, 33, 15, 225, 36, 18, 240, 130, 69, 53, 147, 218, 142,
      150, 143, 219, 189, 54, 208, 206, 148, 19, 92, 210, 241, 64, 70, 131, 56,
      102, 221, 253, 48, 191, 6, 139, 98, 179, 37, 226, 152, 34, 136, 145, 16,
      126, 110, 72, 195, 163, 182, 30, 66, 58, 107, 40, 84, 250, 133, 61, 186,
      43, 121, 10, 21, 155, 159, 94, 202, 78, 212, 172, 229, 243, 115, 167, 87,
      175, 88, 168, 80, 244, 234, 214, 116, 79, 174, 233, 213, 231, 230, 173, 232,
      44, 215, 117, 122, 235, 22, 11, 245, 89, 203, 95, 176, 156, 169, 81, 160,
      127, 12, 246, 111, 23, 196, 73, 236, 216, 67, 31, 45, 164, 118, 123, 183,
      204, 187, 62, 90, 251, 96, 177, 134, 59, 82, 161, 108, 170, 85, 41, 157,
      151, 178, 135, 144, 97, 190, 220, 252, 188, 149, 207, 205, 55, 63, 91, 209,
      83, 57, 132, 60, 65, 162, 109, 71, 20, 42, 158, 93, 86, 242, 211, 171,
      68, 17, 146, 217, 35, 32, 46, 137, 180, 124, 184, 38, 119, 153, 227, 165,
      103, 74, 237, 222, 197, 49, 254, 24, 13, 99, 140, 128, 192, 247, 112, 7]"

fun powers :: "nat \<Rightarrow> int \<Rightarrow> int list" where
  "powers 0 x = []"
| "powers (Suc n) x = x # powers n ((x XOR XTIME x) AND 0xFF)"

lemma powers_numeral: "powers (numeral n) x = x # powers (pred_numeral n) ((x XOR XTIME x) AND 0xFF)"
  by (simp add: numeral_eq_Suc)

lemma length_powers [simp]: "length (powers n x) = n"
  by (induction n arbitrary: x) auto

lemma powers_pow_list: "powers 256 1 = pow_list"
  by (simp add: powers_numeral pow_list_def XTIME_def)

lemma length_pow_list [simp]: "length pow_list = 256"
  by (simp add: pow_list_def)

lemma length_log_list [simp]: "length log_list = 256"
  by (simp add: log_list_def)

lemma pow_log: "map (\<lambda>l. pow_list ! nat l) (tl log_list) = map int [1..<256]"
  by (simp add: log_list_def pow_list_def upt_rec)

lemma log_pow: "map (\<lambda>x. log_list ! nat x) (tl pow_list) = map int [1..<256]"
  by (simp add: log_list_def pow_list_def upt_rec)

lemma sbox_affine:
  "map (\<lambda>l. word_of_int (gen_affine (pow_list ! nat (255 - l)))) (tl log_list) = tl FSb"
  by (simp add: log_list_def pow_list_def FSb_def gen_affine_def rol_byte_def)

lemma round_f0: "map (\<lambda>s. gen_f0 (uint s)) FSb = FT0"
  by (simp add: FSb_def FT0_def FT_def V_def gen_f0_def XTIME_def)

text \<open>Multiplying by a constant rotates the list of powers.\<close>

lemma mul_rotates:
  "map (\<lambda>x. uint (mulE (word_of_int x))) (take 255 pow_list) = drop 223 (take 255 pow_list) @ take 223 pow_list"
  "map (\<lambda>x. uint (mul9 (word_of_int x))) (take 255 pow_list) = drop 199 (take 255 pow_list) @ take 199 pow_list"
  "map (\<lambda>x. uint (mulD (word_of_int x))) (take 255 pow_list) = drop 238 (take 255 pow_list) @ take 238 pow_list"
  "map (\<lambda>x. uint (mulB (word_of_int x))) (take 255 pow_list) = drop 104 (take 255 pow_list) @ take 104 pow_list"
  by (simp_all add: pow_list_def mulE_def mul9_def mulD_def mulB_def xt_def)

lemma nth_tl_Suc: "1 \<le> k \<Longrightarrow> k < length xs \<Longrightarrow> tl xs ! (k - 1) = xs ! k"
  by (simp add: nth_tl)

lemma log_pow_nth:
  assumes "1 \<le> k" "k < 256"
  shows "log_list ! nat (pow_list ! k) = int k"
proof -
  have k1: "k - 1 < length (tl pow_list)" using assms by simp
  have "map (\<lambda>x. log_list ! nat x) (tl pow_list) ! (k - 1) = map int [1..<256] ! (k - 1)"
    by (simp only: log_pow)
  moreover have "map int [1..<256] ! (k - 1) = int k" using assms by (subst nth_map) simp_all
  ultimately have "log_list ! nat (tl pow_list ! (k - 1)) = int k" by (simp only: nth_map [OF k1])
  then show ?thesis using assms nth_tl_Suc [of k pow_list] by simp
qed

lemma pow_log_nth:
  assumes "1 \<le> v" "v < 256"
  shows "pow_list ! nat (log_list ! nat v) = v"
proof -
  obtain k where k: "v = int k" "1 \<le> k" "k < 256"
    using assms by (metis nat_0_le nat_less_iff nat_mono nat_one_as_int of_nat_numeral
        order.trans zero_le_one nat_1)
  have k1: "k - 1 < length (tl log_list)" using k by simp
  have "map (\<lambda>x. pow_list ! nat x) (tl log_list) ! (k - 1) = map int [1..<256] ! (k - 1)"
    by (simp only: pow_log)
  moreover have "map int [1..<256] ! (k - 1) = int k" using k by (subst nth_map) simp_all
  ultimately have "pow_list ! nat (tl log_list ! (k - 1)) = int k" by (simp only: nth_map [OF k1])
  then show ?thesis using k nth_tl_Suc [of k log_list] by simp
qed

lemma log_list_range: "1 \<le> v \<Longrightarrow> v < 256 \<Longrightarrow> 1 \<le> log_list ! nat v \<and> log_list ! nat v < 256"
proof -
  have "list_all (\<lambda>l. 1 \<le> l \<and> l < 256) (tl log_list)" by (simp add: log_list_def)
  then show "1 \<le> v \<Longrightarrow> v < 256 \<Longrightarrow> ?thesis"
    by (auto simp: list_all_length nth_tl nat_less_iff dest!: spec [of _ "nat v - 1"])
qed

lemma pow_list_nonzero: "k < 256 \<Longrightarrow> 1 \<le> pow_list ! k \<and> pow_list ! k < 256"
proof -
  have "list_all (\<lambda>x. 1 \<le> x \<and> x < 256) pow_list" by (simp add: pow_list_def)
  then show "k < 256 \<Longrightarrow> ?thesis" by (simp add: list_all_length)
qed

lemma gen_MUL_rotate:
  assumes v: "1 \<le> v" "v < 256" and m: "m \<noteq> 0" "log_list ! nat m = int n" "n < 255"
    and rot: "map h (take 255 pow_list) = drop n (take 255 pow_list) @ take n pow_list"
  shows "gen_MUL pow_list log_list m v = h v"
proof -
  let ?k = "nat (log_list ! nat v) mod 255"
  have k: "?k < 255" by simp
  have p: "pow_list ! ?k = v"
  proof (cases "log_list ! nat v = 255")
    case True
    then have "pow_list ! 255 = v" using pow_log_nth [OF v] by simp
    moreover have "pow_list ! 255 = pow_list ! 0" by (simp add: pow_list_def)
    ultimately show ?thesis using True by simp
  next
    case False
    then have "nat (log_list ! nat v) < 255" using log_list_range [OF v] by auto
    then show ?thesis using pow_log_nth [OF v] by simp
  qed
  have "drop n (take 255 pow_list) @ take n pow_list = rotate n (take 255 pow_list)"
    using m(3) by (simp add: rotate_drop_take min_def)
  then have "map h (take 255 pow_list) ! ?k = rotate n (take 255 pow_list) ! ?k"
    using rot by simp
  then have "h v = pow_list ! ((n + ?k) mod 255)"
    using k by (simp add: nth_rotate p)
  moreover have "nat ((log_list ! nat m + log_list ! nat v) mod 255) = (n + ?k) mod 255"
    using log_list_range [OF v] m(2)
    by (simp add: nat_mod_distrib nat_add_distrib mod_add_right_eq)
  ultimately show ?thesis using v m(1) by (simp add: gen_MUL_def)
qed

lemma gen_MUL_byte:
  "gen_MUL pow_list log_list 0x0E (uint r) = uint (mulE r)"
  "gen_MUL pow_list log_list 0x09 (uint r) = uint (mul9 r)"
  "gen_MUL pow_list log_list 0x0D (uint r) = uint (mulD r)"
  "gen_MUL pow_list log_list 0x0B (uint r) = uint (mulB r)"
proof -
  have log: "log_list ! nat 14 = 223" "log_list ! nat 9 = 199" "log_list ! nat 13 = 238" "log_list ! nat 11 = 104"
    by (simp_all add: log_list_def)
  have r: "1 \<le> uint r" "uint r < 256" if "r \<noteq> 0" for r :: byte
    using that by (simp_all add: uint_0_iff int_one_le_iff_zero_less order_less_le [of 0] eq_commute [of 0])
  note M = gen_MUL_rotate [of "uint r"]
  show "gen_MUL pow_list log_list 0x0E (uint r) = uint (mulE r)"
    using M [OF r _ _ _ mul_rotates(1)] log by (cases "r = 0") (simp_all add: gen_MUL_def mulE_def xt_def)
  show "gen_MUL pow_list log_list 0x09 (uint r) = uint (mul9 r)"
    using M [OF r _ _ _ mul_rotates(2)] log by (cases "r = 0") (simp_all add: gen_MUL_def mul9_def xt_def)
  show "gen_MUL pow_list log_list 0x0D (uint r) = uint (mulD r)"
    using M [OF r _ _ _ mul_rotates(3)] log by (cases "r = 0") (simp_all add: gen_MUL_def mulD_def xt_def)
  show "gen_MUL pow_list log_list 0x0B (uint r) = uint (mulB r)"
    using M [OF r _ _ _ mul_rotates(4)] log by (cases "r = 0") (simp_all add: gen_MUL_def mulB_def xt_def)
qed

lemma word_of_int_byte: "(word_of_int (uint (b :: byte)) :: u32) = ucast b"
  by simp

lemma gen_r0_V: "gen_r0 pow_list log_list (uint r) = V (mulB r) (mulD r) (mul9 r) (mulE r)"
  unfolding gen_r0_def gen_MUL_byte word_of_int_byte by (rule bytes_xor_V)

lemma round_r0: "map (\<lambda>r. gen_r0 pow_list log_list (uint r)) RSb = RT0"
  unfolding gen_r0_V RT0_def RT_RSb by simp

lemma ROTL8_V: "ROTL8 (V a b c d) = V b c d a"
  by (rule bit_word_eqI) (auto simp: bit_V ROTL8_def bit_simps)

lemma round_rotations:
  "map ROTL8 FT0 = FT1" "map ROTL8 FT1 = FT2" "map ROTL8 FT2 = FT3"
  "map ROTL8 RT0 = RT1" "map ROTL8 RT1 = RT2" "map ROTL8 RT2 = RT3"
  by (auto simp: FT0_def FT1_def FT2_def FT3_def RT0_def RT1_def RT2_def RT3_def ROTL8_V)

section \<open>The loops\<close>

definition pow_seq :: "nat \<Rightarrow> int" where
  "pow_seq k = ((\<lambda>x. (x XOR XTIME x) AND 0xFF) ^^ k) 1"

lemma nth_powers: "k < n \<Longrightarrow> powers n x ! k = ((\<lambda>x. (x XOR XTIME x) AND 0xFF) ^^ k) x"
proof (induction n arbitrary: k x)
  case (Suc n)
  then show ?case by (cases k) (simp_all add: funpow_Suc_right del: funpow.simps)
qed simp

lemma pow_seq_list: "k < 256 \<Longrightarrow> pow_seq k = pow_list ! k"
  using nth_powers [of k 256 1] by (simp add: pow_seq_def powers_pow_list)

lemma pow_loop:
  "foldl gen_pow_step (p, l, 1) [0..<n] =
    (foldl (\<lambda>p k. p[k := pow_seq k]) p [0..<n],
     foldl (\<lambda>l k. l[nat (pow_seq k) := int k]) l [0..<n], pow_seq n)"
  by (induction n) (simp_all add: gen_pow_step_def pow_seq_def)

text \<open>
  The power table comes out complete; the logarithm of every nonzero byte comes out, that
  of 1 as 255 because the last step overwrites the first. The entry for zero keeps its
  uninitialised value and is never read.
\<close>

lemma foldl_cong_upt:
  "(\<And>k a. k < n \<Longrightarrow> f a k = g a k) \<Longrightarrow> foldl f a [0..<n] = foldl g a [0..<n]"
  by (rule foldl_cong) auto

lemma pow_table:
  "length p = 256 \<Longrightarrow> foldl (\<lambda>p k. p[k := pow_seq k]) p [0..<256] = pow_list"
  by (subst scatter_upt) (auto intro: nth_equalityI simp: pow_seq_list)

lemma log_table:
  assumes "length l = 256" "1 \<le> v" "v < 256"
  shows "foldl (\<lambda>l k. l[nat (pow_seq k) := int k]) l [0..<256] ! nat v = log_list ! nat v"
proof -
  let ?k = "nat (log_list ! nat v)"
  have up: "[0..<256] = 0 # [1..<256 :: nat]" by (simp add: upt_rec)
  have "inj_on (\<lambda>k. nat (pow_seq k)) (set [1..<256])"
    by (rule inj_on_inverseI [where g = "\<lambda>x. nat (log_list ! x)"])
      (simp add: pow_seq_list log_pow_nth)
  moreover have "nat (pow_seq k) < length (l[nat (pow_seq 0) := 0])" if "k \<in> set [1..<256]" for k
    using that pow_list_nonzero [of k] assms(1) by (simp add: pow_seq_list nat_less_iff)
  moreover have "?k \<in> set [1..<256]" using log_list_range [OF assms(2,3)] by (auto simp: nat_less_iff)
  ultimately have "foldl (\<lambda>l k. l[nat (pow_seq k) := int k]) (l[nat (pow_seq 0) := 0]) [1..<256]
      ! nat (pow_seq ?k) = int ?k"
    by (rule scatter_nth)
  moreover have "pow_seq ?k = v"
    using pow_log_nth [OF assms(2,3)] log_list_range [OF assms(2,3)] by (simp add: pow_seq_list nat_less_iff)
  ultimately show ?thesis
    using log_list_range [OF assms(2,3)] unfolding up by simp
qed

definition log_ok :: "int list \<Rightarrow> bool" where
  "log_ok log \<longleftrightarrow> length log = 256 \<and> (\<forall>v \<in> {1..<256}. log ! nat v = log_list ! nat v)"

lemma pow_log_loop:
  assumes "length p = 256" "length l = 256"
  obtains log x where "foldl gen_pow_step (p, l, 1) [0..<256] = (pow_list, log, x)" "log_ok log"
  using assms by (simp add: pow_loop pow_table log_ok_def log_table)

lemma gen_MUL_log_ok:
  "log_ok log \<Longrightarrow> m \<in> {1..<256} \<Longrightarrow> v \<in> {0..<256} \<Longrightarrow>
    gen_MUL pow_list log m v = gen_MUL pow_list log_list m v"
  by (cases "v = 0") (auto simp: gen_MUL_def log_ok_def)

lemma gen_r0_log_ok:
  "log_ok log \<Longrightarrow> gen_r0 pow_list log (uint (r :: byte)) = gen_r0 pow_list log_list (uint r)"
proof -
  assume "log_ok log"
  moreover have "uint r \<in> {0..<256}" by simp
  ultimately show ?thesis by (simp add: gen_r0_def gen_MUL_log_ok)
qed

lemma rcon_loop: "fst (foldl gen_rcon_step (R, 1) [0..<n]) =
    foldl (\<lambda>R k. R[k := word_of_int (((\<lambda>x. XTIME x AND 0xFF) ^^ k) 1)]) R [0..<n]"
proof -
  have "foldl gen_rcon_step (R, 1) [0..<n] =
    (foldl (\<lambda>R k. R[k := word_of_int (((\<lambda>x. XTIME x AND 0xFF) ^^ k) 1)]) R [0..<n],
     ((\<lambda>x. XTIME x AND 0xFF) ^^ n) 1)"
    by (induction n) (simp_all add: gen_rcon_step_def)
  then show ?thesis by simp
qed

fun doublings :: "nat \<Rightarrow> int \<Rightarrow> int list" where
  "doublings 0 x = []"
| "doublings (Suc n) x = x # doublings n (XTIME x AND 0xFF)"

lemma doublings_numeral: "doublings (numeral n) x = x # doublings (pred_numeral n) (XTIME x AND 0xFF)"
  by (simp add: numeral_eq_Suc)

lemma doublings_funpow: "map (\<lambda>k. ((\<lambda>x. XTIME x AND 0xFF) ^^ k) x) [0..<n] = doublings n x"
proof (induction n arbitrary: x)
  case (Suc n)
  let ?f = "\<lambda>x. XTIME x AND 0xFF"
  have "[0..<Suc n] = 0 # map Suc [0..<n]" by (simp only: map_Suc_upt upt_conv_Cons zero_less_Suc)
  then have "map (\<lambda>k. (?f ^^ k) x) [0..<Suc n] = x # map (\<lambda>k. (?f ^^ Suc k) x) [0..<n]"
    by (simp only: list.map map_map o_def funpow_0)
  also have "\<dots> = x # map (\<lambda>k. (?f ^^ k) (?f x)) [0..<n]"
    by (simp only: funpow_Suc_right o_apply)
  finally show ?case by (simp only: Suc doublings.simps)
qed simp

lemma doublings_map:
  "map (\<lambda>k. word_of_int (((\<lambda>x. XTIME x AND 0xFF) ^^ k) x)) [0..<n] = map word_of_int (doublings n x)"
  by (simp add: doublings_funpow [symmetric])

lemma rcon_table:
  "length R = 10 \<Longrightarrow> fst (foldl gen_rcon_step (R, 1) [0..<10]) = RCON"
  "length R = 16 \<Longrightarrow> fst (foldl gen_rcon_step (R, 1) [0..<16]) = AESX_RCON"
  unfolding rcon_loop
  by (simp_all add: scatter_upt doublings_map)
    (simp_all add: doublings_numeral RCON_def AESX_RCON_def XTIME_def)

text \<open>The S-box loop.\<close>

lemma affine_nth:
  assumes "1 \<le> k" "k < 256"
  shows "word_of_int (gen_affine (pow_list ! nat (255 - log_list ! k))) = FSb ! k"
proof -
  have k1: "k - 1 < length (tl log_list)" using assms by simp
  have "map (\<lambda>l. word_of_int (gen_affine (pow_list ! nat (255 - l)))) (tl log_list) ! (k - 1) =
      tl FSb ! (k - 1)"
    by (simp only: sbox_affine)
  then show ?thesis
    using assms nth_tl_Suc [of k log_list] nth_tl_Suc [of k FSb] by (simp only: nth_map [OF k1]) simp
qed

text \<open>\<open>gen_affine\<close> returns a byte, so storing it as an \<open>unsigned char\<close> loses nothing.\<close>

lemma rol_byte_range: "0 \<le> x \<Longrightarrow> 0 \<le> rol_byte x \<and> rol_byte x < 256"
proof -
  have "y AND 255 = y mod 256" for y :: int
    using take_bit_eq_mask [of 8 y] by (simp add: take_bit_eq_mod mask_eq_exp_minus_1)
  then show ?thesis by (simp add: rol_byte_def)
qed

lemma gen_affine_range:
  assumes "0 \<le> x" "x < 256"
  shows "0 \<le> gen_affine x \<and> gen_affine x < 256"
proof -
  have x8: "0 \<le> a XOR b \<and> a XOR b < 256" if "0 \<le> a \<and> a < 256" "0 \<le> b \<and> b < 256" for a b :: int
    using that XOR_upper [of a 8 b] by simp
  let ?a = "rol_byte x" let ?b = "rol_byte ?a" let ?c = "rol_byte ?b" let ?d = "rol_byte ?c"
  have r: "0 \<le> ?a \<and> ?a < 256" "0 \<le> ?b \<and> ?b < 256" "0 \<le> ?c \<and> ?c < 256" "0 \<le> ?d \<and> ?d < 256"
    using assms rol_byte_range by auto
  have "0 \<le> x XOR ?a \<and> x XOR ?a < 256" by (rule x8 [OF _ r(1)]) (simp add: assms)
  then have "0 \<le> (x XOR ?a) XOR ?b \<and> (x XOR ?a) XOR ?b < 256" using r(2) by (rule x8)
  then have "0 \<le> ((x XOR ?a) XOR ?b) XOR ?c \<and> ((x XOR ?a) XOR ?b) XOR ?c < 256" using r(3) by (rule x8)
  moreover have "0 \<le> ?d XOR 0x63 \<and> ?d XOR 0x63 < 256" using r(4) by (rule x8) simp
  ultimately have "0 \<le> (((x XOR ?a) XOR ?b) XOR ?c) XOR (?d XOR 0x63) \<and>
      (((x XOR ?a) XOR ?b) XOR ?c) XOR (?d XOR 0x63) < 256" by (rule x8)
  then show ?thesis by (simp only: gen_affine_def Let_def)
qed

lemma gen_affine_uint:
  assumes "log_ok log" "k \<in> {1..<256}"
  shows "gen_affine (pow_list ! nat (255 - log ! k)) = uint (FSb ! k)"
proof -
  have l: "log ! k = log_list ! k" "1 \<le> log_list ! k" "log_list ! k < 256"
    using assms log_list_range [of "int k"] by (auto simp: log_ok_def dest!: bspec [of _ _ "int k"])
  let ?x = "gen_affine (pow_list ! nat (255 - log ! k))"
  have "nat (255 - log ! k) < 256" using l by auto
  then have "0 \<le> ?x \<and> ?x < 256"
    using pow_list_nonzero [of "nat (255 - log ! k)"] by (intro gen_affine_range) auto
  moreover have "FSb ! k = word_of_int ?x" using affine_nth [of k] assms l by simp
  ultimately show ?thesis by (simp add: uint_word_of_int_eq take_bit_int_eq_self)
qed

lemma sbox_loop:
  assumes "log_ok log" "n \<le> 256" "1 \<le> n"
  shows "foldl (gen_sbox_step pow_list log) (F[0 := 0x63], R[0x63 := 0]) [1..<n] =
    (foldl (\<lambda>l k. l[k := FSb ! k]) F [0..<n],
     foldl (\<lambda>l k. l[unat (FSb ! k) := word_of_nat k]) R [0..<n])"
  using assms(3,2)
proof (induction n rule: dec_induct)
  case base
  have "FSb ! 0 = 0x63" by (simp add: FSb_def)
  then show ?case by simp
next
  case (step n)
  then have "gen_affine (pow_list ! nat (255 - log ! n)) = uint (FSb ! n)"
    by (intro gen_affine_uint [OF assms(1)]) simp
  then show ?case using step by (simp add: gen_sbox_step_def Let_def)
qed

lemma RSb_FSb: "k < 256 \<Longrightarrow> RSb ! unat (FSb ! k) = word_of_nat k"
  using arg_cong [OF sbox_inverse, of "\<lambda>l. l ! k"] by simp

lemma FSb_RSb: "k < 256 \<Longrightarrow> FSb ! unat (RSb ! k) = word_of_nat k"
  using arg_cong [OF inverse_sbox, of "\<lambda>l. l ! k"] by simp

lemma sbox_tables:
  assumes "length F = 256" "length R = 256"
  shows "foldl (\<lambda>l k. l[k := FSb ! k]) F [0..<256] = FSb"
    and "foldl (\<lambda>l k. l[unat (FSb ! k) := word_of_nat k]) R [0..<256] = RSb"
proof -
  show "foldl (\<lambda>l k. l[k := FSb ! k]) F [0..<256] = FSb"
    using assms by (subst scatter_upt) (auto intro: nth_equalityI)
  have inj: "inj_on (\<lambda>k. unat (FSb ! k)) (set [0..<256])"
    by (rule inj_on_inverseI [where g = "\<lambda>x. unat (RSb ! x)"]) (simp add: RSb_FSb unat_of_nat)
  show "foldl (\<lambda>l k. l[unat (FSb ! k) := word_of_nat k]) R [0..<256] = RSb" (is "?l = _")
  proof (rule nth_equalityI)
    show "length ?l = length RSb" using assms by simp
  next
    fix j assume "j < length ?l"
    then have j: "j < 256" using assms by simp
    let ?k = "unat (RSb ! j)"
    have "unat (FSb ! ?k) = j" using j by (simp add: FSb_RSb unat_of_nat)
    moreover have "?l ! unat (FSb ! ?k) = word_of_nat ?k"
      using inj assms by (intro scatter_nth) auto
    ultimately show "?l ! j = RSb ! j" by simp
  qed
qed

text \<open>The loop over the round tables.\<close>

lemma round_loop:
  "foldl (gen_round_step pow log) T [0..<n] =
    T\<lparr>tFT0 := foldl (\<lambda>l k. l[k := gen_f0 (uint (tFSb T ! k))]) (tFT0 T) [0..<n],
      tFT1 := foldl (\<lambda>l k. l[k := ROTL8 (gen_f0 (uint (tFSb T ! k)))]) (tFT1 T) [0..<n],
      tFT2 := foldl (\<lambda>l k. l[k := ROTL8 (ROTL8 (gen_f0 (uint (tFSb T ! k))))]) (tFT2 T) [0..<n],
      tFT3 := foldl (\<lambda>l k. l[k := ROTL8 (ROTL8 (ROTL8 (gen_f0 (uint (tFSb T ! k)))))]) (tFT3 T) [0..<n],
      tRT0 := foldl (\<lambda>l k. l[k := gen_r0 pow log (uint (tRSb T ! k))]) (tRT0 T) [0..<n],
      tRT1 := foldl (\<lambda>l k. l[k := ROTL8 (gen_r0 pow log (uint (tRSb T ! k)))]) (tRT1 T) [0..<n],
      tRT2 := foldl (\<lambda>l k. l[k := ROTL8 (ROTL8 (gen_r0 pow log (uint (tRSb T ! k))))]) (tRT2 T) [0..<n],
      tRT3 := foldl (\<lambda>l k. l[k := ROTL8 (ROTL8 (ROTL8 (gen_r0 pow log (uint (tRSb T ! k)))))]) (tRT3 T) [0..<n]\<rparr>"
  by (induction n) (simp_all add: gen_round_step_def Let_def)

lemma map_entries:
  "length l = 256 \<Longrightarrow> length S = 256 \<Longrightarrow> map f S = t \<Longrightarrow> foldl (\<lambda>l k. l[k := f (S ! k)]) l [0..<256] = t"
  by (subst scatter_upt) (auto intro: nth_equalityI)

lemma round_tables:
  assumes "length l = 256"
  shows "foldl (\<lambda>l k. l[k := gen_f0 (uint (FSb ! k))]) l [0..<256] = FT0"
    and "foldl (\<lambda>l k. l[k := ROTL8 (gen_f0 (uint (FSb ! k)))]) l [0..<256] = FT1"
    and "foldl (\<lambda>l k. l[k := ROTL8 (ROTL8 (gen_f0 (uint (FSb ! k))))]) l [0..<256] = FT2"
    and "foldl (\<lambda>l k. l[k := ROTL8 (ROTL8 (ROTL8 (gen_f0 (uint (FSb ! k)))))]) l [0..<256] = FT3"
    and "foldl (\<lambda>l k. l[k := gen_r0 pow_list log_list (uint (RSb ! k))]) l [0..<256] = RT0"
    and "foldl (\<lambda>l k. l[k := ROTL8 (gen_r0 pow_list log_list (uint (RSb ! k)))]) l [0..<256] = RT1"
    and "foldl (\<lambda>l k. l[k := ROTL8 (ROTL8 (gen_r0 pow_list log_list (uint (RSb ! k))))]) l [0..<256]
      = RT2"
    and "foldl (\<lambda>l k. l[k := ROTL8 (ROTL8 (ROTL8 (gen_r0 pow_list log_list (uint (RSb ! k)))))]) l
      [0..<256] = RT3"
  by (rule map_entries [OF assms length_FSb] map_entries [OF assms length_RSb],
      simp only: o_def map_map round_rotations [symmetric] round_f0 [symmetric] round_r0 [symmetric])+

definition tables_shape :: "nat \<Rightarrow> aes_tables \<Rightarrow> bool" where
  "tables_shape n T \<longleftrightarrow>
     length (tFSb T) = 256 \<and> length (tFT0 T) = 256 \<and> length (tFT1 T) = 256 \<and> length (tFT2 T) = 256
     \<and> length (tFT3 T) = 256 \<and> length (tRSb T) = 256 \<and> length (tRT0 T) = 256 \<and> length (tRT1 T) = 256
     \<and> length (tRT2 T) = 256 \<and> length (tRT3 T) = 256 \<and> length (tRCON T) = n"

lemma gen_tables_rom:
  assumes T: "tables_shape n T" and "length p = 256" "length l = 256"
    and R: "\<And>R. length R = n \<Longrightarrow> fst (foldl gen_rcon_step (R, 1) [0..<n]) = rc"
  shows "gen_tables n p l T = rom_tables\<lparr>tRCON := rc\<rparr>"
proof -
  obtain log x where l: "foldl gen_pow_step (p, l, 1) [0..<256] = (pow_list, log, x)" "log_ok log"
    using pow_log_loop [OF assms(2,3)] by blast
  let ?S = "T\<lparr>tFSb := FSb, tRSb := RSb, tRCON := rc\<rparr>"
  have len: "length (tFSb T) = 256" "length (tRSb T) = 256"
    using T by (simp_all add: tables_shape_def)
  have "foldl (gen_sbox_step pow_list log) ((tFSb T)[0 := 0x63], (tRSb T)[0x63 := 0]) [1..<256] = (FSb, RSb)"
    by (subst sbox_loop [OF l(2)]) (simp_all add: sbox_tables [OF len])
  then have "gen_tables n p l T = foldl (gen_round_step pow_list log) ?S [0..<256]"
    using T by (simp add: gen_tables_def l(1) R tables_shape_def)
  also have "\<dots> = rom_tables\<lparr>tRCON := rc\<rparr>"
    unfolding round_loop gen_r0_log_ok [OF l(2)]
    using T by (simp add: tables_shape_def rom_tables_def round_tables)
  finally show ?thesis .
qed

end
