(* ===== verification/Aes.thy ===== *)
theory Aes
  imports Aes_Gen
begin

unbundle bit_operations_syntax

text \<open>
  The block cipher of \<open>Crypto/C-Code/AES256/aes.c\<close>: key schedules, ECB and CBC. The
  tables are an argument (\<open>rom_tables\<close> for the configuration of the repository). A round
  key pointer \<open>RK\<close> is the list of the words from it on, or an index into the schedule
  \<open>buf\<close> where the code writes through it; \<open>rk\<close> is an offset in \<open>buf\<close>.
\<close>

section \<open>The context\<close>

record aes_context =
  nr :: int
  rk :: nat
  buf :: "u32 list"

definition AES_ENCRYPT :: int where
  "AES_ENCRYPT = 1"

definition AES_DECRYPT :: int where
  "AES_DECRYPT = 0"

definition POLARSSL_ERR_AES_INVALID_KEY_LENGTH :: int where
  "POLARSSL_ERR_AES_INVALID_KEY_LENGTH = - 0x0800"

definition POLARSSL_ERR_AES_INVALID_INPUT_LENGTH :: int where
  "POLARSSL_ERR_AES_INVALID_INPUT_LENGTH = - 0x0810"

text \<open>\<open>( Y >> s ) & 0xFF\<close> as an index.\<close>

definition idx :: "u32 \<Rightarrow> nat \<Rightarrow> nat" where
  "idx y s = unat (drop_bit s y AND 0xFF)"

section \<open>Encryption key schedule\<close>

text \<open>The S-box applied to the four bytes of a schedule word, rotated or in place.\<close>

definition sub_rot_word :: "aes_tables \<Rightarrow> u32 \<Rightarrow> u32" where
  "sub_rot_word T w =
     ucast (tFSb T ! idx w 8) XOR
     push_bit 8 (ucast (tFSb T ! idx w 16)) XOR
     push_bit 16 (ucast (tFSb T ! idx w 24)) XOR
     push_bit 24 (ucast (tFSb T ! idx w 0))"

definition sub_word :: "aes_tables \<Rightarrow> u32 \<Rightarrow> u32" where
  "sub_word T w =
     ucast (tFSb T ! idx w 0) XOR
     push_bit 8 (ucast (tFSb T ! idx w 8)) XOR
     push_bit 16 (ucast (tFSb T ! idx w 16)) XOR
     push_bit 24 (ucast (tFSb T ! idx w 24))"

text \<open>One pass of the loops of the three cases, \<open>RK\<close> at index \<open>p\<close>.\<close>

definition expand_128 :: "aes_tables \<Rightarrow> u32 list \<Rightarrow> nat \<Rightarrow> u32 list" where
  "expand_128 T B i =
    (let p = 4 * i;
         B = B[p + 4 := B ! p XOR tRCON T ! i XOR sub_rot_word T (B ! (p + 3))];
         B = B[p + 5 := B ! (p + 1) XOR B ! (p + 4)];
         B = B[p + 6 := B ! (p + 2) XOR B ! (p + 5)]
     in B[p + 7 := B ! (p + 3) XOR B ! (p + 6)])"

definition expand_192 :: "aes_tables \<Rightarrow> u32 list \<Rightarrow> nat \<Rightarrow> u32 list" where
  "expand_192 T B i =
    (let p = 6 * i;
         B = B[p + 6 := B ! p XOR tRCON T ! i XOR sub_rot_word T (B ! (p + 5))];
         B = B[p + 7 := B ! (p + 1) XOR B ! (p + 6)];
         B = B[p + 8 := B ! (p + 2) XOR B ! (p + 7)];
         B = B[p + 9 := B ! (p + 3) XOR B ! (p + 8)];
         B = B[p + 10 := B ! (p + 4) XOR B ! (p + 9)]
     in B[p + 11 := B ! (p + 5) XOR B ! (p + 10)])"

definition expand_256 :: "aes_tables \<Rightarrow> u32 list \<Rightarrow> nat \<Rightarrow> u32 list" where
  "expand_256 T B i =
    (let p = 8 * i;
         B = B[p + 8 := B ! p XOR tRCON T ! i XOR sub_rot_word T (B ! (p + 7))];
         B = B[p + 9 := B ! (p + 1) XOR B ! (p + 8)];
         B = B[p + 10 := B ! (p + 2) XOR B ! (p + 9)];
         B = B[p + 11 := B ! (p + 3) XOR B ! (p + 10)];
         B = B[p + 12 := B ! (p + 4) XOR sub_word T (B ! (p + 11))];
         B = B[p + 13 := B ! (p + 5) XOR B ! (p + 12)];
         B = B[p + 14 := B ! (p + 6) XOR B ! (p + 13)]
     in B[p + 15 := B ! (p + 7) XOR B ! (p + 14)])"

definition load_key :: "byte list \<Rightarrow> u32 list \<Rightarrow> nat \<Rightarrow> u32 list" where
  "load_key key B i = B[i := get_ulong_le key (4 * i)]"

definition aes_setkey_enc :: "aes_tables \<Rightarrow> aes_context \<Rightarrow> byte list \<Rightarrow> int \<Rightarrow> aes_context \<times> int" where
  "aes_setkey_enc T ctx key keysize =
    (if keysize \<noteq> 128 \<and> keysize \<noteq> 192 \<and> keysize \<noteq> 256
     then (ctx, POLARSSL_ERR_AES_INVALID_KEY_LENGTH)
     else
       let ctx = ctx\<lparr>nr := (if keysize = 128 then 10 else if keysize = 192 then 12 else 14)\<rparr>;
           ctx = ctx\<lparr>rk := 0\<rparr>;
           B = foldl (load_key key) (buf ctx) [0..<nat (drop_bit 5 keysize)];
           B = (if nr ctx = 10 then foldl (expand_128 T) B [0..<10]
                else if nr ctx = 12 then foldl (expand_192 T) B [0..<8]
                else if nr ctx = 14 then foldl (expand_256 T) B [0..<7]
                else B)
       in (ctx\<lparr>buf := B\<rparr>, 0))"

section \<open>Decryption key schedule\<close>

definition inv_mix_word :: "aes_tables \<Rightarrow> u32 \<Rightarrow> u32" where
  "inv_mix_word T w =
     tRT0 T ! unat (tFSb T ! idx w 0) XOR
     tRT1 T ! unat (tFSb T ! idx w 8) XOR
     tRT2 T ! unat (tFSb T ! idx w 16) XOR
     tRT3 T ! unat (tFSb T ! idx w 24)"

text \<open>\<open>*RK++ = *SK++\<close>, four times.\<close>

definition copy_4 :: "u32 list \<Rightarrow> nat \<Rightarrow> u32 list \<Rightarrow> nat \<Rightarrow> u32 list" where
  "copy_4 B RK S SK = B[RK := S ! SK, RK + 1 := S ! (SK + 1), RK + 2 := S ! (SK + 2), RK + 3 := S ! (SK + 3)]"

fun dec_rounds :: "aes_tables \<Rightarrow> u32 list \<Rightarrow> nat \<Rightarrow> nat \<Rightarrow> u32 list \<Rightarrow> nat \<Rightarrow> u32 list \<times> nat \<times> nat" where
  "dec_rounds T S 0 SK B RK = (B, SK, RK)"
| "dec_rounds T S (Suc i) SK B RK =
    dec_rounds T S i (SK + 4 - 8)
      (foldl (\<lambda>B j. B[RK + j := inv_mix_word T (S ! (SK + j))]) B [0..<4]) (RK + 4)"

text \<open>\<open>cty\<close> is the uninitialised automatic context the encryption schedule is built in.\<close>

definition aes_setkey_dec :: "aes_tables \<Rightarrow> aes_context \<Rightarrow> aes_context \<Rightarrow> byte list \<Rightarrow> int \<Rightarrow>
    aes_context \<times> int" where
  "aes_setkey_dec T cty ctx key keysize =
    (if keysize \<noteq> 128 \<and> keysize \<noteq> 192 \<and> keysize \<noteq> 256
     then (ctx, POLARSSL_ERR_AES_INVALID_KEY_LENGTH)
     else
       let ctx = ctx\<lparr>nr := (if keysize = 128 then 10 else if keysize = 192 then 12 else 14)\<rparr>;
           ctx = ctx\<lparr>rk := 0\<rparr>;
           (cty, ret) = aes_setkey_enc T cty key keysize
       in if ret \<noteq> 0 then (ctx, ret)
          else
            let S = drop (rk cty) (buf cty);
                SK = nat (nr cty) * 4;
                B = copy_4 (buf ctx) 0 S SK;
                (B, SK, RK) = dec_rounds T S (nat (nr ctx - 1)) (SK + 4 - 8) B 4;
                B = copy_4 B RK S SK
            in (ctx\<lparr>buf := B\<rparr>, 0))"

section \<open>Blocks\<close>

type_synonym block = "u32 \<times> u32 \<times> u32 \<times> u32"

definition AES_FROUND :: "aes_tables \<Rightarrow> u32 list \<Rightarrow> block \<Rightarrow> block" where
  "AES_FROUND T RK = (\<lambda>(Y0, Y1, Y2, Y3).
    (RK ! 0 XOR tFT0 T ! idx Y0 0 XOR tFT1 T ! idx Y1 8 XOR tFT2 T ! idx Y2 16 XOR tFT3 T ! idx Y3 24,
     RK ! 1 XOR tFT0 T ! idx Y1 0 XOR tFT1 T ! idx Y2 8 XOR tFT2 T ! idx Y3 16 XOR tFT3 T ! idx Y0 24,
     RK ! 2 XOR tFT0 T ! idx Y2 0 XOR tFT1 T ! idx Y3 8 XOR tFT2 T ! idx Y0 16 XOR tFT3 T ! idx Y1 24,
     RK ! 3 XOR tFT0 T ! idx Y3 0 XOR tFT1 T ! idx Y0 8 XOR tFT2 T ! idx Y1 16 XOR tFT3 T ! idx Y2 24))"

definition AES_RROUND :: "aes_tables \<Rightarrow> u32 list \<Rightarrow> block \<Rightarrow> block" where
  "AES_RROUND T RK = (\<lambda>(Y0, Y1, Y2, Y3).
    (RK ! 0 XOR tRT0 T ! idx Y0 0 XOR tRT1 T ! idx Y3 8 XOR tRT2 T ! idx Y2 16 XOR tRT3 T ! idx Y1 24,
     RK ! 1 XOR tRT0 T ! idx Y1 0 XOR tRT1 T ! idx Y0 8 XOR tRT2 T ! idx Y3 16 XOR tRT3 T ! idx Y2 24,
     RK ! 2 XOR tRT0 T ! idx Y2 0 XOR tRT1 T ! idx Y1 8 XOR tRT2 T ! idx Y0 16 XOR tRT3 T ! idx Y3 24,
     RK ! 3 XOR tRT0 T ! idx Y3 0 XOR tRT1 T ! idx Y2 8 XOR tRT2 T ! idx Y1 16 XOR tRT3 T ! idx Y0 24))"

text \<open>The loops \<open>for( i = (ctx->nr >> 1) - 1; i > 0; i-- )\<close>: two rounds each.\<close>

fun enc_loop :: "aes_tables \<Rightarrow> nat \<Rightarrow> u32 list \<Rightarrow> block \<Rightarrow> u32 list \<times> block" where
  "enc_loop T 0 RK X = (RK, X)"
| "enc_loop T (Suc i) RK X =
    (let Y = AES_FROUND T RK X; RK = drop 4 RK;
         X = AES_FROUND T RK Y; RK = drop 4 RK
     in enc_loop T i RK X)"

fun dec_loop :: "aes_tables \<Rightarrow> nat \<Rightarrow> u32 list \<Rightarrow> block \<Rightarrow> u32 list \<times> block" where
  "dec_loop T 0 RK X = (RK, X)"
| "dec_loop T (Suc i) RK X =
    (let Y = AES_RROUND T RK X; RK = drop 4 RK;
         X = AES_RROUND T RK Y; RK = drop 4 RK
     in dec_loop T i RK X)"

text \<open>The last round: S-box bytes instead of table words.\<close>

definition last_word :: "byte list \<Rightarrow> u32 \<Rightarrow> u32 \<Rightarrow> u32 \<Rightarrow> u32 \<Rightarrow> u32 \<Rightarrow> u32" where
  "last_word S k ya yb yc yd =
     k XOR ucast (S ! idx ya 0) XOR push_bit 8 (ucast (S ! idx yb 8)) XOR
     push_bit 16 (ucast (S ! idx yc 16)) XOR push_bit 24 (ucast (S ! idx yd 24))"

definition enc_last :: "aes_tables \<Rightarrow> u32 list \<Rightarrow> block \<Rightarrow> block" where
  "enc_last T RK = (\<lambda>(Y0, Y1, Y2, Y3).
    (last_word (tFSb T) (RK ! 0) Y0 Y1 Y2 Y3, last_word (tFSb T) (RK ! 1) Y1 Y2 Y3 Y0,
     last_word (tFSb T) (RK ! 2) Y2 Y3 Y0 Y1, last_word (tFSb T) (RK ! 3) Y3 Y0 Y1 Y2))"

definition dec_last :: "aes_tables \<Rightarrow> u32 list \<Rightarrow> block \<Rightarrow> block" where
  "dec_last T RK = (\<lambda>(Y0, Y1, Y2, Y3).
    (last_word (tRSb T) (RK ! 0) Y0 Y3 Y2 Y1, last_word (tRSb T) (RK ! 1) Y1 Y0 Y3 Y2,
     last_word (tRSb T) (RK ! 2) Y2 Y1 Y0 Y3, last_word (tRSb T) (RK ! 3) Y3 Y2 Y1 Y0))"

definition load_block :: "byte list \<Rightarrow> u32 list \<Rightarrow> block" where
  "load_block input RK =
    (get_ulong_le input 0 XOR RK ! 0, get_ulong_le input 4 XOR RK ! 1,
     get_ulong_le input 8 XOR RK ! 2, get_ulong_le input 12 XOR RK ! 3)"

definition store_block :: "block \<Rightarrow> byte list \<Rightarrow> byte list" where
  "store_block = (\<lambda>(X0, X1, X2, X3) output.
     put_ulong_le X3 (put_ulong_le X2 (put_ulong_le X1 (put_ulong_le X0 output 0) 4) 8) 12)"

definition aes_crypt_ecb :: "aes_tables \<Rightarrow> aes_context \<Rightarrow> int \<Rightarrow> byte list \<Rightarrow> byte list \<Rightarrow>
    byte list \<times> int" where
  "aes_crypt_ecb T ctx mode input output =
    (let RK = drop (rk ctx) (buf ctx);
         X = load_block input RK; RK = drop 4 RK;
         n = nat (drop_bit 1 (nr ctx) - 1);
         X = (if mode = AES_DECRYPT
              then
                let (RK, X) = dec_loop T n RK X;
                    Y = AES_RROUND T RK X; RK = drop 4 RK
                in dec_last T RK Y
              else
                let (RK, X) = enc_loop T n RK X;
                    Y = AES_FROUND T RK X; RK = drop 4 RK
                in enc_last T RK Y)
     in (store_block X output, 0))"

section \<open>Cipher block chaining\<close>

text \<open>
  \<open>input\<close> and \<open>output\<close> are separate arrays; both pointers advance by 16 bytes a block.
  The results are the chaining vector and the output array.
\<close>

function cbc_dec_loop :: "aes_tables \<Rightarrow> aes_context \<Rightarrow> int \<Rightarrow> int \<Rightarrow> byte list \<Rightarrow> byte list \<Rightarrow>
    byte list \<Rightarrow> byte list \<times> byte list" where
  "cbc_dec_loop T ctx mode n iv input output =
    (if n > 0
     then
       let temp = take 16 input;
           output = fst (aes_crypt_ecb T ctx mode input output);
           output = blit output 0 (xor_bytes (take 16 output) iv);
           iv = blit iv 0 temp;
           (iv, rest) = cbc_dec_loop T ctx mode (n - 16) iv (drop 16 input) (drop 16 output)
       in (iv, take 16 output @ rest)
     else (iv, output))"
  by pat_completeness auto
termination
  by (relation "measure (\<lambda>(T, ctx, mode, n, iv, input, output). nat n)") auto

function cbc_enc_loop :: "aes_tables \<Rightarrow> aes_context \<Rightarrow> int \<Rightarrow> int \<Rightarrow> byte list \<Rightarrow> byte list \<Rightarrow>
    byte list \<Rightarrow> byte list \<times> byte list" where
  "cbc_enc_loop T ctx mode n iv input output =
    (if n > 0
     then
       let output = blit output 0 (xor_bytes (take 16 input) iv);
           output = fst (aes_crypt_ecb T ctx mode output output);
           iv = blit iv 0 (take 16 output);
           (iv, rest) = cbc_enc_loop T ctx mode (n - 16) iv (drop 16 input) (drop 16 output)
       in (iv, take 16 output @ rest)
     else (iv, output))"
  by pat_completeness auto
termination
  by (relation "measure (\<lambda>(T, ctx, mode, n, iv, input, output). nat n)") auto

declare cbc_dec_loop.simps [simp del] cbc_enc_loop.simps [simp del]

definition aes_crypt_cbc :: "aes_tables \<Rightarrow> aes_context \<Rightarrow> int \<Rightarrow> int \<Rightarrow> byte list \<Rightarrow> byte list \<Rightarrow>
    byte list \<Rightarrow> byte list \<times> byte list \<times> int" where
  "aes_crypt_cbc T ctx mode n iv input output =
    (if n mod 16 \<noteq> 0 then (iv, output, POLARSSL_ERR_AES_INVALID_INPUT_LENGTH)
     else
       let (iv, output) =
         (if mode = AES_DECRYPT then cbc_dec_loop T ctx mode n iv input output
          else cbc_enc_loop T ctx mode n iv input output)
       in (iv, output, 0))"

end
