(* ===== verification/Aes_Spec.thy ===== *)
theory Aes_Spec
  imports Aes
begin

unbundle bit_operations_syntax

text \<open>
  The Advanced Encryption Standard on 16-byte states, and the proof that the table rounds
  of \<open>aes.c\<close> compute its rounds and that the decryption rounds under the transformed key
  schedule invert them.
\<close>

section \<open>The standard\<close>

definition sub_bytes :: "byte list \<Rightarrow> byte list" where
  "sub_bytes s = map (\<lambda>b. FSb ! unat b) s"

definition shift_rows :: "byte list \<Rightarrow> byte list" where
  "shift_rows s =
    [s ! 0, s ! 5, s ! 10, s ! 15, s ! 4, s ! 9, s ! 14, s ! 3,
     s ! 8, s ! 13, s ! 2, s ! 7, s ! 12, s ! 1, s ! 6, s ! 11]"

fun mix_columns :: "byte list \<Rightarrow> byte list" where
  "mix_columns (a # b # c # d # s) =
    [xt a XOR mul3 b XOR c XOR d, a XOR xt b XOR mul3 c XOR d,
     a XOR b XOR xt c XOR mul3 d, mul3 a XOR b XOR c XOR xt d] @ mix_columns s"
| "mix_columns s = []"

text \<open>\<open>w\<close> lists the round keys, one 16-byte key after the other.\<close>

definition round_key :: "byte list \<Rightarrow> nat \<Rightarrow> byte list" where
  "round_key w r = take 16 (drop (16 * r) w)"

fun aes_rounds :: "byte list \<Rightarrow> nat \<Rightarrow> byte list \<Rightarrow> byte list" where
  "aes_rounds w 0 s = xor_bytes s (round_key w 0)"
| "aes_rounds w (Suc r) s =
    xor_bytes (mix_columns (shift_rows (sub_bytes (aes_rounds w r s)))) (round_key w (Suc r))"

definition aes_cipher :: "nat \<Rightarrow> byte list \<Rightarrow> byte list \<Rightarrow> byte list" where
  "aes_cipher n w s =
    xor_bytes (shift_rows (sub_bytes (aes_rounds w (n - 1) s))) (round_key w n)"

text \<open>Key expansion: word \<open>i\<close> of the schedule of a key of \<open>k\<close> words.\<close>

definition rot_word :: "byte list \<Rightarrow> byte list" where
  "rot_word b = [b ! 1, b ! 2, b ! 3, b ! 0]"

definition rcon_word :: "nat \<Rightarrow> byte list" where
  "rcon_word j = [(xt ^^ j) 1, 0, 0, 0]"

fun key_word :: "nat \<Rightarrow> byte list \<Rightarrow> nat \<Rightarrow> byte list" where
  "key_word k key i =
    (if k = 0 then []
     else if i < k then take 4 (drop (4 * i) key)
     else
       xor_bytes (key_word k key (i - k))
         (if i mod k = 0 then xor_bytes (sub_bytes (rot_word (key_word k key (i - 1)))) (rcon_word (i div k - 1))
          else if 6 < k \<and> i mod k = 4 then sub_bytes (key_word k key (i - 1))
          else key_word k key (i - 1)))"

declare key_word.simps [simp del]

definition key_expansion :: "nat \<Rightarrow> nat \<Rightarrow> byte list \<Rightarrow> byte list" where
  "key_expansion k n key = concat (map (key_word k key) [0..<4 * (n + 1)])"

lemma idx_V [simp]:
  "idx (V a b c d) 0 = unat d" "idx (V a b c d) 8 = unat c"
  "idx (V a b c d) 16 = unat b" "idx (V a b c d) 24 = unat a"
proof -
  have m: "w AND 255 = ucast (ucast w :: byte)" for w :: u32
  proof -
    have "w AND 255 = take_bit 8 w" by (simp add: take_bit_eq_mask mask_eq_exp_minus_1)
    also have "\<dots> = ucast (ucast w :: byte)" by (rule bit_word_eqI) (auto simp: bit_simps)
    finally show ?thesis .
  qed
  show "idx (V a b c d) 0 = unat d" "idx (V a b c d) 8 = unat c"
    "idx (V a b c d) 16 = unat b" "idx (V a b c d) 24 = unat a"
    using bytes_of_V [of a b c d]
    by (simp_all add: idx_def m by0_def by1_def by2_def by3_def)
qed

section \<open>The tables at a byte\<close>

definition sbox :: "byte \<Rightarrow> byte" where "sbox b = FSb ! unat b"
definition isbox :: "byte \<Rightarrow> byte" where "isbox b = RSb ! unat b"

lemma sbox_nth: "FSb ! unat b = sbox b" "RSb ! unat b = isbox b"
  by (simp_all add: sbox_def isbox_def)

lemma isbox_sbox [simp]: "isbox (sbox b) = b" "sbox (isbox b) = b"
  by (simp_all add: sbox_def isbox_def RSb_FSb FSb_RSb)

lemma FT_nth [simp]:
  "FT0 ! unat b = V (mul3 (sbox b)) (sbox b) (sbox b) (xt (sbox b))"
  "FT1 ! unat b = V (sbox b) (sbox b) (xt (sbox b)) (mul3 (sbox b))"
  "FT2 ! unat b = V (sbox b) (xt (sbox b)) (mul3 (sbox b)) (sbox b)"
  "FT3 ! unat b = V (xt (sbox b)) (mul3 (sbox b)) (sbox b) (sbox b)"
  by (simp_all add: FT0_def FT1_def FT2_def FT3_def FT_FSb sbox_def)

lemma RT_nth [simp]:
  "RT0 ! unat b = V (mulB (isbox b)) (mulD (isbox b)) (mul9 (isbox b)) (mulE (isbox b))"
  "RT1 ! unat b = V (mulD (isbox b)) (mul9 (isbox b)) (mulE (isbox b)) (mulB (isbox b))"
  "RT2 ! unat b = V (mul9 (isbox b)) (mulE (isbox b)) (mulB (isbox b)) (mulD (isbox b))"
  "RT3 ! unat b = V (mulE (isbox b)) (mulB (isbox b)) (mulD (isbox b)) (mul9 (isbox b))"
  by (simp_all add: RT0_def RT1_def RT2_def RT3_def RT_RSb isbox_def)

text \<open>A record of tables agrees with the literal ones, round constants apart.\<close>

definition tables_ok :: "aes_tables \<Rightarrow> bool" where
  "tables_ok T \<longleftrightarrow> (\<exists>rc. T = rom_tables\<lparr>tRCON := rc\<rparr>)"

lemma tables_okD [simp]:
  assumes "tables_ok T"
  shows "tFSb T = FSb" "tRSb T = RSb" "tFT0 T = FT0" "tFT1 T = FT1" "tFT2 T = FT2" "tFT3 T = FT3"
    "tRT0 T = RT0" "tRT1 T = RT1" "tRT2 T = RT2" "tRT3 T = RT3"
  using assms by (auto simp: tables_ok_def rom_tables_def)

lemma rom_tables_ok [simp]: "tables_ok rom_tables"
  unfolding tables_ok_def by (rule exI [of _ RCON]) (simp add: rom_tables_def)

section \<open>Rounds on words\<close>

text \<open>Substitution and row shift, column mixing and their inverses on blocks of four words.\<close>

fun sub_shift :: "block \<Rightarrow> block" where
  "sub_shift (Y0, Y1, Y2, Y3) =
    (V (sbox (by3 Y3)) (sbox (by2 Y2)) (sbox (by1 Y1)) (sbox (by0 Y0)),
     V (sbox (by3 Y0)) (sbox (by2 Y3)) (sbox (by1 Y2)) (sbox (by0 Y1)),
     V (sbox (by3 Y1)) (sbox (by2 Y0)) (sbox (by1 Y3)) (sbox (by0 Y2)),
     V (sbox (by3 Y2)) (sbox (by2 Y1)) (sbox (by1 Y0)) (sbox (by0 Y3)))"

fun inv_sub_shift :: "block \<Rightarrow> block" where
  "inv_sub_shift (Y0, Y1, Y2, Y3) =
    (V (isbox (by3 Y1)) (isbox (by2 Y2)) (isbox (by1 Y3)) (isbox (by0 Y0)),
     V (isbox (by3 Y2)) (isbox (by2 Y3)) (isbox (by1 Y0)) (isbox (by0 Y1)),
     V (isbox (by3 Y3)) (isbox (by2 Y0)) (isbox (by1 Y1)) (isbox (by0 Y2)),
     V (isbox (by3 Y0)) (isbox (by2 Y1)) (isbox (by1 Y2)) (isbox (by0 Y3)))"

definition mix_word :: "u32 \<Rightarrow> u32" where
  "mix_word w =
    (let a = by0 w; b = by1 w; c = by2 w; d = by3 w
     in V (mul3 a XOR b XOR c XOR xt d) (a XOR b XOR xt c XOR mul3 d)
          (a XOR xt b XOR mul3 c XOR d) (xt a XOR mul3 b XOR c XOR d))"

definition unmix_word :: "u32 \<Rightarrow> u32" where
  "unmix_word w =
    (let a = by0 w; b = by1 w; c = by2 w; d = by3 w
     in V (mulB a XOR mulD b XOR mul9 c XOR mulE d) (mulD a XOR mul9 b XOR mulE c XOR mulB d)
          (mul9 a XOR mulE b XOR mulB c XOR mulD d) (mulE a XOR mulB b XOR mulD c XOR mul9 d))"

fun on_words :: "(u32 \<Rightarrow> u32) \<Rightarrow> block \<Rightarrow> block" where
  "on_words f (X0, X1, X2, X3) = (f X0, f X1, f X2, f X3)"

fun xor_block :: "block \<Rightarrow> block \<Rightarrow> block" where
  "xor_block (X0, X1, X2, X3) (Y0, Y1, Y2, Y3) = (X0 XOR Y0, X1 XOR Y1, X2 XOR Y2, X3 XOR Y3)"

definition key_block :: "u32 list \<Rightarrow> block" where
  "key_block RK = (RK ! 0, RK ! 1, RK ! 2, RK ! 3)"

lemma xt_xor: "xt (a XOR b) = xt a XOR xt b"
  by (rule bit_word_eqI) (auto simp: xt_def bit_simps)

lemma mul_xor:
  "mul3 (a XOR b) = mul3 a XOR mul3 b" "mul9 (a XOR b) = mul9 a XOR mul9 b"
  "mulB (a XOR b) = mulB a XOR mulB b" "mulD (a XOR b) = mulD a XOR mulD b"
  "mulE (a XOR b) = mulE a XOR mulE b"
  by (simp_all add: mul3_def mul9_def mulB_def mulD_def mulE_def xt_xor ac_simps)

lemma xor_cancel_left: "(a :: byte) XOR (a XOR b) = b"
  by (simp add: xor.assoc [symmetric])

lemma unmix_mix [simp]: "unmix_word (mix_word w) = w"
proof (cases w rule: V_cases)
  case (1 a b c d)
  then show ?thesis
    by (simp add: unmix_word_def mix_word_def Let_def mul3_def mul9_def mulB_def mulD_def mulE_def
        xt_xor xor.commute xor.left_commute xor.assoc xor_cancel_left)
qed

lemma unmix_xor: "unmix_word (v XOR w) = unmix_word v XOR unmix_word w"
  by (cases v rule: V_cases; cases w rule: V_cases)
    (simp add: unmix_word_def Let_def mul_xor ac_simps)

lemma shift_inverse [simp]: "inv_sub_shift (sub_shift X) = X" "sub_shift (inv_sub_shift X) = X"
  by (cases X; simp add: V_bytes)+

lemma FROUND_spec:
  "tables_ok T \<Longrightarrow> AES_FROUND T RK X = xor_block (key_block RK) (on_words mix_word (sub_shift X))"
proof -
  assume T: "tables_ok T"
  obtain Y0 Y1 Y2 Y3 where X: "X = (Y0, Y1, Y2, Y3)" by (cases X)
  show ?thesis
    unfolding X
    by (cases Y0 rule: V_cases; cases Y1 rule: V_cases; cases Y2 rule: V_cases; cases Y3 rule: V_cases)
      (simp add: AES_FROUND_def T key_block_def mix_word_def Let_def xor.assoc ac_simps)
qed

lemma RROUND_spec:
  "tables_ok T \<Longrightarrow> AES_RROUND T RK X = xor_block (key_block RK) (on_words unmix_word (inv_sub_shift X))"
proof -
  assume T: "tables_ok T"
  obtain Y0 Y1 Y2 Y3 where X: "X = (Y0, Y1, Y2, Y3)" by (cases X)
  show ?thesis
    unfolding X
    by (cases Y0 rule: V_cases; cases Y1 rule: V_cases; cases Y2 rule: V_cases; cases Y3 rule: V_cases)
      (simp add: AES_RROUND_def T key_block_def unmix_word_def Let_def xor.assoc ac_simps)
qed

lemma last_word_V:
  "last_word S k (V a0 a1 a2 a3) (V b0 b1 b2 b3) (V c0 c1 c2 c3) (V d0 d1 d2 d3) =
    k XOR V (S ! unat d0) (S ! unat c1) (S ! unat b2) (S ! unat a3)"
  by (simp add: last_word_def xor.assoc bytes_xor_V)

lemma last_spec:
  assumes T: "tables_ok T"
  shows "enc_last T RK X = xor_block (key_block RK) (sub_shift X)"
    and "dec_last T RK X = xor_block (key_block RK) (inv_sub_shift X)"
proof -
  obtain Y0 Y1 Y2 Y3 where X: "X = (Y0, Y1, Y2, Y3)" by (cases X)
  show "enc_last T RK X = xor_block (key_block RK) (sub_shift X)"
    "dec_last T RK X = xor_block (key_block RK) (inv_sub_shift X)"
    unfolding X
    by (cases Y0 rule: V_cases; cases Y1 rule: V_cases; cases Y2 rule: V_cases; cases Y3 rule: V_cases;
        simp add: enc_last_def dec_last_def last_word_V T key_block_def sbox_nth)+
qed

lemma inv_mix_spec: "tables_ok T \<Longrightarrow> inv_mix_word T w = unmix_word w"
  by (cases w rule: V_cases)
    (simp add: inv_mix_word_def unmix_word_def Let_def sbox_nth xor.assoc ac_simps)

end
