(* ===== verification/Aes_Ecb.thy ===== *)
theory Aes_Ecb
  imports Aes_Spec
begin

unbundle bit_operations_syntax

text \<open>
  \<open>aes_crypt_ecb\<close> for any even number of rounds and any key schedule: encryption computes
  the standard's cipher under the round keys in the schedule, and decryption under the
  schedule \<open>dec_rounds\<close> builds inverts it.
\<close>

section \<open>Blocks and bytes\<close>

definition block_of :: "byte list \<Rightarrow> block" where
  "block_of b = (get_ulong_le b 0, get_ulong_le b 4, get_ulong_le b 8, get_ulong_le b 12)"

fun bytes_of :: "block \<Rightarrow> byte list" where
  "bytes_of (X0, X1, X2, X3) = le32 X0 @ le32 X1 @ le32 X2 @ le32 X3"

lemma length_bytes_of [simp]: "length (bytes_of X) = 16"
  by (cases X) simp

lemma list16_cases:
  assumes "length b = 16"
  obtains b0 b1 b2 b3 b4 b5 b6 b7 b8 b9 ba bb bc bd be bf
  where "b = [b0, b1, b2, b3, b4, b5, b6, b7, b8, b9, ba, bb, bc, bd, be, bf]"
proof -
  have "length b = Suc (Suc (Suc (Suc (Suc (Suc (Suc (Suc (Suc (Suc (Suc (Suc (Suc (Suc (Suc (Suc
      0)))))))))))))))"
    using assms by simp
  then show ?thesis using that by (auto simp: length_Suc_conv)
qed

lemma bytes_block_of: "16 \<le> length b \<Longrightarrow> bytes_of (block_of b) = take 16 b"
proof -
  assume l: "16 \<le> length b"
  then have "length (take 16 b) = 16" by simp
  then obtain b0 b1 b2 b3 b4 b5 b6 b7 b8 b9 ba bb bc bd be bf
    where t: "take 16 b = [b0, b1, b2, b3, b4, b5, b6, b7, b8, b9, ba, bb, bc, bd, be, bf]"
    by (rule list16_cases)
  have "b ! i = take 16 b ! i" if "i < 16" for i using that by simp
  then show ?thesis unfolding t by (simp add: block_of_def get_ulong_le_V)
qed

lemma block_bytes_of [simp]: "block_of (bytes_of X @ ys) = X"
proof (cases X)
  case (fields X0 X1 X2 X3)
  then show ?thesis
    by (cases X0 rule: V_cases; cases X1 rule: V_cases; cases X2 rule: V_cases; cases X3 rule: V_cases)
      (simp add: block_of_def get_ulong_le_V)
qed

lemma store_block_bytes:
  "16 \<le> length out \<Longrightarrow> store_block X out = bytes_of X @ drop 16 out"
proof -
  assume l: "16 \<le> length out"
  then have "length (take 16 out) = 16" by simp
  then obtain b0 b1 b2 b3 b4 b5 b6 b7 b8 b9 ba bb bc bd be bf
    where t: "take 16 out = [b0, b1, b2, b3, b4, b5, b6, b7, b8, b9, ba, bb, bc, bd, be, bf]"
    by (rule list16_cases)
  obtain X0 X1 X2 X3 where X: "X = (X0, X1, X2, X3)" by (cases X)
  have "out = [b0, b1, b2, b3, b4, b5, b6, b7, b8, b9, ba, bb, bc, bd, be, bf] @ drop 16 out"
    using t by (metis append_take_drop_id)
  then obtain r where o: "out = [b0, b1, b2, b3, b4, b5, b6, b7, b8, b9, ba, bb, bc, bd, be, bf] @ r" by blast
  show ?thesis unfolding o X by (simp add: store_block_def put_ulong_le_def le32_def numeral_eq_Suc)
qed

section \<open>Encryption\<close>

fun enc_state :: "(nat \<Rightarrow> block) \<Rightarrow> nat \<Rightarrow> block \<Rightarrow> block" where
  "enc_state K 0 P = xor_block P (K 0)"
| "enc_state K (Suc r) P = xor_block (K (Suc r)) (on_words mix_word (sub_shift (enc_state K r P)))"

fun dec_state :: "(nat \<Rightarrow> block) \<Rightarrow> nat \<Rightarrow> block \<Rightarrow> block" where
  "dec_state K 0 C = xor_block C (K 0)"
| "dec_state K (Suc r) C = xor_block (K (Suc r)) (on_words unmix_word (inv_sub_shift (dec_state K r C)))"

definition keys_of :: "u32 list \<Rightarrow> nat \<Rightarrow> block" where
  "keys_of E r = key_block (drop (4 * r) E)"

lemma enc_loop_state:
  assumes T: "tables_ok T"
  shows "enc_loop T i (drop (4 * Suc r) E) (enc_state (keys_of E) r P) =
    (drop (4 * Suc (r + 2 * i)) E, enc_state (keys_of E) (r + 2 * i) P)"
proof (induction i arbitrary: r)
  case (Suc i)
  show ?case
    using Suc [of "Suc (Suc r)"] by (simp add: FROUND_spec [OF T] Let_def keys_of_def add.commute)
qed simp

lemma dec_loop_state:
  assumes T: "tables_ok T"
  shows "dec_loop T i (drop (4 * Suc r) E) (dec_state (keys_of E) r P) =
    (drop (4 * Suc (r + 2 * i)) E, dec_state (keys_of E) (r + 2 * i) P)"
proof (induction i arbitrary: r)
  case (Suc i)
  show ?case
    using Suc [of "Suc (Suc r)"] by (simp add: RROUND_spec [OF T] Let_def keys_of_def add.commute)
qed simp

text \<open>The context of a call: \<open>2 * m\<close> rounds, the schedule at the start of \<open>buf\<close>.\<close>

definition ctx_rounds :: "aes_context \<Rightarrow> nat \<Rightarrow> bool" where
  "ctx_rounds ctx n \<longleftrightarrow> nr ctx = int n \<and> even n \<and> 2 \<le> n \<and> rk ctx = 0"

definition encrypt_block :: "(nat \<Rightarrow> block) \<Rightarrow> nat \<Rightarrow> block \<Rightarrow> block" where
  "encrypt_block K n P = xor_block (K n) (sub_shift (enc_state K (n - 1) P))"

definition decrypt_block :: "(nat \<Rightarrow> block) \<Rightarrow> nat \<Rightarrow> block \<Rightarrow> block" where
  "decrypt_block K n C = xor_block (K n) (inv_sub_shift (dec_state K (n - 1) C))"

lemma load_block_xor: "load_block input RK = xor_block (block_of input) (key_block RK)"
  by (simp add: load_block_def block_of_def key_block_def)

lemma aes_crypt_ecb_blocks:
  assumes T: "tables_ok T" and c: "ctx_rounds ctx n"
  shows "aes_crypt_ecb T ctx mode input out =
    (store_block
      (if mode = AES_DECRYPT then decrypt_block (keys_of (buf ctx)) n (block_of input)
       else encrypt_block (keys_of (buf ctx)) n (block_of input)) out, 0)"
proof -
  let ?E = "buf ctx" and ?P = "block_of input"
  obtain i where n: "n = 2 * Suc i"
  proof -
    from c obtain k where k: "n = 2 * k" "2 \<le> n" by (auto simp: ctx_rounds_def elim!: evenE)
    then have "n = 2 * Suc (k - 1)" by simp
    then show ?thesis using that by blast
  qed
  have i: "nat (drop_bit 1 (nr ctx) - 1) = i"
    using c n by (simp add: ctx_rounds_def drop_bit_Suc flip: drop_bit_eq_div)
  have "load_block input ?E = enc_state (keys_of ?E) 0 ?P" "load_block input ?E = dec_state (keys_of ?E) 0 ?P"
    by (simp_all add: load_block_xor keys_of_def)
  then show ?thesis
    using c enc_loop_state [OF T, of i 0 ?E ?P] dec_loop_state [OF T, of i 0 ?E ?P]
    unfolding aes_crypt_ecb_def Let_def i
    by (simp add: ctx_rounds_def n encrypt_block_def decrypt_block_def FROUND_spec [OF T]
        RROUND_spec [OF T] last_spec [OF T] keys_of_def)
qed

section \<open>Decryption inverts encryption\<close>

lemma xor_block_cancel [simp]:
  "xor_block X (xor_block X Y) = Y" "xor_block (xor_block X Y) X = Y" "xor_block (xor_block Y X) X = Y"
  "xor_block X (xor_block Y X) = Y"
  by (cases X; cases Y; simp add: xor.assoc [symmetric] xor.commute xor.left_commute)+

lemma unmix_block: "on_words unmix_word (xor_block X Y) = xor_block (on_words unmix_word X) (on_words unmix_word Y)"
  "on_words unmix_word (on_words mix_word X) = X"
  by (cases X; cases Y; simp add: unmix_xor)+

definition inverse_keys :: "nat \<Rightarrow> (nat \<Rightarrow> block) \<Rightarrow> (nat \<Rightarrow> block) \<Rightarrow> bool" where
  "inverse_keys n K D \<longleftrightarrow>
     D 0 = K n \<and> D n = K 0 \<and> (\<forall>r. 0 < r \<and> r < n \<longrightarrow> D r = on_words unmix_word (K (n - r)))"

lemma dec_state_enc:
  assumes "inverse_keys n K D" "r < n"
  shows "dec_state D r (encrypt_block K n P) = sub_shift (enc_state K (n - 1 - r) P)"
  using assms(2)
proof (induction r)
  case 0
  then show ?case using assms(1) by (simp add: encrypt_block_def inverse_keys_def)
next
  case (Suc r)
  have n: "n - 1 - r = Suc (n - 1 - Suc r)" "n - Suc r = Suc (n - 1 - Suc r)" using Suc.prems by auto
  have "D (Suc r) = on_words unmix_word (K (n - Suc r))"
    using assms(1) Suc.prems by (simp add: inverse_keys_def)
  then show ?case
    using Suc.IH Suc.prems unfolding n by (simp add: unmix_block)
qed

lemma decrypt_encrypt:
  assumes "inverse_keys n K D" "0 < n"
  shows "decrypt_block D n (encrypt_block K n P) = P"
proof -
  have "dec_state D (n - 1) (encrypt_block K n P) = sub_shift (enc_state K 0 P)"
    using dec_state_enc [OF assms(1), of "n - 1" P] assms(2) by simp
  then show ?thesis using assms by (simp add: decrypt_block_def inverse_keys_def)
qed

section \<open>The decryption schedule\<close>

lemma dec_rounds_schedule:
  assumes "tables_ok T" "RK + 4 * i \<le> length B" "dec_rounds T S i (4 * i) B RK = (B', SK', RK')"
  shows "SK' = 0 \<and> RK' = RK + 4 * i \<and> length B' = length B \<and> (\<forall>k < RK. B' ! k = B ! k) \<and>
    (\<forall>t < i. \<forall>j < 4. B' ! (RK + 4 * t + j) = unmix_word (S ! (4 * (i - t) + j)))"
  using assms(2,3)
proof (induction i arbitrary: B RK)
  case (Suc i)
  have u4: "[0..<4] = [0, 1, 2, 3 :: nat]" by (simp add: upt_rec)
  let ?f = "\<lambda>j. unmix_word (S ! (4 * Suc i + j))"
  let ?B = "B[RK := ?f 0, RK + 1 := ?f 1, RK + 2 := ?f 2, RK + 3 := ?f 3]"
  have "dec_rounds T S i (4 * i) ?B (RK + 4) = (B', SK', RK')"
    using Suc.prems by (simp add: u4 inv_mix_spec [OF assms(1)])
  from Suc.IH [OF _ this] Suc.prems
  have IH: "SK' = 0" "RK' = RK + 4 + 4 * i" "length B' = length B" "\<forall>k < RK + 4. B' ! k = ?B ! k"
    "\<forall>t < i. \<forall>j < 4. B' ! (RK + 4 + 4 * t + j) = unmix_word (S ! (4 * (i - t) + j))"
    by auto
  have "B' ! (RK + 4 * t + j) = unmix_word (S ! (4 * (Suc i - t) + j))" if "t < Suc i" "j < 4" for t j
  proof (cases t)
    case 0
    have "j = 0 \<or> j = 1 \<or> j = 2 \<or> j = 3" using that by auto
    then have "?B ! (RK + j) = ?f j" using Suc.prems by (elim disjE) (simp_all add: nth_list_update)
    then show ?thesis using 0 that IH(4) by simp
  next
    case (Suc t')
    then show ?thesis using that IH(5) [rule_format, of t' j] by (simp add: add.assoc add.left_commute)
  qed
  then show ?case using IH(1-4) by simp
qed simp

definition schedule_dec :: "aes_tables \<Rightarrow> nat \<Rightarrow> u32 list \<Rightarrow> u32 list \<Rightarrow> u32 list" where
  "schedule_dec T n S B =
    (let (B, SK, RK) = dec_rounds T S (n - 1) (4 * n + 4 - 8) (copy_4 B 0 S (4 * n)) 4
     in copy_4 B RK S SK)"

lemma copy_4_nth:
  assumes "p + 4 \<le> length B"
  shows "j < 4 \<Longrightarrow> copy_4 B p S q ! (p + j) = S ! (q + j)"
    and "k < p \<Longrightarrow> copy_4 B p S q ! k = B ! k" and "length (copy_4 B p S q) = length B"
proof -
  show "copy_4 B p S q ! (p + j) = S ! (q + j)" if "j < 4"
    using nat4_cases [OF that] assms by (elim disjE) (simp_all add: copy_4_def nth_list_update)
qed (use assms in \<open>simp_all add: copy_4_def\<close>)

lemma keys_of_eq:
  "4 * r + 4 \<le> length E \<Longrightarrow> keys_of E r = (E ! (4 * r), E ! (4 * r + 1), E ! (4 * r + 2), E ! (4 * r + 3))"
  by (simp add: keys_of_def key_block_def)

lemma schedule_dec_keys:
  assumes T: "tables_ok T" and n: "0 < n" "4 * (n + 1) \<le> length B" "4 * (n + 1) \<le> length S"
  shows "inverse_keys n (keys_of S) (keys_of (schedule_dec T n S B))"
proof -
  let ?A = "copy_4 B 0 S (4 * n)"
  obtain B' SK RK where d: "dec_rounds T S (n - 1) (4 * (n - 1)) ?A 4 = (B', SK, RK)"
    by (metis prod_cases3)
  have A: "length ?A = length B" "\<And>j. j < 4 \<Longrightarrow> ?A ! j = S ! (4 * n + j)"
    using copy_4_nth [where p = 0 and B = B and S = S and q = "4 * n"] n by auto
  have "4 + 4 * (n - 1) \<le> length ?A" using n A by simp
  from dec_rounds_schedule [OF T this d]
  have D: "SK = 0" "RK = 4 * n" "length B' = length B" "\<forall>k < 4. B' ! k = ?A ! k"
    "\<forall>t < n - 1. \<forall>j < 4. B' ! (4 + 4 * t + j) = unmix_word (S ! (4 * (n - 1 - t) + j))"
    using n A by auto
  let ?D = "schedule_dec T n S B"
  have e: "4 * n + 4 - 8 = 4 * (n - 1)" by simp
  have sd: "?D = copy_4 B' (4 * n) S 0"
    unfolding schedule_dec_def e d by (simp add: D)
  have Dn: "length ?D = length B" "\<And>j. j < 4 \<Longrightarrow> ?D ! (4 * n + j) = S ! j"
    "\<And>k. k < 4 * n \<Longrightarrow> ?D ! k = B' ! k"
    unfolding sd using copy_4_nth [where p = "4 * n" and B = B' and S = S and q = 0] n D(3) by auto
  have D0: "?D ! j = S ! (4 * n + j)" if "j < 4" for j
    using that Dn(3) [of j] D(4) A(2) [of j] n by simp
  have Dr: "?D ! (4 * r + j) = unmix_word (S ! (4 * (n - r) + j))" if "0 < r" "r < n" "j < 4" for r j
  proof -
    obtain t where r: "r = Suc t" using \<open>0 < r\<close> gr0_implies_Suc by blast
    then show ?thesis using that Dn(3) [of "4 * r + j"] D(5) [rule_format, of t j] by simp
  qed
  show ?thesis
    unfolding inverse_keys_def
  proof (intro conjI allI impI)
    show "keys_of ?D 0 = keys_of S n" using n D0 [of 0] D0 [of 1] D0 [of 2] D0 [of 3]
      by (simp add: keys_of_eq Dn(1) del: add_2_eq_Suc')
    show "keys_of ?D n = keys_of S 0" using n Dn(2) [of 0] Dn(2) [of 1] Dn(2) [of 2] Dn(2) [of 3]
      by (simp add: keys_of_eq Dn(1) del: add_2_eq_Suc')
    fix r assume "0 < r \<and> r < n"
    then show "keys_of ?D r = on_words unmix_word (keys_of S (n - r))"
      using n Dr [of r 0] Dr [of r 1] Dr [of r 2] Dr [of r 3] by (simp add: keys_of_eq Dn(1) del: add_2_eq_Suc')
  qed
qed

lemma length_schedule_dec:
  assumes "tables_ok T" "0 < n" "4 * (n + 1) \<le> length B"
  shows "length (schedule_dec T n S B) = length B"
proof -
  let ?A = "copy_4 B 0 S (4 * n)"
  obtain B' SK RK where d: "dec_rounds T S (n - 1) (4 * (n - 1)) ?A 4 = (B', SK, RK)"
    by (metis prod_cases3)
  have e: "4 * n + 4 - 8 = 4 * (n - 1)" by simp
  have "length ?A = length B" by (simp add: copy_4_def)
  then have "length B' = length B" using dec_rounds_schedule [OF assms(1) _ d] assms by simp
  then show ?thesis unfolding schedule_dec_def e d by (simp add: copy_4_def)
qed

end
