(* ===== verification/Aes_Keys.thy ===== *)
theory Aes_Keys
  imports Aes_Ecb
begin

unbundle bit_operations_syntax

text \<open>
  The key schedule loops fill \<open>buf\<close> with the words of the standard's key expansion, and
  \<open>aes_crypt_ecb\<close> under such a schedule is the standard's cipher.
\<close>

section \<open>Schedule words\<close>

lemma le32_xor: "le32 (v XOR w) = xor_bytes (le32 v) (le32 w)"
  by (cases v rule: V_cases; cases w rule: V_cases) (simp add: xor_bytes_def)

lemma le32_sub_rot: "tables_ok T \<Longrightarrow> le32 (sub_rot_word T w) = sub_bytes (rot_word (le32 w))"
  by (cases w rule: V_cases) (simp add: sub_rot_word_def xor.assoc bytes_xor_V sub_bytes_def rot_word_def)

lemma le32_sub: "tables_ok T \<Longrightarrow> le32 (sub_word T w) = sub_bytes (le32 w)"
  by (cases w rule: V_cases) (simp add: sub_word_def xor.assoc bytes_xor_V sub_bytes_def)

definition filled :: "nat \<Rightarrow> byte list \<Rightarrow> u32 list \<Rightarrow> nat \<Rightarrow> bool" where
  "filled k key B m \<longleftrightarrow> m \<le> length B \<and> (\<forall>q < m. le32 (B ! q) = key_word k key q)"

definition rcon_ok :: "nat \<Rightarrow> aes_tables \<Rightarrow> bool" where
  "rcon_ok n T \<longleftrightarrow> (\<forall>j < n. le32 (tRCON T ! j) = rcon_word j)"

lemma funpow_numeral_swap: "(f ^^ numeral n) x = (f ^^ pred_numeral n) (f x)"
  by (simp add: numeral_eq_Suc funpow_swap1)

lemma rcon_rom: "rcon_ok 10 rom_tables"
proof -
  have "list_all (\<lambda>j. le32 (RCON ! j) = rcon_word j) [0, 1, 2, 3, 4, 5, 6, 7, 8, 9]"
    by (simp add: RCON_def rcon_word_def xt_def le32_def funpow_numeral_swap)
  moreover have "j \<in> set [0, 1, 2, 3, 4, 5, 6, 7, 8, 9]" if "j < 10" for j :: nat
    using that by simp arith
  ultimately show ?thesis by (auto simp: rcon_ok_def rom_tables_def list_all_iff)
qed

lemma rcon_aesx: "rcon_ok 16 (rom_tables\<lparr>tRCON := AESX_RCON\<rparr>)"
proof -
  have "list_all (\<lambda>j. le32 (AESX_RCON ! j) = rcon_word j) [0, 1, 2, 3, 4, 5, 6, 7, 8, 9, 10, 11, 12, 13, 14, 15]"
    by (simp add: AESX_RCON_def rcon_word_def xt_def le32_def funpow_numeral_swap)
  moreover have "j \<in> set [0, 1, 2, 3, 4, 5, 6, 7, 8, 9, 10, 11, 12, 13, 14, 15]" if "j < 16" for j :: nat
    using that by simp arith
  ultimately show ?thesis by (auto simp: rcon_ok_def list_all_iff)
qed

lemma load_key_filled:
  assumes "4 * k \<le> length key" "k \<le> length B" "0 < k"
  shows "filled k key (foldl (load_key key) B [0..<k]) k"
proof -
  have "foldl (load_key key) B [0..<k] = map (\<lambda>i. get_ulong_le key (4 * i)) [0..<k] @ drop k B"
    using scatter_upt [OF assms(2), of "\<lambda>i. get_ulong_le key (4 * i)"] by (simp add: load_key_def [abs_def])
  then show ?thesis
    using assms by (simp add: filled_def nth_append key_word.simps le32_get)
qed

text \<open>A word written at the end of the filled part.\<close>

lemma filled_update:
  assumes "filled k key B m" "m < length B" "le32 w = key_word k key m"
  shows "filled k key (B[m := w]) (Suc m)"
  using assms by (auto simp: filled_def nth_list_update less_Suc_eq)

lemma filled_nth: "filled k key B m \<Longrightarrow> q < m \<Longrightarrow> le32 (B ! q) = key_word k key q"
  by (simp add: filled_def)

lemma key_word_step:
  assumes "0 < k" "k \<le> m" "filled k key B m"
    and "le32 w = (if m mod k = 0 then xor_bytes (sub_bytes (rot_word (le32 (B ! (m - 1))))) (rcon_word (m div k - 1))
       else if 6 < k \<and> m mod k = 4 then sub_bytes (le32 (B ! (m - 1))) else le32 (B ! (m - 1)))"
  shows "le32 (B ! (m - k) XOR w) = key_word k key m"
proof -
  have "le32 (B ! (m - k)) = key_word k key (m - k)" "le32 (B ! (m - 1)) = key_word k key (m - 1)"
    using assms(1-3) by (auto intro: filled_nth)
  then show ?thesis using assms by (subst key_word.simps) (simp add: le32_xor)
qed

lemma filled_step:
  assumes "filled k key B m" "m < length B" "0 < k" "k \<le> m"
    and "le32 w = (if m mod k = 0 then xor_bytes (sub_bytes (rot_word (le32 (B ! (m - 1))))) (rcon_word (m div k - 1))
       else if 6 < k \<and> m mod k = 4 then sub_bytes (le32 (B ! (m - 1))) else le32 (B ! (m - 1)))"
  shows "filled k key (B[m := B ! (m - k) XOR w]) (Suc m)"
  by (rule filled_update [OF assms(1,2) key_word_step [OF assms(3,4,1,5)]])

text \<open>
  The three kinds of assignment the loops make, with the indices as they are written, and
  a rule that names the successive schedules of a pass.
\<close>

lemma filled_plain:
  assumes "filled k key B m" "a = m" "b + k = m" "c + 1 = m" "m' = Suc m"
    and "m < length B" "0 < k" "m mod k \<noteq> 0" "k \<le> 6 \<or> m mod k \<noteq> 4"
  shows "filled k key (B[a := B ! b XOR B ! c]) m'"
proof -
  have b: "b = m - k" and c: "c = m - 1" using assms by auto
  show ?thesis unfolding assms(2,5) b c by (rule filled_step) (use assms in auto)
qed

lemma filled_rot:
  assumes "filled k key B m" "a = m" "b + k = m" "c + 1 = m" "m' = Suc m" "i = m div k - 1"
    and "m < length B" "0 < k" "m mod k = 0" "tables_ok T" "rcon_ok n T" "i < n"
  shows "filled k key (B[a := B ! b XOR tRCON T ! i XOR sub_rot_word T (B ! c)]) m'"
proof -
  have "b = m - k" "c = m - 1" "k \<le> m" using assms by auto
  moreover have "le32 (tRCON T ! i XOR sub_rot_word T (B ! c)) =
      xor_bytes (sub_bytes (rot_word (le32 (B ! c)))) (rcon_word i)"
    using assms by (simp add: le32_xor le32_sub_rot rcon_ok_def xor_bytes_commute)
  ultimately show ?thesis
    using assms filled_step [of k key B m "tRCON T ! i XOR sub_rot_word T (B ! c)"] by (simp add: xor.assoc)
qed

lemma filled_sub:
  assumes "filled k key B m" "a = m" "b + k = m" "c + 1 = m" "m' = Suc m"
    and "m < length B" "m mod k = 4" "6 < k" "tables_ok T"
  shows "filled k key (B[a := B ! b XOR sub_word T (B ! c)]) m'"
proof -
  have "b = m - k" "c = m - 1" "k \<le> m" using assms by auto
  then show ?thesis using assms filled_step [of k key B m "sub_word T (B ! c)"] by (simp add: le32_sub)
qed

lemma filled_LetI: "(\<And>x. x = e \<Longrightarrow> filled k key (f x) m) \<Longrightarrow> filled k key (Let e f) m"
  by simp

section \<open>The expansion loops\<close>

lemma expand_128_filled:
  assumes "filled 4 key B (4 * i + 4)" "4 * i + 8 \<le> length B" "tables_ok T" "rcon_ok n T" "i < n"
  shows "filled 4 key (expand_128 T B i) (4 * Suc i + 4)"
  unfolding expand_128_def
proof (intro filled_LetI)
  fix p Ba Bb Bc
  assume p: "p = 4 * i"
    and Ba: "Ba = B[p + 4 := B ! p XOR tRCON T ! i XOR sub_rot_word T (B ! (p + 3))]"
    and Bb: "Bb = Ba[p + 5 := Ba ! (p + 1) XOR Ba ! (p + 4)]"
    and Bc: "Bc = Bb[p + 6 := Bb ! (p + 2) XOR Bb ! (p + 5)]"
  have len: "length Ba = length B" "length Bb = length B" "length Bc = length B"
    by (simp_all add: Ba Bb Bc)
  have "filled 4 key Ba (4 * i + 5)"
    unfolding Ba by (rule filled_rot [OF assms(1)]) (use assms p len in \<open>(simp | presburger)+\<close>)
  then have "filled 4 key Bb (4 * i + 6)"
    unfolding Bb by (rule filled_plain) (use assms p len in \<open>(simp | presburger)+\<close>)
  then have "filled 4 key Bc (4 * i + 7)"
    unfolding Bc by (rule filled_plain) (use assms p len in \<open>(simp | presburger)+\<close>)
  then show "filled 4 key (Bc[p + 7 := Bc ! (p + 3) XOR Bc ! (p + 6)]) (4 * Suc i + 4)"
    by (rule filled_plain) (use assms p len in \<open>(simp | presburger)+\<close>)
qed

lemma expand_192_filled:
  assumes "filled 6 key B (6 * i + 6)" "6 * i + 12 \<le> length B" "tables_ok T" "rcon_ok n T" "i < n"
  shows "filled 6 key (expand_192 T B i) (6 * Suc i + 6)"
  unfolding expand_192_def
proof (intro filled_LetI)
  fix p Ba Bb Bc Bd Be
  assume p: "p = 6 * i"
    and Ba: "Ba = B[p + 6 := B ! p XOR tRCON T ! i XOR sub_rot_word T (B ! (p + 5))]"
    and Bb: "Bb = Ba[p + 7 := Ba ! (p + 1) XOR Ba ! (p + 6)]"
    and Bc: "Bc = Bb[p + 8 := Bb ! (p + 2) XOR Bb ! (p + 7)]"
    and Bd: "Bd = Bc[p + 9 := Bc ! (p + 3) XOR Bc ! (p + 8)]"
    and Be: "Be = Bd[p + 10 := Bd ! (p + 4) XOR Bd ! (p + 9)]"
  have len: "length Ba = length B" "length Bb = length B" "length Bc = length B" "length Bd = length B" "length Be = length B"
    by (simp_all add: Ba Bb Bc Bd Be)
  have "filled 6 key Ba (6 * i + 7)"
    unfolding Ba by (rule filled_rot [OF assms(1)]) (use assms p len in \<open>(simp | presburger)+\<close>)
  then have "filled 6 key Bb (6 * i + 8)"
    unfolding Bb by (rule filled_plain) (use assms p len in \<open>(simp | presburger)+\<close>)
  then have "filled 6 key Bc (6 * i + 9)"
    unfolding Bc by (rule filled_plain) (use assms p len in \<open>(simp | presburger)+\<close>)
  then have "filled 6 key Bd (6 * i + 10)"
    unfolding Bd by (rule filled_plain) (use assms p len in \<open>(simp | presburger)+\<close>)
  then have "filled 6 key Be (6 * i + 11)"
    unfolding Be by (rule filled_plain) (use assms p len in \<open>(simp | presburger)+\<close>)
  then show "filled 6 key (Be[p + 11 := Be ! (p + 5) XOR Be ! (p + 10)]) (6 * Suc i + 6)"
    by (rule filled_plain) (use assms p len in \<open>(simp | presburger)+\<close>)
qed

lemma expand_256_filled:
  assumes "filled 8 key B (8 * i + 8)" "8 * i + 16 \<le> length B" "tables_ok T" "rcon_ok n T" "i < n"
  shows "filled 8 key (expand_256 T B i) (8 * Suc i + 8)"
  unfolding expand_256_def
proof (intro filled_LetI)
  fix p Ba Bb Bc Bd Be Bf Bg
  assume p: "p = 8 * i"
    and Ba: "Ba = B[p + 8 := B ! p XOR tRCON T ! i XOR sub_rot_word T (B ! (p + 7))]"
    and Bb: "Bb = Ba[p + 9 := Ba ! (p + 1) XOR Ba ! (p + 8)]"
    and Bc: "Bc = Bb[p + 10 := Bb ! (p + 2) XOR Bb ! (p + 9)]"
    and Bd: "Bd = Bc[p + 11 := Bc ! (p + 3) XOR Bc ! (p + 10)]"
    and Be: "Be = Bd[p + 12 := Bd ! (p + 4) XOR sub_word T (Bd ! (p + 11))]"
    and Bf: "Bf = Be[p + 13 := Be ! (p + 5) XOR Be ! (p + 12)]"
    and Bg: "Bg = Bf[p + 14 := Bf ! (p + 6) XOR Bf ! (p + 13)]"
  have len: "length Ba = length B" "length Bb = length B" "length Bc = length B" "length Bd = length B" "length Be = length B" "length Bf = length B" "length Bg = length B"
    by (simp_all add: Ba Bb Bc Bd Be Bf Bg)
  have "filled 8 key Ba (8 * i + 9)"
    unfolding Ba by (rule filled_rot [OF assms(1)]) (use assms p len in \<open>(simp | presburger)+\<close>)
  then have "filled 8 key Bb (8 * i + 10)"
    unfolding Bb by (rule filled_plain) (use assms p len in \<open>(simp | presburger)+\<close>)
  then have "filled 8 key Bc (8 * i + 11)"
    unfolding Bc by (rule filled_plain) (use assms p len in \<open>(simp | presburger)+\<close>)
  then have "filled 8 key Bd (8 * i + 12)"
    unfolding Bd by (rule filled_plain) (use assms p len in \<open>(simp | presburger)+\<close>)
  then have "filled 8 key Be (8 * i + 13)"
    unfolding Be by (rule filled_sub) (use assms p len in \<open>(simp | presburger)+\<close>)
  then have "filled 8 key Bf (8 * i + 14)"
    unfolding Bf by (rule filled_plain) (use assms p len in \<open>(simp | presburger)+\<close>)
  then have "filled 8 key Bg (8 * i + 15)"
    unfolding Bg by (rule filled_plain) (use assms p len in \<open>(simp | presburger)+\<close>)
  then show "filled 8 key (Bg[p + 15 := Bg ! (p + 7) XOR Bg ! (p + 14)]) (8 * Suc i + 8)"
    by (rule filled_plain) (use assms p len in \<open>(simp | presburger)+\<close>)
qed

lemma filled_mono: "filled k key B m \<Longrightarrow> m' \<le> m \<Longrightarrow> filled k key B m'"
  by (auto simp: filled_def)

lemma length_expand [simp]:
  "length (expand_128 T B i) = length B" "length (expand_192 T B i) = length B"
  "length (expand_256 T B i) = length B"
  by (simp_all add: expand_128_def expand_192_def expand_256_def Let_def)

lemma length_expand_loop [simp]:
  "length (foldl (expand_128 T) B js) = length B" "length (foldl (expand_192 T) B js) = length B"
  "length (foldl (expand_256 T) B js) = length B" "length (foldl (load_key key) B js) = length B"
  by (induction js arbitrary: B) (simp_all add: load_key_def)

lemma expand_loop_filled:
  assumes "filled k key B k" "k * N + k \<le> length B"
    and "\<And>B i. filled k key B (k * i + k) \<Longrightarrow> k * i + 2 * k \<le> length B \<Longrightarrow> i < N \<Longrightarrow>
      filled k key (f B i) (k * Suc i + k)"
    and "\<And>B i. length (f B i) = length B"
  shows "filled k key (foldl f B [0..<N]) (k * N + k)"
  using assms(2,3)
proof (induction N)
  case 0
  then show ?case using assms(1) by simp
next
  case (Suc N)
  have "length (foldl f B js) = length B" for js
    by (induction js arbitrary: B) (simp_all add: assms(4))
  then show ?case using Suc by simp
qed

lemma expand_loops_filled:
  assumes "filled k key B k" "tables_ok T" "rcon_ok N T" "k * N + k \<le> length B"
  shows "k = 4 \<Longrightarrow> filled k key (foldl (expand_128 T) B [0..<N]) (k * N + k)"
    and "k = 6 \<Longrightarrow> filled k key (foldl (expand_192 T) B [0..<N]) (k * N + k)"
    and "k = 8 \<Longrightarrow> filled k key (foldl (expand_256 T) B [0..<N]) (k * N + k)"
  using assms
  by (auto intro!: expand_loop_filled expand_128_filled expand_192_filled expand_256_filled
      simp del: mult_Suc_right mult_Suc)

lemma rcon_ok_mono: "rcon_ok n T \<Longrightarrow> m \<le> n \<Longrightarrow> rcon_ok m T"
  by (auto simp: rcon_ok_def)

text \<open>The schedule \<open>aes_setkey_enc\<close> leaves, for the three key sizes.\<close>

lemma aes_setkey_enc_filled:
  assumes "tables_ok T" "rcon_ok 10 T" "k \<in> {4, 6, 8}" "4 * k \<le> length key" "68 \<le> length (buf ctx)"
  obtains c where "aes_setkey_enc T ctx key (int (32 * k)) = (c, 0)" "ctx_rounds c (k + 6)"
    "length (buf c) = length (buf ctx)" "filled k key (buf c) (4 * (k + 7))"
proof -
  let ?B = "foldl (load_key key) (buf ctx) [0..<k]"
  have B: "filled k key ?B k" "length ?B = length (buf ctx)"
    using assms by (auto intro!: load_key_filled)
  consider "k = 4" | "k = 6" | "k = 8" using assms(3) by auto
  then show ?thesis
  proof cases
    case 1
    have "filled 4 key (foldl (expand_128 T) ?B [0..<10]) 44"
      using expand_loops_filled(1) [OF B(1) assms(1), of 10] assms B(2) 1 by simp
    then show ?thesis using that 1 B
      by (simp add: aes_setkey_enc_def Let_def ctx_rounds_def drop_bit_eq_div)
  next
    case 2
    have "filled 6 key (foldl (expand_192 T) ?B [0..<8]) 54"
      using expand_loops_filled(2) [OF B(1) assms(1), of 8] assms B(2) 2 rcon_ok_mono [of 10 T 8] by simp
    then have "filled 6 key (foldl (expand_192 T) ?B [0..<8]) 52" by (rule filled_mono) simp
    then show ?thesis using that 2 B
      by (simp add: aes_setkey_enc_def Let_def ctx_rounds_def drop_bit_eq_div)
  next
    case 3
    have "filled 8 key (foldl (expand_256 T) ?B [0..<7]) 64"
      using expand_loops_filled(3) [OF B(1) assms(1), of 7] assms B(2) 3 rcon_ok_mono [of 10 T 7] by simp
    then have "filled 8 key (foldl (expand_256 T) ?B [0..<7]) 60" by (rule filled_mono) simp
    then show ?thesis using that 3 B
      by (simp add: aes_setkey_enc_def Let_def ctx_rounds_def drop_bit_eq_div)
  qed
qed

text \<open>The decryption schedule is \<open>schedule_dec\<close> of the encryption schedule.\<close>

lemma aes_setkey_dec_keys:
  assumes T: "tables_ok T" "rcon_ok 10 T" and k: "k \<in> {4, 6, 8}" "4 * k \<le> length key"
    and len: "68 \<le> length (buf ctx)" "68 \<le> length (buf cty)" "68 \<le> length (buf ctz)"
  obtains c d where "aes_setkey_enc T ctx key (int (32 * k)) = (c, 0)"
    "aes_setkey_dec T cty ctz key (int (32 * k)) = (d, 0)" "ctx_rounds c (k + 6)" "ctx_rounds d (k + 6)"
    "inverse_keys (k + 6) (keys_of (buf c)) (keys_of (buf d))"
    "filled k key (buf c) (4 * (k + 7))"
proof -
  obtain c where c: "aes_setkey_enc T ctx key (int (32 * k)) = (c, 0)" "ctx_rounds c (k + 6)"
    "length (buf c) = length (buf ctx)" "filled k key (buf c) (4 * (k + 7))"
    by (rule aes_setkey_enc_filled [OF T k len(1)])
  obtain e where e: "aes_setkey_enc T cty key (int (32 * k)) = (e, 0)" "ctx_rounds e (k + 6)"
    "length (buf e) = length (buf cty)" "filled k key (buf e) (4 * (k + 7))"
    by (rule aes_setkey_enc_filled [OF T k len(2)])
  let ?d = "ctz\<lparr>nr := int (k + 6), rk := 0, buf := schedule_dec T (k + 6) (buf e) (buf ctz)\<rparr>"
  have d: "aes_setkey_dec T cty ctz key (int (32 * k)) = (?d, 0)"
  proof -
    consider "k = 4" | "k = 6" | "k = 8" using k(1) by auto
    then show ?thesis
      using e(1,2)
      by cases (simp_all add: aes_setkey_dec_def ctx_rounds_def Let_def schedule_dec_def case_prod_unfold)
  qed
  have same: "keys_of (buf c) r = keys_of (buf e) r" if "r < k + 7" for r
  proof -
    have "buf c ! q = buf e ! q" if "q < 4 * (k + 7)" for q
    proof -
      have "le32 (buf c ! q) = le32 (buf e ! q)" using that c(4) e(4) by (simp add: filled_def)
      then show ?thesis
        by (cases "buf c ! q" rule: V_cases; cases "buf e ! q" rule: V_cases) simp
    qed
    then show ?thesis using that c(3,4) e(3,4) len by (simp add: keys_of_eq filled_def)
  qed
  have "4 * (k + 6 + 1) \<le> length (buf ctz)" "4 * (k + 6 + 1) \<le> length (buf e)"
    using k(1) len e(3) by auto
  then have "inverse_keys (k + 6) (keys_of (buf e)) (keys_of (buf ?d))"
    using schedule_dec_keys [OF T(1), of "k + 6" "buf ctz" "buf e"] by simp
  then have "inverse_keys (k + 6) (keys_of (buf c)) (keys_of (buf ?d))"
    using same by (simp add: inverse_keys_def)
  moreover have "ctx_rounds ?d (k + 6)" using k(1) by (auto simp: ctx_rounds_def)
  ultimately show ?thesis using that c d by blast
qed

section \<open>The cipher\<close>

lemma bytes_sub_shift: "bytes_of (sub_shift X) = shift_rows (sub_bytes (bytes_of X))"
proof (cases X)
  case (fields X0 X1 X2 X3)
  then show ?thesis
    by (cases X0 rule: V_cases; cases X1 rule: V_cases; cases X2 rule: V_cases; cases X3 rule: V_cases)
      (simp add: sub_bytes_def shift_rows_def sbox_def)
qed

lemma bytes_mix: "bytes_of (on_words mix_word X) = mix_columns (bytes_of X)"
proof (cases X)
  case (fields X0 X1 X2 X3)
  then show ?thesis
    by (cases X0 rule: V_cases; cases X1 rule: V_cases; cases X2 rule: V_cases; cases X3 rule: V_cases)
      (simp add: mix_word_def Let_def)
qed

lemma bytes_xor: "bytes_of (xor_block X Y) = xor_bytes (bytes_of X) (bytes_of Y)"
  by (cases X; cases Y) (simp add: le32_xor xor_bytes_def)

lemma enc_state_bytes:
  "(\<And>q. q \<le> r \<Longrightarrow> bytes_of (K q) = round_key w q) \<Longrightarrow>
    bytes_of (enc_state K r P) = aes_rounds w r (bytes_of P)"
  by (induction r) (simp_all add: bytes_xor bytes_mix bytes_sub_shift xor_bytes_commute)

lemma encrypt_block_bytes:
  assumes "\<And>q. q \<le> n \<Longrightarrow> bytes_of (K q) = round_key w q" "0 < n"
  shows "bytes_of (encrypt_block K n P) = aes_cipher n w (bytes_of P)"
proof -
  have "bytes_of (enc_state K (n - 1) P) = aes_rounds w (n - 1) (bytes_of P)"
    using assms by (intro enc_state_bytes) auto
  then show ?thesis
    using assms by (simp add: encrypt_block_def aes_cipher_def bytes_xor bytes_sub_shift xor_bytes_commute)
qed

lemma concat_words:
  assumes "\<And>q. q < N \<Longrightarrow> length (f q) = 4"
  shows "m \<le> N \<Longrightarrow> drop (4 * m) (concat (map f [0..<N])) = concat (map f [m..<N])"
proof -
  assume m: "m \<le> N"
  have "length (concat (map f [0..<m])) = 4 * m"
    using assms m by (induction m) auto
  moreover have "[0..<N] = [0..<m] @ [m..<N]" using m by (metis le0 le_Suc_ex upt_add_eq_append)
  ultimately show ?thesis by simp
qed

lemma round_key_words:
  assumes "filled k key E (4 * (n + 1))" "r \<le> n"
  shows "bytes_of (keys_of E r) = round_key (key_expansion k n key) r"
proof -
  let ?f = "key_word k key" and ?N = "4 * (n + 1)"
  have f: "?f q = le32 (E ! q)" if "q < ?N" for q using assms(1) that by (simp add: filled_def)
  have "drop (16 * r) (key_expansion k n key) = concat (map ?f [4 * r..<?N])"
    using concat_words [of ?N ?f "4 * r"] f assms(2) unfolding key_expansion_def by simp
  moreover have "[4 * r..<?N] = 4 * r # Suc (4 * r) # Suc (Suc (4 * r)) # Suc (Suc (Suc (4 * r))) #
      [Suc (Suc (Suc (Suc (4 * r))))..<?N]"
    using assms(2) by (simp add: upt_conv_Cons)
  ultimately have "round_key (key_expansion k n key) r =
      le32 (E ! (4 * r)) @ le32 (E ! Suc (4 * r)) @ le32 (E ! Suc (Suc (4 * r))) @ le32 (E ! Suc (Suc (Suc (4 * r))))"
    using assms(2) f by (simp add: round_key_def)
  moreover have "4 * r + 4 \<le> length E" using assms by (simp add: filled_def)
  ultimately show ?thesis by (simp add: keys_of_eq numeral_3_eq_3)
qed

lemma aes_crypt_ecb_cipher:
  assumes "tables_ok T" "ctx_rounds ctx n" "filled k key (buf ctx) (4 * (n + 1))"
    and "16 \<le> length input" "16 \<le> length out" "mode \<noteq> AES_DECRYPT"
  shows "aes_crypt_ecb T ctx mode input out =
    (aes_cipher n (key_expansion k n key) (take 16 input) @ drop 16 out, 0)"
proof -
  have "bytes_of (encrypt_block (keys_of (buf ctx)) n (block_of input)) =
      aes_cipher n (key_expansion k n key) (take 16 input)"
    using assms round_key_words [OF assms(3)]
    by (subst encrypt_block_bytes [where w = "key_expansion k n key"])
      (auto simp: ctx_rounds_def bytes_block_of)
  then show ?thesis
    using assms by (simp add: aes_crypt_ecb_blocks store_block_bytes)
qed

end
