(* ===== verification/Block_Cipher.thy ===== *)
theory Block_Cipher
  imports Prelude
begin

unbundle bit_operations_syntax

text \<open>
  The interface of a cipher on 16-byte blocks: a prepared key (the schedules of both
  directions), encryption and decryption, of which the latter undoes the former. Cipher
  block chaining is specified and inverted once, for every provider.
\<close>

section \<open>Cipher block chaining\<close>

text \<open>\<open>n\<close> blocks of \<open>x\<close>; a chaining step is the block function on the block xored with \<open>iv\<close>.\<close>

fun cbc_encrypt :: "(byte list \<Rightarrow> byte list) \<Rightarrow> nat \<Rightarrow> byte list \<Rightarrow> byte list \<Rightarrow> byte list" where
  "cbc_encrypt f 0 iv x = []"
| "cbc_encrypt f (Suc n) iv x =
    (let c = f (xor_bytes (take 16 x) iv) in c @ cbc_encrypt f n c (drop 16 x))"

fun cbc_decrypt :: "(byte list \<Rightarrow> byte list) \<Rightarrow> nat \<Rightarrow> byte list \<Rightarrow> byte list \<Rightarrow> byte list" where
  "cbc_decrypt f 0 iv x = []"
| "cbc_decrypt f (Suc n) iv x =
    xor_bytes (f (take 16 x)) iv @ cbc_decrypt f n (take 16 x) (drop 16 x)"

text \<open>The chaining vector after \<open>n\<close> blocks of ciphertext \<open>c\<close>.\<close>

definition cbc_next :: "nat \<Rightarrow> byte list \<Rightarrow> byte list \<Rightarrow> byte list" where
  "cbc_next n iv c = (if n = 0 then iv else take 16 (drop (16 * (n - 1)) c))"

section \<open>Counter mode\<close>

text \<open>
  The data xored with the encryptions of the counter blocks: twelve bytes of the nonce and
  the 32-bit counter, which is incremented before each block.
\<close>

definition ctr_block :: "byte list \<Rightarrow> u32 \<Rightarrow> byte list" where
  "ctr_block nonce c = take 12 nonce @ be32 c"

function ctr_crypt :: "(byte list \<Rightarrow> byte list) \<Rightarrow> byte list \<Rightarrow> u32 \<Rightarrow> byte list \<Rightarrow> byte list" where
  "ctr_crypt f nonce c x =
    (if x = [] then []
     else xor_bytes (take 16 x) (f (ctr_block nonce (c + 1))) @ ctr_crypt f nonce (c + 1) (drop 16 x))"
  by pat_completeness auto
termination by (relation "measure (\<lambda>(f, nonce, c, x). length x)") auto

declare ctr_crypt.simps [simp del]

lemma ctr_crypt_cong:
  assumes "\<And>b. length b = 16 \<Longrightarrow> f b = g b" "12 \<le> length nonce"
  shows "ctr_crypt f nonce c x = ctr_crypt g nonce c x"
proof (induction "length x" arbitrary: c x rule: less_induct)
  case less
  have "f (ctr_block nonce (c + 1)) = g (ctr_block nonce (c + 1))"
    using assms(2) by (intro assms(1)) (simp add: ctr_block_def)
  with less show ?case by (cases "x = []") (simp_all add: ctr_crypt.simps [of _ _ c])
qed

section \<open>Blocks of bytes and of words\<close>

text \<open>The words a cast to \<open>UInt32 *\<close> reads from memory, on the little-endian machines the code
  runs on, and a call with the same block as input and output.\<close>

definition words_of :: "byte list \<Rightarrow> u32 list" where
  "words_of b = map (\<lambda>i. get_ulong_le b (4 * i)) [0..<length b div 4]"

definition bytes_of_words :: "u32 list \<Rightarrow> byte list" where
  "bytes_of_words ws = concat (map le32 ws)"

lemma list4_cases:
  assumes "length l = 4"
  obtains a b c d where "l = [a, b, c, d]"
proof -
  have "length l = Suc (Suc (Suc (Suc 0)))" using assms by simp
  then show ?thesis using that by (auto simp: length_Suc_conv)
qed

lemma length_words_of [simp]: "length (words_of b) = length b div 4"
  by (simp add: words_of_def)

lemma length_bytes_of_words [simp]: "length (bytes_of_words ws) = 4 * length ws"
  by (induction ws) (simp_all add: bytes_of_words_def)

lemma words_of_Cons:
  "words_of (le32 w @ b) = w # words_of b"
proof -
  have up: "[0..<Suc n] = 0 # map Suc [0..<n]" for n by (simp add: map_Suc_upt upt_conv_Cons del: upt_Suc)
  obtain a1 a2 a3 a4 where w: "w = V a1 a2 a3 a4" by (rule V_cases)
  have "get_ulong_le (le32 w @ b) 0 = w" by (simp add: w get_ulong_le_V)
  moreover have "get_ulong_le (le32 w @ b) (4 * Suc i) = get_ulong_le b (4 * i)" for i
    by (simp add: get_ulong_le_V nth_append add.commute)
  moreover have "length (le32 w @ b) div 4 = Suc (length b div 4)" by simp
  ultimately show ?thesis by (simp add: words_of_def up o_def del: upt_Suc length_append mult_Suc_right)
qed

lemma words_bytes [simp]: "words_of (bytes_of_words ws) = ws"
proof (induction ws)
  case Nil
  show ?case by (simp add: words_of_def bytes_of_words_def)
next
  case (Cons w ws)
  have "bytes_of_words (w # ws) = le32 w @ bytes_of_words ws" by (simp add: bytes_of_words_def)
  then show ?case using Cons by (simp only: words_of_Cons)
qed

lemma bytes_words: "length b = 4 * n \<Longrightarrow> bytes_of_words (words_of b) = b"
proof (induction n arbitrary: b)
  case (Suc n)
  then obtain a c where b: "b = a @ c" "length a = 4" "length c = 4 * n"
    by (metis append_take_drop_id length_drop length_take add_diff_cancel_left' min.absorb2 mult_Suc_right le_add1)
  obtain a0 a1 a2 a3 where a: "a = [a0, a1, a2, a3]" by (rule list4_cases [OF b(2)])
  have "words_of b = V a3 a2 a1 a0 # words_of c"
    using words_of_Cons [of "V a3 a2 a1 a0" c] by (simp add: b a)
  then show ?case using Suc.IH [OF b(3)] by (simp add: bytes_of_words_def b a)
qed (simp add: bytes_of_words_def words_of_def)

section \<open>The interfaces\<close>

text \<open>A keyed function on blocks; all that counter mode needs.\<close>

locale block_fun =
  fixes ready :: "'k \<Rightarrow> bool"
    and enc :: "'k \<Rightarrow> byte list \<Rightarrow> byte list"
  assumes length_enc: "ready k \<Longrightarrow> length b = 16 \<Longrightarrow> length (enc k b) = 16"
begin

lemma length_ctr_crypt:
  "ready k \<Longrightarrow> 12 \<le> length nonce \<Longrightarrow> length (ctr_crypt (enc k) nonce c x) = length x"
proof (induction "enc k" nonce c x rule: ctr_crypt.induct)
  case (1 nonce c x)
  then have "length (enc k (ctr_block nonce (c + 1))) = 16"
    by (intro length_enc) (simp_all add: ctr_block_def)
  with 1 show ?case by (subst ctr_crypt.simps) auto
qed

text \<open>Decryption is the same function.\<close>

lemma ctr_crypt_twice:
  "ready k \<Longrightarrow> 12 \<le> length nonce \<Longrightarrow> ctr_crypt (enc k) nonce c (ctr_crypt (enc k) nonce c x) = x"
proof (induction "enc k" nonce c x rule: ctr_crypt.induct)
  case (1 nonce c x)
  let ?K = "enc k (ctr_block nonce (c + 1))"
  show ?case
  proof (cases "x = []")
    case True
    then show ?thesis by (simp add: ctr_crypt.simps)
  next
    case False
    have K: "length ?K = 16" using 1 by (intro length_enc) (simp_all add: ctr_block_def)
    let ?h = "xor_bytes (take 16 x) ?K" and ?t = "ctr_crypt (enc k) nonce (c + 1) (drop 16 x)"
    have e: "ctr_crypt (enc k) nonce c x = ?h @ ?t" using False by (simp add: ctr_crypt.simps [of _ _ c])
    have t: "length ?t = length x - 16" using 1(2,3) by (simp add: length_ctr_crypt)
    have split: "take 16 (?h @ ?t) = ?h" "drop 16 (?h @ ?t) = ?t"
    proof -
      have "length ?h = 16 \<or> length ?h < 16 \<and> ?t = []" using K t by auto
      then show "take 16 (?h @ ?t) = ?h" "drop 16 (?h @ ?t) = ?t" by auto
    qed
    have "length (?h @ ?t) \<noteq> 0" using False K t by simp
    then have "?h @ ?t \<noteq> []" by (simp only: length_0_conv not_False_eq_True)
    then have "ctr_crypt (enc k) nonce c (?h @ ?t) =
        xor_bytes (take 16 (?h @ ?t)) ?K @ ctr_crypt (enc k) nonce (c + 1) (drop 16 (?h @ ?t))"
      by (simp only: ctr_crypt.simps [of _ _ c "?h @ ?t"] if_False)
    also have "\<dots> = take 16 x @ drop 16 x"
      unfolding split using 1(1) [OF False 1(2,3)] K by simp
    finally show ?thesis unfolding e by simp
  qed
qed

end

locale block_cipher = block_fun ready enc
  for ready :: "'k \<Rightarrow> bool" and enc :: "'k \<Rightarrow> byte list \<Rightarrow> byte list" +
  fixes dec :: "'k \<Rightarrow> byte list \<Rightarrow> byte list"
  assumes length_dec: "ready k \<Longrightarrow> length b = 16 \<Longrightarrow> length (dec k b) = 16"
    and dec_enc: "ready k \<Longrightarrow> length b = 16 \<Longrightarrow> dec k (enc k b) = b"
begin

text \<open>Two different blocks have different encryptions.\<close>

lemma enc_inject:
  "ready k \<Longrightarrow> length a = 16 \<Longrightarrow> length b = 16 \<Longrightarrow> enc k a = enc k b \<longleftrightarrow> a = b"
  by (metis dec_enc)

lemma length_cbc_encrypt:
  "ready k \<Longrightarrow> length iv = 16 \<Longrightarrow> 16 * n \<le> length x \<Longrightarrow> length (cbc_encrypt (enc k) n iv x) = 16 * n"
  by (induction n arbitrary: iv x) (simp_all add: Let_def length_enc)

lemma cbc_decrypt_encrypt:
  "ready k \<Longrightarrow> length iv = 16 \<Longrightarrow> 16 * n \<le> length x \<Longrightarrow>
    cbc_decrypt (dec k) n iv (cbc_encrypt (enc k) n iv x @ y) = take (16 * n) x"
proof (induction n arbitrary: iv x)
  case (Suc n)
  let ?c = "enc k (xor_bytes (take 16 x) iv)"
  have l: "length (take 16 x) = 16" "length ?c = 16" using Suc.prems by (simp_all add: length_enc)
  have "take (16 * Suc n) x = take 16 x @ take (16 * n) (drop 16 x)" by (simp add: take_add)
  then show ?case using Suc l by (simp add: Let_def dec_enc)
qed simp

text \<open>Chaining may be interrupted: the vector carries over.\<close>

lemma cbc_encrypt_add:
  "ready k \<Longrightarrow> length iv = 16 \<Longrightarrow> 16 * (m + n) \<le> length x \<Longrightarrow>
    cbc_encrypt (enc k) (m + n) iv x =
    cbc_encrypt (enc k) m iv x
      @ cbc_encrypt (enc k) n (cbc_next m iv (cbc_encrypt (enc k) m iv x)) (drop (16 * m) x)"
proof (induction m arbitrary: iv x)
  case 0
  then show ?case by (simp add: cbc_next_def)
next
  case (Suc m)
  let ?c = "enc k (xor_bytes (take 16 x) iv)"
  have l: "length ?c = 16" using Suc.prems by (simp add: length_enc)
  have "cbc_next (Suc m) iv (?c @ r) = cbc_next m ?c r" if "length r = 16 * m" for r
    using l that by (cases m) (simp_all add: cbc_next_def)
  moreover have "length (cbc_encrypt (enc k) m ?c (drop 16 x)) = 16 * m"
    using Suc.prems l by (intro length_cbc_encrypt) auto
  ultimately show ?case
    using Suc l by (simp add: Let_def add.commute)
qed

end

end
