(* ===== verification/Aes_Cbc.thy ===== *)
theory Aes_Cbc
  imports Aes_Keys Block_Cipher
begin

text \<open>
  \<open>aes.c\<close> as a block cipher: prepared keys, the interpretation of the block cipher
  interface, and the loops of \<open>aes_crypt_cbc\<close> as cipher block chaining.
\<close>

section \<open>Prepared keys\<close>

text \<open>A context of each direction whose schedules are inverse to each other.\<close>

definition aes_ready :: "aes_tables \<times> aes_context \<times> aes_context \<Rightarrow> bool" where
  "aes_ready = (\<lambda>(T, c, d). tables_ok T \<and>
     (\<exists>n. ctx_rounds c n \<and> ctx_rounds d n \<and> inverse_keys n (keys_of (buf c)) (keys_of (buf d))))"

definition aes_enc :: "aes_tables \<times> aes_context \<times> aes_context \<Rightarrow> byte list \<Rightarrow> byte list" where
  "aes_enc = (\<lambda>(T, c, d) b. fst (aes_crypt_ecb T c AES_ENCRYPT b b))"

definition aes_dec :: "aes_tables \<times> aes_context \<times> aes_context \<Rightarrow> byte list \<Rightarrow> byte list" where
  "aes_dec = (\<lambda>(T, c, d) b. fst (aes_crypt_ecb T d AES_DECRYPT b b))"

lemma modes_differ [simp]: "AES_ENCRYPT \<noteq> AES_DECRYPT" "AES_DECRYPT \<noteq> AES_ENCRYPT"
  by (simp_all add: AES_ENCRYPT_def AES_DECRYPT_def)

interpretation aes: block_cipher aes_ready aes_enc aes_dec
proof (unfold_locales, goal_cases)
  case (1 k b)
  then show ?case by (auto simp: aes_ready_def aes_enc_def aes_crypt_ecb_blocks store_block_bytes)
next
  case (2 k b)
  then show ?case by (auto simp: aes_ready_def aes_dec_def aes_crypt_ecb_blocks store_block_bytes)
next
  case (3 k b)
  then obtain T c d n where k: "k = (T, c, d)" "tables_ok T" "ctx_rounds c n" "ctx_rounds d n"
    "inverse_keys n (keys_of (buf c)) (keys_of (buf d))"
    by (auto simp: aes_ready_def)
  have "0 < n" using k(3) by (auto simp: ctx_rounds_def)
  have "block_of (bytes_of X) = X" for X using block_bytes_of [of X "[]"] by simp
  then show ?case
    using 3(2) k \<open>0 < n\<close> bytes_block_of [of b]
    by (simp add: aes_enc_def aes_dec_def aes_crypt_ecb_blocks store_block_bytes decrypt_encrypt)
qed

lemma aes_crypt_ecb_ret [simp]: "snd (aes_crypt_ecb T c mode x y) = 0"
  by (simp add: aes_crypt_ecb_def Let_def)

text \<open>Encrypting and decrypting in place, with the return codes.\<close>

lemma aes_ecb_in_place:
  assumes "aes_ready (T, c, d)" "length b = 16"
  obtains e where "aes_crypt_ecb T c AES_ENCRYPT b b = (e, 0)" "aes_crypt_ecb T d AES_DECRYPT e e = (b, 0)"
proof -
  let ?e = "fst (aes_crypt_ecb T c AES_ENCRYPT b b)"
  have "fst (aes_crypt_ecb T d AES_DECRYPT ?e ?e) = b"
    using aes.dec_enc [OF assms] by (simp add: aes_enc_def aes_dec_def)
  then show ?thesis by (intro that [of ?e]) (auto intro: prod_eqI)
qed

section \<open>The chaining loops\<close>

lemma ecb_out:
  assumes "tables_ok T" "ctx_rounds ctx n" "16 \<le> length input" "16 \<le> length out"
  shows "fst (aes_crypt_ecb T ctx mode input out) =
    fst (aes_crypt_ecb T ctx mode (take 16 input) (take 16 input)) @ drop 16 out"
proof -
  have "block_of (take 16 input) = block_of input" by (simp add: block_of_def get_ulong_le_def)
  then show ?thesis using assms by (simp add: aes_crypt_ecb_blocks store_block_bytes)
qed

lemma ecb_len:
  assumes "tables_ok T" "ctx_rounds ctx n" "16 \<le> length input"
  shows "length (fst (aes_crypt_ecb T ctx mode (take 16 input) (take 16 input))) = 16"
  using assms by (simp add: aes_crypt_ecb_blocks store_block_bytes)

lemma cbc_enc_loop_spec:
  assumes T: "tables_ok T" "ctx_rounds ctx r"
  shows "16 * n \<le> length input \<Longrightarrow> 16 * n \<le> length out \<Longrightarrow> length iv = 16 \<Longrightarrow>
    cbc_enc_loop T ctx mode (16 * int n) iv input out =
    (let c = cbc_encrypt (\<lambda>b. fst (aes_crypt_ecb T ctx mode b b)) n iv input
     in (cbc_next n iv c, c @ drop (16 * n) out))"
proof (induction n arbitrary: iv input out)
  case 0
  then show ?case by (simp add: cbc_enc_loop.simps cbc_next_def)
next
  case (Suc n)
  let ?f = "\<lambda>b. fst (aes_crypt_ecb T ctx mode b b)"
  let ?x = "xor_bytes (take 16 input) iv"
  have x: "length ?x = 16" using Suc.prems by simp
  have b: "blit out 0 ?x = ?x @ drop 16 out" using x by (simp add: blit_def)
  have e: "fst (aes_crypt_ecb T ctx mode (?x @ drop 16 out) (?x @ drop 16 out)) = ?f ?x @ drop 16 out"
    using ecb_out [OF T, of "?x @ drop 16 out" "?x @ drop 16 out" mode] x by simp
  have "take 16 ?x = ?x" using x by (intro take_all) simp
  then have l: "length (?f ?x) = 16" using ecb_len [OF T, of ?x mode] x by (simp only: order_refl)
  have s: "16 * int (Suc n) - 16 = 16 * int n" by simp
  let ?c = "cbc_encrypt ?f n (?f ?x) (drop 16 input)"
  have IH: "cbc_enc_loop T ctx mode (16 * int n) (?f ?x) (drop 16 input) (drop 16 out) =
      (cbc_next n (?f ?x) ?c, ?c @ drop (16 * n) (drop 16 out))"
    using Suc.IH [of "drop 16 input" "drop 16 out" "?f ?x"] Suc.prems l by (simp add: Let_def)
  have v: "blit iv 0 (?f ?x) = ?f ?x" using Suc.prems l by (simp add: blit_def)
  have "cbc_next (Suc n) iv (?f ?x @ ?c) = cbc_next n (?f ?x) ?c"
    using l by (cases n) (simp_all add: cbc_next_def)
  then show ?case
    by (subst cbc_enc_loop.simps) (simp add: Let_def b e l v s IH add.commute)
qed

lemma cbc_dec_loop_spec:
  assumes T: "tables_ok T" "ctx_rounds ctx r"
  shows "16 * n \<le> length input \<Longrightarrow> 16 * n \<le> length out \<Longrightarrow> length iv = 16 \<Longrightarrow>
    cbc_dec_loop T ctx mode (16 * int n) iv input out =
    (cbc_next n iv input,
     cbc_decrypt (\<lambda>b. fst (aes_crypt_ecb T ctx mode b b)) n iv input @ drop (16 * n) out)"
proof (induction n arbitrary: iv input out)
  case 0
  then show ?case by (simp add: cbc_dec_loop.simps cbc_next_def)
next
  case (Suc n)
  let ?f = "\<lambda>b. fst (aes_crypt_ecb T ctx mode b b)"
  let ?t = "take 16 input"
  have e: "fst (aes_crypt_ecb T ctx mode input out) = ?f ?t @ drop 16 out"
    using ecb_out [OF T, of input out mode] Suc.prems by simp
  have l: "length (?f ?t) = 16" using ecb_len [OF T, of input mode] Suc.prems by simp
  have b: "blit (?f ?t @ drop 16 out) 0 (xor_bytes (?f ?t) iv) = xor_bytes (?f ?t) iv @ drop 16 out"
    using l Suc.prems by (simp add: blit_def)
  have v: "blit iv 0 ?t = ?t" using Suc.prems by (simp add: blit_def)
  have s: "16 * int (Suc n) - 16 = 16 * int n" by simp
  have IH: "cbc_dec_loop T ctx mode (16 * int n) ?t (drop 16 input) (drop 16 out) =
      (cbc_next n ?t (drop 16 input), cbc_decrypt ?f n ?t (drop 16 input) @ drop (16 * n) (drop 16 out))"
    using Suc.IH [of "drop 16 input" "drop 16 out" ?t] Suc.prems by simp
  have "cbc_next (Suc n) iv input = cbc_next n ?t (drop 16 input)"
    by (cases n) (simp_all add: cbc_next_def add.commute)
  then show ?case using l Suc.prems
    by (subst cbc_dec_loop.simps) (simp add: Let_def b e v s IH add.commute)
qed

end
