(* ===== verification/Aesx.thy ===== *)
theory Aesx
  imports Aes_Cbc
begin

unbundle bit_operations_syntax

text \<open>
  \<open>Crypto/C-Code/AES256/aesx.c\<close>: the author's cipher with twice the rounds (16, 20, 28
  instead of 10, 12, 14) on the same key expansion, run further. Its tables are static
  variables that the first \<open>aesx_setkey_enc\<close> fills. The loops over rounds, blocks and
  schedule words repeat those of \<open>aes.c\<close> and are shared with that model.
\<close>

section \<open>The functions\<close>

text \<open>The static variables of the file. \<open>pow\<close> and \<open>log\<close> are automatic in the generator.\<close>

record aesx_static =
  init_done :: int
  tables :: aes_tables

definition aesx_setkey_enc :: "int list \<Rightarrow> int list \<Rightarrow> aesx_static \<Rightarrow> aes_context \<Rightarrow> byte list \<Rightarrow> int \<Rightarrow>
    aesx_static \<times> aes_context \<times> int" where
  "aesx_setkey_enc pow log st ctx key keysize =
    (let st = (if init_done st = 0
               then st\<lparr>tables := aesx_gen_tables pow log (tables st), init_done := 1\<rparr> else st);
         T = tables st
     in if keysize \<noteq> 128 \<and> keysize \<noteq> 192 \<and> keysize \<noteq> 256
        then (st, ctx, POLARSSL_ERR_AES_INVALID_KEY_LENGTH)
        else
          let ctx = ctx\<lparr>nr := (if keysize = 128 then 16 else if keysize = 192 then 20 else 28)\<rparr>;
              ctx = ctx\<lparr>rk := 0\<rparr>;
              B = foldl (load_key key) (buf ctx) [0..<nat (drop_bit 5 keysize)];
              B = (if keysize = 128 then foldl (expand_128 T) B [0..<16]
                   else if keysize = 192 then foldl (expand_192 T) B [0..<10]
                   else if keysize = 256 then foldl (expand_256 T) B [0..<14]
                   else B)
          in (st, ctx\<lparr>buf := B\<rparr>, 0))"

definition aesx_setkey_dec :: "int list \<Rightarrow> int list \<Rightarrow> aesx_static \<Rightarrow> aes_context \<Rightarrow> aes_context \<Rightarrow>
    byte list \<Rightarrow> int \<Rightarrow> aesx_static \<times> aes_context \<times> int" where
  "aesx_setkey_dec pow log st cty ctx key keysize =
    (if keysize \<noteq> 128 \<and> keysize \<noteq> 192 \<and> keysize \<noteq> 256
     then (st, ctx, POLARSSL_ERR_AES_INVALID_KEY_LENGTH)
     else
       let ctx = ctx\<lparr>nr := (if keysize = 128 then 16 else if keysize = 192 then 20 else 28)\<rparr>;
           ctx = ctx\<lparr>rk := 0\<rparr>;
           (st, cty, ret) = aesx_setkey_enc pow log st cty key keysize
       in if ret \<noteq> 0 then (st, ctx, ret)
          else
            let S = drop (rk cty) (buf cty);
                SK = nat (nr cty) * 4;
                B = copy_4 (buf ctx) 0 S SK;
                (B, SK, RK) = dec_rounds (tables st) S (nat (nr ctx - 1)) (SK + 4 - 8) B 4;
                B = copy_4 B RK S SK
            in (st, ctx\<lparr>buf := B\<rparr>, 0))"

definition aesx_crypt_ecb :: "aesx_static \<Rightarrow> aes_context \<Rightarrow> int \<Rightarrow> byte list \<Rightarrow> byte list \<Rightarrow>
    byte list \<times> int" where
  "aesx_crypt_ecb st ctx mode input output =
    (let T = tables st;
         RK = drop (rk ctx) (buf ctx);
         X = load_block input RK; RK = drop 4 RK;
         n = nat (drop_bit 1 (nr ctx) - 1);
         X = (if mode = AES_DECRYPT
              then
                let (RK, X) = dec_loop T n RK X;
                    Y = AES_RROUND T RK X; RK = drop 4 RK
                in dec_last T RK Y
              else
                let (RK, X) = enc_loop T n RK X;
                    Y = AES_FROUND T RK X; RK = drop 4 RK
                in enc_last T RK Y)
     in (store_block X output, 0))"

definition aesx_crypt_cbc :: "aesx_static \<Rightarrow> aes_context \<Rightarrow> int \<Rightarrow> int \<Rightarrow> byte list \<Rightarrow> byte list \<Rightarrow>
    byte list \<Rightarrow> byte list \<times> byte list \<times> int" where
  "aesx_crypt_cbc st ctx mode n iv input output =
    (if n mod 16 \<noteq> 0 then (iv, output, POLARSSL_ERR_AES_INVALID_INPUT_LENGTH)
     else
       let (iv, output) =
         (if mode = AES_DECRYPT then cbc_dec_loop (tables st) ctx mode n iv input output
          else cbc_enc_loop (tables st) ctx mode n iv input output)
       in (iv, output, 0))"

section \<open>Static state\<close>

text \<open>Either nothing was initialised yet and the arrays have their sizes, or the tables are in place.\<close>

definition aesx_static_ok :: "aesx_static \<Rightarrow> bool" where
  "aesx_static_ok st \<longleftrightarrow>
    (if init_done st = 0 then tables_shape 16 (tables st)
     else tables st = rom_tables\<lparr>tRCON := AESX_RCON\<rparr>)"

definition aesx_tables :: aes_tables where
  "aesx_tables = rom_tables\<lparr>tRCON := AESX_RCON\<rparr>"

lemma aesx_tables_ok [simp]: "tables_ok aesx_tables"
  unfolding tables_ok_def aesx_tables_def by blast

lemma aesx_init:
  assumes "aesx_static_ok st" "length p = 256" "length l = 256" "init_done st = 0"
  shows "aesx_gen_tables p l (tables st) = aesx_tables"
  using assms gen_tables_rom [of 16 "tables st" p l AESX_RCON] rcon_table(2)
  by (simp add: aesx_static_ok_def aesx_tables_def aesx_gen_tables_def)

text \<open>The schedule of a key size, with the tables in place.\<close>

definition aesx_schedule :: "u32 list \<Rightarrow> byte list \<Rightarrow> nat \<Rightarrow> u32 list" where
  "aesx_schedule B key k =
    (let B = foldl (load_key key) B [0..<k]
     in if k = 4 then foldl (expand_128 aesx_tables) B [0..<16]
        else if k = 6 then foldl (expand_192 aesx_tables) B [0..<10]
        else foldl (expand_256 aesx_tables) B [0..<14])"

definition aesx_rounds :: "nat \<Rightarrow> nat" where
  "aesx_rounds k = (if k = 4 then 16 else if k = 6 then 20 else 28)"

lemma aesx_setkey_enc_schedule:
  assumes st: "aesx_static_ok st" "length p = 256" "length l = 256" and k: "k \<in> {4, 6, 8}"
  obtains st' where "aesx_setkey_enc p l st ctx key (int (32 * k)) =
      (st', ctx\<lparr>nr := int (aesx_rounds k), rk := 0, buf := aesx_schedule (buf ctx) key k\<rparr>, 0)"
    "tables st' = aesx_tables" "init_done st' \<noteq> 0"
proof -
  let ?s = "if init_done st = 0 then st\<lparr>tables := aesx_gen_tables p l (tables st), init_done := 1\<rparr> else st"
  have s: "tables ?s = aesx_tables" "init_done ?s \<noteq> 0"
    using aesx_init [OF st] st(1) by (auto simp: aesx_static_ok_def aesx_tables_def)
  consider "k = 4" | "k = 6" | "k = 8" using k by auto
  then have "aesx_setkey_enc p l st ctx key (int (32 * k)) =
      (?s, ctx\<lparr>nr := int (aesx_rounds k), rk := 0, buf := aesx_schedule (buf ctx) key k\<rparr>, 0)"
    using s(1)
    by cases (simp_all add: aesx_setkey_enc_def Let_def aesx_schedule_def aesx_rounds_def drop_bit_eq_div)
  then show ?thesis using that s by blast
qed

lemma aesx_rcon: "rcon_ok 16 aesx_tables"
  unfolding aesx_tables_def by (rule rcon_aesx)

lemma length_aesx_schedule [simp]: "length (aesx_schedule B key k) = length B"
  by (simp add: aesx_schedule_def Let_def)

text \<open>How far each schedule is filled: 68 words, 66 words, 120 words.\<close>

lemma aesx_schedule_filled:
  assumes "k \<in> {4, 6, 8}" "4 * k \<le> length key" "128 \<le> length B"
  shows "filled k key (aesx_schedule B key k) (if k = 4 then 68 else if k = 6 then 66 else 120)"
proof -
  let ?B = "foldl (load_key key) B [0..<k]"
  have B: "filled k key ?B k" "length ?B = length B"
    using assms by (auto intro!: load_key_filled)
  consider "k = 4" | "k = 6" | "k = 8" using assms(1) by auto
  then show ?thesis
  proof cases
    case 1
    then show ?thesis
      using expand_loops_filled(1) [OF B(1) aesx_tables_ok aesx_rcon] B(2) assms
      by (simp add: aesx_schedule_def Let_def)
  next
    case 2
    then show ?thesis
      using expand_loops_filled(2) [OF B(1) aesx_tables_ok, of 10] rcon_ok_mono [OF aesx_rcon, of 10] B(2) assms
      by (simp add: aesx_schedule_def Let_def)
  next
    case 3
    then show ?thesis
      using expand_loops_filled(3) [OF B(1) aesx_tables_ok, of 14] rcon_ok_mono [OF aesx_rcon, of 14] B(2) assms
      by (simp add: aesx_schedule_def Let_def)
  qed
qed

section \<open>Encryption and decryption\<close>

lemma aesx_crypt_ecb_eq: "aesx_crypt_ecb st = aes_crypt_ecb (tables st)"
  by (intro ext) (simp add: aesx_crypt_ecb_def aes_crypt_ecb_def Let_def)

lemma aesx_crypt_cbc_eq: "aesx_crypt_cbc st = aes_crypt_cbc (tables st)"
  by (intro ext) (simp add: aesx_crypt_cbc_def aes_crypt_cbc_def)

text \<open>For 128 and 256 bit keys the schedule covers all rounds.\<close>

lemma aesx_keys:
  assumes st: "aesx_static_ok st" "length p = 256" "length l = 256"
    and k: "k \<in> {4, 8}" "4 * k \<le> length key"
    and len: "length (buf ctx) = 128" "length (buf cty) = 128" "length (buf ctz) = 128"
  obtains s c t d where
    "aesx_setkey_enc p l st ctx key (int (32 * k)) = (s, c, 0)" "tables s = aesx_tables"
    "aesx_setkey_dec p l st cty ctz key (int (32 * k)) = (t, d, 0)" "tables t = aesx_tables"
    "ctx_rounds c (aesx_rounds k)" "ctx_rounds d (aesx_rounds k)"
    "inverse_keys (aesx_rounds k) (keys_of (buf c)) (keys_of (buf d))"
    "filled k key (buf c) (4 * (aesx_rounds k + 1))"
proof -
  let ?n = "aesx_rounds k"
  have k3: "k \<in> {4, 6, 8}" using k(1) by auto
  obtain s where s: "aesx_setkey_enc p l st ctx key (int (32 * k)) =
      (s, ctx\<lparr>nr := int ?n, rk := 0, buf := aesx_schedule (buf ctx) key k\<rparr>, 0)" "tables s = aesx_tables"
    by (rule aesx_setkey_enc_schedule [OF st k3])
  obtain t where t: "aesx_setkey_enc p l st cty key (int (32 * k)) =
      (t, cty\<lparr>nr := int ?n, rk := 0, buf := aesx_schedule (buf cty) key k\<rparr>, 0)" "tables t = aesx_tables"
    by (rule aesx_setkey_enc_schedule [OF st k3])
  let ?d = "ctz\<lparr>nr := int ?n, rk := 0, buf := schedule_dec aesx_tables ?n (aesx_schedule (buf cty) key k) (buf ctz)\<rparr>"
  have d: "aesx_setkey_dec p l st cty ctz key (int (32 * k)) = (t, ?d, 0)"
  proof -
    consider "k = 4" | "k = 8" using k(1) by auto
    then show ?thesis
      using t by cases (simp_all add: aesx_setkey_dec_def Let_def schedule_dec_def case_prod_unfold aesx_rounds_def)
  qed
  have n: "4 * (?n + 1) \<le> 120" "?n > 0" "even ?n" "2 \<le> ?n" using k(1) by (auto simp: aesx_rounds_def)
  have f: "filled k key (aesx_schedule B key k) (4 * (?n + 1))" if "length B = 128" for B
    using aesx_schedule_filled [OF k3 k(2), of B] that k(1)
    by (auto simp: aesx_rounds_def intro: filled_mono)
  let ?A = "aesx_schedule (buf ctx) key k" and ?B = "aesx_schedule (buf cty) key k"
  have "?A ! q = ?B ! q" if "q < 4 * (?n + 1)" for q
  proof -
    have "le32 (?A ! q) = le32 (?B ! q)" using f [OF len(1)] f [OF len(2)] that by (simp add: filled_def)
    then show ?thesis by (cases "?A ! q" rule: V_cases; cases "?B ! q" rule: V_cases) simp
  qed
  then have same: "keys_of ?A r = keys_of ?B r" if "r < ?n + 1" for r
    using that n len by (simp add: keys_of_eq)
  have "inverse_keys ?n (keys_of ?B) (keys_of (buf ?d))"
    using schedule_dec_keys [OF aesx_tables_ok, of ?n "buf ctz" ?B] n len by simp
  then have "inverse_keys ?n (keys_of ?A) (keys_of (buf ?d))" using same by (simp add: inverse_keys_def)
  then show ?thesis
    using that [OF s(1,2) d t(2)] f [OF len(1)] n by (simp add: ctx_rounds_def)
qed

section \<open>The interface\<close>

definition aesx_enc :: "aesx_static \<times> aes_context \<times> aes_context \<Rightarrow> byte list \<Rightarrow> byte list" where
  "aesx_enc = (\<lambda>(s, c, d) b. fst (aesx_crypt_ecb s c AES_ENCRYPT b b))"

definition aesx_dec :: "aesx_static \<times> aes_context \<times> aes_context \<Rightarrow> byte list \<Rightarrow> byte list" where
  "aesx_dec = (\<lambda>(s, c, d) b. fst (aesx_crypt_ecb s d AES_DECRYPT b b))"

interpretation aesx: block_cipher "\<lambda>(s, c, d). aes_ready (tables s, c, d)" aesx_enc aesx_dec
proof (unfold_locales, goal_cases)
  case (1 k b)
  then show ?case
    using aes.length_enc [of "(tables (fst k), snd k)" b]
    by (auto simp: aesx_enc_def aes_enc_def aesx_crypt_ecb_eq)
next
  case (2 k b)
  then show ?case
    using aes.length_dec [of "(tables (fst k), snd k)" b]
    by (auto simp: aesx_dec_def aes_dec_def aesx_crypt_ecb_eq)
next
  case (3 k b)
  then show ?case
    using aes.dec_enc [of "(tables (fst k), snd k)" b]
    by (auto simp: aesx_dec_def aes_dec_def aesx_enc_def aes_enc_def aesx_crypt_ecb_eq)
qed

text \<open>
  With a 192 bit key the loop stops after 66 of the 84 words that 20 rounds read: the
  other words are what the caller's context contained.
\<close>

lemma expand_192_frame: "6 * i + 12 \<le> q \<Longrightarrow> expand_192 T B i ! q = B ! q"
  by (simp add: expand_192_def Let_def)

lemma aesx_192_frame:
  assumes "66 \<le> q"
  shows "aesx_schedule B key 6 ! q = B ! q"
proof -
  have "foldl (expand_192 aesx_tables) A [0..<n] ! q = A ! q" if "n \<le> 10" for A n
    using that assms by (induction n) (simp_all add: expand_192_frame)
  moreover have "foldl (load_key key) B [0..<m] ! q = B ! q" if "m \<le> 6" for m
    using that assms by (induction m) (simp_all add: load_key_def)
  ultimately show ?thesis by (simp add: aesx_schedule_def)
qed

end
