(* ===== verification/Aes_Props.thy ===== *)
theory Aes_Props
  imports Aesx
begin

unbundle bit_operations_syntax

text \<open>
  The properties of \<open>aes.c\<close> and \<open>aesx.c\<close>. Every theorem holds for any previous contents of
  the contexts, the automatic arrays and the static tables.
\<close>

text \<open>Contexts and static variables before any call.\<close>

definition zero_aes :: "nat \<Rightarrow> aes_context" where
  "zero_aes n = \<lparr>nr = 0, rk = 0, buf = replicate n 0\<rparr>"

definition zero_tables :: "nat \<Rightarrow> aes_tables" where
  "zero_tables n = \<lparr>tFSb = replicate 256 0, tFT0 = replicate 256 0, tFT1 = replicate 256 0,
     tFT2 = replicate 256 0, tFT3 = replicate 256 0, tRSb = replicate 256 0, tRT0 = replicate 256 0,
     tRT1 = replicate 256 0, tRT2 = replicate 256 0, tRT3 = replicate 256 0, tRCON = replicate n 0\<rparr>"

definition zero_static :: aesx_static where
  "zero_static = \<lparr>init_done = 0, tables = zero_tables 16\<rparr>"

lemma zero_shapes [simp]:
  "length (buf (zero_aes n)) = n" "tables_shape n (zero_tables n)" "aesx_static_ok zero_static"
  by (simp_all add: zero_aes_def tables_shape_def zero_tables_def aesx_static_ok_def zero_static_def)

text \<open>C4. After \<open>aes_setkey_enc\<close> with any of the three key sizes, \<open>aes_crypt_ecb\<close> writes the
  encryption of the block by the Advanced Encryption Standard under that key: the table
  rounds are the standard's transformations and the schedule is its key expansion.\<close>

theorem aes_encrypt_standard:
  assumes "k \<in> {4, 6, 8}" "length key = 4 * k" "length (buf ctx) = 68"
    and "16 \<le> length input" "16 \<le> length out"
  shows "let (c, ret) = aes_setkey_enc rom_tables ctx key (int (32 * k))
     in ret = 0 \<and> aes_crypt_ecb rom_tables c AES_ENCRYPT input out =
        (aes_cipher (k + 6) (key_expansion k (k + 6) key) (take 16 input) @ drop 16 out, 0)"
proof -
  have l: "4 * k \<le> length key" "68 \<le> length (buf ctx)" using assms(2,3) by simp_all
  obtain c where c: "aes_setkey_enc rom_tables ctx key (int (32 * k)) = (c, 0)" "ctx_rounds c (k + 6)"
    "filled k key (buf c) (4 * (k + 7))"
    by (rule aes_setkey_enc_filled [OF rom_tables_ok rcon_rom assms(1) l])
  have "k + 6 + 1 = k + 7" by simp
  then have "filled k key (buf c) (4 * (k + 6 + 1))" using c(3) by (simp only:)
  from aes_crypt_ecb_cipher [OF rom_tables_ok c(2) this assms(4,5)] show ?thesis
    unfolding c(1) by simp
qed

theorem aes_encrypt_standard_witness:
  "let (c, ret) = aes_setkey_enc rom_tables (zero_aes 68) (replicate 24 1) (int (32 * 6))
   in ret = 0 \<and> aes_crypt_ecb rom_tables c AES_ENCRYPT (replicate 16 2) (replicate 16 0) =
      (aes_cipher (6 + 6) (key_expansion 6 (6 + 6) (replicate 24 1)) (take 16 (replicate 16 2))
         @ drop 16 (replicate 16 0), 0)"
  by (rule aes_encrypt_standard) simp_all

text \<open>C5. \<open>aes_crypt_ecb\<close> in decryption mode under the schedule of \<open>aes_setkey_dec\<close> gives back
  every block encrypted under the schedule of \<open>aes_setkey_enc\<close> for the same key.\<close>

theorem aes_ecb_round_trip:
  assumes "k \<in> {4, 6, 8}" "length key = 4 * k" "length block = 16"
    and "length (buf ctx) = 68" "length (buf cty) = 68" "length (buf ctz) = 68"
  shows "let (c, r) = aes_setkey_enc rom_tables ctx key (int (32 * k));
       (d, s) = aes_setkey_dec rom_tables cty ctz key (int (32 * k));
       (enc, t) = aes_crypt_ecb rom_tables c AES_ENCRYPT block block
     in aes_crypt_ecb rom_tables d AES_DECRYPT enc enc = (block, 0) \<and> r = 0 \<and> s = 0 \<and> t = 0"
proof -
  have l: "4 * k \<le> length key" "68 \<le> length (buf ctx)" "68 \<le> length (buf cty)" "68 \<le> length (buf ctz)"
    using assms by simp_all
  obtain c d where cd: "aes_setkey_enc rom_tables ctx key (int (32 * k)) = (c, 0)"
    "aes_setkey_dec rom_tables cty ctz key (int (32 * k)) = (d, 0)" "ctx_rounds c (k + 6)" "ctx_rounds d (k + 6)"
    "inverse_keys (k + 6) (keys_of (buf c)) (keys_of (buf d))"
    by (rule aes_setkey_dec_keys [OF rom_tables_ok rcon_rom assms(1) l])
  then have "aes_ready (rom_tables, c, d)" by (auto simp: aes_ready_def)
  then obtain e where "aes_crypt_ecb rom_tables c AES_ENCRYPT block block = (e, 0)"
    "aes_crypt_ecb rom_tables d AES_DECRYPT e e = (block, 0)"
    using assms(3) by (rule aes_ecb_in_place)
  then show ?thesis unfolding cd(1,2) by (simp only: Let_def prod.case)
qed

theorem aes_ecb_round_trip_witness:
  "let (c, r) = aes_setkey_enc rom_tables (zero_aes 68) (replicate 32 1) (int (32 * 8));
       (d, s) = aes_setkey_dec rom_tables (zero_aes 68) (zero_aes 68) (replicate 32 1) (int (32 * 8));
       (enc, t) = aes_crypt_ecb rom_tables c AES_ENCRYPT (replicate 16 3) (replicate 16 3)
   in aes_crypt_ecb rom_tables d AES_DECRYPT enc enc = (replicate 16 3, 0) \<and> r = 0 \<and> s = 0 \<and> t = 0"
  by (rule aes_ecb_round_trip) simp_all

text \<open>C6. \<open>aes_crypt_cbc\<close> encrypts any number of whole blocks by cipher block chaining and
  leaves the last ciphertext block in \<open>iv\<close>; run in decryption mode from the same \<open>iv\<close> it
  restores the input and leaves the same chaining vector.\<close>

theorem aes_cbc_round_trip:
  assumes "aes_ready (T, c, d)" "length iv = 16" "length x = 16 * n" "length out = 16 * n" "length out' = 16 * n"
  shows "let (iv1, enc, r) = aes_crypt_cbc T c AES_ENCRYPT (int (16 * n)) iv x out;
       (iv2, plain, s) = aes_crypt_cbc T d AES_DECRYPT (int (16 * n)) iv enc out'
     in enc = cbc_encrypt (aes_enc (T, c, d)) n iv x \<and> iv1 = cbc_next n iv enc \<and>
        plain = x \<and> iv2 = iv1 \<and> r = 0 \<and> s = 0"
proof -
  obtain m where m: "tables_ok T" "ctx_rounds c m" "ctx_rounds d m"
    using assms(1) by (auto simp: aes_ready_def)
  let ?f = "\<lambda>b. fst (aes_crypt_ecb T c AES_ENCRYPT b b)" and ?g = "\<lambda>b. fst (aes_crypt_ecb T d AES_DECRYPT b b)"
  let ?e = "cbc_encrypt ?f n iv x"
  have fg: "?f = aes_enc (T, c, d)" "?g = aes_dec (T, c, d)"
    by (simp_all add: aes_enc_def aes_dec_def fun_eq_iff)
  have e: "length ?e = 16 * n" using aes.length_cbc_encrypt [OF assms(1,2), of n x] assms(3) fg by simp
  have "cbc_decrypt ?g n iv ?e = x"
    using aes.cbc_decrypt_encrypt [OF assms(1,2), of n x "[]"] assms(3) fg by simp
  moreover have "aes_crypt_cbc T c AES_ENCRYPT (int (16 * n)) iv x out = (cbc_next n iv ?e, ?e, 0)"
    using cbc_enc_loop_spec [OF m(1,2), of n x out iv AES_ENCRYPT] assms by (simp add: aes_crypt_cbc_def Let_def)
  moreover have "aes_crypt_cbc T d AES_DECRYPT (int (16 * n)) iv ?e out' =
      (cbc_next n iv ?e, cbc_decrypt ?g n iv ?e, 0)"
    using cbc_dec_loop_spec [OF m(1,3), of n ?e out' iv AES_DECRYPT] assms e by (simp add: aes_crypt_cbc_def)
  ultimately show ?thesis by (simp add: fg)
qed

text \<open>A concrete prepared key, from the two key set-up functions.\<close>

definition demo_key :: "aes_tables \<times> aes_context \<times> aes_context" where
  "demo_key = (rom_tables, fst (aes_setkey_enc rom_tables (zero_aes 68) (replicate 16 1) 128),
     fst (aes_setkey_dec rom_tables (zero_aes 68) (zero_aes 68) (replicate 16 1) 128))"

lemma demo_key_ready: "aes_ready demo_key"
proof -
  obtain c d where cd: "aes_setkey_enc rom_tables (zero_aes 68) (replicate 16 1) (int (32 * 4)) = (c, 0)"
    "aes_setkey_dec rom_tables (zero_aes 68) (zero_aes 68) (replicate 16 1) (int (32 * 4)) = (d, 0)"
    "ctx_rounds c (4 + 6)" "ctx_rounds d (4 + 6)" "inverse_keys (4 + 6) (keys_of (buf c)) (keys_of (buf d))"
    by (rule aes_setkey_dec_keys [OF rom_tables_ok rcon_rom, of 4 "replicate 16 1" "zero_aes 68" "zero_aes 68" "zero_aes 68"])
      simp_all
  then show ?thesis by (auto simp: demo_key_def aes_ready_def)
qed

theorem aes_cbc_round_trip_witness:
  "let (T, c, d) = demo_key;
       (iv1, enc, r) = aes_crypt_cbc T c AES_ENCRYPT (int (16 * 3)) (replicate 16 9) (replicate 48 5) (replicate 48 0);
       (iv2, plain, s) = aes_crypt_cbc T d AES_DECRYPT (int (16 * 3)) (replicate 16 9) enc (replicate 48 0)
   in enc = cbc_encrypt (aes_enc (T, c, d)) 3 (replicate 16 9) (replicate 48 5) \<and>
      iv1 = cbc_next 3 (replicate 16 9) enc \<and> plain = replicate 48 5 \<and> iv2 = iv1 \<and> r = 0 \<and> s = 0"
  unfolding demo_key_def prod.case Let_def [of "(_, _, _ :: aes_context)"]
  by (rule aes_cbc_round_trip [OF demo_key_ready [unfolded demo_key_def]]) simp_all

text \<open>A key size other than 128, 192 and 256 and a length that is not a multiple of 16
  are refused with the codes of the headers, and nothing is written.\<close>

theorem aes_errors:
  "keysize \<notin> {128, 192, 256} \<Longrightarrow>
     aes_setkey_enc T ctx key keysize = (ctx, -0x0800) \<and>
     aes_setkey_dec T cty ctx key keysize = (ctx, -0x0800) \<and>
     snd (aesx_setkey_enc p l st ctx key keysize) = (ctx, -0x0800) \<and>
     aesx_setkey_dec p l st cty ctx key keysize = (st, ctx, -0x0800) \<and>
     (n mod 16 \<noteq> 0 \<longrightarrow> aes_crypt_cbc T ctx mode n iv x out = (iv, out, -0x0810) \<and>
       aesx_crypt_cbc st ctx mode n iv x out = (iv, out, -0x0810))"
  by (simp add: aes_setkey_enc_def aes_setkey_dec_def aesx_setkey_enc_def aesx_setkey_dec_def Let_def
      aes_crypt_cbc_def aesx_crypt_cbc_def POLARSSL_ERR_AES_INVALID_KEY_LENGTH_def
      POLARSSL_ERR_AES_INVALID_INPUT_LENGTH_def)

theorem aes_errors_witness:
  "aes_setkey_enc rom_tables (zero_aes 68) [] 64 = (zero_aes 68, -0x0800) \<and>
   aes_crypt_cbc rom_tables (zero_aes 68) AES_ENCRYPT 17 [] [] [1] = ([], [1], -0x0810)"
  using aes_errors [of 64 rom_tables "zero_aes 68" "[]" "zero_aes 68" "[]" "[]" zero_static 17 AES_ENCRYPT "[]" "[]" "[1]"]
  by simp

text \<open>C7. \<open>aesx_gen_tables\<close> fills the static arrays, whatever they held and whatever the
  automatic arrays \<open>pow\<close> and \<open>log\<close> held, with the S-boxes, round tables and constants that
  \<open>aes.c\<close> spells out; so does the generator of \<open>aes.c\<close> that its configuration leaves out.\<close>

theorem gen_tables_literal:
  assumes "length pow = 256" "length log = 256"
  shows "(tables_shape 16 T \<longrightarrow> aesx_gen_tables pow log T = rom_tables\<lparr>tRCON := AESX_RCON\<rparr>) \<and>
    (tables_shape 10 T \<longrightarrow> aes_gen_tables pow log T = rom_tables)"
proof -
  have r: "rom_tables\<lparr>tRCON := RCON\<rparr> = rom_tables" by (simp add: rom_tables_def)
  show ?thesis
    using gen_tables_rom [OF _ assms rcon_table(2), of T] gen_tables_rom [OF _ assms rcon_table(1), of T]
    by (simp add: aesx_gen_tables_def aes_gen_tables_def r)
qed

theorem gen_tables_literal_witness:
  "aesx_gen_tables (replicate 256 5) (replicate 256 6) (zero_tables 16) = rom_tables\<lparr>tRCON := AESX_RCON\<rparr> \<and>
   aes_gen_tables (replicate 256 5) (replicate 256 6) (zero_tables 10) = rom_tables"
  using gen_tables_literal [of "replicate 256 5" "replicate 256 6" "zero_tables 16"]
    gen_tables_literal [of "replicate 256 5" "replicate 256 6" "zero_tables 10"] by simp

text \<open>C8. For 128 and 256 bit keys \<open>aesx.c\<close> is the standard's cipher run for 16 and 28 rounds on
  the key expansion continued that far, from the very first call on (which fills the
  tables), and decryption inverts it.\<close>

theorem aesx_extended_rounds:
  assumes "aesx_static_ok st" "length p = 256" "length l = 256"
    and "k \<in> {4, 8}" "length key = 4 * k" "length block = 16"
    and "length (buf ctx) = 128" "length (buf cty) = 128" "length (buf ctz) = 128"
  shows "let n = (if k = 4 then 16 else 28);
       (s, c, r) = aesx_setkey_enc p l st ctx key (int (32 * k));
       (t, d, r') = aesx_setkey_dec p l st cty ctz key (int (32 * k));
       (enc, _) = aesx_crypt_ecb s c AES_ENCRYPT block block
     in r = 0 \<and> r' = 0 \<and> enc = aes_cipher n (key_expansion k n key) block \<and>
        aesx_crypt_ecb t d AES_DECRYPT enc enc = (block, 0)"
proof -
  have l: "4 * k \<le> length key" using assms(5) by simp
  have n: "(if k = 4 then 16 else 28) = aesx_rounds k" using assms(4) by (auto simp: aesx_rounds_def)
  obtain s c t d where e: "aesx_setkey_enc p l st ctx key (int (32 * k)) = (s, c, 0)" "tables s = aesx_tables"
    "aesx_setkey_dec p l st cty ctz key (int (32 * k)) = (t, d, 0)" "tables t = aesx_tables"
    "ctx_rounds c (aesx_rounds k)" "ctx_rounds d (aesx_rounds k)"
    "inverse_keys (aesx_rounds k) (keys_of (buf c)) (keys_of (buf d))"
    "filled k key (buf c) (4 * (aesx_rounds k + 1))"
    by (rule aesx_keys [OF assms(1-4) l assms(7-9)])
  then have ready: "aes_ready (aesx_tables, c, d)" by (auto simp: aes_ready_def)
  have "aesx_crypt_ecb s c AES_ENCRYPT block block =
      (aes_cipher (aesx_rounds k) (key_expansion k (aesx_rounds k) key) block, 0)"
    using aes_crypt_ecb_cipher [OF aesx_tables_ok e(5,8), of block block AES_ENCRYPT] assms(6)
    by (simp add: aesx_crypt_ecb_eq e(2))
  moreover obtain z where "aes_crypt_ecb aesx_tables c AES_ENCRYPT block block = (z, 0)"
    "aes_crypt_ecb aesx_tables d AES_DECRYPT z z = (block, 0)"
    using ready assms(6) by (rule aes_ecb_in_place)
  ultimately show ?thesis
    unfolding n e(1,3) by (simp add: Let_def aesx_crypt_ecb_eq e(2,4))
qed

theorem aesx_extended_rounds_witness:
  "let n = (if (8 :: nat) = 4 then 16 else 28);
       (s, c, r) = aesx_setkey_enc (replicate 256 5) (replicate 256 6) zero_static (zero_aes 128) (replicate 32 1) (int (32 * 8));
       (t, d, r') = aesx_setkey_dec (replicate 256 5) (replicate 256 6) zero_static (zero_aes 128) (zero_aes 128)
         (replicate 32 1) (int (32 * 8));
       (enc, _) = aesx_crypt_ecb s c AES_ENCRYPT (replicate 16 2) (replicate 16 2)
     in r = 0 \<and> r' = 0 \<and> enc = aes_cipher n (key_expansion 8 n (replicate 32 1)) (replicate 16 2) \<and>
        aesx_crypt_ecb t d AES_DECRYPT enc enc = (replicate 16 2, 0)"
  by (rule aesx_extended_rounds) simp_all

text \<open>C9. With a 192 bit key \<open>aesx_setkey_enc\<close> reports success but fills only 66 of the 84 words
  the 20 rounds use: the first 66 are the key expansion, the others keep what the caller's
  context contained, and two contexts that differ in word 83 encrypt the same block under the
  same key differently.\<close>

theorem aesx_192_unfilled:
  assumes "aesx_static_ok st" "length p = 256" "length l = 256"
    and "length key = 24" "length block = 16" "length (buf ctx) = 128" "w \<noteq> buf ctx ! 83"
  shows "let ctx' = ctx\<lparr>buf := (buf ctx)[83 := w]\<rparr>;
       (s, c, r) = aesx_setkey_enc p l st ctx key 192;
       (s', c', r') = aesx_setkey_enc p l st ctx' key 192
     in r = 0 \<and> r' = 0 \<and>
        map le32 (take 66 (buf c)) = map (key_word 6 key) [0..<66] \<and> drop 66 (buf c) = drop 66 (buf ctx) \<and>
        aesx_crypt_ecb s c AES_ENCRYPT block block \<noteq> aesx_crypt_ecb s' c' AES_ENCRYPT block block"
proof -
  let ?ctx = "ctx\<lparr>buf := (buf ctx)[83 := w]\<rparr>"
  obtain s where s: "aesx_setkey_enc p l st ctx key (int (32 * 6)) =
      (s, ctx\<lparr>nr := int (aesx_rounds 6), rk := 0, buf := aesx_schedule (buf ctx) key 6\<rparr>, 0)"
    "tables s = aesx_tables"
    by (rule aesx_setkey_enc_schedule [OF assms(1-3), of 6]) simp
  obtain t where t: "aesx_setkey_enc p l st ?ctx key (int (32 * 6)) =
      (t, ?ctx\<lparr>nr := int (aesx_rounds 6), rk := 0, buf := aesx_schedule (buf ?ctx) key 6\<rparr>, 0)"
    "tables t = aesx_tables"
    by (rule aesx_setkey_enc_schedule [OF assms(1-3), of 6]) simp
  let ?A = "aesx_schedule (buf ctx) key 6" and ?B = "aesx_schedule (buf ?ctx) key 6"
  have AB: "?A ! q = ?B ! q" if "q < 83" for q
  proof (cases "q < 66")
    case True
    have "le32 (?A ! q) = le32 (?B ! q)"
      using aesx_schedule_filled [of 6 key "buf ctx"] aesx_schedule_filled [of 6 key "buf ?ctx"] assms True
      by (simp add: filled_def)
    then show ?thesis by (cases "?A ! q" rule: V_cases; cases "?B ! q" rule: V_cases) simp
  qed (use that in \<open>simp add: aesx_192_frame\<close>)
  have "keys_of ?A r = keys_of ?B r" if "r < 20" for r
    using that assms(6) by (simp add: keys_of_eq AB)
  then have "enc_state (keys_of ?A) r P = enc_state (keys_of ?B) r P" if "r < 20" for r P
    using that by (induction r) auto
  then have "encrypt_block (keys_of ?A) 20 P = encrypt_block (keys_of ?B) 20 P \<Longrightarrow> keys_of ?A 20 = keys_of ?B 20" for P
    by (metis encrypt_block_def xor_block_cancel(2) diff_less zero_less_numeral zero_less_one)
  moreover have "keys_of ?A 20 \<noteq> keys_of ?B 20"
    using assms(6,7) by (simp add: keys_of_eq aesx_192_frame)
  ultimately have "encrypt_block (keys_of ?A) 20 P \<noteq> encrypt_block (keys_of ?B) 20 P" for P by blast
  moreover have inj: "bytes_of X = bytes_of Y \<longleftrightarrow> X = Y" for X Y by (metis append_Nil2 block_bytes_of)
  moreover have "ctx_rounds (c\<lparr>nr := 20, rk := 0, buf := E\<rparr>) 20" for c E by (simp add: ctx_rounds_def)
  ultimately have "aes_crypt_ecb aesx_tables (c\<lparr>nr := 20, rk := 0, buf := ?A\<rparr>) AES_ENCRYPT block block \<noteq>
      aes_crypt_ecb aesx_tables (c'\<lparr>nr := 20, rk := 0, buf := ?B\<rparr>) AES_ENCRYPT block block" for c c'
    using assms(5) by (simp add: aes_crypt_ecb_blocks [of _ _ 20] store_block_bytes inj del: bytes_of.simps)
  moreover have "map le32 (take 66 ?A) = map (key_word 6 key) [0..<66]"
    using aesx_schedule_filled [of 6 key "buf ctx"] assms(4,6)
    by (intro nth_equalityI) (simp_all add: filled_def)
  moreover have "drop 66 ?A = drop 66 (buf ctx)"
    using assms(6) by (intro nth_equalityI) (simp_all add: aesx_192_frame)
  ultimately show ?thesis using s t by (simp add: Let_def aesx_crypt_ecb_eq aesx_rounds_def del: upt_rec_numeral)
qed

theorem aesx_192_unfilled_witness:
  "let ctx' = (zero_aes 128)\<lparr>buf := (buf (zero_aes 128))[83 := 1]\<rparr>;
       (s, c, r) = aesx_setkey_enc (replicate 256 5) (replicate 256 6) zero_static (zero_aes 128) (replicate 24 1) 192;
       (s', c', r') = aesx_setkey_enc (replicate 256 5) (replicate 256 6) zero_static ctx' (replicate 24 1) 192
     in r = 0 \<and> r' = 0 \<and>
        map le32 (take 66 (buf c)) = map (key_word 6 (replicate 24 1)) [0..<66] \<and>
        drop 66 (buf c) = drop 66 (buf (zero_aes 128)) \<and>
        aesx_crypt_ecb s c AES_ENCRYPT (replicate 16 2) (replicate 16 2) \<noteq>
        aesx_crypt_ecb s' c' AES_ENCRYPT (replicate 16 2) (replicate 16 2)"
  by (rule aesx_192_unfilled) (simp_all add: zero_aes_def)

end
