(* ===== verification/Twofish.thy ===== *)
theory Twofish
  imports Block_Cipher
begin

unbundle bit_operations_syntax

text \<open>
  The Twofish cipher of \<open>Crypto/C-Code/Twofish/Twofish.cpp\<close> in the configuration of
  \<open>Twofish_data.h\<close> (\<open>Q_TABLES\<close>, \<open>M_TABLE\<close>, \<open>MK_TABLE\<close>, \<open>ONE_STEP\<close> defined): the
  tables, the key schedule and the two block functions. The macros of the other
  configurations (\<open>qp\<close> called directly, \<open>mds\<close> without a table, \<open>g0_fun\<close> as \<open>h_fun\<close>)
  are modelled too, as the reference the tables are proved against.
\<close>

section \<open>Rotations and bytes\<close>

definition rotl_bits :: "u32 \<Rightarrow> nat \<Rightarrow> u32" where
  "rotl_bits x n = push_bit n x OR drop_bit (32 - n) x"

definition rotr_bits :: "u32 \<Rightarrow> nat \<Rightarrow> u32" where
  "rotr_bits x n = drop_bit n x OR push_bit (32 - n) x"

definition rotl :: "u32 \<Rightarrow> int \<Rightarrow> u32" where
  "rotl x n = (if n < 0 then rotr_bits x (nat (- n)) else rotl_bits x (nat n))"

definition rotr :: "u32 \<Rightarrow> int \<Rightarrow> u32" where
  "rotr x n = (if n < 0 then rotl_bits x (nat (- n)) else rotr_bits x (nat n))"

definition tf_byte :: "u32 \<Rightarrow> nat \<Rightarrow> byte" where
  "tf_byte x n = ucast (drop_bit (8 * n) x)"

section \<open>The context\<close>

record TWOFISH_DATA =
  k_len :: u32
  l_key :: "u32 list"
  s_key :: "u32 list"
  qt_gen :: u32
  q_tab :: "byte list list"
  mt_gen :: u32
  m_tab :: "u32 list list"
  mk_tab :: "u32 list list"

text \<open>\<open>M[r][c] = v\<close>.\<close>

definition upd2 :: "'a list list \<Rightarrow> nat \<Rightarrow> nat \<Rightarrow> 'a \<Rightarrow> 'a list list" where
  "upd2 M r c v = M[r := (M ! r)[c := v]]"

section \<open>The q permutations\<close>

definition ror4 :: "byte list" where
  "ror4 = [0, 8, 1, 9, 2, 10, 3, 11, 4, 12, 5, 13, 6, 14, 7, 15]"

definition ashx :: "byte list" where
  "ashx = [0, 9, 2, 11, 4, 13, 6, 15, 8, 1, 10, 3, 12, 5, 14, 7]"

definition qt0 :: "byte list list" where
  "qt0 = [[8, 1, 7, 13, 6, 15, 3, 2, 0, 11, 5, 9, 14, 12, 10, 4],
          [2, 8, 11, 13, 15, 7, 6, 14, 3, 1, 9, 4, 0, 10, 12, 5]]"

definition qt1 :: "byte list list" where
  "qt1 = [[14, 12, 11, 8, 1, 2, 3, 5, 15, 4, 10, 6, 7, 0, 9, 13],
          [1, 14, 2, 11, 4, 12, 3, 7, 6, 13, 10, 5, 15, 9, 0, 8]]"

definition qt2 :: "byte list list" where
  "qt2 = [[11, 10, 5, 14, 6, 13, 9, 0, 12, 8, 15, 3, 2, 4, 7, 1],
          [4, 12, 7, 5, 1, 6, 9, 10, 0, 14, 13, 8, 2, 11, 3, 15]]"

definition qt3 :: "byte list list" where
  "qt3 = [[13, 7, 15, 4, 1, 2, 6, 14, 9, 11, 3, 0, 8, 5, 12, 10],
          [11, 9, 5, 1, 12, 3, 13, 14, 6, 4, 7, 15, 2, 0, 8, 10]]"

definition qp :: "nat \<Rightarrow> byte \<Rightarrow> byte" where
  "qp n x =
    (let a0 = drop_bit 4 x; b0 = x AND 15;
         a1 = a0 XOR b0; b1 = ror4 ! unat b0 XOR ashx ! unat a0;
         a2 = qt0 ! n ! unat a1; b2 = qt1 ! n ! unat b1;
         a3 = a2 XOR b2; b3 = ror4 ! unat b2 XOR ashx ! unat a2;
         a4 = qt2 ! n ! unat a3; b4 = qt3 ! n ! unat b3
     in push_bit 4 b4 OR a4)"

definition q :: "TWOFISH_DATA \<Rightarrow> nat \<Rightarrow> byte \<Rightarrow> byte" where
  "q T n x = q_tab T ! n ! unat x"

definition gen_qtab :: "TWOFISH_DATA \<Rightarrow> TWOFISH_DATA" where
  "gen_qtab T =
    T\<lparr>q_tab := foldl (\<lambda>M i. upd2 (upd2 M 0 i (qp 0 (word_of_nat i))) 1 i (qp 1 (word_of_nat i)))
      (q_tab T) [0..<256]\<rparr>"

section \<open>The maximum distance separable matrix\<close>

definition tab_5b :: "u32 list" where
  "tab_5b = [0, drop_bit 2 0x0169, drop_bit 1 0x0169, drop_bit 1 0x0169 XOR drop_bit 2 0x0169]"

definition tab_ef :: "u32 list" where
  "tab_ef = [0, drop_bit 1 0x0169 XOR drop_bit 2 0x0169, drop_bit 1 0x0169, drop_bit 2 0x0169]"

definition ffm_5b :: "u32 \<Rightarrow> u32" where
  "ffm_5b x = x XOR drop_bit 2 x XOR tab_5b ! unat (x AND 3)"

definition ffm_ef :: "u32 \<Rightarrow> u32" where
  "ffm_ef x = x XOR drop_bit 1 x XOR drop_bit 2 x XOR tab_ef ! unat (x AND 3)"

definition mtab_step :: "TWOFISH_DATA \<Rightarrow> u32 list list \<Rightarrow> nat \<Rightarrow> u32 list list" where
  "mtab_step T M i =
    (let f01 = ucast (q T 1 (word_of_nat i)); f5b = ffm_5b f01; fef = ffm_ef f01;
         M = upd2 M 0 i (f01 + push_bit 8 f5b + push_bit 16 fef + push_bit 24 fef);
         M = upd2 M 2 i (f5b + push_bit 8 fef + push_bit 16 f01 + push_bit 24 fef);
         f01 = ucast (q T 0 (word_of_nat i)); f5b = ffm_5b f01; fef = ffm_ef f01;
         M = upd2 M 1 i (fef + push_bit 8 fef + push_bit 16 f5b + push_bit 24 f01)
     in upd2 M 3 i (f5b + push_bit 8 f01 + push_bit 16 fef + push_bit 24 f5b))"

definition gen_mtab :: "TWOFISH_DATA \<Rightarrow> TWOFISH_DATA" where
  "gen_mtab T = T\<lparr>m_tab := foldl (mtab_step T) (m_tab T) [0..<256]\<rparr>"

definition mds :: "TWOFISH_DATA \<Rightarrow> nat \<Rightarrow> byte \<Rightarrow> u32" where
  "mds T n x = m_tab T ! n ! unat x"

text \<open>The macro \<open>mds\<close> of the configuration without \<open>M_TABLE\<close>.\<close>

definition mds_macro :: "nat \<Rightarrow> byte \<Rightarrow> u32" where
  "mds_macro n x =
    (let a = ucast (qp 1 x); b = ucast (qp 0 x)
     in if n = 0 then a XOR push_bit 8 (ffm_5b a) XOR push_bit 16 (ffm_ef a) XOR push_bit 24 (ffm_ef a)
        else if n = 1 then ffm_ef b XOR push_bit 8 (ffm_ef b) XOR push_bit 16 (ffm_5b b) XOR push_bit 24 b
        else if n = 2 then ffm_5b a XOR push_bit 8 (ffm_ef a) XOR push_bit 16 a XOR push_bit 24 (ffm_ef a)
        else ffm_5b b XOR push_bit 8 b XOR push_bit 16 (ffm_ef b) XOR push_bit 24 (ffm_5b b))"

section \<open>The function h\<close>

text \<open>The four bytes in turn; \<open>case 4\<close> and \<open>case 3\<close> fall through to the next case.\<close>

type_synonym quad = "byte \<times> byte \<times> byte \<times> byte"

definition h_case4 :: "TWOFISH_DATA \<Rightarrow> u32 list \<Rightarrow> quad \<Rightarrow> quad" where
  "h_case4 T key = (\<lambda>(b0, b1, b2, b3).
    (q T 1 b0 XOR tf_byte (key ! 3) 0, q T 0 b1 XOR tf_byte (key ! 3) 1,
     q T 0 b2 XOR tf_byte (key ! 3) 2, q T 1 b3 XOR tf_byte (key ! 3) 3))"

definition h_case3 :: "TWOFISH_DATA \<Rightarrow> u32 list \<Rightarrow> quad \<Rightarrow> quad" where
  "h_case3 T key = (\<lambda>(b0, b1, b2, b3).
    (q T 1 b0 XOR tf_byte (key ! 2) 0, q T 1 b1 XOR tf_byte (key ! 2) 1,
     q T 0 b2 XOR tf_byte (key ! 2) 2, q T 0 b3 XOR tf_byte (key ! 2) 3))"

definition h_case2 :: "TWOFISH_DATA \<Rightarrow> u32 list \<Rightarrow> quad \<Rightarrow> quad" where
  "h_case2 T key = (\<lambda>(b0, b1, b2, b3).
    (q T 0 (q T 0 b0 XOR tf_byte (key ! 1) 0) XOR tf_byte (key ! 0) 0,
     q T 0 (q T 1 b1 XOR tf_byte (key ! 1) 1) XOR tf_byte (key ! 0) 1,
     q T 1 (q T 0 b2 XOR tf_byte (key ! 1) 2) XOR tf_byte (key ! 0) 2,
     q T 1 (q T 1 b3 XOR tf_byte (key ! 1) 3) XOR tf_byte (key ! 0) 3))"

definition h_bytes :: "TWOFISH_DATA \<Rightarrow> u32 \<Rightarrow> u32 list \<Rightarrow> quad" where
  "h_bytes T x key =
    (let b = (tf_byte x 0, tf_byte x 1, tf_byte x 2, tf_byte x 3);
         b = (if k_len T = 4 then h_case4 T key b else b);
         b = (if k_len T = 4 \<or> k_len T = 3 then h_case3 T key b else b)
     in if k_len T = 4 \<or> k_len T = 3 \<or> k_len T = 2 then h_case2 T key b else b)"

definition h_fun :: "TWOFISH_DATA \<Rightarrow> u32 \<Rightarrow> u32 list \<Rightarrow> u32" where
  "h_fun T x key =
    (case h_bytes T x key of (b0, b1, b2, b3) \<Rightarrow> mds T 0 b0 XOR mds T 1 b1 XOR mds T 2 b2 XOR mds T 3 b3)"

text \<open>The end of \<open>h_fun\<close> in the configuration without \<open>M_TABLE\<close>.\<close>

definition h_last :: "TWOFISH_DATA \<Rightarrow> quad \<Rightarrow> u32" where
  "h_last T = (\<lambda>(b0, b1, b2, b3).
    let b0 = ucast (q T 1 b0); b1 = ucast (q T 0 b1); b2 = ucast (q T 1 b2); b3 = ucast (q T 0 b3);
        m5b_b0 = ffm_5b b0; m5b_b1 = ffm_5b b1; m5b_b2 = ffm_5b b2; m5b_b3 = ffm_5b b3;
        mef_b0 = ffm_ef b0; mef_b1 = ffm_ef b1; mef_b2 = ffm_ef b2; mef_b3 = ffm_ef b3;
        b0 = b0 XOR (mef_b1 XOR m5b_b2 XOR m5b_b3); b3 = b3 XOR (m5b_b0 XOR mef_b1 XOR mef_b2);
        b2 = b2 XOR (mef_b0 XOR m5b_b1 XOR mef_b3); b1 = b1 XOR (mef_b0 XOR mef_b2 XOR m5b_b3)
    in b0 OR push_bit 8 b3 OR push_bit 16 b2 OR push_bit 24 b1)"

section \<open>Key dependent tables\<close>

definition q20 :: "TWOFISH_DATA \<Rightarrow> u32 list \<Rightarrow> byte \<Rightarrow> byte" where
  "q20 T key x = q T 0 (q T 0 x XOR tf_byte (key ! 1) 0) XOR tf_byte (key ! 0) 0"

definition q21 :: "TWOFISH_DATA \<Rightarrow> u32 list \<Rightarrow> byte \<Rightarrow> byte" where
  "q21 T key x = q T 0 (q T 1 x XOR tf_byte (key ! 1) 1) XOR tf_byte (key ! 0) 1"

definition q22 :: "TWOFISH_DATA \<Rightarrow> u32 list \<Rightarrow> byte \<Rightarrow> byte" where
  "q22 T key x = q T 1 (q T 0 x XOR tf_byte (key ! 1) 2) XOR tf_byte (key ! 0) 2"

definition q23 :: "TWOFISH_DATA \<Rightarrow> u32 list \<Rightarrow> byte \<Rightarrow> byte" where
  "q23 T key x = q T 1 (q T 1 x XOR tf_byte (key ! 1) 3) XOR tf_byte (key ! 0) 3"

definition q30 :: "TWOFISH_DATA \<Rightarrow> u32 list \<Rightarrow> byte \<Rightarrow> byte" where
  "q30 T key x =
    q T 0 (q T 0 (q T 1 x XOR tf_byte (key ! 2) 0) XOR tf_byte (key ! 1) 0) XOR tf_byte (key ! 0) 0"

definition q31 :: "TWOFISH_DATA \<Rightarrow> u32 list \<Rightarrow> byte \<Rightarrow> byte" where
  "q31 T key x =
    q T 0 (q T 1 (q T 1 x XOR tf_byte (key ! 2) 1) XOR tf_byte (key ! 1) 1) XOR tf_byte (key ! 0) 1"

definition q32 :: "TWOFISH_DATA \<Rightarrow> u32 list \<Rightarrow> byte \<Rightarrow> byte" where
  "q32 T key x =
    q T 1 (q T 0 (q T 0 x XOR tf_byte (key ! 2) 2) XOR tf_byte (key ! 1) 2) XOR tf_byte (key ! 0) 2"

definition q33 :: "TWOFISH_DATA \<Rightarrow> u32 list \<Rightarrow> byte \<Rightarrow> byte" where
  "q33 T key x =
    q T 1 (q T 1 (q T 0 x XOR tf_byte (key ! 2) 3) XOR tf_byte (key ! 1) 3) XOR tf_byte (key ! 0) 3"

definition q40 :: "TWOFISH_DATA \<Rightarrow> u32 list \<Rightarrow> byte \<Rightarrow> byte" where
  "q40 T key x =
    q T 0 (q T 0 (q T 1 (q T 1 x XOR tf_byte (key ! 3) 0) XOR tf_byte (key ! 2) 0)
      XOR tf_byte (key ! 1) 0) XOR tf_byte (key ! 0) 0"

definition q41 :: "TWOFISH_DATA \<Rightarrow> u32 list \<Rightarrow> byte \<Rightarrow> byte" where
  "q41 T key x =
    q T 0 (q T 1 (q T 1 (q T 0 x XOR tf_byte (key ! 3) 1) XOR tf_byte (key ! 2) 1)
      XOR tf_byte (key ! 1) 1) XOR tf_byte (key ! 0) 1"

definition q42 :: "TWOFISH_DATA \<Rightarrow> u32 list \<Rightarrow> byte \<Rightarrow> byte" where
  "q42 T key x =
    q T 1 (q T 0 (q T 0 (q T 0 x XOR tf_byte (key ! 3) 2) XOR tf_byte (key ! 2) 2)
      XOR tf_byte (key ! 1) 2) XOR tf_byte (key ! 0) 2"

definition q43 :: "TWOFISH_DATA \<Rightarrow> u32 list \<Rightarrow> byte \<Rightarrow> byte" where
  "q43 T key x =
    q T 1 (q T 1 (q T 0 (q T 1 x XOR tf_byte (key ! 3) 3) XOR tf_byte (key ! 2) 3)
      XOR tf_byte (key ! 1) 3) XOR tf_byte (key ! 0) 3"

text \<open>The body of the three loops: entry \<open>i\<close> of the four tables.\<close>

definition mk_step :: "TWOFISH_DATA \<Rightarrow> (byte \<Rightarrow> byte) \<Rightarrow> (byte \<Rightarrow> byte) \<Rightarrow> (byte \<Rightarrow> byte) \<Rightarrow> (byte \<Rightarrow> byte) \<Rightarrow>
    u32 list list \<Rightarrow> nat \<Rightarrow> u32 list list" where
  "mk_step T f0 f1 f2 f3 M i =
    (let by = word_of_nat i
     in upd2 (upd2 (upd2 (upd2 M 0 i (mds T 0 (f0 by))) 1 i (mds T 1 (f1 by)))
          2 i (mds T 2 (f2 by))) 3 i (mds T 3 (f3 by)))"

definition gen_mk_tab :: "TWOFISH_DATA \<Rightarrow> u32 list \<Rightarrow> TWOFISH_DATA" where
  "gen_mk_tab T key =
    T\<lparr>mk_tab :=
      (if k_len T = 2
       then foldl (mk_step T (q20 T key) (q21 T key) (q22 T key) (q23 T key)) (mk_tab T) [0..<256]
       else if k_len T = 3
       then foldl (mk_step T (q30 T key) (q31 T key) (q32 T key) (q33 T key)) (mk_tab T) [0..<256]
       else if k_len T = 4
       then foldl (mk_step T (q40 T key) (q41 T key) (q42 T key) (q43 T key)) (mk_tab T) [0..<256]
       else mk_tab T)\<rparr>"

definition g0_fun :: "TWOFISH_DATA \<Rightarrow> u32 \<Rightarrow> u32" where
  "g0_fun T x =
    mk_tab T ! 0 ! unat (tf_byte x 0) XOR mk_tab T ! 1 ! unat (tf_byte x 1)
    XOR mk_tab T ! 2 ! unat (tf_byte x 2) XOR mk_tab T ! 3 ! unat (tf_byte x 3)"

definition g1_fun :: "TWOFISH_DATA \<Rightarrow> u32 \<Rightarrow> u32" where
  "g1_fun T x =
    mk_tab T ! 0 ! unat (tf_byte x 3) XOR mk_tab T ! 1 ! unat (tf_byte x 0)
    XOR mk_tab T ! 2 ! unat (tf_byte x 1) XOR mk_tab T ! 3 ! unat (tf_byte x 2)"

section \<open>The key schedule\<close>

definition mds_rem_step :: "u32 \<times> u32 \<Rightarrow> u32 \<times> u32" where
  "mds_rem_step = (\<lambda>(p0, p1).
     let t = drop_bit 24 p1;
         p1 = push_bit 8 p1 OR drop_bit 24 p0; p0 = push_bit 8 p0;
         u = push_bit 1 t;
         u = (if t AND 0x80 \<noteq> 0 then u XOR 0x0000014D else u);
         p1 = p1 XOR (t XOR push_bit 16 u);
         u = u XOR drop_bit 1 t;
         u = (if t AND 0x01 \<noteq> 0 then u XOR drop_bit 1 0x0000014D else u);
         p1 = p1 XOR (push_bit 24 u OR push_bit 8 u)
     in (p0, p1))"

definition mds_rem :: "u32 \<Rightarrow> u32 \<Rightarrow> u32" where
  "mds_rem p0 p1 = snd ((mds_rem_step ^^ 8) (p0, p1))"

text \<open>One pass of the key loop; \<open>me_key\<close> and \<open>mo_key\<close> are automatic arrays.\<close>

definition key_step :: "u32 list \<Rightarrow> TWOFISH_DATA \<times> u32 list \<times> u32 list \<Rightarrow> nat \<Rightarrow>
    TWOFISH_DATA \<times> u32 list \<times> u32 list" where
  "key_step in_key = (\<lambda>(T, me, mo) i.
     let a = in_key ! (i + i); me = me[i := a];
         b = in_key ! (i + i + 1); mo = mo[i := b]
     in (T\<lparr>s_key := (s_key T)[unat (k_len T) - i - 1 := mds_rem a b]\<rparr>, me, mo))"

definition subkey_step :: "u32 list \<Rightarrow> u32 list \<Rightarrow> TWOFISH_DATA \<Rightarrow> nat \<Rightarrow> TWOFISH_DATA" where
  "subkey_step me mo T j =
    (let i = 2 * j;
         a = 0x01010101 * word_of_nat i; b = a + 0x01010101;
         a = h_fun T a me;
         b = rotl (h_fun T b mo) 8
     in T\<lparr>l_key := (l_key T)[i := a + b, i + 1 := rotl (a + 2 * b) 9]\<rparr>)"

definition Twofish_set_key :: "u32 list \<Rightarrow> u32 list \<Rightarrow> TWOFISH_DATA \<Rightarrow> u32 list \<Rightarrow> u32 \<Rightarrow> TWOFISH_DATA" where
  "Twofish_set_key me mo T in_key key_len =
    (let T = (if qt_gen T = 0 then (gen_qtab T)\<lparr>qt_gen := 1\<rparr> else T);
         T = (if mt_gen T = 0 then (gen_mtab T)\<lparr>mt_gen := 1\<rparr> else T);
         T = T\<lparr>k_len := key_len div 64\<rparr>;
         (T, me, mo) = foldl (key_step in_key) (T, me, mo) [0..<unat (k_len T)];
         T = foldl (subkey_step me mo) T [0..<20]
     in gen_mk_tab T (s_key T))"

section \<open>Blocks\<close>

type_synonym tf_block = "u32 \<times> u32 \<times> u32 \<times> u32"

definition f_rnd :: "TWOFISH_DATA \<Rightarrow> nat \<Rightarrow> tf_block \<Rightarrow> tf_block" where
  "f_rnd T i = (\<lambda>(blk0, blk1, blk2, blk3).
     let t1 = g1_fun T blk1; t0 = g0_fun T blk0;
         blk2 = rotr (blk2 XOR (t0 + t1 + l_key T ! (4 * i + 8))) 1;
         blk3 = rotl blk3 1 XOR (t0 + 2 * t1 + l_key T ! (4 * i + 9));
         t1 = g1_fun T blk3; t0 = g0_fun T blk2;
         blk0 = rotr (blk0 XOR (t0 + t1 + l_key T ! (4 * i + 10))) 1;
         blk1 = rotl blk1 1 XOR (t0 + 2 * t1 + l_key T ! (4 * i + 11))
     in (blk0, blk1, blk2, blk3))"

definition i_rnd :: "TWOFISH_DATA \<Rightarrow> nat \<Rightarrow> tf_block \<Rightarrow> tf_block" where
  "i_rnd T i = (\<lambda>(blk0, blk1, blk2, blk3).
     let t1 = g1_fun T blk1; t0 = g0_fun T blk0;
         blk2 = rotl blk2 1 XOR (t0 + t1 + l_key T ! (4 * i + 10));
         blk3 = rotr (blk3 XOR (t0 + 2 * t1 + l_key T ! (4 * i + 11))) 1;
         t1 = g1_fun T blk3; t0 = g0_fun T blk2;
         blk0 = rotl blk0 1 XOR (t0 + t1 + l_key T ! (4 * i + 8));
         blk1 = rotr (blk1 XOR (t0 + 2 * t1 + l_key T ! (4 * i + 9))) 1
     in (blk0, blk1, blk2, blk3))"

definition Twofish_encrypt :: "TWOFISH_DATA \<Rightarrow> u32 list \<Rightarrow> u32 list \<Rightarrow> u32 list" where
  "Twofish_encrypt T in_blk out_blk =
    (let blk = (in_blk ! 0 XOR l_key T ! 0, in_blk ! 1 XOR l_key T ! 1,
                in_blk ! 2 XOR l_key T ! 2, in_blk ! 3 XOR l_key T ! 3);
         (blk0, blk1, blk2, blk3) = foldl (\<lambda>b i. f_rnd T i b) blk [0, 1, 2, 3, 4, 5, 6, 7]
     in out_blk[0 := blk2 XOR l_key T ! 4, 1 := blk3 XOR l_key T ! 5,
                2 := blk0 XOR l_key T ! 6, 3 := blk1 XOR l_key T ! 7])"

definition Twofish_decrypt :: "TWOFISH_DATA \<Rightarrow> u32 list \<Rightarrow> u32 list \<Rightarrow> u32 list" where
  "Twofish_decrypt T in_blk out_blk =
    (let blk = (in_blk ! 0 XOR l_key T ! 4, in_blk ! 1 XOR l_key T ! 5,
                in_blk ! 2 XOR l_key T ! 6, in_blk ! 3 XOR l_key T ! 7);
         (blk0, blk1, blk2, blk3) = foldl (\<lambda>b i. i_rnd T i b) blk [7, 6, 5, 4, 3, 2, 1, 0]
     in out_blk[0 := blk2 XOR l_key T ! 0, 1 := blk3 XOR l_key T ! 1,
                2 := blk0 XOR l_key T ! 2, 3 := blk1 XOR l_key T ! 3])"

section \<open>Blocks of bytes\<close>

definition tf_enc :: "TWOFISH_DATA \<Rightarrow> byte list \<Rightarrow> byte list" where
  "tf_enc T b = bytes_of_words (Twofish_encrypt T (words_of b) (words_of b))"

definition tf_dec :: "TWOFISH_DATA \<Rightarrow> byte list \<Rightarrow> byte list" where
  "tf_dec T b = bytes_of_words (Twofish_decrypt T (words_of b) (words_of b))"

end
