(* ===== verification/Twofish_Proofs.thy ===== *)
theory Twofish_Proofs
  imports Twofish
begin

unbundle bit_operations_syntax

text \<open>
  Correctness of the Twofish model: decryption inverts encryption for every context, the
  tables hold what the table-free configuration computes, the key dependent tables are
  the function h under the S-box key, and \<open>mds_rem\<close> is the Reed-Solomon matrix of the
  cipher's description.
\<close>

section \<open>Decryption\<close>

lemma rot1_inverse [simp]: "rotl (rotr x 1) 1 = x" "rotr (rotl x 1) 1 = x"
proof -
  have "rotl_bits (rotr_bits x 1) 1 = x"
  proof (rule bit_word_eqI)
    fix k assume "k < LENGTH(32)"
    then show "bit (rotl_bits (rotr_bits x 1) 1) k = bit x k"
      by (cases "k = 0") (auto simp: rotl_bits_def rotr_bits_def bit_simps
          simp del: push_bit_Suc drop_bit_Suc One_nat_def dest: bit_imp_le_length)
  qed
  moreover have "rotr_bits (rotl_bits x 1) 1 = x"
  proof (rule bit_word_eqI)
    fix k assume "k < LENGTH(32)"
    then show "bit (rotr_bits (rotl_bits x 1) 1) k = bit x k"
      by (cases "k = 31") (auto simp: rotl_bits_def rotr_bits_def bit_simps
          simp del: push_bit_Suc drop_bit_Suc One_nat_def dest: bit_imp_le_length)
  qed
  ultimately show "rotl (rotr x 1) 1 = x" "rotr (rotl x 1) 1 = x" by (simp_all add: rotl_def rotr_def)
qed

fun swap_halves :: "tf_block \<Rightarrow> tf_block" where
  "swap_halves (a, b, c, d) = (c, d, a, b)"

lemma xor_xor_left [simp]: "(a :: 'a :: len word) XOR (a XOR b) = b" "(b XOR a) XOR a = b"
  by (simp_all add: xor.assoc flip: xor.assoc [of a a b])

lemma i_rnd_f_rnd: "i_rnd T i (swap_halves (f_rnd T i b)) = swap_halves b"
  by (cases b) (simp add: i_rnd_def f_rnd_def Let_def)

lemma i_rnds_f_rnds:
  "foldl (\<lambda>b i. i_rnd T i b) (swap_halves (foldl (\<lambda>b i. f_rnd T i b) b is)) (rev is) = swap_halves b"
  by (induction "is" arbitrary: b rule: rev_induct) (simp_all add: i_rnd_f_rnd)

lemma Twofish_decrypt_encrypt:
  assumes "length b = 4" "length out = 4" "length out' = 4"
  shows "Twofish_decrypt T (Twofish_encrypt T b out) out' = b"
proof -
  obtain b0 b1 b2 b3 where b: "b = [b0, b1, b2, b3]" by (rule list4_cases [OF assms(1)])
  obtain o0 o1 o2 o3 where o: "out = [o0, o1, o2, o3]" by (rule list4_cases [OF assms(2)])
  obtain r0 r1 r2 r3 where r: "out' = [r0, r1, r2, r3]" by (rule list4_cases [OF assms(3)])
  let ?B = "(b0 XOR l_key T ! 0, b1 XOR l_key T ! 1, b2 XOR l_key T ! 2, b3 XOR l_key T ! 3)"
  obtain x0 x1 x2 x3 where x: "foldl (\<lambda>b i. f_rnd T i b) ?B [0, 1, 2, 3, 4, 5, 6, 7] = (x0, x1, x2, x3)"
    by (metis prod_cases4)
  have e: "Twofish_encrypt T b out =
      [x2 XOR l_key T ! 4, x3 XOR l_key T ! 5, x0 XOR l_key T ! 6, x1 XOR l_key T ! 7]"
    unfolding Twofish_encrypt_def b o using x by (simp add: Let_def numeral_2_eq_2 numeral_3_eq_3)
  have "foldl (\<lambda>b i. i_rnd T i b) (x2, x3, x0, x1) [7, 6, 5, 4, 3, 2, 1, 0] = swap_halves ?B"
    using i_rnds_f_rnds [of T ?B "[0, 1, 2, 3, 4, 5, 6, 7]"] unfolding x by simp
  then show ?thesis
    unfolding Twofish_decrypt_def e unfolding r b by (simp add: Let_def numeral_2_eq_2 numeral_3_eq_3)
qed

lemma length_Twofish [simp]:
  "length (Twofish_encrypt T b out) = length out" "length (Twofish_decrypt T b out) = length out"
  by (simp_all add: Twofish_encrypt_def Twofish_decrypt_def Let_def case_prod_unfold)

interpretation tf: block_cipher "\<lambda>_. True" tf_enc tf_dec
  by unfold_locales
    (auto simp: tf_enc_def tf_dec_def Twofish_decrypt_encrypt bytes_words [where n = 4])

section \<open>Table loops\<close>

lemma upd2_loop:
  assumes "length M = 2" "length (M ! 0) = 256" "length (M ! 1) = 256"
  shows "foldl (\<lambda>M i. upd2 (upd2 M 0 i (f i)) 1 i (g i)) M [0..<256] = [map f [0..<256], map g [0..<256]]"
proof -
  have "n \<le> 256 \<Longrightarrow> foldl (\<lambda>M i. upd2 (upd2 M 0 i (f i)) 1 i (g i)) M [0..<n] =
      [map f [0..<n] @ drop n (M ! 0), map g [0..<n] @ drop n (M ! 1)]" for n
  proof (induction n)
    case 0
    obtain a b where "M = [a, b]"
      using assms(1) by (auto simp: numeral_2_eq_2 length_Suc_conv)
    then show ?case by simp
  next
    case (Suc n)
    then have "drop n (M ! 0) = M ! 0 ! n # drop (Suc n) (M ! 0)" "drop n (M ! 1) = M ! 1 ! n # drop (Suc n) (M ! 1)"
      using assms by (simp_all add: Cons_nth_drop_Suc)
    with Suc show ?case by (simp add: upd2_def list_update_append)
  qed
  from this [of 256] show ?thesis using assms by simp
qed

text \<open>Four tables filled in one loop, in any order of the four stores.\<close>

definition rows4 :: "(nat \<Rightarrow> 'a list) \<Rightarrow> 'a list list" where
  "rows4 r = [r 0, r 1, r 2, r 3]"

lemma upd2_rows4 [simp]:
  "upd2 (rows4 r) 0 i v = rows4 (r(0 := (r 0)[i := v]))" "upd2 (rows4 r) 1 i v = rows4 (r(1 := (r 1)[i := v]))"
  "upd2 (rows4 r) (Suc 0) i v = rows4 (r(1 := (r 1)[i := v]))"
  "upd2 (rows4 r) 2 i v = rows4 (r(2 := (r 2)[i := v]))" "upd2 (rows4 r) 3 i v = rows4 (r(3 := (r 3)[i := v]))"
  by (simp_all add: rows4_def upd2_def numeral_2_eq_2 numeral_3_eq_3)

lemma rows4_nth [simp]: "n < 4 \<Longrightarrow> rows4 r ! n = r n"
  by (auto simp: rows4_def dest!: nat4_cases simp: numeral_2_eq_2 numeral_3_eq_3)

lemma rows4_loop:
  assumes step: "\<And>r i. i < 256 \<Longrightarrow> \<exists>s. F (rows4 r) i = rows4 s \<and> (\<forall>n < 4. s n = (r n)[i := f n i])"
    and len: "\<And>n. n < 4 \<Longrightarrow> length (r n) = 256"
  shows "foldl F (rows4 r) [0..<256] = rows4 (\<lambda>n. map (f n) [0..<256])"
proof -
  have "m \<le> 256 \<Longrightarrow> \<exists>s. foldl F (rows4 r) [0..<m] = rows4 s \<and>
      (\<forall>n < 4. s n = map (f n) [0..<m] @ drop m (r n))" for m
  proof (induction m)
    case 0
    then show ?case by (metis append_Nil drop0 foldl_Nil list.map(1) upt_0)
  next
    case (Suc m)
    then obtain s where s: "foldl F (rows4 r) [0..<m] = rows4 s"
      "\<forall>n < 4. s n = map (f n) [0..<m] @ drop m (r n)" by auto
    obtain t where t: "F (rows4 s) m = rows4 t" "\<forall>n < 4. t n = (s n)[m := f n m]"
      using step [of m s] Suc.prems by auto
    have "t n = map (f n) [0..<Suc m] @ drop (Suc m) (r n)" if "n < 4" for n
    proof -
      have "drop m (r n) = r n ! m # drop (Suc m) (r n)"
        using Suc.prems len [OF that] by (simp add: Cons_nth_drop_Suc)
      then show ?thesis using that s(2) t(2) by (simp add: list_update_append)
    qed
    then show ?case using s(1) t(1) by (intro exI [of _ t]) simp
  qed
  from this [of 256] obtain s where "foldl F (rows4 r) [0..<256] = rows4 s"
    "\<forall>n < 4. s n = map (f n) [0..<256] @ drop 256 (r n)" by auto
  then show ?thesis using len by (simp add: rows4_def)
qed

lemma rows4_eta:
  assumes "length M = 4"
  shows "rows4 (\<lambda>n. M ! n) = M"
proof -
  obtain a b c d where "M = [a, b, c, d]" by (rule list4_cases [OF assms])
  then show ?thesis by (simp add: rows4_def numeral_2_eq_2 numeral_3_eq_3)
qed

section \<open>The tables hold the macros\<close>

lemma unat_and_3: "unat (x AND 3 :: u32) < 4"
proof -
  have "x AND 3 = take_bit 2 x" by (simp add: take_bit_eq_mask mask_eq_exp_minus_1)
  then have "unat (x AND 3) = take_bit 2 (unat x)" by (simp only: unsigned_take_bit_eq)
  then show ?thesis by (simp add: take_bit_eq_mod)
qed

lemma tab_bytes:
  assumes "k < 4"
  shows "take_bit 8 (tab_5b ! k) = tab_5b ! k" "take_bit 8 (tab_ef ! k) = tab_ef ! k"
proof -
  have t: "tab_5b = [0, 0x5A, 0xB4, 0xEE]" "tab_ef = [0, 0xEE, 0xB4, 0x5A]"
    by (simp_all add: tab_5b_def tab_ef_def)
  show "take_bit 8 (tab_5b ! k) = tab_5b ! k" "take_bit 8 (tab_ef ! k) = tab_ef ! k"
    unfolding t using nat4_cases [OF assms] by (elim disjE; simp)+
qed

text \<open>On byte values the multiplications stay bytes.\<close>

definition m5b :: "byte \<Rightarrow> byte" where
  "m5b x = ucast (ffm_5b (ucast x))"

definition mef :: "byte \<Rightarrow> byte" where
  "mef x = ucast (ffm_ef (ucast x))"

lemma take_8_ucast: "take_bit 8 (w :: u32) = w \<Longrightarrow> ucast (ucast w :: byte) = w"
proof -
  assume "take_bit 8 w = w"
  then have "bit w k \<longleftrightarrow> k < 8 \<and> bit w k" for k by (metis bit_take_bit_iff)
  then show ?thesis by (intro bit_word_eqI) (auto simp: bit_simps)
qed

lemma ffm_byte:
  "ffm_5b (ucast x) = ucast (m5b x)" "ffm_ef (ucast x) = ucast (mef x)"
proof -
  have t: "take_bit 8 (ucast x :: u32) = ucast x" "take_bit 8 (drop_bit n (ucast x :: u32)) = drop_bit n (ucast x)" for n
    by (rule bit_word_eqI; auto simp: bit_simps dest: bit_imp_le_length)+
  have "take_bit 8 (ffm_5b (ucast x)) = ffm_5b (ucast x)" "take_bit 8 (ffm_ef (ucast x)) = ffm_ef (ucast x)"
    by (simp_all only: ffm_5b_def ffm_ef_def take_bit_xor t tab_bytes [OF unat_and_3])
  then show "ffm_5b (ucast x) = ucast (m5b x)" "ffm_ef (ucast x) = ucast (mef x)"
    by (simp_all add: m5b_def mef_def take_8_ucast)
qed

lemma bytes_plus_V:
  "ucast d + push_bit 8 (ucast c) + push_bit 16 (ucast b) + push_bit 24 (ucast a) = V a b c d"
proof -
  let ?d = "ucast d :: u32" and ?c = "push_bit 8 (ucast c) :: u32" and ?b = "push_bit 16 (ucast b) :: u32"
    and ?a = "push_bit 24 (ucast a) :: u32"
  have "?d AND ?c = 0" "(?d OR ?c) AND ?b = 0" "(?d OR ?c OR ?b) AND ?a = 0"
    by (rule bit_word_eqI; auto simp: bit_simps dest: bit_imp_le_length)+
  then have "?d + ?c + ?b + ?a = ?d OR ?c OR ?b OR ?a" by (simp add: disjunctive_add_eq_or or.assoc)
  then show ?thesis by (simp add: V_def ac_simps)
qed

text \<open>The entries of the four matrix columns.\<close>

definition column :: "nat \<Rightarrow> byte \<Rightarrow> u32" where
  "column n x =
    (let a = qp 1 x; b = qp 0 x
     in if n = 0 then V (mef a) (mef a) (m5b a) a else if n = 1 then V b (m5b b) (mef b) (mef b)
        else if n = 2 then V (mef a) a (mef a) (m5b a) else V (m5b b) (mef b) b (m5b b))"

lemma mds_macro_column: "mds_macro n x = column n x"
  by (simp add: mds_macro_def column_def Let_def ffm_byte bytes_xor_V xor.assoc)

definition q_tab_ok :: "byte list list \<Rightarrow> bool" where
  "q_tab_ok M \<longleftrightarrow> M = [map (\<lambda>i. qp 0 (word_of_nat i)) [0..<256], map (\<lambda>i. qp 1 (word_of_nat i)) [0..<256]]"

definition m_tab_ok :: "u32 list list \<Rightarrow> bool" where
  "m_tab_ok M \<longleftrightarrow> M = rows4 (\<lambda>n. map (\<lambda>i. mds_macro n (word_of_nat i)) [0..<256])"

text \<open>Arrays of the declared sizes; the flags tell whether the tables are in place.\<close>

definition tf_ok :: "TWOFISH_DATA \<Rightarrow> bool" where
  "tf_ok T \<longleftrightarrow>
     length (l_key T) = 40 \<and> length (s_key T) = 4
     \<and> length (q_tab T) = 2 \<and> length (q_tab T ! 0) = 256 \<and> length (q_tab T ! 1) = 256
     \<and> length (m_tab T) = 4 \<and> (\<forall>n < 4. length (m_tab T ! n) = 256)
     \<and> length (mk_tab T) = 4 \<and> (\<forall>n < 4. length (mk_tab T ! n) = 256)
     \<and> (qt_gen T \<noteq> 0 \<longrightarrow> q_tab_ok (q_tab T)) \<and> (mt_gen T \<noteq> 0 \<longrightarrow> m_tab_ok (m_tab T))"

lemma q_tab_okD: "q_tab_ok (q_tab T) \<Longrightarrow> n < 2 \<Longrightarrow> q T n x = qp n x"
  by (auto simp: q_tab_ok_def q_def numeral_2_eq_2 less_Suc_eq)

lemma m_tab_okD: "m_tab_ok (m_tab T) \<Longrightarrow> n < 4 \<Longrightarrow> mds T n x = mds_macro n x"
  by (simp add: m_tab_ok_def mds_def)

lemma gen_qtab_ok: "tf_ok T \<Longrightarrow> q_tab_ok (q_tab (gen_qtab T))"
  using upd2_loop [of "q_tab T" "\<lambda>i. qp 0 (word_of_nat i)" "\<lambda>i. qp 1 (word_of_nat i)"]
  by (simp add: gen_qtab_def q_tab_ok_def tf_ok_def)

lemma gen_mtab_ok:
  assumes "tf_ok T" "q_tab_ok (q_tab T)"
  shows "m_tab_ok (m_tab (gen_mtab T))"
proof -
  have r: "m_tab T = rows4 (\<lambda>n. m_tab T ! n)" using assms(1) by (simp add: tf_ok_def rows4_eta)
  have len: "length (m_tab T ! n) = 256" if "n < 4" for n
    using assms(1) that by (simp add: tf_ok_def)
  have "\<exists>s. mtab_step T (rows4 r) i = rows4 s \<and> (\<forall>n < 4. s n = (r n)[i := mds_macro n (word_of_nat i)])" for r i
    by (simp add: mtab_step_def Let_def q_tab_okD [OF assms(2)] ffm_byte bytes_plus_V mds_macro_column column_def)
      (rule exI, rule conjI, rule refl, auto dest!: nat4_cases)
  then show ?thesis
    unfolding m_tab_ok_def gen_mtab_def by (simp, subst r) (rule rows4_loop, blast, rule len)
qed

section \<open>Key set-up\<close>

lemma subkey_step_frame:
  "q_tab (foldl (subkey_step me mo) T js) = q_tab T" "m_tab (foldl (subkey_step me mo) T js) = m_tab T"
  "mk_tab (foldl (subkey_step me mo) T js) = mk_tab T" "k_len (foldl (subkey_step me mo) T js) = k_len T"
  "s_key (foldl (subkey_step me mo) T js) = s_key T" "length (l_key (foldl (subkey_step me mo) T js)) = length (l_key T)"
  "qt_gen (foldl (subkey_step me mo) T js) = qt_gen T" "mt_gen (foldl (subkey_step me mo) T js) = mt_gen T"
  by (induction js arbitrary: T; simp add: subkey_step_def Let_def)+

text \<open>The key words of even and odd index and the Reed-Solomon remainders, in reverse order.\<close>

lemma key_loop:
  assumes "unat (k_len T) = k" "n \<le> k"
  shows "\<exists>me' mo'. foldl (key_step in_key) (T, me, mo) [0..<n] =
      (T\<lparr>s_key := foldl (\<lambda>l i. l[k - i - 1 := mds_rem (in_key ! (i + i)) (in_key ! (i + i + 1))]) (s_key T) [0..<n]\<rparr>, me', mo')
    \<and> length me' = length me \<and> length mo' = length mo
    \<and> (\<forall>i < n. n \<le> length me \<longrightarrow> me' ! i = in_key ! (2 * i)) \<and> (\<forall>i < n. n \<le> length mo \<longrightarrow> mo' ! i = in_key ! (2 * i + 1))"
  using assms(2)
proof (induction n)
  case (Suc n)
  then show ?case using assms(1)
    by (fastforce simp: key_step_def Let_def nth_list_update less_Suc_eq mult_2)
qed simp

section \<open>The function h\<close>

text \<open>
  The function of the cipher's description, on the key words \<open>L\<close>: the bytes pass through
  the q permutations \<open>h_perm ! i\<close> and are xored with key word \<open>i\<close>, from the last word to
  the first, and then through the matrix.
\<close>

definition h_perm :: "nat list list" where
  "h_perm = [[0, 0, 1, 1], [0, 1, 0, 1], [1, 1, 0, 0], [1, 0, 0, 1]]"

definition h_layer :: "u32 list \<Rightarrow> byte list \<Rightarrow> nat \<Rightarrow> byte list" where
  "h_layer L y i = map (\<lambda>j. qp (h_perm ! i ! j) (y ! j) XOR tf_byte (L ! i) j) [0, 1, 2, 3]"

definition h_spec :: "u32 list \<Rightarrow> u32 \<Rightarrow> u32" where
  "h_spec L x =
    (let y = foldl (h_layer L) (map (tf_byte x) [0, 1, 2, 3]) (rev [0..<length L])
     in mds_macro 0 (y ! 0) XOR mds_macro 1 (y ! 1) XOR mds_macro 2 (y ! 2) XOR mds_macro 3 (y ! 3))"

definition tables_in_place :: "TWOFISH_DATA \<Rightarrow> bool" where
  "tables_in_place T \<longleftrightarrow> q_tab_ok (q_tab T) \<and> m_tab_ok (m_tab T)"

lemma q_in_place: "tables_in_place T \<Longrightarrow> n < 2 \<Longrightarrow> q T n x = qp n x"
  and mds_in_place: "tables_in_place T \<Longrightarrow> n < 4 \<Longrightarrow> mds T n x = mds_macro n x"
  by (simp_all add: tables_in_place_def q_tab_okD m_tab_okD)

lemma h_fun_spec:
  assumes "tables_in_place T" "k_len T = word_of_nat k" "k \<in> {2, 3, 4}" "k \<le> length key"
  shows "h_fun T x key = h_spec (take k key) x"
proof -
  consider "k = 2" | "k = 3" | "k = 4" using assms(3) by auto
  then show ?thesis
    using assms(2,4)
    by cases (simp_all add: h_fun_def h_bytes_def h_spec_def h_layer_def h_perm_def h_case2_def h_case3_def
        h_case4_def Let_def q_in_place [OF assms(1)] mds_in_place [OF assms(1)] min_def
        numeral_2_eq_2 numeral_3_eq_3 eval_nat_numeral)
qed

text \<open>The configuration without the matrix table computes the same function.\<close>

lemma h_last_mds:
  assumes "tables_in_place T"
  shows "h_fun T x key = h_last T (h_bytes T x key)"
proof -
  obtain b0 b1 b2 b3 where b: "h_bytes T x key = (b0, b1, b2, b3)" by (metis prod_cases4)
  have o: "ucast d OR push_bit 8 (ucast c) OR push_bit 16 (ucast b) OR push_bit 24 (ucast a) = V a b c d" for a b c d :: byte
    by (simp add: V_def ac_simps)
  have x: "(ucast a :: u32) XOR ucast b = ucast (a XOR b)" for a b :: byte
    by (rule bit_word_eqI) (auto simp: bit_simps)
  let ?a = "qp 1 b0" and ?b = "qp 0 b1" and ?c = "qp 1 b2" and ?d = "qp 0 b3"
  have "h_last T (b0, b1, b2, b3) =
      V (?b XOR (mef ?a XOR mef ?c XOR m5b ?d)) (?c XOR (mef ?a XOR m5b ?b XOR mef ?d))
        (?d XOR (m5b ?a XOR mef ?b XOR mef ?c)) (?a XOR (mef ?b XOR m5b ?c XOR m5b ?d))"
    unfolding h_last_def prod.case Let_def
    by (simp only: q_in_place [OF assms] zero_less_numeral one_less_numeral_iff semiring_norm ffm_byte x o)
  then show ?thesis
    unfolding h_fun_def b
    by (simp add: mds_in_place [OF assms] mds_macro_column column_def Let_def xor.commute xor.left_commute)
qed

section \<open>The key dependent tables\<close>

lemma mk_step_rows:
  "\<exists>s. mk_step T f0 f1 f2 f3 (rows4 r) i = rows4 s \<and>
    (\<forall>n < 4. s n = (r n)[i := mds T n (([f0, f1, f2, f3] ! n) (word_of_nat i))])"
  by (simp add: mk_step_def Let_def)
    (rule exI, rule conjI, rule refl, auto dest!: nat4_cases simp: numeral_2_eq_2 numeral_3_eq_3)

lemma mk_loop:
  assumes "length M = 4" "\<forall>n < 4. length (M ! n) = 256"
  shows "foldl (mk_step T f0 f1 f2 f3) M [0..<256] =
    rows4 (\<lambda>n. map (\<lambda>i. mds T n (([f0, f1, f2, f3] ! n) (word_of_nat i))) [0..<256])"
proof -
  have "foldl (mk_step T f0 f1 f2 f3) (rows4 (\<lambda>n. M ! n)) [0..<256] =
      rows4 (\<lambda>n. map (\<lambda>i. mds T n (([f0, f1, f2, f3] ! n) (word_of_nat i))) [0..<256])"
    using assms(2) by (intro rows4_loop mk_step_rows) auto
  then show ?thesis by (simp add: rows4_eta assms(1))
qed

lemma tf_byte_rotl8:
  "tf_byte (rotl x 8) 0 = tf_byte x 3" "tf_byte (rotl x 8) (Suc 0) = tf_byte x 0"
  "tf_byte (rotl x 8) 2 = tf_byte x 1" "tf_byte (rotl x 8) 3 = tf_byte x 2"
  by (rule bit_word_eqI; auto simp: tf_byte_def rotl_def rotl_bits_def bit_simps)+

lemma g_fun_h:
  assumes "length (mk_tab T) = 4" "\<forall>n < 4. length (mk_tab T ! n) = 256"
    and "k_len T = 2 \<or> k_len T = 3 \<or> k_len T = 4"
  shows "g0_fun (gen_mk_tab T key) x = h_fun T x key"
    and "g1_fun (gen_mk_tab T key) x = h_fun T (rotl x 8) key"
  using assms(3)
  by (elim disjE; simp add: g0_fun_def g1_fun_def gen_mk_tab_def mk_loop [OF assms(1,2)] h_fun_def h_bytes_def
      h_case2_def h_case3_def h_case4_def q20_def q21_def q22_def q23_def q30_def q31_def q32_def q33_def
      q40_def q41_def q42_def q43_def tf_byte_rotl8)+

section \<open>What key set-up establishes\<close>

lemma h_fun_cong:
  assumes "q_tab T = q_tab T'" "m_tab T = m_tab T'" "k_len T = k_len T'"
  shows "h_fun T x key = h_fun T' x key"
proof -
  have "q T = q T'" "mds T = mds T'" by (intro ext, simp add: q_def mds_def assms)+
  then have "h_case2 T = h_case2 T'" "h_case3 T = h_case3 T'" "h_case4 T = h_case4 T'" "mds T = mds T'"
    by (intro ext, simp add: h_case2_def h_case3_def h_case4_def)+
  then show ?thesis by (simp add: h_fun_def h_bytes_def assms(3) Let_def)
qed

lemma subkey_loop:
  assumes "length (l_key T) = 40" "n \<le> 20"
  shows "\<forall>j < n. let a = h_fun T (0x01010101 * word_of_nat (2 * j)) me;
       b = rotl (h_fun T (0x01010101 * word_of_nat (2 * j) + 0x01010101) mo) 8;
       l = l_key (foldl (subkey_step me mo) T [0..<n])
     in l ! (2 * j) = a + b \<and> l ! (2 * j + 1) = rotl (a + 2 * b) 9"
  using assms(2)
proof (induction n)
  case (Suc n)
  define F where "F = foldl (subkey_step me mo) T [0..<n]"
  have h: "h_fun F x key = h_fun T x key" for x key
    by (rule h_fun_cong) (simp_all add: subkey_step_frame F_def)
  have l: "length (l_key F) = 40" using assms(1) by (simp add: subkey_step_frame F_def)
  have eq: "foldl (subkey_step me mo) T [0..<Suc n] = subkey_step me mo F n" by (simp add: F_def)
  have prev: "\<forall>j < n. let a = h_fun T (0x01010101 * word_of_nat (2 * j)) me;
       b = rotl (h_fun T (0x01010101 * word_of_nat (2 * j) + 0x01010101) mo) 8
     in l_key F ! (2 * j) = a + b \<and> l_key F ! (2 * j + 1) = rotl (a + 2 * b) 9"
    using Suc by (simp add: F_def Let_def)
  show ?case
    unfolding eq using prev Suc.prems l by (simp add: Let_def less_Suc_eq subkey_step_def h nth_list_update)
qed simp

lemma rev_scatter:
  assumes "n \<le> k" "k \<le> length l" "i < n"
  shows "foldl (\<lambda>l i. l[k - i - 1 := g i]) l [0..<n] ! (k - i - 1) = g i"
  using assms
proof (induction n)
  case (Suc n)
  have "length (foldl (\<lambda>l i. l[k - i - 1 := g i]) l js) = length l" for js
    by (induction js arbitrary: l) auto
  then show ?case using Suc by (auto simp: less_Suc_eq nth_list_update)
qed simp

lemma length_rev_scatter [simp]: "length (foldl (\<lambda>l i. l[k - i - 1 := g i]) l js) = length l"
  by (induction js arbitrary: l) auto

definition even_words :: "nat \<Rightarrow> u32 list \<Rightarrow> u32 list" where
  "even_words k w = map (\<lambda>i. w ! (2 * i)) [0..<k]"

definition odd_words :: "nat \<Rightarrow> u32 list \<Rightarrow> u32 list" where
  "odd_words k w = map (\<lambda>i. w ! (2 * i + 1)) [0..<k]"

text \<open>The S-box key: the remainders of the key's double words, last first.\<close>

definition sbox_words :: "nat \<Rightarrow> u32 list \<Rightarrow> u32 list" where
  "sbox_words k w = map (\<lambda>i. mds_rem (w ! (2 * (k - i - 1))) (w ! (2 * (k - i - 1) + 1))) [0..<k]"

definition tf_schedule :: "nat \<Rightarrow> u32 list \<Rightarrow> TWOFISH_DATA \<Rightarrow> bool" where
  "tf_schedule k w T \<longleftrightarrow>
     (\<forall>x. g0_fun T x = h_spec (sbox_words k w) x \<and> g1_fun T x = h_spec (sbox_words k w) (rotl x 8))
     \<and> (\<forall>j < 20.
          let a = h_spec (even_words k w) (0x01010101 * word_of_nat (2 * j));
              b = rotl (h_spec (odd_words k w) (0x01010101 * word_of_nat (2 * j) + 0x01010101)) 8
          in l_key T ! (2 * j) = a + b \<and> l_key T ! (2 * j + 1) = rotl (a + 2 * b) 9)"

lemma set_key_schedule:
  assumes T: "tf_ok T" and k: "k \<in> {2, 3, 4}" and me: "length me = 4" "length mo = 4"
  shows "tf_schedule k w (Twofish_set_key me mo T w (word_of_nat (64 * k)))"
proof -
  define A where "A = (if qt_gen T = 0 then (gen_qtab T)\<lparr>qt_gen := 1\<rparr> else T)"
  define B where "B = (if mt_gen A = 0 then (gen_mtab A)\<lparr>mt_gen := 1\<rparr> else A)"
  define C where "C = B\<lparr>k_len := word_of_nat k\<rparr>"
  have qA: "q_tab_ok (q_tab A)" using T gen_qtab_ok [OF T] by (simp add: tf_ok_def A_def)
  have okA: "tf_ok A"
    using T qA by (auto simp: tf_ok_def gen_qtab_def q_tab_ok_def A_def)
  have inB: "tables_in_place B"
    using qA okA gen_mtab_ok [OF okA qA] unfolding tables_in_place_def by (simp add: tf_ok_def gen_mtab_def B_def)
  have frame: "l_key B = l_key T" "s_key B = s_key T" "mk_tab B = mk_tab T"
    by (simp_all add: gen_mtab_def gen_qtab_def A_def B_def)
  have kl: "(word_of_nat (64 * k) :: u32) div 64 = word_of_nat k" "unat (word_of_nat k :: u32) = k"
    using k by (elim insertE emptyE; simp)+
  obtain me' mo' where loop: "foldl (key_step w) (C, me, mo) [0..<k] =
      (C\<lparr>s_key := foldl (\<lambda>l i. l[k - i - 1 := mds_rem (w ! (i + i)) (w ! (i + i + 1))]) (s_key C) [0..<k]\<rparr>, me', mo')"
    and m: "length me' = 4" "length mo' = 4" "\<forall>i < k. me' ! i = w ! (2 * i)" "\<forall>i < k. mo' ! i = w ! (2 * i + 1)"
  proof -
    have "unat (k_len C) = k" "k \<le> 4" using kl(2) k by (auto simp: C_def)
    with key_loop [OF this(1) order_refl, of w me mo] me show ?thesis using that by auto
  qed
  define S where "S = foldl (\<lambda>l i. l[k - i - 1 := mds_rem (w ! (i + i)) (w ! (i + i + 1))]) (s_key C) [0..<k]"
  define D where "D = C\<lparr>s_key := S\<rparr>"
  define E where "E = foldl (subkey_step me' mo') D [0..<20]"
  have set: "Twofish_set_key me mo T w (word_of_nat (64 * k)) = gen_mk_tab E (s_key E)"
    unfolding Twofish_set_key_def Let_def A_def [symmetric] B_def [symmetric] kl C_def [symmetric]
    by (simp add: C_def kl) (simp add: C_def [symmetric] loop [simplified] E_def D_def S_def)
  have inE: "tables_in_place D" "tables_in_place E"
    using inB by (simp_all add: tables_in_place_def subkey_step_frame E_def D_def C_def)
  have "length S = length (s_key C)" unfolding S_def by (rule length_rev_scatter)
  moreover have sC: "length (s_key C) = 4" using T frame by (simp add: C_def tf_ok_def)
  ultimately have lk: "length me' \<ge> k" "length mo' \<ge> k" "length S \<ge> k" using m k by auto
  have words: "take k me' = even_words k w" "take k mo' = odd_words k w" "take k S = sbox_words k w"
  proof -
    show "take k me' = even_words k w" "take k mo' = odd_words k w"
      using m lk by (auto intro!: nth_equalityI simp: even_words_def odd_words_def)
    have "S ! (k - i - 1) = mds_rem (w ! (2 * i)) (w ! (2 * i + 1))" if "i < k" for i
      using rev_scatter [of k k "s_key C" i "\<lambda>i. mds_rem (w ! (i + i)) (w ! (i + i + 1))"] that sC k
      unfolding S_def mult_2 by auto
    moreover have "k - (k - i - 1) - 1 = i" "k - i - 1 < k" if "i < k" for i using that by auto
    ultimately have "S ! i = mds_rem (w ! (2 * (k - i - 1))) (w ! (2 * (k - i - 1) + 1))" if "i < k" for i
      using that by metis
    then show "take k S = sbox_words k w"
      using lk(3) by (intro nth_equalityI) (auto simp: sbox_words_def)
  qed
  have h: "h_fun E x S = h_spec (sbox_words k w) x" "h_fun D x me' = h_spec (even_words k w) x"
    "h_fun D x mo' = h_spec (odd_words k w) x" for x
    using h_fun_spec [OF inE(2) _ k lk(3)] h_fun_spec [OF inE(1) _ k lk(1)] h_fun_spec [OF inE(1) _ k lk(2)]
    by (simp_all add: words subkey_step_frame E_def D_def C_def)
  have "k_len E = 2 \<or> k_len E = 3 \<or> k_len E = 4" using k by (auto simp: subkey_step_frame E_def D_def C_def)
  moreover have "length (mk_tab E) = 4" "\<forall>n < 4. length (mk_tab E ! n) = 256"
    using T frame by (simp_all add: subkey_step_frame tf_ok_def E_def D_def C_def)
  ultimately have g: "g0_fun (gen_mk_tab E S) x = h_fun E x S"
    "g1_fun (gen_mk_tab E S) x = h_fun E (rotl x 8) S" for x
    by (simp_all add: g_fun_h)
  have "length (l_key D) = 40" using T frame by (simp add: tf_ok_def D_def C_def)
  from subkey_loop [OF this order_refl, of me' mo']
  have "\<forall>j < 20. let a = h_spec (even_words k w) (0x01010101 * word_of_nat (2 * j));
              b = rotl (h_spec (odd_words k w) (0x01010101 * word_of_nat (2 * j) + 0x01010101)) 8
          in l_key E ! (2 * j) = a + b \<and> l_key E ! (2 * j + 1) = rotl (a + 2 * b) 9"
    by (simp only: h E_def [symmetric] Let_def)
  moreover have "s_key E = S" "l_key (gen_mk_tab E S) = l_key E"
    by (simp_all add: subkey_step_frame gen_mk_tab_def E_def D_def)
  ultimately show ?thesis unfolding set tf_schedule_def by (simp add: g h)
qed

section \<open>The Reed-Solomon matrix\<close>

text \<open>
  Multiplication in the field of 256 elements with the modular polynomial \<open>0x14D\<close>, and the
  matrix of the cipher's description applied to the eight bytes of a double word.
\<close>

definition xt14D :: "byte \<Rightarrow> byte" where
  "xt14D x = push_bit 1 x XOR (if bit x 7 then 0x4D else 0)"

definition gmul14D :: "byte \<Rightarrow> byte \<Rightarrow> byte" where
  "gmul14D c x =
    fst (foldl (\<lambda>(s, x) i. (s XOR (if bit c i then x else 0), xt14D x)) (0, x) [0, 1, 2, 3, 4, 5, 6, 7])"

definition rs_matrix :: "byte list list" where
  "rs_matrix =
    [[0x01, 0xA4, 0x55, 0x87, 0x5A, 0x58, 0xDB, 0x9E],
     [0xA4, 0x56, 0x82, 0xF3, 0x1E, 0xC6, 0x68, 0xE5],
     [0x02, 0xA1, 0xFC, 0xC1, 0x47, 0xAE, 0x3D, 0x19],
     [0xA4, 0x55, 0x87, 0x5A, 0x58, 0xDB, 0x9E, 0x03]]"

definition rs_row :: "byte list \<Rightarrow> byte list \<Rightarrow> byte" where
  "rs_row r m = foldl (\<lambda>s (c, x). s XOR gmul14D c x) 0 (zip r m)"

definition rs_code :: "u32 \<Rightarrow> u32 \<Rightarrow> u32" where
  "rs_code p0 p1 =
    (let m = le32 p0 @ le32 p1
     in V (rs_row (rs_matrix ! 3) m) (rs_row (rs_matrix ! 2) m) (rs_row (rs_matrix ! 1) m)
          (rs_row (rs_matrix ! 0) m))"

text \<open>Both sides are linear, so they are compared on single bits.\<close>

lemma xor_linear_word:
  fixes f g :: "'a :: len word \<Rightarrow> 'b :: len word"
  assumes "\<And>a b. f (a XOR b) = f a XOR f b" "\<And>a b. g (a XOR b) = g a XOR g b"
    and "\<And>k. k < LENGTH('a) \<Longrightarrow> f (push_bit k 1) = g (push_bit k 1)"
  shows "f w = g w"
proof -
  have z: "f 0 = 0" "g 0 = 0" using assms(1) [of 0 0] assms(2) [of 0 0] by simp_all
  have "n \<le> LENGTH('a) \<Longrightarrow> f (take_bit n w) = g (take_bit n w)" for n
  proof (induction n)
    case (Suc n)
    have "take_bit (Suc n) w = take_bit n w XOR (if bit w n then push_bit n 1 else 0)"
      by (rule bit_word_eqI) (auto simp: bit_simps less_Suc_eq)
    then show ?case using Suc assms z by simp
  qed (simp add: z)
  from this [of "LENGTH('a)"] take_bit_word_eq_self [of "LENGTH('a)" w] show ?thesis by simp
qed

lemma xt14D_xor: "xt14D (a XOR b) = xt14D a XOR xt14D b"
  by (rule bit_word_eqI) (auto simp: xt14D_def bit_simps)

lemma gmul14D_xor: "gmul14D c (a XOR b) = gmul14D c a XOR gmul14D c b"
  by (simp add: gmul14D_def xt14D_xor ac_simps)

lemma rs_row_xor:
  "length a = length b \<Longrightarrow> rs_row r (map2 (XOR) a b) = rs_row r a XOR rs_row r b"
proof -
  have "foldl (\<lambda>s (c, x). s XOR gmul14D c x) (s XOR t) (zip r (map2 (XOR) a b)) =
      foldl (\<lambda>s (c, x). s XOR gmul14D c x) s (zip r a) XOR foldl (\<lambda>s (c, x). s XOR gmul14D c x) t (zip r b)"
    if "length a = length b" for s t
    using that
  proof (induction a b arbitrary: r s t rule: list_induct2)
    case (Cons x xs y ys)
    note IH = Cons.IH
    have e: "(s XOR t) XOR gmul14D c (x XOR y) = (s XOR gmul14D c x) XOR (t XOR gmul14D c y)" for c
      by (simp add: gmul14D_xor ac_simps)
    show ?case
    proof (cases r)
      case (Cons c r')
      show ?thesis
        using \<open>length xs = length ys\<close> IH [of "s XOR gmul14D c x" "t XOR gmul14D c y" r']
        unfolding Cons by (simp only: zip_Cons_Cons list.map prod.case foldl_Cons e)
    qed simp
  qed simp
  from this [of 0 0] show "length a = length b \<Longrightarrow> ?thesis" by (simp add: rs_row_def)
qed

lemma rs_code_xor: "rs_code (a XOR c) (b XOR d) = rs_code a b XOR rs_code c d"
proof -
  obtain a0 a1 a2 a3 where a: "a = V a0 a1 a2 a3" by (rule V_cases)
  obtain b0 b1 b2 b3 where b: "b = V b0 b1 b2 b3" by (rule V_cases)
  obtain c0 c1 c2 c3 where c: "c = V c0 c1 c2 c3" by (rule V_cases)
  obtain d0 d1 d2 d3 where d: "d = V d0 d1 d2 d3" by (rule V_cases)
  show ?thesis
    using rs_row_xor [of "le32 a @ le32 b" "le32 c @ le32 d"]
    by (simp add: rs_code_def Let_def a b c d)
qed

text \<open>One step on bytes: the leading coefficient times \<open>a\<close> and times \<open>a + 1 / a\<close>.\<close>

definition inv_sum :: "byte \<Rightarrow> byte" where
  "inv_sum x = xt14D x XOR drop_bit 1 x XOR (if bit x 0 then 0xA6 else 0)"

lemma inv_sum_xor: "inv_sum (a XOR b) = inv_sum a XOR inv_sum b"
  by (auto simp: inv_sum_def xt14D_xor bit_xor_iff ac_simps simp del: bit_0)

lemma rem_doubling:
  "(if (ucast a :: u32) AND 0x80 \<noteq> 0 then push_bit 1 (ucast a) XOR 0x0000014D else push_bit 1 (ucast a)) = ucast (xt14D a)"
  by (rule byte_exhaust [of _ a]) (simp add: all_bytes_def xt14D_def)

lemma rem_halving:
  "(if (ucast a :: u32) AND 0x01 \<noteq> 0 then (ucast (xt14D a) XOR drop_bit 1 (ucast a)) XOR drop_bit 1 0x0000014D
    else ucast (xt14D a) XOR drop_bit 1 (ucast a)) = (ucast (inv_sum a) :: u32)"
proof -
  have "(ucast a :: u32) AND 0x01 \<noteq> 0 \<longleftrightarrow> bit a 0"
    by (simp add: and_one_eq mod_2_eq_odd bit_0 flip: bit_0) (simp add: bit_simps del: bit_0)
  moreover have "(drop_bit 1 0x0000014D :: u32) = ucast (0xA6 :: byte)" by simp
  moreover have "drop_bit 1 (ucast a :: u32) = ucast (drop_bit 1 a)"
    by (rule bit_word_eqI) (auto simp: bit_simps dest: bit_imp_le_length)
  ultimately show ?thesis by (simp add: inv_sum_def unsigned_xor_eq xor.assoc del: One_nat_def)
qed

lemma mds_rem_step_V:
  "mds_rem_step (V e f g h, V a b c d) =
    (V f g h 0, V (b XOR inv_sum a) (c XOR xt14D a) (d XOR inv_sum a) (e XOR a))"
proof -
  have "drop_bit 24 (V a b c d) = ucast a" "push_bit 8 (V e f g h) = V f g h 0"
    "push_bit 8 (V a b c d) OR drop_bit 24 (V e f g h) = V b c d e"
    by (rule bit_word_eqI; auto simp: bit_V bit_simps dest: bit_imp_le_length)+
  moreover have "ucast a XOR push_bit 16 (ucast x) = V 0 x 0 a" "push_bit 24 (ucast x) OR push_bit 8 (ucast x) = V x 0 x 0" for x :: byte
    by (rule bit_word_eqI; auto simp: bit_V bit_simps dest: bit_imp_le_length)+
  ultimately show ?thesis
    unfolding mds_rem_step_def prod.case Let_def by (simp only: rem_doubling rem_halving V_xor xor.right_neutral)
qed

lemma mds_rem_step_xor:
  "mds_rem_step (a XOR c, b XOR d) =
    (fst (mds_rem_step (a, b)) XOR fst (mds_rem_step (c, d)), snd (mds_rem_step (a, b)) XOR snd (mds_rem_step (c, d)))"
  by (cases a rule: V_cases; cases b rule: V_cases; cases c rule: V_cases; cases d rule: V_cases)
    (simp add: mds_rem_step_V inv_sum_xor xt14D_xor ac_simps)

lemma mds_rem_xor: "mds_rem (a XOR c) (b XOR d) = mds_rem a b XOR mds_rem c d"
proof -
  have "(mds_rem_step ^^ n) (a XOR c, b XOR d) =
      (fst ((mds_rem_step ^^ n) (a, b)) XOR fst ((mds_rem_step ^^ n) (c, d)),
       snd ((mds_rem_step ^^ n) (a, b)) XOR snd ((mds_rem_step ^^ n) (c, d)))" for n
    by (induction n) (simp_all add: mds_rem_step_xor)
  then show ?thesis by (simp add: mds_rem_def)
qed

lemma funpow_numeral_step: "(f ^^ numeral n) x = (f ^^ pred_numeral n) (f x)"
  by (simp add: numeral_eq_Suc funpow_swap1)

definition unit_words :: "u32 list" where
  "unit_words =
    [V 0 0 0 1, V 0 0 0 2, V 0 0 0 4, V 0 0 0 8, V 0 0 0 16, V 0 0 0 32, V 0 0 0 64, V 0 0 0 128,
     V 0 0 1 0, V 0 0 2 0, V 0 0 4 0, V 0 0 8 0, V 0 0 16 0, V 0 0 32 0, V 0 0 64 0, V 0 0 128 0,
     V 0 1 0 0, V 0 2 0 0, V 0 4 0 0, V 0 8 0 0, V 0 16 0 0, V 0 32 0 0, V 0 64 0 0, V 0 128 0 0,
     V 1 0 0 0, V 2 0 0 0, V 4 0 0 0, V 8 0 0 0, V 16 0 0 0, V 32 0 0 0, V 64 0 0 0, V 128 0 0 0]"

lemma unit_words_bits: "unit_words = map (\<lambda>k. push_bit k 1) [0..<32]"
  by code_simp

lemma gmul14D_zero: "gmul14D c 0 = 0"
  using gmul14D_xor [of c 0 0] by simp

lemma mds_rem_units:
  "list_all (\<lambda>w. mds_rem w (V 0 0 0 0) = rs_code w (V 0 0 0 0)) unit_words"
  "list_all (\<lambda>w. mds_rem (V 0 0 0 0) w = rs_code (V 0 0 0 0) w) unit_words"
  by (simp add: unit_words_def rs_code_def Let_def rs_row_def rs_matrix_def gmul14D_zero mds_rem_def
      funpow_numeral_step mds_rem_step_V xt14D_def inv_sum_def, simp add: gmul14D_def xt14D_def V_def)+

text \<open>The remainder is the product with the Reed-Solomon matrix.\<close>

lemma mds_rem_rs: "mds_rem p0 p1 = rs_code p0 p1"
proof -
  have single: "mds_rem (push_bit k 1) 0 = rs_code (push_bit k 1) 0"
    "mds_rem 0 (push_bit k 1) = rs_code 0 (push_bit k 1)" if "k < 32" for k
    using mds_rem_units that by (auto simp: unit_words_bits list_all_iff V_zero)
  have "mds_rem p0 0 = rs_code p0 0"
    by (rule xor_linear_word [of "\<lambda>p. mds_rem p 0"])
      (use mds_rem_xor [of _ _ 0 0] rs_code_xor [of _ _ 0 0] single in \<open>simp_all\<close>)
  moreover have "mds_rem 0 p1 = rs_code 0 p1"
    by (rule xor_linear_word [of "\<lambda>p. mds_rem 0 p"])
      (use mds_rem_xor [of 0 0] rs_code_xor [of 0 0] single in \<open>simp_all\<close>)
  ultimately show ?thesis using mds_rem_xor [of p0 0 0 p1] rs_code_xor [of p0 0 0 p1] by simp
qed

end
