(* ===== verification/Twofish_Spec.thy ===== *)
theory Twofish_Spec
  imports Twofish_Proofs
begin

unbundle bit_operations_syntax

text \<open>
  Twofish as its description defines it, with the two matrix products written out in their
  fields, and the proof that the key schedule and the round macros of \<open>Twofish.cpp\<close>
  compute it.
\<close>

section \<open>The matrix over the field with modulus 0x169\<close>

definition xt169 :: "byte \<Rightarrow> byte" where
  "xt169 x = push_bit 1 x XOR (if bit x 7 then 0x69 else 0)"

definition gmul169 :: "byte \<Rightarrow> byte \<Rightarrow> byte" where
  "gmul169 c x =
    fst (foldl (\<lambda>(s, x) i. (s XOR (if bit c i then x else 0), xt169 x)) (0, x) [0, 1, 2, 3, 4, 5, 6, 7])"

definition mds_matrix :: "byte list list" where
  "mds_matrix =
    [[0x01, 0xEF, 0x5B, 0x5B], [0x5B, 0xEF, 0xEF, 0x01], [0xEF, 0x5B, 0x01, 0xEF], [0xEF, 0x01, 0xEF, 0x5B]]"

definition mds_row :: "byte list \<Rightarrow> byte list \<Rightarrow> byte" where
  "mds_row r y =
    gmul169 (r ! 0) (y ! 0) XOR gmul169 (r ! 1) (y ! 1) XOR gmul169 (r ! 2) (y ! 2) XOR gmul169 (r ! 3) (y ! 3)"

definition mds_product :: "byte list \<Rightarrow> u32" where
  "mds_product y =
    V (mds_row (mds_matrix ! 3) y) (mds_row (mds_matrix ! 2) y) (mds_row (mds_matrix ! 1) y)
      (mds_row (mds_matrix ! 0) y)"

section \<open>The cipher\<close>

text \<open>
  The function h on \<open>k\<close> key words: the key layers, then the last permutations \<open>q1, q0, q1,
  q0\<close>, then the matrix.
\<close>

definition tf_h :: "u32 list \<Rightarrow> u32 \<Rightarrow> u32" where
  "tf_h L x =
    (let y = foldl (h_layer L) (map (tf_byte x) [0, 1, 2, 3]) (rev [0..<length L])
     in mds_product [qp 1 (y ! 0), qp 0 (y ! 1), qp 1 (y ! 2), qp 0 (y ! 3)])"

definition tf_S :: "nat \<Rightarrow> u32 list \<Rightarrow> u32 list" where
  "tf_S k w = map (\<lambda>i. rs_code (w ! (2 * (k - i - 1))) (w ! (2 * (k - i - 1) + 1))) [0..<k]"

text \<open>Expanded key word \<open>n\<close>.\<close>

definition tf_K :: "nat \<Rightarrow> u32 list \<Rightarrow> nat \<Rightarrow> u32" where
  "tf_K k w n =
    (let i = n div 2; rho = 0x01010101;
         A = tf_h (even_words k w) (word_of_nat (2 * i) * rho);
         B = rotl (tf_h (odd_words k w) (word_of_nat (2 * i + 1) * rho)) 8
     in if even n then A + B else rotl (A + 2 * B) 9)"

text \<open>One round: the two halves change places.\<close>

definition tf_round :: "nat \<Rightarrow> u32 list \<Rightarrow> nat \<Rightarrow> tf_block \<Rightarrow> tf_block" where
  "tf_round k w r = (\<lambda>(R0, R1, R2, R3).
     let T0 = tf_h (tf_S k w) R0; T1 = tf_h (tf_S k w) (rotl R1 8);
         F0 = T0 + T1 + tf_K k w (2 * r + 8); F1 = T0 + 2 * T1 + tf_K k w (2 * r + 9)
     in (rotr (R2 XOR F0) 1, rotl R3 1 XOR F1, R0, R1))"

definition tf_cipher :: "nat \<Rightarrow> u32 list \<Rightarrow> u32 list \<Rightarrow> u32 list" where
  "tf_cipher k w P =
    (let R = (P ! 0 XOR tf_K k w 0, P ! 1 XOR tf_K k w 1, P ! 2 XOR tf_K k w 2, P ! 3 XOR tf_K k w 3);
         (R0, R1, R2, R3) = foldl (\<lambda>R r. tf_round k w r R) R [0..<16]
     in [R2 XOR tf_K k w 4, R3 XOR tf_K k w 5, R0 XOR tf_K k w 6, R1 XOR tf_K k w 7])"

section \<open>The code computes it\<close>

lemma xt169_xor: "xt169 (a XOR b) = xt169 a XOR xt169 b"
  by (rule bit_word_eqI) (auto simp: xt169_def bit_simps)

lemma gmul169_xor: "gmul169 c (a XOR b) = gmul169 c a XOR gmul169 c b"
  by (simp add: gmul169_def xt169_xor ac_simps)

lemma ffm_bits:
  "m5b x = x XOR drop_bit 2 x XOR (if bit x 0 then 0x5A else 0) XOR (if bit x 1 then 0xB4 else 0)"
  "mef x = x XOR drop_bit 1 x XOR drop_bit 2 x XOR (if bit x 0 then 0xEE else 0) XOR (if bit x 1 then 0xB4 else 0)"
  by (rule byte_exhaust [of _ x],
      simp add: all_bytes_def m5b_def mef_def ffm_5b_def ffm_ef_def tab_5b_def tab_ef_def)+

lemma ffm_xor: "m5b (a XOR b) = m5b a XOR m5b b" "mef (a XOR b) = mef a XOR mef b"
  by (simp_all add: ffm_bits bit_xor_iff ac_simps del: bit_0)

lemma byte_units:
  assumes "k < LENGTH(8)"
  shows "push_bit k 1 \<in> set [1, 2, 4, 8, 16, 32, 64, 128 :: byte]"
proof -
  have "k \<in> set [0, 1, 2, 3, 4, 5, 6, 7]" using assms by auto
  then show ?thesis by auto
qed

lemma ffm_gmul: "m5b x = gmul169 0x5B x" "mef x = gmul169 0xEF x"
proof -
  have "\<forall>b \<in> set [1, 2, 4, 8, 16, 32, 64, 128]. m5b b = gmul169 0x5B b \<and> mef b = gmul169 0xEF b"
    by (simp add: ffm_bits gmul169_def xt169_def)
  then have "k < LENGTH(8) \<Longrightarrow> m5b (push_bit k 1) = gmul169 0x5B (push_bit k 1) \<and> mef (push_bit k 1) = gmul169 0xEF (push_bit k 1)" for k
    using byte_units by blast
  then show "m5b x = gmul169 0x5B x" "mef x = gmul169 0xEF x"
    using xor_linear_word [of m5b "gmul169 0x5B", OF ffm_xor(1) gmul169_xor]
      xor_linear_word [of mef "gmul169 0xEF", OF ffm_xor(2) gmul169_xor] by blast+
qed

lemma gmul169_1: "gmul169 1 x = x"
  by (simp add: gmul169_def)

lemma h_spec_tf_h: "h_spec L x = tf_h L x"
  by (simp add: h_spec_def tf_h_def Let_def mds_macro_column column_def mds_product_def mds_row_def
      mds_matrix_def ffm_gmul gmul169_1 numeral_3_eq_3)

lemma sbox_words_S: "sbox_words k w = tf_S k w"
  by (simp add: sbox_words_def tf_S_def mds_rem_rs)

lemma schedule_K:
  assumes "tf_schedule k w T" "n < 40"
  shows "l_key T ! n = tf_K k w n"
proof -
  have m: "(0x01010101 :: u32) * word_of_nat (2 * j) + 0x01010101 = word_of_nat (2 * j + 1) * 0x01010101" for j
    by (simp add: algebra_simps)
  have j: "n div 2 < 20" using assms(2) by simp
  consider "n = 2 * (n div 2)" "even n" | "n = 2 * (n div 2) + 1" "odd n" by fastforce
  then show ?thesis
  proof cases
    case 1
    then show ?thesis
      using assms(1) j unfolding tf_schedule_def Let_def m h_spec_tf_h tf_K_def
      by (metis mult.commute)
  next
    case 2
    then show ?thesis
      using assms(1) j unfolding tf_schedule_def Let_def m h_spec_tf_h tf_K_def
      by (metis mult.commute)
  qed
qed

lemma schedule_g:
  assumes "tf_schedule k w T"
  shows "g0_fun T x = tf_h (tf_S k w) x" "g1_fun T x = tf_h (tf_S k w) (rotl x 8)"
  using assms by (simp_all add: tf_schedule_def h_spec_tf_h sbox_words_S)

text \<open>\<open>f_rnd\<close> is two rounds of the description.\<close>

lemma f_rnd_rounds:
  assumes "tf_schedule k w T" "i < 8"
  shows "f_rnd T i b = tf_round k w (2 * i + 1) (tf_round k w (2 * i) b)"
proof -
  have "l_key T ! (4 * i + 8) = tf_K k w (2 * (2 * i) + 8)" "l_key T ! (4 * i + 9) = tf_K k w (2 * (2 * i) + 9)"
    "l_key T ! (4 * i + 10) = tf_K k w (2 * (2 * i + 1) + 8)" "l_key T ! (4 * i + 11) = tf_K k w (2 * (2 * i + 1) + 9)"
    using assms(2) by (simp_all add: schedule_K [OF assms(1)] algebra_simps)
  then show ?thesis
    by (cases b) (simp only: f_rnd_def tf_round_def Let_def prod.case schedule_g [OF assms(1)])
qed

lemma tf_encrypt_cipher:
  assumes T: "tf_schedule k w T" and o: "length out = 4"
  shows "Twofish_encrypt T P out = tf_cipher k w P"
proof -
  have r: "foldl (\<lambda>b i. f_rnd T i b) B [0, 1, 2, 3, 4, 5, 6, 7] = foldl (\<lambda>R r. tf_round k w r R) B [0..<16]" for B
    by (simp add: f_rnd_rounds [OF T] upt_16)
  obtain o0 o1 o2 o3 where o: "out = [o0, o1, o2, o3]" by (rule list4_cases [OF o])
  show ?thesis
    unfolding Twofish_encrypt_def tf_cipher_def r
    by (simp add: schedule_K [OF T] o Let_def numeral_2_eq_2 numeral_3_eq_3 del: upt_Suc upt_conv_Cons split: prod.split)
qed

end
