(* ===== verification/Twofish_Props.thy ===== *)
theory Twofish_Props
  imports Twofish_Spec
begin

unbundle bit_operations_syntax

text \<open>
  The properties of \<open>Twofish.cpp\<close>. They hold for any previous contents of the context, as
  long as a set generation flag tells the truth about its table, and of the automatic
  arrays.
\<close>

text \<open>A context cleared with \<open>memset\<close>.\<close>

definition zero_tf :: TWOFISH_DATA where
  "zero_tf = \<lparr>k_len = 0, l_key = replicate 40 0, s_key = replicate 4 0, qt_gen = 0,
     q_tab = replicate 2 (replicate 256 0), mt_gen = 0, m_tab = replicate 4 (replicate 256 0),
     mk_tab = replicate 4 (replicate 256 0)\<rparr>"

lemma zero_tf_ok [simp]: "tf_ok zero_tf"
  by (simp add: tf_ok_def zero_tf_def)

text \<open>C10. After \<open>Twofish_set_key\<close> with a key of 128, 192 or 256 bits, \<open>Twofish_encrypt\<close>
  writes the encryption of the block by the Twofish of its description: the generated
  permutation, matrix and key tables, the remainders of the Reed-Solomon code and the macro
  rounds compute its sixteen rounds and its key expansion.\<close>

theorem twofish_standard:
  assumes "tf_ok T" "k \<in> {2, 3, 4}" "length me = 4" "length mo = 4" "length out = 4"
  shows "Twofish_encrypt (Twofish_set_key me mo T w (word_of_nat (64 * k))) P out = tf_cipher k w P"
  by (rule tf_encrypt_cipher [OF set_key_schedule assms(5)]) (rule assms(1-4))+

theorem twofish_standard_witness:
  "Twofish_encrypt (Twofish_set_key (replicate 4 0) (replicate 4 0) zero_tf (replicate 8 1) (word_of_nat (64 * 4)))
     [1, 2, 3, 4] (replicate 4 0) = tf_cipher 4 (replicate 8 1) [1, 2, 3, 4]"
  by (rule twofish_standard) simp_all

text \<open>C11. \<open>Twofish_decrypt\<close> gives back every block \<open>Twofish_encrypt\<close> wrote under the same
  context, whatever its tables hold.\<close>

theorem twofish_round_trip:
  assumes "length b = 4" "length out = 4" "length out' = 4"
  shows "Twofish_decrypt T (Twofish_encrypt T b out) out' = b"
  using assms by (rule Twofish_decrypt_encrypt)

theorem twofish_round_trip_witness:
  "Twofish_decrypt zero_tf (Twofish_encrypt zero_tf [1, 2, 3, 4] [0, 0, 0, 0]) [0, 0, 0, 0] = [1, 2, 3, 4]"
  by (rule twofish_round_trip) simp_all

text \<open>\<open>mds_rem\<close>, the polynomial division by the generator of the code, is the product with
  the Reed-Solomon matrix of the cipher's description.\<close>

theorem mds_rem_reed_solomon: "mds_rem p0 p1 = rs_code p0 p1"
  by (rule mds_rem_rs)

text \<open>The configurations of the source agree: with the tables in place, \<open>h_fun\<close> over
  \<open>m_tab\<close> returns what its ending without a matrix table returns, the macro \<open>mds\<close> is the
  column of the matrix product in either form, and \<open>g0_fun\<close> and \<open>g1_fun\<close> over the key
  tables return \<open>h_fun\<close> of the S-box key, on the word and on the word rotated by 8.\<close>

theorem twofish_configurations:
  assumes "tables_in_place T" "tf_ok T" "k_len T \<in> {2, 3, 4}" "n < 4"
  shows "h_fun T x key = h_last T (h_bytes T x key) \<and> mds T n b = mds_macro n b
    \<and> g0_fun (gen_mk_tab T (s_key T)) x = h_fun T x (s_key T)
    \<and> g1_fun (gen_mk_tab T (s_key T)) x = h_fun T (rotl x 8) (s_key T)"
proof -
  have m: "length (mk_tab T) = 4" "\<forall>n < 4. length (mk_tab T ! n) = 256" using assms(2) by (simp_all add: tf_ok_def)
  have k: "k_len T = 2 \<or> k_len T = 3 \<or> k_len T = 4" using assms(3) by simp
  show ?thesis
    by (simp only: h_last_mds [OF assms(1)] mds_in_place [OF assms(1,4)] g_fun_h [OF m k] simp_thms)
qed

definition ready_tf :: TWOFISH_DATA where
  "ready_tf = (gen_mtab (gen_qtab zero_tf))\<lparr>k_len := 3\<rparr>"

lemma length_rows4: "length (rows4 r) = 4"
  by (simp add: rows4_def)

lemma ready_tf_in_place: "tables_in_place ready_tf \<and> tf_ok ready_tf"
proof -
  have q: "q_tab_ok (q_tab (gen_qtab zero_tf))" by (rule gen_qtab_ok) simp
  have ok: "tf_ok (gen_qtab zero_tf)"
    using q by (simp add: tf_ok_def gen_qtab_def q_tab_ok_def zero_tf_def)
  have m: "m_tab_ok (m_tab (gen_mtab (gen_qtab zero_tf)))" by (rule gen_mtab_ok [OF ok q])
  have t: "m_tab ready_tf = m_tab (gen_mtab (gen_qtab zero_tf))" by (simp add: ready_tf_def)
  have l: "length (m_tab ready_tf) = 4" "\<forall>n < 4. length (m_tab ready_tf ! n) = 256"
    using m unfolding t m_tab_ok_def by (simp_all add: length_rows4 del: upt_Suc)
  have "m_tab_ok (m_tab ready_tf)" using m by (simp only: t)
  moreover from this l ok have "tf_ok ready_tf"
    unfolding tf_ok_def by (simp add: ready_tf_def gen_mtab_def)
  ultimately show ?thesis using q by (simp add: tables_in_place_def ready_tf_def gen_mtab_def)
qed

theorem twofish_configurations_witness:
  "h_fun ready_tf 5 [1, 2, 3, 4] = h_last ready_tf (h_bytes ready_tf 5 [1, 2, 3, 4]) \<and> mds ready_tf 3 9 = mds_macro 3 9
    \<and> g0_fun (gen_mk_tab ready_tf (s_key ready_tf)) 5 = h_fun ready_tf 5 (s_key ready_tf)
    \<and> g1_fun (gen_mk_tab ready_tf (s_key ready_tf)) 5 = h_fun ready_tf (rotl 5 8) (s_key ready_tf)"
  by (rule twofish_configurations) (simp_all add: ready_tf_in_place, simp add: ready_tf_def)

end
