(* ===== verification/Serpent.thy ===== *)
theory Serpent
  imports Block_Cipher
begin

unbundle bit_operations_syntax

text \<open>
  The Serpent block cipher of \<open>Serpent.cpp\<close>: the macros of the eight S-boxes and their
  inverses on four words at a time, the linear transformation, the key schedule in the
  array \<open>l_key\<close> of 140 words, and both directions. A macro that writes four of its
  arguments is a function to four words; the lines of the functions are the lists of the
  round numbers and S-boxes as they follow each other in the source. \<open>BLOCK_SWAP\<close> is
  defined there, so words are swapped on their way in and out and stand in reverse order.
  \<open>DWORD\<close> is a 32-bit word.
\<close>

type_synonym ser_block = "u32 \<times> u32 \<times> u32 \<times> u32"

definition ser_rotr :: "u32 \<Rightarrow> nat \<Rightarrow> u32" where
  "ser_rotr x n = word_rotr n x"

definition ser_rotl :: "u32 \<Rightarrow> nat \<Rightarrow> u32" where
  "ser_rotl x n = word_rotl n x"

definition bswap :: "u32 \<Rightarrow> u32" where
  "bswap x = (ser_rotl x 8 AND 0x00ff00ff) OR (ser_rotr x 8 AND 0xff00ff00)"

definition io_swap :: "u32 \<Rightarrow> u32" where
  "io_swap x = bswap x"

section \<open>The S-boxes\<close>

definition sb0 :: "ser_block \<Rightarrow> ser_block" where
  "sb0 = (\<lambda>(a, b, c, d). let
     t1 = a XOR d; t2 = a AND d; t3 = c XOR t1; t6 = b AND t1; t4 = b XOR t3; t10 = NOT t3;
     h = t2 XOR t4; t7 = a XOR t6; t14 = NOT t7; t8 = c OR t7; t11 = t3 XOR t7;
     g = t4 XOR t8; t12 = h AND t11; f = t10 XOR t12; e = t12 XOR t14
   in (e, f, g, h))"

definition ib0 :: "ser_block \<Rightarrow> ser_block" where
  "ib0 = (\<lambda>(a, b, c, d). let
     t1 = NOT a; t2 = a XOR b; t3 = t1 OR t2; t4 = d XOR t3; t7 = d AND t2; t5 = c XOR t4;
     t8 = t1 XOR t7; g = t2 XOR t5; t11 = a AND t4; t9 = g AND t8; t14 = t5 XOR t8;
     f = t4 XOR t9; t12 = t5 OR f; h = t11 XOR t12; e = h XOR t14
   in (e, f, g, h))"

definition sb1 :: "ser_block \<Rightarrow> ser_block" where
  "sb1 = (\<lambda>(a, b, c, d). let
     t1 = NOT a; t2 = b XOR t1; t3 = a OR t2; t4 = d OR t2; t5 = c XOR t3; g = d XOR t5;
     t7 = b XOR t4; t8 = t2 XOR g; t9 = t5 AND t7; h = t8 XOR t9; t11 = t5 XOR t7;
     f = h XOR t11; t13 = t8 AND t11; e = t5 XOR t13
   in (e, f, g, h))"

definition ib1 :: "ser_block \<Rightarrow> ser_block" where
  "ib1 = (\<lambda>(a, b, c, d). let
     t1 = a XOR d; t2 = a AND b; t3 = b XOR c; t4 = a XOR t3; t5 = b OR d; t7 = c OR t1;
     h = t4 XOR t5; t8 = b XOR t7; t11 = NOT t2; t9 = t4 AND t8; f = t1 XOR t9;
     t13 = t9 XOR t11; t12 = h AND f; g = t12 XOR t13; t15 = a AND d; t16 = c XOR t13;
     e = t15 XOR t16
   in (e, f, g, h))"

definition sb2 :: "ser_block \<Rightarrow> ser_block" where
  "sb2 = (\<lambda>(a, b, c, d). let
     t1 = NOT a; t2 = b XOR d; t3 = c AND t1; t13 = d OR t1; e = t2 XOR t3; t5 = c XOR t1;
     t6 = c XOR e; t7 = b AND t6; t10 = e OR t5; h = t5 XOR t7; t9 = d OR t7;
     t11 = t9 AND t10; t14 = t2 XOR h; g = a XOR t11; t15 = g XOR t13; f = t14 XOR t15
   in (e, f, g, h))"

definition ib2 :: "ser_block \<Rightarrow> ser_block" where
  "ib2 = (\<lambda>(a, b, c, d). let
     t1 = b XOR d; t2 = NOT t1; t3 = a XOR c; t4 = c XOR t1; t7 = a OR t2; t5 = b AND t4;
     t8 = d XOR t7; t11 = NOT t4; e = t3 XOR t5; t9 = t3 OR t8; t14 = d AND t11;
     h = t1 XOR t9; t12 = e OR h; f = t11 XOR t12; t15 = t3 XOR t12; g = t14 XOR t15
   in (e, f, g, h))"

definition sb3 :: "ser_block \<Rightarrow> ser_block" where
  "sb3 = (\<lambda>(a, b, c, d). let
     t1 = a XOR c; t2 = d XOR t1; t3 = a AND t2; t4 = d XOR t3; t5 = b AND t4;
     g = t2 XOR t5; t7 = a OR g; t8 = b OR d; t11 = a OR d; t9 = t4 AND t7; f = t8 XOR t9;
     t12 = b XOR t11; t13 = g XOR t9; t15 = t3 XOR t8; h = t12 XOR t13; t16 = c AND t15;
     e = t12 XOR t16
   in (e, f, g, h))"

definition ib3 :: "ser_block \<Rightarrow> ser_block" where
  "ib3 = (\<lambda>(a, b, c, d). let
     t1 = b XOR c; t2 = b OR c; t3 = a XOR c; t7 = a XOR d; t4 = t2 XOR t3; t5 = d OR t4;
     t9 = t2 XOR t7; e = t1 XOR t5; t8 = t1 OR t5; t11 = a AND t4; g = t8 XOR t9;
     t12 = e OR t9; f = t11 XOR t12; t14 = a AND g; t15 = t2 XOR t14; t16 = e AND t15;
     h = t4 XOR t16
   in (e, f, g, h))"

definition sb4 :: "ser_block \<Rightarrow> ser_block" where
  "sb4 = (\<lambda>(a, b, c, d). let
     t1 = a XOR d; t2 = d AND t1; t3 = c XOR t2; t4 = b OR t3; h = t1 XOR t4; t6 = NOT b;
     t7 = t1 OR t6; e = t3 XOR t7; t9 = a AND e; t10 = t1 XOR t6; t11 = t4 AND t10;
     g = t9 XOR t11; t13 = a XOR t3; t14 = t10 AND g; f = t13 XOR t14
   in (e, f, g, h))"

definition ib4 :: "ser_block \<Rightarrow> ser_block" where
  "ib4 = (\<lambda>(a, b, c, d). let
     t1 = c XOR d; t2 = c OR d; t3 = b XOR t2; t4 = a AND t3; f = t1 XOR t4; t6 = a XOR d;
     t7 = b OR d; t8 = t6 AND t7; h = t3 XOR t8; t10 = NOT a; t11 = c XOR h;
     t12 = t10 OR t11; e = t3 XOR t12; t14 = c OR t4; t15 = t7 XOR t14; t16 = h OR t10;
     g = t15 XOR t16
   in (e, f, g, h))"

definition sb5 :: "ser_block \<Rightarrow> ser_block" where
  "sb5 = (\<lambda>(a, b, c, d). let
     t1 = NOT a; t2 = a XOR b; t3 = a XOR d; t4 = c XOR t1; t5 = t2 OR t3; e = t4 XOR t5;
     t7 = d AND e; t8 = t2 XOR e; t10 = t1 OR e; f = t7 XOR t8; t11 = t2 OR t7;
     t12 = t3 XOR t10; t14 = b XOR t7; g = t11 XOR t12; t15 = f AND t12; h = t14 XOR t15
   in (e, f, g, h))"

definition ib5 :: "ser_block \<Rightarrow> ser_block" where
  "ib5 = (\<lambda>(a, b, c, d). let
     t1 = NOT c; t2 = b AND t1; t3 = d XOR t2; t4 = a AND t3; t5 = b XOR t1; h = t4 XOR t5;
     t7 = b OR h; t8 = a AND t7; f = t3 XOR t8; t10 = a OR d; t11 = t1 XOR t7;
     e = t10 XOR t11; t13 = a XOR c; t14 = b AND t10; t15 = t4 OR t13; g = t14 XOR t15
   in (e, f, g, h))"

definition sb6 :: "ser_block \<Rightarrow> ser_block" where
  "sb6 = (\<lambda>(a, b, c, d). let
     t1 = NOT a; t2 = a XOR d; t3 = b XOR t2; t4 = t1 OR t2; t5 = c XOR t4; f = b XOR t5;
     t13 = NOT t5; t7 = t2 OR f; t8 = d XOR t7; t9 = t5 AND t8; g = t3 XOR t9;
     t11 = t5 XOR t8; e = g XOR t11; t14 = t3 AND t11; h = t13 XOR t14
   in (e, f, g, h))"

definition ib6 :: "ser_block \<Rightarrow> ser_block" where
  "ib6 = (\<lambda>(a, b, c, d). let
     t1 = NOT a; t2 = a XOR b; t3 = c XOR t2; t4 = c OR t1; t5 = d XOR t4; t13 = d AND t1;
     f = t3 XOR t5; t7 = t3 AND t5; t8 = t2 XOR t7; t9 = b OR t8; h = t5 XOR t9;
     t11 = b OR h; e = t8 XOR t11; t14 = t3 XOR t11; g = t13 XOR t14
   in (e, f, g, h))"

definition sb7 :: "ser_block \<Rightarrow> ser_block" where
  "sb7 = (\<lambda>(a, b, c, d). let
     t1 = NOT c; t2 = b XOR c; t3 = b OR t1; t4 = d XOR t3; t5 = a AND t4; t7 = a XOR d;
     h = t2 XOR t5; t8 = b XOR t5; t9 = t2 OR t8; t11 = d AND t3; f = t7 XOR t9;
     t12 = t5 XOR f; t15 = t1 OR t4; t13 = h AND t12; g = t11 XOR t13; t16 = t12 XOR g;
     e = t15 XOR t16
   in (e, f, g, h))"

definition ib7 :: "ser_block \<Rightarrow> ser_block" where
  "ib7 = (\<lambda>(a, b, c, d). let
     t1 = a AND b; t2 = a OR b; t3 = c OR t1; t4 = d AND t2; h = t3 XOR t4; t6 = NOT d;
     t7 = b XOR t4; t8 = h XOR t6; t11 = c XOR t7; t9 = t7 OR t8; f = a XOR t9;
     t12 = d OR f; e = t11 XOR t12; t14 = a AND h; t15 = t3 XOR f; t16 = e XOR t14;
     g = t15 XOR t16
   in (e, f, g, h))"

section \<open>Keys and linear transformation\<close>

definition k_xor :: "u32 list \<Rightarrow> nat \<Rightarrow> ser_block \<Rightarrow> ser_block" where
  "k_xor l_key r = (\<lambda>(a, b, c, d).
     (a XOR l_key ! (4 * r + 8), b XOR l_key ! (4 * r + 9),
      c XOR l_key ! (4 * r + 10), d XOR l_key ! (4 * r + 11)))"

definition k_set :: "u32 list \<Rightarrow> nat \<Rightarrow> ser_block" where
  "k_set l_key r = (l_key ! (4 * r + 8), l_key ! (4 * r + 9), l_key ! (4 * r + 10), l_key ! (4 * r + 11))"

definition k_get :: "nat \<Rightarrow> ser_block \<Rightarrow> u32 list \<Rightarrow> u32 list" where
  "k_get r = (\<lambda>(a, b, c, d) l_key.
     l_key[4 * r + 8 := a, 4 * r + 9 := b, 4 * r + 10 := c, 4 * r + 11 := d])"

definition rot :: "ser_block \<Rightarrow> ser_block" where
  "rot = (\<lambda>(a, b, c, d).
     let a = ser_rotl a 13;
         c = ser_rotl c 3;
         d = d XOR (c XOR push_bit 3 a);
         b = b XOR (a XOR c);
         d = ser_rotl d 7;
         b = ser_rotl b 1;
         a = a XOR (b XOR d);
         c = c XOR (d XOR push_bit 7 b);
         a = ser_rotl a 5;
         c = ser_rotl c 22
     in (a, b, c, d))"

definition irot :: "ser_block \<Rightarrow> ser_block" where
  "irot = (\<lambda>(a, b, c, d).
     let c = ser_rotr c 22;
         a = ser_rotr a 5;
         c = c XOR (d XOR push_bit 7 b);
         a = a XOR (b XOR d);
         d = ser_rotr d 7;
         b = ser_rotr b 1;
         d = d XOR (c XOR push_bit 3 a);
         b = b XOR (a XOR c);
         c = ser_rotr c 3;
         a = ser_rotr a 13
     in (a, b, c, d))"

section \<open>Key schedule\<close>

definition set_key_copy :: "u32 list \<Rightarrow> nat \<Rightarrow> u32 list \<Rightarrow> u32 list" where
  "set_key_copy in_key lk l_key = foldl (\<lambda>l i. l[i := io_swap (in_key ! (lk - i - 1))]) l_key [0..<lk]"

definition set_key_pad :: "nat \<Rightarrow> nat \<Rightarrow> u32 list \<Rightarrow> u32 list" where
  "set_key_pad key_len lk l_key =
    (let l_key = foldl (\<lambda>l i. l[i := 0]) l_key [lk..<8];
         i = key_len div 32;
         lk = push_bit (key_len mod 32) 1
     in l_key[i := (l_key ! i AND (lk - 1)) OR lk])"

definition set_key_expand :: "u32 list \<Rightarrow> u32 list" where
  "set_key_expand l_key =
    foldl (\<lambda>l i.
      let lk = l ! i XOR l ! (i + 3) XOR l ! (i + 5) XOR l ! (i + 7) XOR 0x9e3779b9 XOR of_nat i
      in l[i + 8 := push_bit 11 lk OR drop_bit 21 lk]) l_key [0..<132]"

text \<open>The lines \<open>k_set (r); sb; k_get (r)\<close>.\<close>

definition key_lines :: "(nat \<times> (ser_block \<Rightarrow> ser_block)) list" where
  "key_lines =
     [(0, sb3), (1, sb2), (2, sb1), (3, sb0), (4, sb7), (5, sb6), (6, sb5), (7, sb4), (8, sb3),
      (9, sb2), (10, sb1), (11, sb0), (12, sb7), (13, sb6), (14, sb5), (15, sb4), (16, sb3),
      (17, sb2), (18, sb1), (19, sb0), (20, sb7), (21, sb6), (22, sb5), (23, sb4), (24, sb3),
      (25, sb2), (26, sb1), (27, sb0), (28, sb7), (29, sb6), (30, sb5), (31, sb4), (32, sb3)]"

definition set_key_sboxes :: "u32 list \<Rightarrow> u32 list" where
  "set_key_sboxes l_key =
    foldl (\<lambda>l (r, sb). k_get r (sb (k_set l r)) l) l_key key_lines"

definition Serpent_set_key :: "u32 list \<Rightarrow> u32 list \<Rightarrow> u32 \<Rightarrow> u32 list" where
  "Serpent_set_key l_key in_key key_len =
    (if key_len < 0 \<or> key_len > 256 then l_key
     else
       let lk = (unat key_len + 31) div 32;
           l_key = set_key_copy in_key lk l_key;
           l_key = (if key_len < 256 then set_key_pad (unat key_len) lk l_key else l_key)
       in set_key_sboxes (set_key_expand l_key))"

section \<open>Encryption and decryption\<close>

definition ser_in :: "u32 list \<Rightarrow> ser_block" where
  "ser_in in_blk = (io_swap (in_blk ! 3), io_swap (in_blk ! 2), io_swap (in_blk ! 1), io_swap (in_blk ! 0))"

definition ser_out :: "u32 list \<Rightarrow> ser_block \<Rightarrow> u32 list" where
  "ser_out out_blk = (\<lambda>(a, b, c, d).
     out_blk[3 := io_swap a, 2 := io_swap b, 1 := io_swap c, 0 := io_swap d])"

text \<open>The lines \<open>k_xor (r); sb; rot\<close> and \<open>irot; ib; k_xor (r)\<close>.\<close>

definition encrypt_lines :: "(nat \<times> (ser_block \<Rightarrow> ser_block)) list" where
  "encrypt_lines =
     [(0, sb0), (1, sb1), (2, sb2), (3, sb3), (4, sb4), (5, sb5), (6, sb6), (7, sb7), (8, sb0),
      (9, sb1), (10, sb2), (11, sb3), (12, sb4), (13, sb5), (14, sb6), (15, sb7), (16, sb0),
      (17, sb1), (18, sb2), (19, sb3), (20, sb4), (21, sb5), (22, sb6), (23, sb7), (24, sb0),
      (25, sb1), (26, sb2), (27, sb3), (28, sb4), (29, sb5), (30, sb6)]"

definition decrypt_lines :: "((ser_block \<Rightarrow> ser_block) \<times> nat) list" where
  "decrypt_lines =
     [(ib6, 30), (ib5, 29), (ib4, 28), (ib3, 27), (ib2, 26), (ib1, 25), (ib0, 24), (ib7, 23),
      (ib6, 22), (ib5, 21), (ib4, 20), (ib3, 19), (ib2, 18), (ib1, 17), (ib0, 16), (ib7, 15),
      (ib6, 14), (ib5, 13), (ib4, 12), (ib3, 11), (ib2, 10), (ib1, 9), (ib0, 8), (ib7, 7),
      (ib6, 6), (ib5, 5), (ib4, 4), (ib3, 3), (ib2, 2), (ib1, 1), (ib0, 0)]"

definition Serpent_encrypt :: "u32 list \<Rightarrow> u32 list \<Rightarrow> u32 list \<Rightarrow> u32 list" where
  "Serpent_encrypt l_key in_blk out_blk =
    ser_out out_blk (k_xor l_key 32 (sb7 (k_xor l_key 31
      (foldl (\<lambda>s (r, sb). rot (sb (k_xor l_key r s))) (ser_in in_blk) encrypt_lines))))"

definition Serpent_decrypt :: "u32 list \<Rightarrow> u32 list \<Rightarrow> u32 list \<Rightarrow> u32 list" where
  "Serpent_decrypt l_key in_blk out_blk =
    ser_out out_blk
      (foldl (\<lambda>s (ib, r). k_xor l_key r (ib (irot s))) (k_xor l_key 31 (ib7 (k_xor l_key 32 (ser_in in_blk)))) decrypt_lines)"

text \<open>On blocks of bytes, with a key that is prepared.\<close>

definition ser_enc :: "u32 list \<Rightarrow> byte list \<Rightarrow> byte list" where
  "ser_enc l_key b = bytes_of_words (Serpent_encrypt l_key (words_of b) (words_of b))"

definition ser_dec :: "u32 list \<Rightarrow> byte list \<Rightarrow> byte list" where
  "ser_dec l_key b = bytes_of_words (Serpent_decrypt l_key (words_of b) (words_of b))"

end
