(* ===== verification/Serpent_Spec.thy ===== *)
theory Serpent_Spec
  imports Serpent
begin

unbundle bit_operations_syntax

text \<open>
  The Serpent cipher as its standard states it: eight S-boxes as tables on four bits, one
  bit of each of the four words; the linear transformation; the padded key and the
  recurrence of the prekeys. The block is a 128-bit number written with its most significant
  byte first.
\<close>

section \<open>Bits of words\<close>

definition word_bits :: "(nat \<Rightarrow> bool) \<Rightarrow> u32" where
  "word_bits f = horner_sum of_bool 2 (map f [0..<32])"

lemma bit_word_bits: "bit (word_bits f) i \<longleftrightarrow> i < 32 \<and> f i"
  by (auto simp: word_bits_def bit_horner_sum_bit_word_iff)

definition nib :: "ser_block \<Rightarrow> nat \<Rightarrow> nat" where
  "nib = (\<lambda>(a, b, c, d) i.
     of_bool (bit a i) + 2 * of_bool (bit b i) + 4 * of_bool (bit c i) + 8 * of_bool (bit d i))"

lemma nib_less: "nib s i < 16"
  by (auto simp: nib_def split: prod.split)

lemma nib_bits:
  assumes "n < 16"
  shows "of_bool (bit n 0) + 2 * of_bool (bit n 1) + 4 * of_bool (bit n 2) + 8 * of_bool (bit n 3) = (n :: nat)"
proof -
  have "list_all (\<lambda>n. of_bool (bit n 0) + 2 * of_bool (bit n 1) + 4 * of_bool (bit n 2) + 8 * of_bool (bit n 3) = (n :: nat)) [0..<16]"
    unfolding upt_16 by (simp add: bit_iff_odd)
  then show ?thesis using assms by (simp add: list_all_iff)
qed

lemma nib_eqI:
  assumes "\<And>i. i < 32 \<Longrightarrow> nib s i = nib t i"
  shows "s = t"
proof -
  obtain a b c d where s: "s = (a, b, c, d)" by (metis prod_cases4)
  obtain a' b' c' d' where t: "t = (a', b', c', d')" by (metis prod_cases4)
  have "bit a i = bit a' i \<and> bit b i = bit b' i \<and> bit c i = bit c' i \<and> bit d i = bit d' i" if "i < 32" for i
    using assms [OF that] unfolding s t nib_def
    by (cases "bit a i"; cases "bit b i"; cases "bit c i"; cases "bit d i"; cases "bit a' i"; cases "bit b' i";
        cases "bit c' i"; cases "bit d' i"; simp)
  then show ?thesis unfolding s t by (auto intro!: bit_word_eqI)
qed

section \<open>The S-boxes\<close>

definition ser_S :: "nat list list" where
  "ser_S =
    [[3, 8, 15, 1, 10, 6, 5, 11, 14, 13, 4, 2, 7, 0, 9, 12],
     [15, 12, 2, 7, 9, 0, 5, 10, 1, 11, 14, 8, 6, 13, 3, 4],
     [8, 6, 7, 9, 3, 12, 10, 15, 13, 1, 14, 4, 0, 11, 5, 2],
     [0, 15, 11, 8, 12, 9, 6, 3, 13, 1, 2, 4, 10, 7, 5, 14],
     [1, 15, 8, 3, 12, 0, 11, 6, 2, 5, 4, 10, 9, 14, 7, 13],
     [15, 5, 2, 11, 4, 10, 9, 12, 0, 3, 14, 8, 13, 6, 7, 1],
     [7, 2, 12, 5, 8, 4, 6, 11, 14, 9, 1, 15, 13, 3, 10, 0],
     [1, 13, 15, 0, 14, 8, 2, 11, 7, 4, 12, 10, 9, 3, 5, 6]]"

text \<open>A table applied to the 32 groups of four bits; the inverse of a table.\<close>

definition ser_sub :: "nat list \<Rightarrow> ser_block \<Rightarrow> ser_block" where
  "ser_sub S s =
    (word_bits (\<lambda>i. bit (S ! nib s i) 0), word_bits (\<lambda>i. bit (S ! nib s i) 1),
     word_bits (\<lambda>i. bit (S ! nib s i) 2), word_bits (\<lambda>i. bit (S ! nib s i) 3))"

definition inv_table :: "nat list \<Rightarrow> nat list" where
  "inv_table S = map (\<lambda>y. length (takeWhile (\<lambda>x. x \<noteq> y) S)) [0..<16]"

lemma nib_ser_sub:
  "i < 32 \<Longrightarrow> S ! nib s i < 16 \<Longrightarrow> nib (ser_sub S s) i = S ! nib s i"
  using nib_bits [of "S ! nib s i"] unfolding ser_sub_def by (subst nib_def) (simp add: bit_word_bits)

lemma ser_S_16: "j < 8 \<Longrightarrow> n < 16 \<Longrightarrow> ser_S ! j ! n < 16"
proof -
  have "list_all (\<lambda>S. length S = 16 \<and> list_all (\<lambda>x. x < 16) S) ser_S" by (simp add: ser_S_def)
  moreover have "length ser_S = 8" by (simp add: ser_S_def)
  ultimately show "j < 8 \<Longrightarrow> n < 16 \<Longrightarrow> ser_S ! j ! n < 16" by (simp add: list_all_length)
qed

lemma inv_S: "j < 8 \<Longrightarrow> n < 16 \<Longrightarrow> inv_table (ser_S ! j) ! (ser_S ! j ! n) = n"
proof -
  have "list_all (\<lambda>j. list_all (\<lambda>n. inv_table (ser_S ! j) ! (ser_S ! j ! n) = n) [0..<16]) [0..<8]"
    by code_simp
  then show "j < 8 \<Longrightarrow> n < 16 \<Longrightarrow> inv_table (ser_S ! j) ! (ser_S ! j ! n) = n"
    by (simp add: list_all_iff)
qed

lemma ser_sub_inverse:
  assumes "j < 8"
  shows "ser_sub (inv_table (ser_S ! j)) (ser_sub (ser_S ! j) s) = s"
proof (rule nib_eqI)
  fix i :: nat assume i: "i < 32"
  have s: "nib (ser_sub (ser_S ! j) s) i = ser_S ! j ! nib s i"
    by (rule nib_ser_sub [OF i]) (rule ser_S_16 [OF assms nib_less])
  have v: "inv_table (ser_S ! j) ! nib (ser_sub (ser_S ! j) s) i = nib s i"
    unfolding s by (rule inv_S [OF assms nib_less])
  show "nib (ser_sub (inv_table (ser_S ! j)) (ser_sub (ser_S ! j) s)) i = nib s i"
    using nib_ser_sub [OF i, of "inv_table (ser_S ! j)" "ser_sub (ser_S ! j) s"] nib_less [of s i]
    unfolding v by simp
qed

text \<open>The macros compute the tables.\<close>

lemma sboxI:
  assumes "\<And>a b c d i. i < 32 \<Longrightarrow> nib (f (a, b, c, d)) i = S ! nib (a, b, c, d) i"
  shows "f = ser_sub S"
proof (rule ext, rule nib_eqI)
  fix s :: ser_block and i :: nat assume i: "i < 32"
  obtain a b c d where s: "s = (a, b, c, d)" by (metis prod_cases4)
  have f: "nib (f s) i = S ! nib s i" unfolding s by (rule assms [OF i])
  then have "S ! nib s i < 16" by (metis nib_less)
  then show "nib (f s) i = nib (ser_sub S s) i" using f nib_ser_sub [OF i] by metis
qed

lemmas sbox_macros = sb0_def sb1_def sb2_def sb3_def sb4_def sb5_def sb6_def sb7_def
lemmas ibox_macros = ib0_def ib1_def ib2_def ib3_def ib4_def ib5_def ib6_def ib7_def

lemma sb_tables:
  "sb0 = ser_sub (ser_S ! 0)" "sb1 = ser_sub (ser_S ! 1)" "sb2 = ser_sub (ser_S ! 2)"
  "sb3 = ser_sub (ser_S ! 3)" "sb4 = ser_sub (ser_S ! 4)" "sb5 = ser_sub (ser_S ! 5)"
  "sb6 = ser_sub (ser_S ! 6)" "sb7 = ser_sub (ser_S ! 7)"
  by (rule sboxI, rename_tac a b c d i,
      (case_tac "bit a i"; case_tac "bit b i"; case_tac "bit c i"; case_tac "bit d i";
       simp add: sbox_macros Let_def nib_def bit_simps ser_S_def))+

lemma inv_tables:
  "inv_table (ser_S ! 0) = [13, 3, 11, 0, 10, 6, 5, 12, 1, 14, 4, 7, 15, 9, 8, 2]"
  "inv_table (ser_S ! 1) = [5, 8, 2, 14, 15, 6, 12, 3, 11, 4, 7, 9, 1, 13, 10, 0]"
  "inv_table (ser_S ! 2) = [12, 9, 15, 4, 11, 14, 1, 2, 0, 3, 6, 13, 5, 8, 10, 7]"
  "inv_table (ser_S ! 3) = [0, 9, 10, 7, 11, 14, 6, 13, 3, 5, 12, 2, 4, 8, 15, 1]"
  "inv_table (ser_S ! 4) = [5, 0, 8, 3, 10, 9, 7, 14, 2, 12, 11, 6, 4, 15, 13, 1]"
  "inv_table (ser_S ! 5) = [8, 15, 2, 9, 4, 1, 13, 14, 11, 6, 5, 3, 7, 12, 10, 0]"
  "inv_table (ser_S ! 6) = [15, 10, 1, 13, 5, 3, 6, 0, 4, 9, 14, 7, 2, 12, 8, 11]"
  "inv_table (ser_S ! 7) = [3, 0, 6, 13, 9, 14, 15, 8, 5, 12, 11, 7, 10, 1, 4, 2]"
  by code_simp+

lemma ib_tables:
  "ib0 = ser_sub (inv_table (ser_S ! 0))" "ib1 = ser_sub (inv_table (ser_S ! 1))"
  "ib2 = ser_sub (inv_table (ser_S ! 2))" "ib3 = ser_sub (inv_table (ser_S ! 3))"
  "ib4 = ser_sub (inv_table (ser_S ! 4))" "ib5 = ser_sub (inv_table (ser_S ! 5))"
  "ib6 = ser_sub (inv_table (ser_S ! 6))" "ib7 = ser_sub (inv_table (ser_S ! 7))"
  by (rule sboxI, rename_tac a b c d i,
      (case_tac "bit a i"; case_tac "bit b i"; case_tac "bit c i"; case_tac "bit d i";
       simp add: ibox_macros Let_def nib_def bit_simps inv_tables inv_tables(2) [unfolded One_nat_def]))+

section \<open>Bytes\<close>

lemma V_and_or:
  "V a b c d AND V a' b' c' d' = V (a AND a') (b AND b') (c AND c') (d AND d')"
  "V a b c d OR V a' b' c' d' = V (a OR a') (b OR b') (c OR c') (d OR d')"
  by (rule bit_word_eqI; simp add: bit_and_iff bit_or_iff bit_V)+

lemma rot8_V: "word_rotl 8 (V a b c d) = V b c d a" "word_rotr 8 (V a b c d) = V d a b c"
proof -
  have m: "(k + 24) mod 32 = (if k < 8 then k + 24 else k - 8) \<and> (k + 8) mod 32 = (if k < 24 then k + 8 else k - 24)"
    if "k < 32" for k :: nat
  proof (cases "k < 8"; cases "k < 24")
    assume "\<not> k < 8" "k < 24"
    then have "(k - 8 + 1 * 32) mod 32 = k - 8" by (subst mod_mult_self1) simp
    then show ?thesis using that \<open>\<not> k < 8\<close> \<open>k < 24\<close> by (simp add: add.commute)
  next
    assume k: "\<not> k < 8" "\<not> k < 24"
    then have "(k - 8 + 1 * 32) mod 32 = k - 8" "(k - 24 + 1 * 32) mod 32 = k - 24"
      using that by (subst mod_mult_self1, simp)+
    then show ?thesis using k by (simp add: add.commute)
  qed (use that in simp_all)
  show "word_rotl 8 (V a b c d) = V b c d a"
    by (rule bit_word_eqI) (auto simp: bit_word_rotl_iff bit_V m)
  show "word_rotr 8 (V a b c d) = V d a b c"
    by (rule bit_word_eqI) (auto simp: bit_word_rotr_iff bit_V m)
qed

lemma io_swap_V: "io_swap (V a b c d) = V d c b a"
proof -
  have m: "0x00ff00ff = V 0 0xff 0 0xff" "0xff00ff00 = V 0xff 0 0xff 0" by (simp_all add: V_def push_bit_eq_mult)
  have f: "(x :: byte) AND 0xff = x" for x
  proof -
    have "(0xff :: byte) = - 1" by simp
    then show ?thesis by (simp only: and.right_neutral)
  qed
  show ?thesis unfolding io_swap_def bswap_def ser_rotl_def ser_rotr_def rot8_V m V_and_or f by simp
qed

lemma io_swap_io_swap [simp]: "io_swap (io_swap w) = w"
  by (rule V_cases [of w]) (simp add: io_swap_V)

section \<open>The cipher\<close>

definition xor4 :: "ser_block \<Rightarrow> ser_block \<Rightarrow> ser_block" where
  "xor4 = (\<lambda>(a, b, c, d) (e, f, g, h). (a XOR e, b XOR f, c XOR g, d XOR h))"

text \<open>The linear transformation.\<close>

definition ser_L :: "ser_block \<Rightarrow> ser_block" where
  "ser_L = (\<lambda>(x0, x1, x2, x3).
     let y0 = word_rotl 13 x0; y2 = word_rotl 3 x2;
         y1 = word_rotl 1 (x1 XOR y0 XOR y2);
         y3 = word_rotl 7 (x3 XOR y2 XOR push_bit 3 y0);
         z0 = word_rotl 5 (y0 XOR y1 XOR y3);
         z2 = word_rotl 22 (y2 XOR y3 XOR push_bit 7 y1)
     in (z0, y1, z2, y3))"

definition ser_cipher :: "(nat \<Rightarrow> ser_block) \<Rightarrow> ser_block \<Rightarrow> ser_block" where
  "ser_cipher K B =
    xor4 (ser_sub (ser_S ! 7) (xor4
      (foldl (\<lambda>s r. ser_L (ser_sub (ser_S ! (r mod 8)) (xor4 s (K r)))) B [0..<31]) (K 31))) (K 32)"

text \<open>
  The key schedule: the key as a number with its most significant byte first, a one bit
  above it and zeros up to 256 bits; the recurrence; groups of four words through the
  S-boxes, starting with number 3 and going down.
\<close>

definition padded_key :: "nat \<Rightarrow> byte list \<Rightarrow> u32 list" where
  "padded_key n kb =
    map (\<lambda>i. word_bits (\<lambda>j. let p = 32 * i + j
      in if p < n then bit (kb ! (length kb - 1 - p div 8)) (p mod 8) else p = n)) [0..<8]"

function prekey :: "u32 list \<Rightarrow> nat \<Rightarrow> u32" where
  "prekey k i =
    (if i < 8 then k ! i
     else word_rotl 11 (prekey k (i - 8) XOR prekey k (i - 5) XOR prekey k (i - 3) XOR prekey k (i - 1)
       XOR 0x9e3779b9 XOR of_nat (i - 8)))"
  by pat_completeness auto
termination by (relation "measure snd") auto

declare prekey.simps [simp del]

definition ser_K :: "u32 list \<Rightarrow> nat \<Rightarrow> ser_block" where
  "ser_K k r = ser_sub (ser_S ! ((35 - r) mod 8))
    (prekey k (4 * r + 8), prekey k (4 * r + 9), prekey k (4 * r + 10), prekey k (4 * r + 11))"

text \<open>The block as a number with its most significant byte first, the lowest word first.\<close>

definition ser_block_of :: "byte list \<Rightarrow> ser_block" where
  "ser_block_of b = (get_ulong_be b 12, get_ulong_be b 8, get_ulong_be b 4, get_ulong_be b 0)"

definition ser_bytes_of :: "ser_block \<Rightarrow> byte list" where
  "ser_bytes_of = (\<lambda>(a, b, c, d). be32 d @ be32 c @ be32 b @ be32 a)"

end
