(* ===== verification/Serpent_Proofs.thy ===== *)
theory Serpent_Proofs
  imports Serpent_Spec
begin

unbundle bit_operations_syntax

text \<open>
  \<open>Serpent.cpp\<close> against the standard: the lists of rounds, the linear transformation, the key
  schedule, and the interpretation of the block cipher interface.
\<close>

section \<open>Rounds\<close>

lemma upt_33:
  "[0..<33] = [0, 1, 2, 3, 4, 5, 6, 7, 8, 9, 10, 11, 12, 13, 14, 15, 16, 17, 18, 19, 20, 21, 22, 23, 24, 25, 26, 27,
     28, 29, 30, 31, 32 :: nat]"
  "[0..<31] = [0, 1, 2, 3, 4, 5, 6, 7, 8, 9, 10, 11, 12, 13, 14, 15, 16, 17, 18, 19, 20, 21, 22, 23, 24, 25, 26, 27,
     28, 29, 30 :: nat]"
  by (simp_all add: upt_rec)

lemma lines_table:
  "encrypt_lines = map (\<lambda>r. (r, ser_sub (ser_S ! (r mod 8)))) [0..<31]"
  "decrypt_lines = map (\<lambda>r. (ser_sub (inv_table (ser_S ! (r mod 8))), r)) (rev [0..<31])"
  "key_lines = map (\<lambda>r. (r, ser_sub (ser_S ! ((35 - r) mod 8)))) [0..<33]"
  unfolding upt_33 encrypt_lines_def decrypt_lines_def key_lines_def sb_tables ib_tables by simp_all

lemma k_xor_xor4: "k_xor l r s = xor4 s (k_set l r)"
  by (simp add: k_xor_def k_set_def xor4_def split: prod.split)

lemma xor4_twice [simp]: "xor4 (xor4 s k) k = s"
  by (auto simp: xor4_def xor.assoc split: prod.split)

lemma rot_L: "rot = ser_L"
  by (rule ext) (auto simp: rot_def ser_L_def Let_def ser_rotl_def xor.assoc split: prod.split)

lemma xor_twice: "(x XOR y) XOR y = (x :: u32)"
  by (simp add: xor.assoc)

lemma irot_rot [simp]: "irot (rot s) = s"
  by (cases s) (simp add: rot_def irot_def Let_def ser_rotl_def ser_rotr_def xor_twice)

lemma Serpent_encrypt_rounds:
  "Serpent_encrypt l b out = ser_out out (ser_cipher (k_set l) (ser_in b))"
proof -
  have "foldl (\<lambda>s (r, sb). rot (sb (k_xor l r s))) x (map (\<lambda>r. (r, ser_sub (ser_S ! (r mod 8)))) rs) =
      foldl (\<lambda>s r. ser_L (ser_sub (ser_S ! (r mod 8)) (xor4 s (k_set l r)))) x rs" for x rs
    by (induction rs arbitrary: x) (simp_all add: rot_L k_xor_xor4)
  from this [of "ser_in b" "[0..<31]"] show ?thesis
    unfolding Serpent_encrypt_def ser_cipher_def k_xor_xor4 lines_table sb_tables by simp
qed

lemma foldl_undo:
  assumes "\<And>s r. D r (E r s) = s"
  shows "foldl (\<lambda>s r. D r s) (foldl (\<lambda>s r. E r s) s rs) (rev rs) = s"
  by (induction rs arbitrary: s rule: rev_induct) (simp_all add: assms)

lemma ser_in_out: "length out = 4 \<Longrightarrow> ser_in (ser_out out s) = s"
  by (cases s; rule list4_cases [of out]) (simp_all add: ser_in_def ser_out_def numeral_2_eq_2 numeral_3_eq_3)

lemma ser_out_in: "length out = 4 \<Longrightarrow> length b = 4 \<Longrightarrow> ser_out out (ser_in b) = b"
  by (rule list4_cases [of out], simp, rule list4_cases [of b])
    (simp_all add: ser_in_def ser_out_def numeral_2_eq_2 numeral_3_eq_3)

lemma Serpent_decrypt_encrypt:
  assumes "length b = 4" "length out = 4" "length out' = 4"
  shows "Serpent_decrypt l (Serpent_encrypt l b out) out' = b"
proof -
  define E where "E = (\<lambda>r s. rot (ser_sub (ser_S ! (r mod 8)) (k_xor l r s)))"
  define D where "D = (\<lambda>r s. k_xor l r (ser_sub (inv_table (ser_S ! (r mod 8))) (irot s)))"
  have DE: "D r (E r s) = s" for r s
    by (simp add: D_def E_def ser_sub_inverse k_xor_xor4)
  have e: "foldl (\<lambda>s (r, sb). rot (sb (k_xor l r s))) x (map (\<lambda>r. (r, ser_sub (ser_S ! (r mod 8)))) rs) =
      foldl (\<lambda>s r. E r s) x rs" for x rs
    by (induction rs arbitrary: x) (simp_all add: E_def)
  have d: "foldl (\<lambda>s (ib, r). k_xor l r (ib (irot s))) x (map (\<lambda>r. (ser_sub (inv_table (ser_S ! (r mod 8))), r)) rs) =
      foldl (\<lambda>s r. D r s) x rs" for x rs
    by (induction rs arbitrary: x) (simp_all add: D_def)
  have "Serpent_encrypt l b out = ser_out out (k_xor l 32 (sb7 (k_xor l 31
      (foldl (\<lambda>s r. E r s) (ser_in b) [0..<31]))))"
    unfolding Serpent_encrypt_def lines_table e ..
  moreover have "Serpent_decrypt l c out' = ser_out out' (foldl (\<lambda>s r. D r s)
      (k_xor l 31 (ib7 (k_xor l 32 (ser_in c)))) (rev [0..<31]))" for c
    unfolding Serpent_decrypt_def lines_table d ..
  moreover have "ib7 (sb7 s) = s" for s unfolding ib_tables sb_tables by (rule ser_sub_inverse) simp
  ultimately show ?thesis
    using assms by (simp add: ser_in_out ser_out_in k_xor_xor4 foldl_undo [of D E, OF DE])
qed

lemma length_Serpent [simp]:
  "length (Serpent_encrypt l b out) = length out" "length (Serpent_decrypt l b out) = length out"
  by (simp_all add: Serpent_encrypt_def Serpent_decrypt_def ser_out_def split: prod.split)

interpretation ser: block_cipher "\<lambda>_. True" ser_enc ser_dec
  by unfold_locales
    (auto simp: ser_enc_def ser_dec_def Serpent_decrypt_encrypt bytes_words [where n = 4])

section \<open>Blocks\<close>

lemma io_swap_le: "io_swap (get_ulong_le b i) = get_ulong_be b i"
  unfolding get_ulong_le_V io_swap_V by (simp add: get_ulong_be_def V_def)

lemma words_of_nth: "i < length b div 4 \<Longrightarrow> words_of b ! i = get_ulong_le b (4 * i)"
  by (simp add: words_of_def)

lemma ser_in_block: "length b = 16 \<Longrightarrow> ser_in (words_of b) = ser_block_of b"
  by (simp add: ser_in_def ser_block_of_def words_of_nth io_swap_le)

lemma be32_V: "be32 (V a b c d) = [a, b, c, d]"
  by (metis by0_def by1_def by2_def by3_def bytes_of_V be32_def)

lemma le32_io_swap: "le32 (io_swap w) = be32 w"
  by (rule V_cases [of w]) (simp add: io_swap_V be32_V)

lemma ser_out_bytes: "length out = 4 \<Longrightarrow> bytes_of_words (ser_out out s) = ser_bytes_of s"
  by (cases s; rule list4_cases [of out])
    (simp_all add: ser_out_def ser_bytes_of_def bytes_of_words_def le32_io_swap numeral_2_eq_2 numeral_3_eq_3)

lemma ser_enc_cipher:
  assumes "length b = 16" "\<And>r. r < 33 \<Longrightarrow> k_set l r = K r"
  shows "ser_enc l b = ser_bytes_of (ser_cipher K (ser_block_of b))"
proof -
  have "foldl (\<lambda>s r. ser_L (ser_sub (ser_S ! (r mod 8)) (xor4 s (k_set l r)))) x [0..<31] =
      foldl (\<lambda>s r. ser_L (ser_sub (ser_S ! (r mod 8)) (xor4 s (K r)))) x [0..<31]" for x
    by (rule foldl_cong) (simp_all add: assms(2))
  then have "ser_cipher (k_set l) x = ser_cipher K x" for x by (simp add: ser_cipher_def assms(2))
  then show ?thesis
    using assms(1) by (simp add: ser_enc_def Serpent_encrypt_rounds ser_in_block ser_out_bytes)
qed

end
