(* ===== verification/Serpent_Keys.thy ===== *)
theory Serpent_Keys
  imports Serpent_Proofs
begin

unbundle bit_operations_syntax

text \<open>
  \<open>Serpent_set_key\<close> against the standard: padding, prekeys and round keys.
\<close>

section \<open>The padded key\<close>

lemma bit_key_word:
  assumes "length kb = 4 * lk" "i < lk" "j < 32"
  shows "bit (io_swap (words_of kb ! (lk - i - 1))) j \<longleftrightarrow>
    bit (kb ! (length kb - 1 - (32 * i + j) div 8)) ((32 * i + j) mod 8)"
proof -
  define q where "q = 4 * (lk - i - 1)"
  have w: "io_swap (words_of kb ! (lk - i - 1)) = V (kb ! q) (kb ! (q + 1)) (kb ! (q + 2)) (kb ! (q + 3))"
    using assms by (simp add: words_of_nth get_ulong_le_V io_swap_V q_def)
  obtain m r where j: "j = 8 * m + r" "r < 8"
    by (metis mult_div_mod_eq mod_less_divisor zero_less_numeral)
  have "(8 * (4 * i + m) + r) div 8 = 4 * i + m" "(8 * (4 * i + m) + r) mod 8 = r"
    using j(2) by (simp_all only: div_mult_self4 mod_mult_self4) simp_all
  then have p: "(32 * i + j) div 8 = 4 * i + m" "(32 * i + j) mod 8 = r"
    by (simp_all add: j(1) algebra_simps)
  have l: "length kb - 1 - (4 * i + m) = q + 3 - m" using assms by (simp add: q_def)
  have "m = 0 \<or> m = 1 \<or> m = 2 \<or> m = 3" using assms(3) j by auto
  then show ?thesis unfolding w p l unfolding bit_V j(1) using j(2) by (elim disjE) simp_all
qed

lemma set_key_copy_words:
  assumes "lk \<le> length l"
  shows "set_key_copy in_key lk l = map (\<lambda>i. io_swap (in_key ! (lk - i - 1))) [0..<lk] @ drop lk l"
  unfolding set_key_copy_def by (rule scatter_upt [OF assms])

definition key_words :: "nat \<Rightarrow> byte list \<Rightarrow> u32 list \<Rightarrow> u32 list" where
  "key_words n kb l =
    (let lk = (n + 31) div 32; l = set_key_copy (words_of kb) lk l
     in if n < 256 then set_key_pad n lk l else l)"

lemma word_count:
  fixes n i :: nat
  assumes "n \<le> 256"
  shows "(n + 31) div 32 \<le> 8" "n < 32 * ((n + 31) div 32) + 1" "i < n div 32 \<Longrightarrow> i < (n + 31) div 32"
    "n div 32 < i \<Longrightarrow> (n + 31) div 32 \<le> i" "n mod 32 \<noteq> 0 \<Longrightarrow> n div 32 < (n + 31) div 32"
proof -
  define k m where "k = n div 32" and "m = n mod 32"
  have n: "n = m + 32 * k" "m < 32" by (simp_all add: k_def m_def)
  have l: "(n + 31) div 32 = (if m = 0 then k else Suc k)"
  proof (cases "m = 0")
    case True
    then have "n + 31 = 31 + 32 * k" using n by simp
    then show ?thesis using True by (simp only: div_mult_self2) simp
  next
    case False
    then have "n + 31 = (m - 1) + 32 * Suc k" using n by simp
    then show ?thesis using False n(2) by (simp only: div_mult_self2) simp
  qed
  show "(n + 31) div 32 \<le> 8" "n < 32 * ((n + 31) div 32) + 1" using assms n unfolding l by auto
  show "i < n div 32 \<Longrightarrow> i < (n + 31) div 32" "n div 32 < i \<Longrightarrow> (n + 31) div 32 \<le> i"
    "n mod 32 \<noteq> 0 \<Longrightarrow> n div 32 < (n + 31) div 32"
    unfolding l k_def [symmetric] m_def [symmetric] by auto
qed

lemma key_words_padded:
  assumes "n \<le> 256" "length kb = 4 * ((n + 31) div 32)" "8 \<le> length l"
  shows "take 8 (key_words n kb l) = padded_key n kb" "length (key_words n kb l) = length l"
proof -
  let ?lk = "(n + 31) div 32"
  note wc = word_count [OF assms(1)]
  define c where "c = set_key_copy (words_of kb) ?lk l"
  have c: "c = map (\<lambda>i. io_swap (words_of kb ! (?lk - i - 1))) [0..<?lk] @ drop ?lk l"
    unfolding c_def using wc(1) assms(3) by (intro set_key_copy_words) simp
  have lc: "length c = length l" using wc(1) assms(3) by (simp add: c)
  define z where "z = foldl (\<lambda>l i. l[i := 0]) c [?lk..<8]"
  have lz: "length z = length l" by (simp add: z_def lc)
  show len: "length (key_words n kb l) = length l"
    by (simp add: key_words_def Let_def set_key_pad_def lz flip: c_def z_def) (simp add: lc)
  show "take 8 (key_words n kb l) = padded_key n kb"
  proof (intro nth_equalityI bit_word_eqI)
    show "length (take 8 (key_words n kb l)) = length (padded_key n kb)"
      using assms(3) by (simp add: len padded_key_def)
    fix i j :: nat assume ij: "i < length (take 8 (key_words n kb l))" "j < LENGTH(32)"
    then have i: "i < 8" and j: "j < 32" by simp_all
    have copy: "bit (c ! i) j \<longleftrightarrow> bit (kb ! (length kb - 1 - (32 * i + j) div 8)) ((32 * i + j) mod 8)" if "i < ?lk"
      using bit_key_word [OF assms(2) that j] that by (simp add: c nth_append)
    have pad: "bit (padded_key n kb ! i) j \<longleftrightarrow> (if 32 * i + j < n
        then bit (kb ! (length kb - 1 - (32 * i + j) div 8)) ((32 * i + j) mod 8) else 32 * i + j = n)"
      using i j by (simp add: padded_key_def bit_word_bits Let_def)
    have "bit (key_words n kb l ! i) j \<longleftrightarrow> bit (padded_key n kb ! i) j"
    proof (cases "n < 256")
      case False
      then have "n = 256" using assms(1) by simp
      then have "i < ?lk" "32 * i + j < n" using i j by simp_all
      moreover have "key_words n kb l = c" using False by (simp add: key_words_def c_def Let_def)
      ultimately show ?thesis using copy pad by simp
    next
      case True
      define m where "m = n mod 32"
      define k where "k = n div 32"
      have n: "n = 32 * k + m" "m < 32" by (simp_all add: m_def k_def)
      have k: "k < 8" using True n by simp
      have kw: "key_words n kb l = z[k := (z ! k AND (push_bit m 1 - 1)) OR push_bit m 1]"
        using True by (simp add: key_words_def set_key_pad_def Let_def m_def k_def flip: c_def z_def)
      have zc: "z ! i = c ! i" if "i < ?lk" unfolding z_def using that by (intro scatter_frame) auto
      have z0: "z ! i = 0" if "\<not> i < ?lk"
        unfolding z_def using that i assms(3) by (intro scatter_nth [where f = id, simplified]) (auto simp: lc)
      have mask: "push_bit m 1 - 1 = (mask m :: u32)" by (simp add: mask_eq_exp_minus_1 push_bit_eq_mult)
      consider "i < k" | "i = k" | "k < i" by linarith
      then show ?thesis
      proof cases
        case 1
        have "i < ?lk" by (rule wc(3)) (use 1 in \<open>simp add: k_def\<close>)
        moreover have "32 * i + j < n" unfolding n(1) using 1 j by simp
        ultimately show ?thesis using 1 copy zc unfolding pad kw by simp
      next
        case 2
        have "bit (z ! k) j \<longleftrightarrow> bit (c ! k) j" if "j < m"
          using that wc(5) zc 2 by (simp add: m_def k_def)
        moreover have "k < ?lk" if "j < m" using that wc(5) by (simp add: m_def k_def)
        ultimately show ?thesis
          using 2 copy j k assms(3) n unfolding pad kw mask
          by (auto simp: lz bit_simps)
      next
        case 3
        have "?lk \<le> i" by (rule wc(4)) (use 3 in \<open>simp add: k_def\<close>)
        moreover have "n < 32 * i + j" unfolding n(1) using 3 n(2) by simp
        ultimately show ?thesis using 3 z0 unfolding pad kw by simp
      qed
    qed
    then show "bit (take 8 (key_words n kb l) ! i) j \<longleftrightarrow> bit (padded_key n kb ! i) j" using i by simp
  qed
qed

section \<open>Prekeys\<close>

lemma shifts_rotl: "push_bit 11 w OR drop_bit 21 w = word_rotl 11 (w :: u32)"
proof (rule bit_word_eqI)
  fix k assume "k < LENGTH(32)"
  then have k: "k < 32" by simp
  show "bit (push_bit 11 w OR drop_bit 21 w) k \<longleftrightarrow> bit (word_rotl 11 w) k"
  proof (cases "k < 11")
    case True
    then show ?thesis by (simp add: bit_word_rotl_iff bit_simps add.commute)
  next
    case False
    then have "(k - 11 + 1 * 32) mod 32 = k - 11" using k by (subst mod_mult_self1) simp
    then have "(k + 21) mod 32 = k - 11" using False by (simp add: add.commute)
    moreover have "\<not> bit w (k + 21)" using False by (intro impossible_bit) simp
    ultimately show ?thesis using False k by (simp add: bit_word_rotl_iff bit_simps add.commute)
  qed
qed

lemma set_key_expand_prekeys:
  assumes "length l = 140"
  shows "set_key_expand l = map (prekey (take 8 l)) [0..<140]"
proof -
  define f where "f = (\<lambda>l i. let lk = l ! i XOR l ! (i + 3) XOR l ! (i + 5) XOR l ! (i + 7) XOR 0x9e3779b9 XOR of_nat i
      in l[i + 8 := push_bit 11 lk OR drop_bit 21 (lk :: u32)])"
  have "n \<le> 132 \<Longrightarrow> length (foldl f l [0..<n]) = 140 \<and> (\<forall>j < n + 8. foldl f l [0..<n] ! j = prekey (take 8 l) j)" for n
  proof (induction n)
    case 0
    then show ?case using assms by (simp add: prekey.simps)
  next
    case (Suc n)
    define m where "m = foldl f l [0..<n]"
    have m: "length m = 140" "\<And>j. j < n + 8 \<Longrightarrow> m ! j = prekey (take 8 l) j" using Suc by (simp_all add: m_def)
    have p: "prekey (take 8 l) (n + 8) = word_rotl 11 (m ! n XOR m ! (n + 3) XOR m ! (n + 5) XOR m ! (n + 7) XOR 0x9e3779b9 XOR of_nat n)"
      by (simp add: prekey.simps [of _ "n + 8"] m(2) add.commute)
    have "foldl f l [0..<Suc n] = f m n" by (simp add: m_def)
    also have "\<dots> = m[n + 8 := prekey (take 8 l) (n + 8)]" unfolding p by (simp add: f_def Let_def shifts_rotl)
    finally show ?case using m Suc.prems
      by (simp add: nth_list_update less_Suc_eq del: upt_Suc)
  qed
  from this [of 132] show ?thesis
    unfolding set_key_expand_def f_def [symmetric] by (intro nth_equalityI) simp_all
qed

section \<open>Round keys\<close>

lemma k_set_get:
  "4 * r + 11 < length l \<Longrightarrow> k_set (k_get r s l) q = (if q = r then s else k_set l q)"
  by (cases s) (auto simp: k_set_def k_get_def nth_list_update)

lemma length_k_get [simp]: "length (k_get r s l) = length l"
  by (simp add: k_get_def split: prod.split)

lemma set_key_lines:
  assumes "4 * n + 8 \<le> length l"
  shows "length (foldl (\<lambda>l (r, sb). k_get r (sb (k_set l r)) l) l (map (\<lambda>r. (r, F r)) [0..<n])) = length l
    \<and> k_set (foldl (\<lambda>l (r, sb). k_get r (sb (k_set l r)) l) l (map (\<lambda>r. (r, F r)) [0..<n])) q =
      (if q < n then F q (k_set l q) else k_set l q)"
  using assms by (induction n) (auto simp: k_set_get less_Suc_eq)

lemma set_key_round_keys:
  assumes "n \<le> 256" "length kb = 4 * ((n + 31) div 32)" "length l = 140" "r < 33"
  shows "k_set (Serpent_set_key l (words_of kb) (word_of_nat n)) r = ser_K (padded_key n kb) r"
proof -
  have u: "unat (word_of_nat n :: u32) = n" using assms(1) by (simp add: unat_of_nat)
  then have c: "\<not> (word_of_nat n < (0 :: u32) \<or> (word_of_nat n :: u32) > 256)" "(word_of_nat n < (256 :: u32)) = (n < 256)"
    using assms(1) by (simp_all add: word_less_nat_alt)
  have "length l \<ge> 8" using assms(3) by simp
  note kw = key_words_padded [OF assms(1,2) this]
  have e: "Serpent_set_key l (words_of kb) (word_of_nat n) = set_key_sboxes (set_key_expand (key_words n kb l))"
    using c by (simp add: Serpent_set_key_def key_words_def Let_def u)
  have x: "set_key_expand (key_words n kb l) = map (prekey (padded_key n kb)) [0..<140]"
    using set_key_expand_prekeys [of "key_words n kb l"] kw assms(3) by simp
  show ?thesis
    unfolding e x set_key_sboxes_def lines_table ser_K_def
    using set_key_lines [of 33 "map (prekey (padded_key n kb)) [0..<140]" "\<lambda>r. ser_sub (ser_S ! ((35 - r) mod 8))" r] assms(4)
    by (simp add: k_set_def del: upt_Suc)
qed

end
