(* ===== verification/Serpent_Props.thy ===== *)
theory Serpent_Props
  imports Serpent_Keys
begin

unbundle bit_operations_syntax

text \<open>The properties of \<open>Serpent.cpp\<close>.\<close>

text \<open>C23. For every key of at most 256 bits, setting the key and encrypting a block gives the
  ciphertext of the Serpent standard: the unrolled rounds on four words with their boolean
  S-boxes, the word swaps and the padding of short keys included. Longer keys are refused
  and leave the array alone.\<close>

theorem serpent_standard:
  assumes "n \<le> 256" "length kb = 4 * ((n + 31) div 32)" "length l = 140" "length b = 16"
  shows "ser_enc (Serpent_set_key l (words_of kb) (word_of_nat n)) b =
      ser_bytes_of (ser_cipher (ser_K (padded_key n kb)) (ser_block_of b))
    \<and> (256 < key_len \<longrightarrow> Serpent_set_key l in_key key_len = l)"
  using ser_enc_cipher [OF assms(4) set_key_round_keys [OF assms(1-3)]] by (simp add: Serpent_set_key_def)

theorem serpent_standard_witness:
  "ser_enc (Serpent_set_key (replicate 140 0) (words_of (replicate 32 7)) (word_of_nat 256)) (replicate 16 1) =
      ser_bytes_of (ser_cipher (ser_K (padded_key 256 (replicate 32 7))) (ser_block_of (replicate 16 1)))"
  by (rule serpent_standard [where in_key = "[]" and key_len = 0, THEN conjunct1]) simp_all

text \<open>C24. Decryption undoes encryption on every block and in cipher block chaining, whatever the
  key array holds; so different blocks have different ciphertexts.\<close>

theorem serpent_round_trip:
  assumes "length a = 16" "length b = 16" "length iv = 16" "16 * n \<le> length x"
  shows "ser_dec l (ser_enc l b) = b \<and> (ser_enc l a = ser_enc l b \<longleftrightarrow> a = b)
    \<and> cbc_decrypt (ser_dec l) n iv (cbc_encrypt (ser_enc l) n iv x) = take (16 * n) x"
  using ser.dec_enc ser.enc_inject ser.cbc_decrypt_encrypt [where k = l and y = "[]" and iv = iv and n = n and x = x] assms
  by simp

theorem serpent_round_trip_witness:
  "ser_dec [] (ser_enc [] (replicate 16 3)) = replicate 16 3"
  by (rule serpent_round_trip [where n = 0 and iv = "replicate 16 0" and x = "[]" and a = "replicate 16 0", THEN conjunct1])
    simp_all

end
