(* ===== verification/File_Io.thy ===== *)
theory File_Io
  imports Prelude
begin

text \<open>
  The C streams the file tools read and write. A stream opened for reading is the bytes
  \<open>fread\<close> can still deliver before the end of the file or an error; a stream opened for
  writing is the bytes written so far and the number of bytes it still accepts before an
  error. C++ exceptions are values of \<open>exn\<close>; a function that may throw returns the
  exception or its result, together with the streams as they are at that moment.
\<close>

record files =
  fin :: "byte list"
  fout :: "byte list"
  room :: nat

definition fread :: "nat \<Rightarrow> files \<Rightarrow> byte list \<times> files" where
  "fread n F = (take n (fin F), F\<lparr>fin := drop n (fin F)\<rparr>)"

definition fwrite :: "byte list \<Rightarrow> files \<Rightarrow> nat \<times> files" where
  "fwrite b F =
    (let n = min (length b) (room F)
     in (n, F\<lparr>fout := fout F @ take n b, room := room F - n\<rparr>))"

datatype exn =
    Must_read
  | Must_write
  | Failed_to_open_urandom
  | File_too_short
  | Not_a_ctr3_hmac_crypt_file
  | HMAC_failure

text \<open>\<open>must_fread\<close> fills the first \<open>nel\<close> bytes of \<open>buf\<close> or throws.\<close>

definition must_fread :: "byte list \<Rightarrow> int \<Rightarrow> files \<Rightarrow> (exn + byte list) \<times> files" where
  "must_fread buf nel F =
    (let (b, F) = fread (nat nel) F
     in if nel \<noteq> int (length b) then (Inl Must_read, F) else (Inr (blit buf 0 b), F))"

definition must_fwrite :: "byte list \<Rightarrow> int \<Rightarrow> files \<Rightarrow> (exn + unit) \<times> files" where
  "must_fwrite buf nel F =
    (let (n, F) = fwrite (take (nat nel) buf) F
     in if nel \<noteq> int n then (Inl Must_write, F) else (Inr (), F))"

lemma must_fread_ok:
  "nat n \<le> length (fin F) \<Longrightarrow> 0 \<le> n \<Longrightarrow>
    must_fread buf n F = (Inr (blit buf 0 (take (nat n) (fin F))), F\<lparr>fin := drop (nat n) (fin F)\<rparr>)"
  by (simp add: must_fread_def fread_def)

lemma must_fread_short:
  "length (fin F) < nat n \<Longrightarrow> must_fread buf n F = (Inl Must_read, F\<lparr>fin := []\<rparr>)"
  by (auto simp: must_fread_def fread_def)

lemma must_fwrite_ok:
  "nat n \<le> length buf \<Longrightarrow> nat n \<le> room F \<Longrightarrow> 0 \<le> n \<Longrightarrow>
    must_fwrite buf n F = (Inr (), F\<lparr>fout := fout F @ take (nat n) buf, room := room F - nat n\<rparr>)"
  by (simp add: must_fwrite_def fwrite_def Let_def)

lemma must_fwrite_full:
  "nat n \<le> length buf \<Longrightarrow> room F < nat n \<Longrightarrow>
    must_fwrite buf n F = (Inl Must_write, F\<lparr>fout := fout F @ take (room F) buf, room := 0\<rparr>)"
  by (auto simp: must_fwrite_def fwrite_def Let_def min_def)

text \<open>Neither call rewrites what is already in the output.\<close>

lemma must_fread_fout: "fout (snd (must_fread buf n F)) = fout F" "room (snd (must_fread buf n F)) = room F"
  by (auto simp: must_fread_def fread_def)

lemma must_fwrite_prefix: "\<exists>b. fout (snd (must_fwrite buf n F)) = fout F @ b"
  by (auto simp: must_fwrite_def fwrite_def Let_def)

end
