(* ===== verification/Ctr3.thy ===== *)
theory Ctr3
  imports Aesx Twofish_Proofs Sha2_Hmac File_Io
begin

unbundle bit_operations_syntax

text \<open>
  \<open>Crypto/C-Code/main.cpp\<close>: the file encryptor \<open>ctr-hmac-crypt\<close>. The class
  \<open>ctr3_hmac_crypto\<close> (a counter mode of Twofish, AESX, Twofish with an HMAC over signature,
  salt, nonce and ciphertext), the key derivation \<open>kdf\<close>, the sources of salt and nonce and
  the two file functions.

  Automatic variables are uninitialised in C++; their first contents are the fields of
  \<open>autos\<close>, and the theorems hold for all of them. The static tables of \<open>aesx.c\<close> are
  threaded as \<open>st\<close>. Exceptions are values, see \<open>File_Io\<close>.
\<close>

section \<open>Bytes of numbers, key derivation\<close>

fun convert_int_to_nbytes :: "u32 \<Rightarrow> byte list \<Rightarrow> nat \<Rightarrow> byte list" where
  "convert_int_to_nbytes val dst 0 = dst"
| "convert_int_to_nbytes val dst (Suc ix) =
    convert_int_to_nbytes (drop_bit 8 val) (dst[ix := ucast (val AND 0x0ff)]) ix"

text \<open>One pass of the inner loop of \<open>kdf\<close>.\<close>

definition kdf_round :: "byte list \<Rightarrow> byte list \<Rightarrow> nat \<Rightarrow> sha2_context \<times> byte list \<Rightarrow>
    sha2_context \<times> byte list" where
  "kdf_round ctrbyts key keylen = (\<lambda>(sha_ctx, digest).
     let sha_ctx = sha2_starts sha_ctx 0;
         sha_ctx = sha2_update sha_ctx ctrbyts 4;
         sha_ctx = sha2_update sha_ctx digest 32;
         sha_ctx = sha2_update sha_ctx key (int keylen)
     in sha2_finish sha_ctx digest)"

text \<open>
  The loop counter \<open>ix\<close> is an \<open>int\<close> and \<open>nbytes\<close> a \<open>UInt32\<close>: comparison and subtraction convert
  \<open>ix\<close> to 32 bits unsigned, and \<open>ix += 32\<close> past \<open>2^31 - 1\<close> is signed overflow, which has no
  defined result (\<open>None\<close>).
\<close>

function kdf_loop :: "byte list \<Rightarrow> u32 \<Rightarrow> byte list \<Rightarrow> nat \<Rightarrow> int \<Rightarrow> u32 \<Rightarrow> sha2_context \<times> byte list \<Rightarrow>
    byte list \<Rightarrow> byte list option" where
  "kdf_loop ctrbyts nbytes key keylen ix ctr sd dst =
    (if word_of_int ix < nbytes
     then
       let nb = 32 :: int;
           nb = (if word_of_int nb > nbytes - word_of_int ix then uint (nbytes - word_of_int ix) else nb);
           ctr = ctr + 1;
           ctrbyts = convert_int_to_nbytes ctr ctrbyts 4;
           sd = (kdf_round ctrbyts key keylen ^^ 8192) sd;
           dst = blit dst (nat ix) (take (nat nb) (snd sd))
       in if ix + 32 < 2 ^ 31 then kdf_loop ctrbyts nbytes key keylen (ix + 32) ctr sd dst else None
     else Some dst)"
  by pat_completeness auto
termination by (relation "measure (\<lambda>(c, nbytes, k, l, ix, r). nat (2 ^ 31 - ix))") auto

declare kdf_loop.simps [simp del]

definition kdf :: "sha2_context \<Rightarrow> byte list \<Rightarrow> byte list \<Rightarrow> u32 \<Rightarrow> byte list \<Rightarrow> nat \<Rightarrow> byte list option" where
  "kdf sha_ctx ctrbyts dst nbytes key keylen =
    kdf_loop ctrbyts nbytes key keylen 0 0 (sha_ctx, replicate 32 0) dst"

section \<open>The class\<close>

record ctr3_hmac_crypto =
  aesx_ctx :: aes_context
  twofish_ctx1 :: TWOFISH_DATA
  twofish_ctx2 :: TWOFISH_DATA
  sha_ctx :: sha2_context
  m_ctr :: u32
  m_nonce :: "byte list"

record autos =
  a_kbits :: "byte list"
  a_kdf :: sha2_context
  a_ctrbyts :: "byte list"
  a_me1 :: "u32 list"
  a_mo1 :: "u32 list"
  a_pow :: "int list"
  a_log :: "int list"
  a_me2 :: "u32 list"
  a_mo2 :: "u32 list"
  a_hctx :: sha2_context
  a_sum :: "byte list"
  a_tmpv :: "byte list"
  a_tmpbuf :: "byte list"
  a_digest :: "byte list"
  a_buffer :: "byte list"
  a_salt :: "byte list"
  a_nonce :: "byte list"

definition sig :: "byte list" where
  "sig = [130, 39, 46, 10, 176, 193, 17, 225, 156, 85, 200, 42, 20, 68, 110, 167]"

text \<open>The objects after \<open>memset (.., 0, sizeof ..)\<close>.\<close>

definition cleared_tf :: TWOFISH_DATA where
  "cleared_tf = \<lparr>k_len = 0, l_key = replicate 40 0, s_key = replicate 4 0, qt_gen = 0,
     q_tab = replicate 2 (replicate 256 0), mt_gen = 0, m_tab = replicate 4 (replicate 256 0),
     mk_tab = replicate 4 (replicate 256 0)\<rparr>"

definition cleared_aesx :: aes_context where
  "cleared_aesx = \<lparr>nr = 0, rk = 0, buf = replicate 128 0\<rparr>"

definition cleared_sha :: sha2_context where
  "cleared_sha = \<lparr>total0 = 0, total1 = 0, state = replicate 8 0, buffer = replicate 64 0,
     ipad = replicate 64 0, opad = replicate 64 0, is224 = 0\<rparr>"

definition clear_contexts :: "ctr3_hmac_crypto \<Rightarrow> ctr3_hmac_crypto" where
  "clear_contexts C = C\<lparr>twofish_ctx1 := cleared_tf, twofish_ctx2 := cleared_tf,
     aesx_ctx := cleared_aesx, sha_ctx := cleared_sha\<rparr>"

text \<open>
  \<open>pkey\<close> is a fresh block of \<open>keylen + 32\<close> bytes that three adjacent copies fill. The 128 bytes
  asked of \<open>kdf\<close> are far below the length at which its counter overflows, so the result is a
  \<open>Some\<close> (\<open>kdf_spec\<close>).
\<close>

definition ctr3_init :: "autos \<Rightarrow> aesx_static \<Rightarrow> ctr3_hmac_crypto \<Rightarrow> byte list \<Rightarrow> nat \<Rightarrow> byte list \<Rightarrow>
    byte list \<Rightarrow> aesx_static \<times> ctr3_hmac_crypto" where
  "ctr3_init A st C key keylen salt nonce =
    (let C = C\<lparr>m_nonce := take 16 nonce\<rparr>;
         C = C\<lparr>m_ctr := 0\<rparr>;
         pkey = take keylen key @ take 16 nonce @ take 16 salt;
         kbits = the (kdf (a_kdf A) (a_ctrbyts A) (a_kbits A) 128 pkey (keylen + 32));
         C = clear_contexts C;
         C = C\<lparr>twofish_ctx1 := Twofish_set_key (a_me1 A) (a_mo1 A) (twofish_ctx1 C) (words_of (drop 0 kbits)) 256\<rparr>;
         (st, aesx, ret) = aesx_setkey_enc (a_pow A) (a_log A) st (aesx_ctx C) (drop 32 kbits) 256;
         C = C\<lparr>aesx_ctx := aesx\<rparr>;
         C = C\<lparr>twofish_ctx2 := Twofish_set_key (a_me2 A) (a_mo2 A) (twofish_ctx2 C) (words_of (drop 64 kbits)) 256\<rparr>;
         C = C\<lparr>sha_ctx := sha2_hmac_starts (a_hctx A) (a_sum A) (sha_ctx C) (drop 96 kbits) 32 0\<rparr>;
         C = C\<lparr>sha_ctx := sha2_hmac_update (sha_ctx C) sig 16\<rparr>;
         C = C\<lparr>sha_ctx := sha2_hmac_update (sha_ctx C) salt 16\<rparr>;
         C = C\<lparr>sha_ctx := sha2_hmac_update (sha_ctx C) nonce 16\<rparr>
     in (st, C))"

definition encrypt_decrypt_in_place :: "byte list \<Rightarrow> aesx_static \<Rightarrow> ctr3_hmac_crypto \<Rightarrow> byte list \<Rightarrow> nat \<Rightarrow>
    ctr3_hmac_crypto \<times> byte list" where
  "encrypt_decrypt_in_place tmpv st C data buflen =
    (let tmpv = blit tmpv 0 (take 12 (m_nonce C));
         C = C\<lparr>m_ctr := m_ctr C + 1\<rparr>;
         tmpv = blit tmpv 12 (convert_int_to_nbytes (m_ctr C) (drop 12 tmpv) 4);
         tmpv = tf_enc (twofish_ctx1 C) tmpv;
         tmpv = fst (aesx_crypt_ecb st (aesx_ctx C) AES_ENCRYPT tmpv tmpv);
         tmpv = tf_enc (twofish_ctx2 C) tmpv;
         data = foldl (\<lambda>data i. data[i := data ! i XOR tmpv ! i]) data [0..<buflen]
     in (C, data))"

definition encrypt_in_place :: "byte list \<Rightarrow> aesx_static \<Rightarrow> ctr3_hmac_crypto \<Rightarrow> byte list \<Rightarrow> nat \<Rightarrow>
    ctr3_hmac_crypto \<times> byte list" where
  "encrypt_in_place tmpv st C data buflen =
    (let (C, data) = encrypt_decrypt_in_place tmpv st C data buflen
     in (C\<lparr>sha_ctx := sha2_hmac_update (sha_ctx C) data (int buflen)\<rparr>, data))"

definition decrypt_in_place :: "byte list \<Rightarrow> aesx_static \<Rightarrow> ctr3_hmac_crypto \<Rightarrow> byte list \<Rightarrow> nat \<Rightarrow>
    ctr3_hmac_crypto \<times> byte list" where
  "decrypt_in_place tmpv st C data buflen =
    (let C = C\<lparr>sha_ctx := sha2_hmac_update (sha_ctx C) data (int buflen)\<rparr>
     in encrypt_decrypt_in_place tmpv st C data buflen)"

definition finish_encrypt :: "byte list \<Rightarrow> ctr3_hmac_crypto \<Rightarrow> byte list \<Rightarrow> ctr3_hmac_crypto \<times> byte list" where
  "finish_encrypt tmpbuf C data =
    (let (ctx, data) = sha2_hmac_finish tmpbuf (sha_ctx C) data in (C\<lparr>sha_ctx := ctx\<rparr>, data))"

definition finish_decrypt :: "byte list \<Rightarrow> byte list \<Rightarrow> ctr3_hmac_crypto \<Rightarrow> byte list \<Rightarrow>
    exn + ctr3_hmac_crypto" where
  "finish_decrypt digest tmpbuf C data =
    (let (C, digest) = finish_encrypt tmpbuf C digest
     in if \<exists>i \<in> set [0..<32]. data ! i \<noteq> digest ! i then Inl HMAC_failure else Inr C)"

section \<open>Salt and nonce\<close>

text \<open>
  \<open>/dev/urandom\<close> opens and delivers the given bytes, or does not open; the time of day is
  the pair of its two 32-bit truncations.
\<close>

record host =
  urandom :: "byte list option"
  tv_sec :: u32
  tv_usec :: u32

definition drbg :: "host \<Rightarrow> byte list \<Rightarrow> nat \<Rightarrow> exn + byte list" where
  "drbg h dst nbytes =
    (case urandom h of
       None \<Rightarrow> Inl Failed_to_open_urandom
     | Some r \<Rightarrow> fst (must_fread dst (int nbytes) \<lparr>fin = r, fout = [], room = 0\<rparr>))"

definition make_nonce :: "host \<Rightarrow> byte list \<Rightarrow> nat \<Rightarrow> byte list" where
  "make_nonce h dst nbytes =
    (let dst = blit dst 0 (replicate nbytes 0);
         dst = convert_int_to_nbytes (tv_sec h) dst 4
     in blit dst 4 (convert_int_to_nbytes (tv_usec h) (drop 4 dst) 4))"

section \<open>Files\<close>

text \<open>The loop of both functions; they differ in the member function \<open>op\<close> called on each block.\<close>

function file_loop :: "(ctr3_hmac_crypto \<Rightarrow> byte list \<Rightarrow> nat \<Rightarrow> ctr3_hmac_crypto \<times> byte list) \<Rightarrow> int \<Rightarrow> int \<Rightarrow>
    ctr3_hmac_crypto \<Rightarrow> byte list \<Rightarrow> files \<Rightarrow> (exn + ctr3_hmac_crypto \<times> byte list) \<times> files" where
  "file_loop op filesize offset C bytes32 F =
    (if offset < filesize
     then
       let remaining = filesize - offset;
           n = (if remaining > 16 then 16 else remaining)
       in case must_fread bytes32 n F of
            (Inl e, F) \<Rightarrow> (Inl e, F)
          | (Inr bytes32, F) \<Rightarrow>
              let (C, bytes32) = op C bytes32 (nat n)
              in case must_fwrite bytes32 n F of
                   (Inl e, F) \<Rightarrow> (Inl e, F)
                 | (Inr u, F) \<Rightarrow> file_loop op filesize (offset + 16) C bytes32 F
     else (Inr (C, bytes32), F))"
  by pat_completeness auto
termination by (relation "measure (\<lambda>(op, filesize, offset, r). nat (filesize - offset))") auto

declare file_loop.simps [simp del]

definition encrypt_loop :: "byte list \<Rightarrow> aesx_static \<Rightarrow> int \<Rightarrow> int \<Rightarrow> ctr3_hmac_crypto \<Rightarrow> byte list \<Rightarrow> files \<Rightarrow>
    (exn + ctr3_hmac_crypto \<times> byte list) \<times> files" where
  "encrypt_loop tmpv st = file_loop (encrypt_in_place tmpv st)"

definition decrypt_loop :: "byte list \<Rightarrow> aesx_static \<Rightarrow> int \<Rightarrow> int \<Rightarrow> ctr3_hmac_crypto \<Rightarrow> byte list \<Rightarrow> files \<Rightarrow>
    (exn + ctr3_hmac_crypto \<times> byte list) \<times> files" where
  "decrypt_loop tmpv st = file_loop (decrypt_in_place tmpv st)"

definition encrypt_file :: "autos \<Rightarrow> host \<Rightarrow> aesx_static \<Rightarrow> ctr3_hmac_crypto \<Rightarrow> byte list \<Rightarrow> nat \<Rightarrow> int \<Rightarrow> files \<Rightarrow>
    (exn + int) \<times> files" where
  "encrypt_file A h st crypto key keylen filesize F =
    (case drbg h (a_salt A) 16 of
       Inl e \<Rightarrow> (Inl e, F)
     | Inr salt \<Rightarrow>
         let nonce = make_nonce h (a_nonce A) 16;
             (st, crypto) = ctr3_init A st crypto key keylen salt nonce
         in case must_fwrite sig 16 F of
              (Inl e, F) \<Rightarrow> (Inl e, F)
            | (Inr u, F) \<Rightarrow>
            (case must_fwrite salt 16 F of
              (Inl e, F) \<Rightarrow> (Inl e, F)
            | (Inr u, F) \<Rightarrow>
            (case must_fwrite nonce 16 F of
              (Inl e, F) \<Rightarrow> (Inl e, F)
            | (Inr u, F) \<Rightarrow>
            (case encrypt_loop (a_tmpv A) st filesize 0 crypto (a_buffer A) F of
              (Inl e, F) \<Rightarrow> (Inl e, F)
            | (Inr (crypto, bytes32), F) \<Rightarrow>
                let (crypto, bytes32) = finish_encrypt (a_tmpbuf A) crypto bytes32
                in case must_fwrite bytes32 32 F of
                     (Inl e, F) \<Rightarrow> (Inl e, F)
                   | (Inr u, F) \<Rightarrow> (Inr 0, F)))))"

definition decrypt_file :: "autos \<Rightarrow> aesx_static \<Rightarrow> ctr3_hmac_crypto \<Rightarrow> byte list \<Rightarrow> nat \<Rightarrow> int \<Rightarrow> files \<Rightarrow>
    (exn + int) \<times> files" where
  "decrypt_file A st crypto key keylen filesize F =
    (if filesize < 3 * 16 + 32 then (Inl File_too_short, F)
     else
       case must_fread (a_buffer A) 16 F of
         (Inl e, F) \<Rightarrow> (Inl e, F)
       | (Inr bytes32, F) \<Rightarrow>
           if \<exists>i \<in> set [0..<16]. bytes32 ! i \<noteq> sig ! i then (Inl Not_a_ctr3_hmac_crypt_file, F)
           else
             case must_fread (a_salt A) 16 F of
               (Inl e, F) \<Rightarrow> (Inl e, F)
             | (Inr salt, F) \<Rightarrow>
             (case must_fread (a_nonce A) 16 F of
               (Inl e, F) \<Rightarrow> (Inl e, F)
             | (Inr nonce, F) \<Rightarrow>
                 let (st, crypto) = ctr3_init A st crypto key keylen salt nonce
                 in case decrypt_loop (a_tmpv A) st filesize (3 * 16 + 32) crypto bytes32 F of
                      (Inl e, F) \<Rightarrow> (Inl e, F)
                    | (Inr (crypto, bytes32), F) \<Rightarrow>
                    (case must_fread bytes32 32 F of
                      (Inl e, F) \<Rightarrow> (Inl e, F)
                    | (Inr bytes32, F) \<Rightarrow>
                        (case finish_decrypt (a_digest A) (a_tmpbuf A) crypto bytes32 of
                           Inl e \<Rightarrow> (Inl e, F)
                         | Inr crypto \<Rightarrow> (Inr 0, F)))))"

end
