(* ===== verification/Keytext.thy ===== *)
theory Keytext
  imports Prelude
begin

unbundle bit_operations_syntax

text \<open>
  Keys and digests as text: \<open>parse_keytext\<close> of \<open>AES256/parse_keytext.cpp\<close> and
  \<open>Acudora_digest_to_text\<close> of \<open>AES256/decrypt.cpp\<close> and \<open>SHA256/Sha2Sum.cpp\<close>.

  A \<open>char *\<close> is the list of the bytes in memory from that pointer on; the C string there
  ends before the first zero byte, the list may go on behind it.
\<close>

section \<open>Strings\<close>

definition ascii :: "string \<Rightarrow> byte list" where
  "ascii s = map of_char s"

definition c_string :: "byte list \<Rightarrow> byte list" where
  "c_string p = takeWhile (\<lambda>b. b \<noteq> 0) p"

definition isspace :: "byte \<Rightarrow> bool" where
  "isspace b \<longleftrightarrow> b = 32 \<or> 9 \<le> b \<and> b \<le> 13"

definition hexval :: "byte \<Rightarrow> byte option" where
  "hexval b =
    (if 0x30 \<le> b \<and> b \<le> 0x39 then Some (b - 0x30)
     else if 0x41 \<le> b \<and> b \<le> 0x46 then Some (b - 0x37)
     else if 0x61 \<le> b \<and> b \<le> 0x66 then Some (b - 0x57)
     else None)"

text \<open>
  \<open>sscanf (p, "%02X", &n)\<close> followed by \<open>(unsigned char) n\<close>: white space is skipped, then at
  most two characters are taken, an optional sign first. \<open>0x\<close> is a prefix of a number but
  not one, so it fails, as does a lone sign. \<open>None\<close> stands for a result that is not positive.
\<close>

definition scan_2X :: "byte list \<Rightarrow> byte option" where
  "scan_2X p =
    (case dropWhile isspace (c_string p) of
       [] \<Rightarrow> None
     | c # s \<Rightarrow>
         if c = 0x2B \<or> c = 0x2D
         then (case s of [] \<Rightarrow> None
                       | d # _ \<Rightarrow> map_option (\<lambda>v. if c = 0x2D then - v else v) (hexval d))
         else
           case hexval c of
             None \<Rightarrow> None
           | Some v \<Rightarrow>
               (case s of [] \<Rightarrow> Some v
                        | d # _ \<Rightarrow> if c = 0x30 \<and> (d = 0x78 \<or> d = 0x58) then None
                                   else (case hexval d of None \<Rightarrow> Some v | Some w \<Rightarrow> Some (16 * v + w))))"

section \<open>Parsing a key\<close>

text \<open>The loop of the \<open>hex:\<close> branch; \<open>sscanf\<close> is evaluated before the bound is tested.\<close>

function hex_loop :: "byte list \<Rightarrow> byte list \<Rightarrow> int \<Rightarrow> int \<Rightarrow> int \<times> byte list" where
  "hex_loop p keybuf buflen keylen =
    (case scan_2X p of
       None \<Rightarrow> (keylen, keybuf)
     | Some n \<Rightarrow>
         if keylen < buflen then hex_loop (drop 2 p) (keybuf[nat keylen := n]) buflen (keylen + 1)
         else (keylen, keybuf))"
  by pat_completeness auto
termination by (relation "measure (\<lambda>(p, k, buflen, keylen). nat (buflen - keylen))") auto

declare hex_loop.simps [simp del]

text \<open>\<open>fs\<close> maps the name of a file that opens to its contents.\<close>

definition parse_keytext :: "(byte list \<Rightarrow> byte list option) \<Rightarrow> byte list \<Rightarrow> byte list \<Rightarrow> int \<Rightarrow>
    int \<times> byte list" where
  "parse_keytext fs keytext keybuf buflen =
    (if take 5 keytext = ascii ''file:'' then
       (case fs (c_string (drop 5 keytext)) of
          Some contents \<Rightarrow>
            let b = take (nat buflen) contents in (int (length b), blit keybuf 0 b)
        | None \<Rightarrow> (- 1, keybuf))
     else if take 4 keytext = ascii ''hex:'' then
       hex_loop (drop 4 keytext) keybuf buflen 0
     else
       let keylen = int (length (c_string keytext));
           keylen = (if keylen > buflen then buflen else keylen)
       in (keylen, blit keybuf 0 (take (nat keylen) keytext)))"

section \<open>Printing a digest\<close>

definition hexdigit :: "byte \<Rightarrow> byte" where
  "hexdigit v = (if v < 10 then 0x30 + v else 0x57 + v)"

text \<open>\<open>sprintf (buf, "%02x", b)\<close>.\<close>

definition sprintf_02x :: "byte list \<Rightarrow> nat \<Rightarrow> byte \<Rightarrow> byte list" where
  "sprintf_02x txt pos b = blit txt pos [hexdigit (drop_bit 4 b), hexdigit (b AND 15), 0]"

definition Acudora_digest_to_text :: "byte list \<Rightarrow> byte list \<Rightarrow> byte list" where
  "Acudora_digest_to_text txt digest =
    foldl (\<lambda>txt ix. sprintf_02x txt (2 * ix) (digest ! ix)) txt [0..<32]"

section \<open>What they compute\<close>

definition hex_text :: "byte list \<Rightarrow> byte list" where
  "hex_text bs = concat (map (\<lambda>b. [hexdigit (drop_bit 4 b), hexdigit (b AND 15)]) bs)"

lemma length_hex_text [simp]: "length (hex_text bs) = 2 * length bs"
  by (induction bs) (simp_all add: hex_text_def)

lemma nibble_exhaust:
  assumes "list_all P [0, 1, 2, 3, 4, 5, 6, 7, 8, 9, 10, 11, 12, 13, 14, 15]" "d < (16 :: byte)"
  shows "P d"
proof -
  have "unat d \<in> set [0, 1, 2, 3, 4, 5, 6, 7, 8, 9, 10, 11, 12, 13, 14, 15]"
    using assms(2) unfolding word_less_nat_alt by simp presburger
  then have "word_of_nat (unat d) \<in> set [0, 1, 2, 3, 4, 5, 6, 7, 8, 9, 10, 11, 12, 13, 14, 15 :: byte]"
    by (elim set_ConsD [elim_format] disjE) auto
  then show ?thesis using assms(1) by (auto simp: list_all_iff)
qed

lemma hexdigit_nibble:
  "d < 16 \<Longrightarrow> hexdigit d \<noteq> 0 \<and> \<not> isspace (hexdigit d) \<and> hexdigit d \<notin> {0x2B, 0x2D, 0x78, 0x58}
    \<and> hexval (hexdigit d) = Some d"
  by (rule nibble_exhaust [of _ d]) (simp add: hexdigit_def isspace_def hexval_def)

lemma nibbles: "drop_bit 4 b < 16 \<and> b AND 15 < 16 \<and> 16 * drop_bit 4 b + (b AND 15) = (b :: byte)"
proof -
  have t: "b AND 15 = take_bit 4 b" by (simp add: take_bit_eq_mask mask_eq_exp_minus_1)
  have "unat (drop_bit 4 b) = drop_bit 4 (unat b)" by (rule unat_drop_bit_eq)
  then have "unat (drop_bit 4 b) < 16" using unat_byte [of b] by (simp add: drop_bit_eq_div div_less_iff_less_mult)
  moreover have "unat (take_bit 4 b) = take_bit 4 (unat b)" by (rule unsigned_take_bit_eq)
  then have "unat (b AND 15) < 16" unfolding t by (simp only:) (simp add: take_bit_eq_mod)
  moreover have "push_bit 4 (drop_bit 4 b) + take_bit 4 b = b" by (rule bits_ident)
  ultimately show ?thesis by (simp add: word_less_nat_alt t push_bit_eq_mult mult.commute)
qed

lemma scan_hex_text: "scan_2X (hex_text (b # bs) @ r) = Some b"
proof -
  have t: "hex_text (b # bs) @ r = hexdigit (drop_bit 4 b) # hexdigit (b AND 15) # hex_text bs @ r"
    by (simp add: hex_text_def)
  show ?thesis
    using hexdigit_nibble [of "drop_bit 4 b"] hexdigit_nibble [of "b AND 15"] nibbles [of b]
    unfolding t scan_2X_def c_string_def by simp
qed

lemma scan_nul: "scan_2X (0 # r) = None"
  by (simp add: scan_2X_def c_string_def)

lemma hex_loop_text:
  assumes "0 \<le> k" "k + int (length bs) \<le> buflen" "nat k + length bs \<le> length keybuf"
  shows "hex_loop (hex_text bs @ 0 # r) keybuf buflen k = (k + int (length bs), blit keybuf (nat k) bs)"
  using assms
proof (induction bs arbitrary: k keybuf)
  case Nil
  have "hex_text [] = []" by (simp add: hex_text_def)
  then show ?case by (simp add: hex_loop.simps scan_nul blit_def)
next
  case (Cons b bs)
  have d: "drop 2 (hex_text (b # bs)) = hex_text bs" by (simp add: hex_text_def)
  have k: "nat (k + 1) = Suc (nat k)" using Cons.prems(1) by simp
  have "blit (keybuf[nat k := b]) (Suc (nat k)) bs = blit keybuf (nat k) (b # bs)"
    using Cons.prems(3) by (simp add: blit_def take_Suc_conv_app_nth take_update_swap list_update_append)
  then show ?case
    using Cons.IH [of "k + 1" "keybuf[nat k := b]"] Cons.prems
    by (subst hex_loop.simps) (simp add: scan_hex_text d k)
qed

definition hex_digits :: "byte list \<Rightarrow> bool" where
  "hex_digits s \<longleftrightarrow> list_all (\<lambda>c. hexval c \<noteq> None) s"

lemma hexval_cases:
  assumes "hexval c = Some v"
  shows "unat v < 16" "c \<noteq> 0" "\<not> isspace c" "c \<noteq> 0x2B" "c \<noteq> 0x2D" "c \<noteq> 0x78" "c \<noteq> 0x58"
proof -
  have "list_all (\<lambda>c. case hexval c of None \<Rightarrow> True
      | Some v \<Rightarrow> v < 16 \<and> c \<noteq> 0 \<and> \<not> isspace c \<and> c \<noteq> 0x2B \<and> c \<noteq> 0x2D \<and> c \<noteq> 0x78 \<and> c \<noteq> 0x58) all_bytes"
    by code_simp
  from byte_exhaust [OF this, of c] assms
  have *: "v < 16 \<and> c \<noteq> 0 \<and> \<not> isspace c \<and> c \<noteq> 0x2B \<and> c \<noteq> 0x2D \<and> c \<noteq> 0x78 \<and> c \<noteq> 0x58" by simp
  then show "unat v < 16" "c \<noteq> 0" "\<not> isspace c" "c \<noteq> 0x2B" "c \<noteq> 0x2D" "c \<noteq> 0x78" "c \<noteq> 0x58"
    by (simp_all add: word_less_nat_alt)
qed

lemma hex_digits_nth: "hex_digits s \<Longrightarrow> i < length s \<Longrightarrow> \<exists>v. hexval (s ! i) = Some v"
  by (auto simp: hex_digits_def list_all_iff)

lemma c_string_hex: "hex_digits s \<Longrightarrow> c_string s = s"
  unfolding c_string_def takeWhile_eq_all_conv hex_digits_def list_all_iff using hexval_cases(2) by blast

lemma scan_pair:
  assumes "hexval c = Some v" "hexval d = Some w"
  shows "scan_2X (c # d # s) = Some (16 * v + w)" "unat (16 * v + w) = 16 * unat v + unat w"
proof -
  show "scan_2X (c # d # s) = Some (16 * v + w)"
    using hexval_cases [OF assms(1)] hexval_cases [OF assms(2)] assms by (simp add: scan_2X_def c_string_def)
  have "16 * unat v + unat w < 2 ^ 8" using hexval_cases(1) [OF assms(1)] hexval_cases(1) [OF assms(2)] by simp
  then show "unat (16 * v + w) = 16 * unat v + unat w" by (simp add: unat_word_ariths)
qed

text \<open>
  The bytes that a run of digits stands for: two digits a byte, and a single last digit its
  own value.
\<close>

fun hex_pairs :: "byte list \<Rightarrow> byte list" where
  "hex_pairs (c # d # ds) = (16 * the (hexval c) + the (hexval d)) # hex_pairs ds"
| "hex_pairs [c] = [the (hexval c)]"
| "hex_pairs [] = []"

lemma length_hex_pairs: "length (hex_pairs ds) = (length ds + 1) div 2"
  by (induction ds rule: hex_pairs.induct) simp_all

lemma scan_single:
  assumes "hexval c = Some v"
  shows "scan_2X (c # 0 # s) = Some v"
  using hexval_cases [OF assms] assms by (simp add: scan_2X_def c_string_def)

text \<open>
  The loop on any run of digits: an even one ends at the zero byte, an odd one steps over it
  and goes on with the memory behind.
\<close>

lemma blit_Cons:
  assumes "Suc k + length bs \<le> length buf"
  shows "blit (buf[k := b]) (Suc k) bs = blit buf k (b # bs)"
  using assms by (simp add: blit_def take_Suc_conv_app_nth take_update_swap list_update_append)

lemma hex_loop_digits:
  assumes "hex_digits ds" "0 \<le> k" "k + int (length (hex_pairs ds)) \<le> buflen"
    and "nat k + length (hex_pairs ds) \<le> length keybuf"
  shows "hex_loop (ds @ 0 # m) keybuf buflen k =
    (if odd (length ds)
     then hex_loop m (blit keybuf (nat k) (hex_pairs ds)) buflen (k + int (length (hex_pairs ds)))
     else (k + int (length (hex_pairs ds)), blit keybuf (nat k) (hex_pairs ds)))"
  using assms
proof (induction ds arbitrary: k keybuf rule: hex_pairs.induct)
  case (1 c d ds)
  obtain v w where vw: "hexval c = Some v" "hexval d = Some w" "hex_digits ds"
    using 1(2) by (auto simp: hex_digits_def)
  have k: "nat (k + 1) = Suc (nat k)" using 1(3) by simp
  have "hex_loop ((c # d # ds) @ 0 # m) keybuf buflen k =
      hex_loop (ds @ 0 # m) (keybuf[nat k := 16 * v + w]) buflen (k + 1)"
    using 1(4) scan_pair(1) [OF vw(1,2)] by (subst hex_loop.simps) simp
  moreover have "blit (keybuf[nat k := 16 * v + w]) (nat (k + 1)) (hex_pairs ds) =
      blit keybuf (nat k) (hex_pairs (c # d # ds))"
    using 1(5) vw unfolding k by (simp add: blit_Cons)
  ultimately show ?case
    using 1(1) [OF vw(3), of "k + 1" "keybuf[nat k := 16 * v + w]"] 1(3-5) by (simp add: k add.assoc)
next
  case (2 c)
  then obtain v where v: "hexval c = Some v" by (auto simp: hex_digits_def)
  have "keybuf[nat k := v] = blit keybuf (nat k) [v]"
    using 2(4) by (simp add: blit_def upd_conv_take_nth_drop)
  then show ?case using 2 v scan_single [OF v] by (subst hex_loop.simps) simp
next
  case 3
  then show ?case by (simp add: hex_loop.simps scan_nul blit_def)
qed

lemma hex_text_snoc: "hex_text (bs @ [b]) = hex_text bs @ [hexdigit (drop_bit 4 b), hexdigit (b AND 15)]"
  by (simp add: hex_text_def)

lemma digest_to_text_hex:
  assumes "65 \<le> length txt" "32 \<le> length digest"
  shows "Acudora_digest_to_text txt digest = hex_text (take 32 digest) @ 0 # drop 65 txt"
proof -
  have "0 < n \<Longrightarrow> n \<le> 32 \<Longrightarrow>
    foldl (\<lambda>txt ix. sprintf_02x txt (2 * ix) (digest ! ix)) txt [0..<n] =
      hex_text (take n digest) @ 0 # drop (2 * n + 1) txt" for n
  proof (induction n)
    case (Suc n)
    have t: "hex_text (take (Suc n) digest) =
        hex_text (take n digest) @ [hexdigit (drop_bit 4 (digest ! n)), hexdigit (digest ! n AND 15)]"
      using Suc.prems assms(2) by (simp add: take_Suc_conv_app_nth hex_text_snoc)
    show ?case
    proof (cases "n = 0")
      case True
      then show ?thesis unfolding t by (simp add: sprintf_02x_def blit_def hex_text_def numeral_3_eq_3)
    next
      case False
      have "length (hex_text (take n digest)) = 2 * n" using Suc.prems assms(2) by simp
      then show ?thesis
        using Suc False assms unfolding t by (simp add: sprintf_02x_def blit_def)
    qed
  qed simp
  from this [of 32] show ?thesis by (simp add: Acudora_digest_to_text_def)
qed

section \<open>Kinds of key texts\<close>

lemma ascii_prefixes:
  "ascii ''file:'' = [0x66, 0x69, 0x6C, 0x65, 0x3A]" "ascii ''hex:'' = [0x68, 0x65, 0x78, 0x3A]"
  "ascii ''ENC'' = [0x45, 0x4E, 0x43]" "ascii ''DEC'' = [0x44, 0x45, 0x43]"
  by (simp_all add: ascii_def)

lemma parse_hex:
  "parse_keytext fs (ascii ''hex:'' @ p) keybuf buflen = hex_loop p keybuf buflen 0"
  by (simp add: parse_keytext_def ascii_prefixes)

text \<open>A key text that is neither \<open>file:\<close> nor \<open>hex:\<close>.\<close>

definition plain_key :: "byte list \<Rightarrow> bool" where
  "plain_key k \<longleftrightarrow> 0 \<notin> set k \<and> take 5 k \<noteq> ascii ''file:'' \<and> take 4 k \<noteq> ascii ''hex:''"

text \<open>A comparison of a prefix cannot succeed across the end of the string.\<close>

lemma take_nul:
  assumes "0 \<notin> set s" "take n (k @ 0 # r) = s"
  shows "take n k = s"
proof (cases "length k < n")
  case True
  then have "0 \<in> set (take n (k @ 0 # r))" by (cases "n - length k") auto
  then show ?thesis using assms by metis
qed (use assms in simp)

lemma parse_plain:
  assumes "plain_key k" "length keybuf = 512"
  shows "parse_keytext fs (k @ 0 # r) keybuf 512 = (int (min 512 (length k)), take 512 k @ drop (length k) keybuf)"
proof -
  have "c_string (k @ 0 # r) = k"
    using assms(1) by (auto simp: c_string_def plain_key_def takeWhile_tail)
  moreover have "take 5 (k @ 0 # r) \<noteq> ascii ''file:''" "take 4 (k @ 0 # r) \<noteq> ascii ''hex:''"
    using assms(1) take_nul [of "ascii ''file:''" 5 k r] take_nul [of "ascii ''hex:''" 4 k r] by (auto simp: plain_key_def ascii_prefixes)
  ultimately show ?thesis using assms(2) by (simp add: parse_keytext_def blit_def min_def)
qed

end
