(* ===== verification/Ctr3_Main.thy ===== *)
theory Ctr3_Main
  imports Ctr3 Keytext
begin

text \<open>
  \<open>main\<close> of \<open>main.cpp\<close>: arguments, files, key, and the call of \<open>encrypt_file\<close> or
  \<open>decrypt_file\<close> inside \<open>try\<close>. The process environment is a record: the arguments and the
  memory behind the last of them, the files that open for reading and their contents, the
  files that open for writing and the room they have, and the results of \<open>lseek\<close> and
  \<open>fseek\<close>. The result is the exit status and what the output file holds at the end, if it
  was opened.
\<close>

record environment =
  argv :: "byte list list"
  after_argv :: "byte list"
  fopen_rb :: "byte list \<Rightarrow> byte list option"
  fopen_wb :: "byte list \<Rightarrow> nat option"
  lseek_fails :: bool
  fseek_fails :: bool
  machine :: host

definition MODE_UNKNOWN :: int where "MODE_UNKNOWN = 0"
definition MODE_ENCRYPT :: int where "MODE_ENCRYPT = 1"
definition MODE_DECRYPT :: int where "MODE_DECRYPT = 2"

definition upcase :: "byte list \<Rightarrow> byte list" where
  "upcase str = map (\<lambda>b. if 0x61 \<le> b \<and> b \<le> 0x7A then b - 0x20 else b) str"

text \<open>\<open>strncmp (a, b, n) == 0\<close> for strings without their final zero bytes.\<close>

definition strncmp_eq :: "byte list \<Rightarrow> byte list \<Rightarrow> nat \<Rightarrow> bool" where
  "strncmp_eq a b n \<longleftrightarrow> take n (a @ [0]) = take n (b @ [0])"

definition main_mode :: "byte list \<Rightarrow> int" where
  "main_mode arg =
    (let arg = upcase arg
     in if strncmp_eq (ascii ''ENC'') arg 3 then MODE_ENCRYPT
        else if strncmp_eq (ascii ''DEC'') arg 3 then MODE_DECRYPT else MODE_UNKNOWN)"

definition ctr3_main :: "autos \<Rightarrow> aesx_static \<Rightarrow> ctr3_hmac_crypto \<Rightarrow> byte list \<Rightarrow> environment \<Rightarrow>
    int \<times> byte list option" where
  "ctr3_main A st crypto key env =
    (if length (argv env) \<noteq> 5 then (- 1, None)
     else
       let mode = main_mode (argv env ! 1)
       in if mode \<noteq> MODE_ENCRYPT \<and> mode \<noteq> MODE_DECRYPT then (- 1, None)
          else if argv env ! 2 = argv env ! 3 then (- 1, None)
          else
            case fopen_rb env (argv env ! 2) of
              None \<Rightarrow> (- 1, None)
            | Some contents \<Rightarrow>
                (case fopen_wb env (argv env ! 3) of
                   None \<Rightarrow> (- 1, None)
                 | Some space \<Rightarrow>
                     let F = \<lparr>fin = contents, fout = [], room = space\<rparr>;
                         (keylen, key) = parse_keytext (fopen_rb env) (argv env ! 4 @ 0 # after_argv env) key 512
                     in if keylen < 0 then (- 1, Some (fout F))
                        else if lseek_fails env then (- 1, Some (fout F))
                        else
                          let filesize = int (length contents)
                          in if fseek_fails env then (- 1, Some (fout F))
                             else
                               let (ret, F) =
                                 (if mode = MODE_ENCRYPT
                                  then encrypt_file A (machine env) st crypto key (nat keylen) filesize F
                                  else decrypt_file A st crypto key (nat keylen) filesize F)
                               in ((case ret of Inl e \<Rightarrow> - 1 | Inr r \<Rightarrow> r), Some (fout F))))"

end
