(* ===== verification/Ctr3_Proofs.thy ===== *)
theory Ctr3_Proofs
  imports Ctr3 Twofish_Spec
begin

unbundle bit_operations_syntax

text \<open>
  What \<open>main.cpp\<close> computes, stated over byte strings: the derived keys, the block function
  of the cascade, the format of an encrypted file; and the proof that the class and the
  file loops implement it.
\<close>

section \<open>Specification\<close>

text \<open>One derived block: 8192 hashes of counter, previous digest and key.\<close>

definition kdf_digest :: "byte list \<Rightarrow> u32 \<Rightarrow> byte list \<Rightarrow> byte list" where
  "kdf_digest K c D = ((\<lambda>d. sha_digest 0 (be32 c @ d @ K)) ^^ 8192) D"

fun kdf_chain :: "byte list \<Rightarrow> nat \<Rightarrow> u32 \<Rightarrow> byte list \<Rightarrow> byte list" where
  "kdf_chain K 0 c D = []"
| "kdf_chain K (Suc n) c D = (let D' = kdf_digest K (c + 1) D in D' @ kdf_chain K n (c + 1) D')"

definition ctr3_keys :: "byte list \<Rightarrow> byte list \<Rightarrow> byte list \<Rightarrow> byte list" where
  "ctr3_keys key nonce salt = kdf_chain (key @ nonce @ salt) 4 0 (replicate 32 0)"

text \<open>
  The cascade under the derived keys: Twofish with bytes 0 to 31, AES of 28 rounds with
  bytes 32 to 63, Twofish with bytes 64 to 95.
\<close>

definition ctr3_block :: "byte list \<Rightarrow> byte list \<Rightarrow> byte list" where
  "ctr3_block K b =
    (let b = bytes_of_words (tf_cipher 4 (words_of K) (words_of b));
         b = aes_cipher 28 (key_expansion 8 28 (drop 32 K)) b
     in bytes_of_words (tf_cipher 4 (words_of (drop 64 K)) (words_of b)))"

definition ctr3_crypt :: "byte list \<Rightarrow> byte list \<Rightarrow> byte list \<Rightarrow> byte list \<Rightarrow> byte list" where
  "ctr3_crypt key nonce salt x = ctr_crypt (ctr3_block (ctr3_keys key nonce salt)) nonce 0 x"

definition ctr3_mac :: "byte list \<Rightarrow> byte list \<Rightarrow> byte list \<Rightarrow> byte list \<Rightarrow> byte list" where
  "ctr3_mac key nonce salt c = hmac_spec 0 (drop 96 (ctr3_keys key nonce salt)) (sig @ salt @ nonce @ c)"

definition ctr3_format :: "byte list \<Rightarrow> byte list \<Rightarrow> byte list \<Rightarrow> byte list \<Rightarrow> byte list" where
  "ctr3_format key nonce salt x =
    (let c = ctr3_crypt key nonce salt x in sig @ salt @ nonce @ c @ ctr3_mac key nonce salt c)"

section \<open>Big-endian numbers\<close>

lemma ucast_and_255: "ucast (w AND 255 :: u32) = (ucast w :: byte)"
proof -
  have "w AND 255 = take_bit 8 w" by (simp add: take_bit_eq_mask mask_eq_exp_minus_1)
  then show ?thesis by (simp only:) (rule bit_word_eqI, auto simp: bit_simps)
qed

lemma convert_be32:
  assumes "4 \<le> length dst"
  shows "convert_int_to_nbytes v dst 4 = be32 v @ drop 4 dst"
proof -
  obtain a b c d r where "dst = a # b # c # d # r"
  proof -
    have "Suc (Suc (Suc (Suc 0))) \<le> length dst" using assms by simp
    then show ?thesis using that by (auto simp: Suc_le_length_iff)
  qed
  then show ?thesis
    by (simp add: numeral_eq_Suc be32_def ucast_and_255 [simplified numeral_eq_Suc])
qed

section \<open>Key derivation\<close>

lemma kdf_round_digest:
  assumes "sha2_wf s" "length d = 32" "length cb = 4" "n < 2 ^ 31" "n \<le> length key"
  obtains s' where "kdf_round cb key n (s, d) = (s', sha_digest 0 (cb @ d @ take n key))" "sha2_wf s'"
proof -
  define a where "a = sha2_update (sha2_starts s 0) cb 4"
  define b where "b = sha2_update a d 32"
  define c where "c = sha2_update b key (int n)"
  have "sha2_rep 0 cb a" using sh.rep_start_update [OF assms(1), of cb 0] assms(3) by (simp add: a_def)
  then have "sha2_rep 0 (cb @ d) b" using sh.rep_update_all [of 0 cb a d] assms(2) by (simp add: b_def)
  then have c: "sha2_rep 0 (cb @ d @ take n key) c"
    using sh.rep_update [of 0 "cb @ d" b "int n" key] assms(4,5) by (simp add: c_def)
  have "kdf_round cb key n (s, d) = sha2_finish c d" by (simp add: kdf_round_def a_def b_def c_def Let_def)
  moreover have "snd (sha2_finish c d) = sha_digest 0 (cb @ d @ take n key)"
    using sh.finish_digest [OF c, of d] assms(2) by (simp add: length_sha_digest digest_length_def)
  ultimately show ?thesis using that sh.finish_wf [OF c, of d] by (metis prod.collapse)
qed

lemma kdf_rounds_digest:
  assumes "sha2_wf s" "length d = 32" "length cb = 4" "n < 2 ^ 31" "n \<le> length key"
  shows "\<exists>s'. (kdf_round cb key n ^^ r) (s, d) = (s', ((\<lambda>d. sha_digest 0 (cb @ d @ take n key)) ^^ r) d)
    \<and> sha2_wf s' \<and> length (((\<lambda>d. sha_digest 0 (cb @ d @ take n key)) ^^ r) d) = 32"
proof (induction r)
  case 0
  show ?case using assms by simp
next
  case (Suc r)
  then obtain s' where s: "(kdf_round cb key n ^^ r) (s, d) = (s', ((\<lambda>d. sha_digest 0 (cb @ d @ take n key)) ^^ r) d)"
    "sha2_wf s'" "length (((\<lambda>d. sha_digest 0 (cb @ d @ take n key)) ^^ r) d) = 32" by blast
  obtain t where "kdf_round cb key n (s', ((\<lambda>d. sha_digest 0 (cb @ d @ take n key)) ^^ r) d) =
      (t, sha_digest 0 (cb @ ((\<lambda>d. sha_digest 0 (cb @ d @ take n key)) ^^ r) d @ take n key))" "sha2_wf t"
    by (rule kdf_round_digest [OF s(2,3) assms(3-5)])
  then show ?case using s(1) by (auto simp: length_sha_digest digest_length_def)
qed

lemma length_kdf_digest: "length D = 32 \<Longrightarrow> length (kdf_digest K c D) = 32"
proof -
  assume "length D = 32"
  then have "length (((\<lambda>d. sha_digest 0 (be32 c @ d @ K)) ^^ r) D) = 32" for r
    by (cases r) (simp_all add: length_sha_digest digest_length_def)
  then show ?thesis unfolding kdf_digest_def by blast
qed

lemma length_kdf_chain: "length D = 32 \<Longrightarrow> length (kdf_chain K n c D) = 32 * n"
  by (induction n arbitrary: c D) (simp_all add: Let_def length_kdf_digest)

lemma blocks_step:
  assumes "0 < d"
  shows "(d + 31) div 32 = Suc ((d - 32 + 31) div 32 :: nat)"
proof (cases "32 \<le> d")
  case True
  then have "d + 31 = (d - 32 + 31) + 32" by simp
  then show ?thesis by (metis div_add_self2 Suc_eq_plus1 zero_neq_numeral)
next
  case False
  then show ?thesis using assms by (simp add: div_nat_eqI)
qed

text \<open>One pass, with the counter as a natural number below \<open>2^31\<close>.\<close>

lemma kdf_loop_step:
  assumes "n < 2 ^ 31" "length cb = 4"
  shows "kdf_loop cb nbytes key keylen (int n) ctr sd dst =
    (if n < unat nbytes
     then let sd = (kdf_round (be32 (ctr + 1)) key keylen ^^ 8192) sd;
              dst = blit dst n (take (min 32 (unat nbytes - n)) (snd sd))
          in if n + 32 < 2 ^ 31 then kdf_loop (be32 (ctr + 1)) nbytes key keylen (int (n + 32)) (ctr + 1) sd dst
             else None
     else Some dst)"
proof -
  let ?w = "word_of_int (int n) :: u32"
  have w: "unat ?w = n" using assms(1) by (simp add: unat_of_nat take_bit_nat_eq_self)
  have lt: "?w < nbytes \<longleftrightarrow> n < unat nbytes" by (simp only: word_less_nat_alt w)
  show ?thesis
  proof (cases "n < unat nbytes")
    case False
    then show ?thesis by (simp add: kdf_loop.simps lt del: of_int_of_nat_eq)
  next
    case True
    have d: "unat (nbytes - ?w) = unat nbytes - n"
      using True by (subst unat_sub) (simp_all only: w word_le_nat_alt less_imp_le)
    then have u: "uint (nbytes - ?w) = int (unat nbytes - n)" by (metis uint_nat)
    have c: "(word_of_int 32 :: u32) > nbytes - ?w \<longleftrightarrow> unat nbytes - n < 32"
      by (simp only: word_less_nat_alt d) simp
    have m: "nat (if word_of_int 32 > nbytes - ?w then uint (nbytes - ?w) else 32) = min 32 (unat nbytes - n)"
      unfolding c u by simp
    have s: "int n + 32 < 2 ^ 31 \<longleftrightarrow> n + 32 < 2 ^ 31" "int n + 32 = int (n + 32)" by simp_all
    have cv: "convert_int_to_nbytes (ctr + 1) cb 4 = be32 (ctr + 1)" using assms(2) by (simp add: convert_be32)
    show ?thesis
      unfolding kdf_loop.simps [of cb nbytes key keylen "int n"] Let_def m lt s nat_int cv
      using True by simp
  qed
qed

lemma kdf_loop_chain:
  assumes "sha2_wf (fst sd)" "length (snd sd) = 32" "length cb = 4" "keylen < 2 ^ 31" "keylen \<le> length key"
    and "unat nbytes \<le> length dst" "n \<le> unat nbytes" "unat nbytes \<le> 2 ^ 31 - 32"
  shows "kdf_loop cb nbytes key keylen (int n) ctr sd dst =
    Some (take n dst @ take (unat nbytes - n) (kdf_chain (take keylen key) ((unat nbytes - n + 31) div 32) ctr (snd sd))
      @ drop (unat nbytes) dst)"
  using assms
proof (induction "unat nbytes - n" arbitrary: cb n ctr sd dst rule: less_induct)
  case less
  let ?K = "take keylen key" and ?N = "unat nbytes"
  have n31: "n < 2 ^ 31" using less.prems(7,8) by simp
  note step = kdf_loop_step [OF n31 less.prems(3)]
  show ?case
  proof (cases "n < ?N")
    case False
    then show ?thesis unfolding step using less.prems(7) by simp
  next
    case True
    obtain s where s: "(kdf_round (be32 (ctr + 1)) key keylen ^^ 8192) sd = (s, kdf_digest ?K (ctr + 1) (snd sd))"
      "sha2_wf s"
      using kdf_rounds_digest [where r = 8192, OF less.prems(1,2) length_be32 [of "ctr + 1"] less.prems(4,5)]
      unfolding kdf_digest_def by auto
    define D where "D = kdf_digest ?K (ctr + 1) (snd sd)"
    have lD: "length D = 32" unfolding D_def using less.prems(2) by (rule length_kdf_digest)
    define dst' where "dst' = blit dst n (take (min 32 (?N - n)) D)"
    have ld: "length dst' = length dst"
      using less.prems(6) lD True by (simp add: dst'_def length_blit)
    have n32: "n + 32 < 2 ^ 31" using True less.prems(8) by simp
    have unf: "kdf_loop cb nbytes key keylen (int n) ctr sd dst =
        kdf_loop (be32 (ctr + 1)) nbytes key keylen (int (n + 32)) (ctr + 1) (s, D) dst'"
      unfolding step s(1) Let_def snd_conv D_def [symmetric] dst'_def [symmetric] if_P [OF True] if_P [OF n32] ..
    have k: "(?N - n + 31) div 32 = Suc ((?N - (n + 32) + 31) div 32)"
      using True unfolding diff_diff_left [symmetric] by (intro blocks_step) simp
    have chain: "kdf_chain ?K (Suc k) ctr (snd sd) = D @ kdf_chain ?K k (ctr + 1) D" for k
      by (simp add: D_def Let_def)
    show ?thesis
    proof (cases "n + 32 \<le> ?N")
      case le: True
      have "kdf_loop (be32 (ctr + 1)) nbytes key keylen (int (n + 32)) (ctr + 1) (s, D) dst' =
          Some (take (n + 32) dst' @ take (?N - (n + 32)) (kdf_chain ?K ((?N - (n + 32) + 31) div 32) (ctr + 1) D)
            @ drop ?N dst')"
        using less.hyps [of "n + 32" "(s, D)" "be32 (ctr + 1)" dst' "ctr + 1"] True less.prems s(2) lD ld le by simp
      moreover have "take (n + 32) dst' = take n dst @ D" "drop ?N dst' = drop ?N dst"
        using less.prems(6) lD le by (simp_all add: dst'_def blit_def min_def)
      moreover have "take (?N - n) (D @ E) = D @ take (?N - (n + 32)) E" for E
        using lD le by simp
      ultimately show ?thesis unfolding unf k chain by simp
    next
      case False
      then have "kdf_loop (be32 (ctr + 1)) nbytes key keylen (int (n + 32)) (ctr + 1) (s, D) dst' = Some dst'"
        by (subst kdf_loop_step [OF n32 length_be32]) simp
      moreover have "min 32 (?N - n) = ?N - n" using False by simp
      then have "dst' = take n dst @ take (?N - n) D @ drop ?N dst"
        using True lD less.prems(6) by (simp add: dst'_def blit_def)
      moreover have "take (?N - n) (D @ E) = take (?N - n) D" for E
        using lD False by simp
      ultimately show ?thesis unfolding unf k chain by simp
    qed
  qed
qed

text \<open>Past \<open>2^31 - 32\<close> bytes the counter overflows.\<close>

lemma kdf_loop_overflow:
  assumes "length cb = 4" "n < 2 ^ 31" "32 dvd n" "2 ^ 31 - 32 < unat nbytes"
  shows "kdf_loop cb nbytes key keylen (int n) ctr sd dst = None"
  using assms
proof (induction "2 ^ 31 - n" arbitrary: cb n ctr sd dst rule: less_induct)
  case less
  have n: "n \<le> 2 ^ 31 - 32" using less.prems(2,3) by (elim dvdE) simp
  have "kdf_loop (be32 (ctr + 1)) nbytes key keylen (int (n + 32)) (ctr + 1) sd' dst' = None" if "n + 32 < 2 ^ 31"
    for sd' dst'
    by (rule less.hyps) (use less.prems that in auto)
  then show ?case
    unfolding kdf_loop_step [OF less.prems(2,1)] Let_def using less.prems(4) n by (auto simp del: of_nat_add)
qed

lemma kdf_spec:
  assumes "sha2_wf s" "length cb = 4" "keylen < 2 ^ 31" "keylen \<le> length key" "unat nbytes \<le> length dst"
  shows "kdf s cb dst nbytes key keylen =
    (if unat nbytes \<le> 2 ^ 31 - 32
     then Some (take (unat nbytes) (kdf_chain (take keylen key) ((unat nbytes + 31) div 32) 0 (replicate 32 0))
       @ drop (unat nbytes) dst)
     else None)"
  using kdf_loop_chain [of "(s, replicate 32 0)" cb keylen key nbytes dst 0 0]
    kdf_loop_overflow [of cb 0 nbytes key keylen 0 "(s, replicate 32 0)" dst] assms
  by (simp add: kdf_def)

section \<open>The cascade\<close>

definition cascade :: "aesx_static \<times> ctr3_hmac_crypto \<Rightarrow> byte list \<Rightarrow> byte list" where
  "cascade = (\<lambda>(st, C) b.
     let b = tf_enc (twofish_ctx1 C) b;
         b = fst (aesx_crypt_ecb st (aesx_ctx C) AES_ENCRYPT b b)
     in tf_enc (twofish_ctx2 C) b)"

lemma length_store_block [simp]: "length (store_block X out) = length out"
  by (simp add: store_block_def split: prod.split)

lemma length_aesx_out [simp]: "length (fst (aesx_crypt_ecb st c m b out)) = length out"
  by (simp add: aesx_crypt_ecb_def Let_def)

lemma length_tf_enc [simp]: "length b = 16 \<Longrightarrow> length (tf_enc T b) = 16"
  by (simp add: tf_enc_def)

interpretation c3: block_fun "\<lambda>_. True" cascade
  by unfold_locales (auto simp: cascade_def Let_def)

text \<open>The automatic variables have their declared sizes.\<close>

definition autos_ok :: "autos \<Rightarrow> bool" where
  "autos_ok A \<longleftrightarrow>
     length (a_kbits A) = 128 \<and> sha2_wf (a_kdf A) \<and> length (a_ctrbyts A) = 4
     \<and> length (a_me1 A) = 4 \<and> length (a_mo1 A) = 4 \<and> length (a_pow A) = 256 \<and> length (a_log A) = 256
     \<and> length (a_me2 A) = 4 \<and> length (a_mo2 A) = 4 \<and> sha2_wf (a_hctx A) \<and> length (a_sum A) = 32
     \<and> length (a_tmpv A) = 16 \<and> length (a_tmpbuf A) = 32 \<and> length (a_digest A) = 32
     \<and> length (a_buffer A) = 32 \<and> length (a_salt A) = 16 \<and> length (a_nonce A) = 16"

lemma cleared_ok: "tf_ok cleared_tf" "length (buf cleared_aesx) = 128" "sha2_wf cleared_sha"
  by (simp_all add: tf_ok_def cleared_tf_def cleared_aesx_def sha2_wf_def cleared_sha_def)

lemma aesx_256_cipher:
  assumes "aesx_static_ok st" "length p = 256" "length l = 256" "32 \<le> length key" "length (buf ctx) = 128"
  obtains st' c where "aesx_setkey_enc p l st ctx key 256 = (st', c, 0)" "aesx_static_ok st'"
    "\<And>b. length b = 16 \<Longrightarrow> fst (aesx_crypt_ecb st' c AES_ENCRYPT b b) = aes_cipher 28 (key_expansion 8 28 key) b"
proof -
  define c where "c = ctx\<lparr>nr := int (aesx_rounds 8), rk := 0, buf := aesx_schedule (buf ctx) key 8\<rparr>"
  have k: "8 \<in> {4, 6, 8 :: nat}" by simp
  obtain st' where st': "aesx_setkey_enc p l st ctx key (int (32 * 8)) =
      (st', ctx\<lparr>nr := int (aesx_rounds 8), rk := 0, buf := aesx_schedule (buf ctx) key 8\<rparr>, 0)"
      "tables st' = aesx_tables" "init_done st' \<noteq> 0"
    by (rule aesx_setkey_enc_schedule [OF assms(1-3) k])
  have r: "ctx_rounds c 28" by (simp add: ctx_rounds_def c_def aesx_rounds_def)
  have "filled 8 key (aesx_schedule (buf ctx) key 8) 120"
    using aesx_schedule_filled [OF k, of key "buf ctx"] assms(4,5) by simp
  then have f: "filled 8 key (buf c) (4 * (28 + 1))" by (auto simp: c_def intro: filled_mono)
  have "fst (aesx_crypt_ecb st' c AES_ENCRYPT b b) = aes_cipher 28 (key_expansion 8 28 key) b" if "length b = 16" for b
    using aes_crypt_ecb_cipher [OF aesx_tables_ok r f, of b b AES_ENCRYPT] that by (simp add: aesx_crypt_ecb_eq st'(2))
  moreover have "aesx_static_ok st'" using st'(2,3) by (simp add: aesx_static_ok_def aesx_tables_def)
  ultimately show ?thesis using that st'(1) c_def by simp
qed

definition ctr3_ready :: "byte list \<Rightarrow> byte list \<Rightarrow> byte list \<Rightarrow> aesx_static \<Rightarrow> ctr3_hmac_crypto \<Rightarrow> bool" where
  "ctr3_ready K nonce m st C \<longleftrightarrow>
     (\<forall>b. length b = 16 \<longrightarrow> cascade (st, C) b = ctr3_block K b)
     \<and> m_nonce C = nonce \<and> length nonce = 16 \<and> hmac_rep 0 (drop 96 K) m (sha_ctx C)"

lemma tf_enc_standard:
  assumes "tf_ok T" "length me = 4" "length mo = 4" "length b = 16"
  shows "tf_enc (Twofish_set_key me mo T w 256) b = bytes_of_words (tf_cipher 4 w (words_of b))"
proof -
  have k: "4 \<in> {2, 3, 4 :: nat}" by simp
  have "tf_schedule 4 w (Twofish_set_key me mo T w 256)"
    using set_key_schedule [OF assms(1) k assms(2,3), of w] by simp
  then show ?thesis unfolding tf_enc_def using assms(4) by (subst tf_encrypt_cipher) simp_all
qed

lemma ctr3_init_ready:
  assumes A: "autos_ok A" and st: "aesx_static_ok st"
    and key: "keylen \<le> length key" "keylen < 2 ^ 30" and len: "length salt = 16" "length nonce = 16"
  obtains st' C' where "ctr3_init A st C key keylen salt nonce = (st', C')" "aesx_static_ok st'"
    "ctr3_ready (ctr3_keys (take keylen key) nonce salt) nonce (sig @ salt @ nonce) st' C'" "m_ctr C' = 0"
proof -
  let ?K = "ctr3_keys (take keylen key) nonce salt"
  define T1 where "T1 = Twofish_set_key (a_me1 A) (a_mo1 A) cleared_tf (words_of ?K) 256"
  define T2 where "T2 = Twofish_set_key (a_me2 A) (a_mo2 A) cleared_tf (words_of (drop 64 ?K)) 256"
  define h where "h = sha2_hmac_starts (a_hctx A) (a_sum A) cleared_sha (drop 96 ?K) 32 0"
  define h1 where "h1 = sha2_hmac_update h sig 16"
  define h2 where "h2 = sha2_hmac_update h1 salt 16"
  define h3 where "h3 = sha2_hmac_update h2 nonce 16"
  have lK: "length ?K = 128" by (simp add: ctr3_keys_def length_kdf_chain)
  have kbits: "kdf (a_kdf A) (a_ctrbyts A) (a_kbits A) 128 (take keylen key @ nonce @ salt) (keylen + 32) = Some ?K"
    using A key len lK by (subst kdf_spec) (auto simp: autos_ok_def ctr3_keys_def min_def)
  obtain st' c where aes: "aesx_setkey_enc (a_pow A) (a_log A) st cleared_aesx (drop 32 ?K) 256 = (st', c, 0)"
      "aesx_static_ok st'"
      "\<And>b. length b = 16 \<Longrightarrow> fst (aesx_crypt_ecb st' c AES_ENCRYPT b b) = aes_cipher 28 (key_expansion 8 28 (drop 32 ?K)) b"
    by (rule aesx_256_cipher [OF st, of "a_pow A" "a_log A" "drop 32 ?K" cleared_aesx])
      (use A lK in \<open>auto simp: autos_ok_def cleared_ok\<close>)
  define C' where "C' = \<lparr>aesx_ctx = c, twofish_ctx1 = T1, twofish_ctx2 = T2, sha_ctx = h3, m_ctr = 0, m_nonce = nonce\<rparr>"
  have init: "ctr3_init A st C key keylen salt nonce = (st', C')"
    by (cases C) (simp add: ctr3_init_def Let_def len kbits clear_contexts_def aes(1) C'_def T1_def T2_def h_def h1_def h2_def h3_def)
  have "cascade (st', C') b = ctr3_block ?K b" if b: "length b = 16" for b
  proof -
    define b1 where "b1 = bytes_of_words (tf_cipher 4 (words_of ?K) (words_of b))"
    define b2 where "b2 = aes_cipher 28 (key_expansion 8 28 (drop 32 ?K)) b1"
    have 1: "tf_enc T1 b = b1"
      using tf_enc_standard [OF cleared_ok(1) _ _ b] A by (simp add: T1_def b1_def autos_ok_def)
    then have l1: "length b1 = 16" using length_tf_enc [OF b, of T1] by simp
    have 2: "fst (aesx_crypt_ecb st' c AES_ENCRYPT b1 b1) = b2" unfolding b2_def using l1 by (rule aes(3))
    then have l2: "length b2 = 16" using l1 length_aesx_out by metis
    have "tf_enc T2 b2 = bytes_of_words (tf_cipher 4 (words_of (drop 64 ?K)) (words_of b2))"
      using tf_enc_standard [OF cleared_ok(1) _ _ l2] A by (simp add: T2_def autos_ok_def)
    then show ?thesis
      by (simp add: cascade_def ctr3_block_def Let_def C'_def 1 2 b1_def [symmetric] b2_def [symmetric])
  qed
  moreover have "hmac_rep 0 (drop 96 ?K) (sig @ salt @ nonce) h3"
  proof -
    have "hmac_rep 0 (drop 96 ?K) [] h"
      using hmac_rep_starts [of cleared_sha "a_hctx A" "a_sum A" "drop 96 ?K" 0] A lK
      by (simp add: h_def autos_ok_def cleared_ok)
    then have "hmac_rep 0 (drop 96 ?K) sig h1"
      using hmac_rep_update [of 0 "drop 96 ?K" "[]" h 16 sig] by (simp add: h1_def sig_def)
    then have "hmac_rep 0 (drop 96 ?K) (sig @ salt) h2"
      using hmac_rep_update [of 0 "drop 96 ?K" sig h1 16 salt] len by (simp add: h2_def)
    then show ?thesis
      using hmac_rep_update [of 0 "drop 96 ?K" "sig @ salt" h2 16 nonce] len by (simp add: h3_def)
  qed
  ultimately have "ctr3_ready ?K nonce (sig @ salt @ nonce) st' C'"
    by (simp add: ctr3_ready_def C'_def len)
  then show ?thesis using that [OF init aes(2)] by (simp add: C'_def)
qed

section \<open>Blocks in place\<close>

lemma encrypt_decrypt_block:
  assumes C: "ctr3_ready K nonce m st C" and len: "length tmpv = 16" "n \<le> 16" "n \<le> length data"
  shows "encrypt_decrypt_in_place tmpv st C data n =
    (C\<lparr>m_ctr := m_ctr C + 1\<rparr>,
     xor_bytes (take n data) (ctr3_block K (ctr_block nonce (m_ctr C + 1))) @ drop n data)"
proof -
  let ?b = "ctr_block nonce (m_ctr C + 1)"
  have n: "m_nonce C = nonce" "length nonce = 16" using C by (simp_all add: ctr3_ready_def)
  have t: "blit (blit tmpv 0 (take 12 nonce)) 12
      (convert_int_to_nbytes (m_ctr C + 1) (drop 12 (blit tmpv 0 (take 12 nonce))) 4) = ?b"
    using len(1) n(2) by (simp add: convert_be32 blit_def ctr_block_def)
  have b: "length ?b = 16" using n by (simp add: ctr_block_def)
  have c: "ctr3_block K ?b = cascade (st, C) ?b" using C b by (simp add: ctr3_ready_def)
  then have "length (ctr3_block K ?b) = 16" using b c3.length_enc by simp
  then show ?thesis
    using len(2,3) by (simp add: encrypt_decrypt_in_place_def Let_def n t xor_loop c cascade_def)
qed

lemma ctr3_ready_frame:
  "ctr3_ready K nonce m st (C\<lparr>m_ctr := c\<rparr>) = ctr3_ready K nonce m st C"
  "hmac_rep 0 (drop 96 K) m' h \<Longrightarrow> ctr3_ready K nonce m st C \<Longrightarrow> ctr3_ready K nonce m' st (C\<lparr>sha_ctx := h\<rparr>)"
  by (simp_all add: ctr3_ready_def cascade_def Let_def)

text \<open>
  What the file loop needs of a member function: the bytes are xored with the next
  keystream block and some bytes \<open>upd\<close> of old and new contents are authenticated.
\<close>

definition crypt_op :: "byte list \<Rightarrow> byte list \<Rightarrow> aesx_static \<Rightarrow> (byte list \<Rightarrow> byte list \<Rightarrow> byte list) \<Rightarrow>
    (ctr3_hmac_crypto \<Rightarrow> byte list \<Rightarrow> nat \<Rightarrow> ctr3_hmac_crypto \<times> byte list) \<Rightarrow> bool" where
  "crypt_op K nonce st upd op \<longleftrightarrow>
     (\<forall>C data n m. ctr3_ready K nonce m st C \<and> n \<le> 16 \<and> n \<le> length data \<longrightarrow>
       (let y = xor_bytes (take n data) (ctr3_block K (ctr_block nonce (m_ctr C + 1)))
        in \<exists>C'. op C data n = (C', y @ drop n data) \<and> ctr3_ready K nonce (m @ upd (take n data) y) st C'
          \<and> m_ctr C' = m_ctr C + 1))"

lemma length_ctr3_block:
  assumes "ctr3_ready K nonce m st C"
  shows "length (ctr3_block K (ctr_block nonce c)) = 16"
proof -
  have "length nonce = 16" using assms by (simp add: ctr3_ready_def)
  then have b: "length (ctr_block nonce c) = 16" by (simp add: ctr_block_def)
  then show ?thesis using assms c3.length_enc [OF TrueI b, of "(st, C)"] by (simp add: ctr3_ready_def)
qed

lemma encrypt_in_place_op:
  assumes "length tmpv = 16"
  shows "crypt_op K nonce st (\<lambda>x y. y) (encrypt_in_place tmpv st)"
  unfolding crypt_op_def
proof (intro allI impI, elim conjE)
  fix C and data :: "byte list" and n m
  assume C: "ctr3_ready K nonce m st C" and n: "n \<le> 16" "n \<le> length data"
  let ?x = "xor_bytes (take n data) (ctr3_block K (ctr_block nonce (m_ctr C + 1)))"
  let ?C = "C\<lparr>m_ctr := m_ctr C + 1\<rparr>"
  have l: "length ?x = n" using length_ctr3_block [OF C] n by simp
  have r: "hmac_rep 0 (drop 96 K) m (sha_ctx ?C)" using C by (simp add: ctr3_ready_def)
  have "hmac_rep 0 (drop 96 K) (m @ ?x) (sha2_hmac_update (sha_ctx ?C) (?x @ drop n data) (int n))"
    using hmac_rep_update [OF r, of "int n" "?x @ drop n data"] l n by simp
  then have "ctr3_ready K nonce (m @ ?x) st
      (?C\<lparr>sha_ctx := sha2_hmac_update (sha_ctx ?C) (?x @ drop n data) (int n)\<rparr>)"
    using C by (intro ctr3_ready_frame(2)) (simp_all add: ctr3_ready_frame(1))
  then show "let y = ?x in \<exists>C'. encrypt_in_place tmpv st C data n = (C', y @ drop n data)
      \<and> ctr3_ready K nonce (m @ y) st C' \<and> m_ctr C' = m_ctr C + 1"
    by (simp add: encrypt_in_place_def encrypt_decrypt_block [OF C assms n])
qed

lemma decrypt_in_place_op:
  assumes "length tmpv = 16"
  shows "crypt_op K nonce st (\<lambda>x y. x) (decrypt_in_place tmpv st)"
  unfolding crypt_op_def
proof (intro allI impI, elim conjE)
  fix C and data :: "byte list" and n m
  assume C: "ctr3_ready K nonce m st C" and n: "n \<le> 16" "n \<le> length data"
  let ?C = "C\<lparr>sha_ctx := sha2_hmac_update (sha_ctx C) data (int n)\<rparr>"
  have "hmac_rep 0 (drop 96 K) (m @ take n data) (sha2_hmac_update (sha_ctx C) data (int n))"
    using C n hmac_rep_update [of 0 "drop 96 K" m "sha_ctx C" "int n" data] by (simp add: ctr3_ready_def)
  then have r: "ctr3_ready K nonce (m @ take n data) st ?C" using C by (rule ctr3_ready_frame(2))
  show "let y = xor_bytes (take n data) (ctr3_block K (ctr_block nonce (m_ctr C + 1)))
      in \<exists>C'. decrypt_in_place tmpv st C data n = (C', y @ drop n data)
        \<and> ctr3_ready K nonce (m @ take n data) st C' \<and> m_ctr C' = m_ctr C + 1"
    using encrypt_decrypt_block [OF r assms n] r by (simp add: decrypt_in_place_def ctr3_ready_frame(1))
qed

section \<open>The file loop\<close>

text \<open>The bytes authenticated for data \<open>x\<close>: for both functions the ciphertext.\<close>

lemma length_ctr_crypt3:
  assumes "ctr3_ready K nonce m st C"
  shows "length (ctr_crypt (ctr3_block K) nonce c x) = length x"
proof -
  have n: "12 \<le> length nonce" and e: "\<And>b. length b = 16 \<Longrightarrow> ctr3_block K b = cascade (st, C) b"
    using assms by (auto simp: ctr3_ready_def)
  show ?thesis
    using c3.length_ctr_crypt [OF TrueI n] ctr_crypt_cong [of "ctr3_block K" "cascade (st, C)", OF e n] by simp
qed

lemma ctr_crypt3_twice:
  assumes "ctr3_ready K nonce m st C"
  shows "ctr_crypt (ctr3_block K) nonce c (ctr_crypt (ctr3_block K) nonce c x) = x"
proof -
  have n: "12 \<le> length nonce" and e: "\<And>b. length b = 16 \<Longrightarrow> ctr3_block K b = cascade (st, C) b"
    using assms by (auto simp: ctr3_ready_def)
  show ?thesis
    using c3.ctr_crypt_twice [OF TrueI n] ctr_crypt_cong [of "ctr3_block K" "cascade (st, C)", OF e n] by simp
qed

lemma file_loop_run:
  assumes op: "crypt_op K nonce st upd op" and upd: "\<And>a b x y. length a = length b \<Longrightarrow> upd (a @ x) (b @ y) = upd a b @ upd x y"
    and nil: "upd [] [] = []"
    and "ctr3_ready K nonce m st C" "16 \<le> length bf" "fin F = x @ rest" "length x = nat (filesize - offset)"
  shows "let y = ctr_crypt (ctr3_block K) nonce (m_ctr C) x in
    if length x \<le> room F
    then \<exists>C' bf'. file_loop op filesize offset C bf F =
        (Inr (C', bf'), \<lparr>fin = rest, fout = fout F @ y, room = room F - length x\<rparr>)
      \<and> ctr3_ready K nonce (m @ upd x y) st C' \<and> length bf' = length bf
    else \<exists>F'. file_loop op filesize offset C bf F = (Inl Must_write, F') \<and> fout F' = fout F @ take (room F) y"
  using assms(4-7)
proof (induction "length x" arbitrary: x m C bf F offset rule: less_induct)
  case less
  show ?case
  proof (cases "offset < filesize")
    case False
    then have "x = []" using less.prems(4) by simp
    then show ?thesis
      using False less.prems by (cases F) (simp add: file_loop.simps ctr_crypt.simps nil)
  next
    case True
    define n where "n = min 16 (length x)"
    have n: "n \<le> 16" "n \<le> length x" "0 < n" using True less.prems(4) by (auto simp: n_def)
    have ni: "(if filesize - offset > 16 then 16 else filesize - offset) = int n"
      using True less.prems(4) by (auto simp: n_def)
    let ?F = "F\<lparr>fin := drop n x @ rest\<rparr>"
    let ?b = "blit bf 0 (take n x)"
    have read: "must_fread bf (int n) F = (Inr ?b, ?F)"
      using less.prems(3) n by (simp add: must_fread_ok)
    have b: "take n ?b = take n x" "length ?b = length bf" using n less.prems(2) by (simp_all add: blit_def)
    define y1 where "y1 = xor_bytes (take n x) (ctr3_block K (ctr_block nonce (m_ctr C + 1)))"
    have nb: "n \<le> length ?b" using n less.prems(2) b(2) by simp
    have ly: "length y1 = n" unfolding y1_def using n length_ctr3_block [OF less.prems(1)] by simp
    obtain C1 where C1: "op C ?b n = (C1, y1 @ drop n ?b)" "ctr3_ready K nonce (m @ upd (take n x) y1) st C1"
      "m_ctr C1 = m_ctr C + 1"
      using op [unfolded crypt_op_def, rule_format, of m C n ?b] less.prems(1) n(1) nb by (auto simp: Let_def b(1) y1_def)
    have cc: "ctr_crypt (ctr3_block K) nonce (m_ctr C) x = y1 @ ctr_crypt (ctr3_block K) nonce (m_ctr C + 1) (drop n x)"
    proof -
      have "take 16 x = take n x" "drop 16 x = drop n x" by (simp_all add: n_def min_def)
      moreover have "x \<noteq> []" using n by auto
      ultimately show ?thesis by (simp add: ctr_crypt.simps [of _ _ "m_ctr C"] y1_def)
    qed
    let ?bf = "y1 @ drop n ?b"
    have unf: "file_loop op filesize offset C bf F =
        (case must_fwrite ?bf (int n) ?F of (Inl e, F) \<Rightarrow> (Inl e, F)
         | (Inr u, F) \<Rightarrow> file_loop op filesize (offset + 16) C1 ?bf F)"
      using True by (subst file_loop.simps) (simp add: Let_def ni read C1(1) del: append_assoc cong: if_cong)
    show ?thesis
    proof (cases "n \<le> room F")
      case False
      then have "must_fwrite ?bf (int n) ?F = (Inl Must_write, ?F\<lparr>fout := fout F @ take (room F) ?bf, room := 0\<rparr>)"
        using ly nb by (subst must_fwrite_full) simp_all
      then show ?thesis using False n ly unfolding unf cc by (simp add: Let_def)
    next
      case room: True
      let ?G = "?F\<lparr>fout := fout F @ y1, room := room F - n\<rparr>"
      have w: "must_fwrite ?bf (int n) ?F = (Inr (), ?G)"
        using room ly nb by (subst must_fwrite_ok) simp_all
      have lx: "length (drop n x) = nat (filesize - (offset + 16))" using less.prems(4) by (auto simp: n_def)
      have ll: "length ?bf = length bf" using ly nb b(2) by simp
      have IH: "let y = ctr_crypt (ctr3_block K) nonce (m_ctr C1) (drop n x) in
          if length (drop n x) \<le> room ?G
          then \<exists>C' bf'. file_loop op filesize (offset + 16) C1 ?bf ?G =
              (Inr (C', bf'), \<lparr>fin = rest, fout = fout ?G @ y, room = room ?G - length (drop n x)\<rparr>)
            \<and> ctr3_ready K nonce ((m @ upd (take n x) y1) @ upd (drop n x) y) st C' \<and> length bf' = length ?bf
          else \<exists>F'. file_loop op filesize (offset + 16) C1 ?bf ?G = (Inl Must_write, F') \<and> fout F' = fout ?G @ take (room ?G) y"
        by (rule less.hyps [OF _ C1(2) _ _ lx]) (use n ll less.prems(2) in simp_all)
      have u: "upd x (y1 @ z) = upd (take n x) y1 @ upd (drop n x) z" for z
        using upd [of "take n x" y1 "drop n x" z] ly n by simp
      have c: "length (drop n x) \<le> room ?G \<longleftrightarrow> length x \<le> room F"
        "room ?G - length (drop n x) = room F - length x" using n room by auto
      show ?thesis
      proof (cases "length x \<le> room F")
        case True
        then show ?thesis using IH unfolding unf w cc u Let_def c ll by (simp add: C1(3))
      next
        case False
        then have "take (room F) (y1 @ z) = y1 @ take (room F - n) z" for z using room ly by simp
        then show ?thesis using IH False unfolding unf w cc Let_def c by (simp add: C1(3))
      qed
    qed
  qed
qed

end
