(* ===== verification/Ctr3_Props.thy ===== *)
theory Ctr3_Props
  imports Ctr3_Proofs
begin

unbundle bit_operations_syntax

text \<open>
  The properties of the file encryptor \<open>main.cpp\<close>. They hold for all contents of the
  automatic variables, all keys, salts and clocks, and every amount of room in the output.
\<close>

section \<open>The two file functions\<close>

lemma must_fwrite_all:
  "must_fwrite b n F =
    (if nat n \<le> room F then (Inr (), F\<lparr>fout := fout F @ take (nat n) b, room := room F - nat n\<rparr>)
     else (Inl Must_write, F\<lparr>fout := fout F @ take (room F) b, room := 0\<rparr>))"
  if "nat n \<le> length b" "0 \<le> n"
  using that by (simp add: must_fwrite_ok must_fwrite_full)

lemma finish_encrypt_mac:
  assumes C: "ctr3_ready K nonce m st C" and "length K = 128" "length tmp = 32" "32 \<le> length bf"
  shows "snd (finish_encrypt tmp C bf) = hmac_spec 0 (drop 96 K) m @ drop 32 bf"
proof -
  have "hmac_rep 0 (drop 96 K) m (sha_ctx C)" using C by (simp add: ctr3_ready_def)
  then obtain c where c: "sha2_hmac_finish tmp (sha_ctx C) bf = sha2_finish c bf"
    "sha2_rep 0 (hmac_pad 0 (drop 96 K) 0x5C @ sha_digest 0 (hmac_pad 0 (drop 96 K) 0x36 @ m)) c"
    by (metis hmac_finish_outer assms(3))
  from sh.finish_digest [OF c(2) assms(4)] show ?thesis
    by (simp add: finish_encrypt_def case_prod_unfold c(1) hmac_spec_def length_sha_digest digest_length_def)
qed

lemma length_hmac_0: "length (hmac_spec 0 K m) = 32"
  by (simp add: hmac_spec_def length_sha_digest digest_length_def)

lemma length_ctr3_keys: "length (ctr3_keys key nonce salt) = 128"
  by (simp add: ctr3_keys_def length_kdf_chain)

lemma length_sig [simp]: "length sig = 16"
  by (simp add: sig_def)

lemma drbg_ok:
  "urandom h = Some r \<Longrightarrow> 16 \<le> length r \<Longrightarrow> length dst = 16 \<Longrightarrow> drbg h dst 16 = Inr (take 16 r)"
  by (simp add: drbg_def must_fread_ok blit_def)

definition nonce_of :: "host \<Rightarrow> byte list" where
  "nonce_of h = be32 (tv_sec h) @ be32 (tv_usec h) @ replicate 8 0"

lemma make_nonce_16: "length dst = 16 \<Longrightarrow> make_nonce h dst 16 = nonce_of h"
  by (simp add: make_nonce_def Let_def convert_be32 blit_def nonce_of_def)

lemma encrypt_file_run:
  assumes A: "autos_ok A" and st: "aesx_static_ok st" and h: "urandom h = Some r" "16 \<le> length r"
    and key: "keylen \<le> length key" "keylen < 2 ^ 30" and x: "filesize = int (length (fin F))"
  shows "let f = ctr3_format (take keylen key) (nonce_of h) (take 16 r) (fin F)
    in if length f \<le> room F
       then encrypt_file A h st C key keylen filesize F =
         (Inr 0, \<lparr>fin = [], fout = fout F @ f, room = room F - length f\<rparr>)
       else \<exists>F'. encrypt_file A h st C key keylen filesize F = (Inl Must_write, F')
         \<and> fout F' = fout F @ take (room F) f"
proof -
  define salt where "salt = take 16 r"
  define nonce where "nonce = nonce_of h"
  define K where "K = ctr3_keys (take keylen key) nonce salt"
  define y where "y = ctr_crypt (ctr3_block K) nonce 0 (fin F)"
  define mac where "mac = hmac_spec 0 (drop 96 K) (sig @ salt @ nonce @ y)"
  have len: "length salt = 16" "length nonce = 16" using h by (simp_all add: salt_def nonce_def nonce_of_def)
  obtain st' C' where init: "ctr3_init A st C key keylen salt nonce = (st', C')"
      "ctr3_ready K nonce (sig @ salt @ nonce) st' C'" "m_ctr C' = 0"
    by (rule ctr3_init_ready [OF A st key len]) (simp add: K_def)
  have f: "ctr3_format (take keylen key) nonce salt (fin F) = sig @ salt @ nonce @ y @ mac"
    by (simp add: ctr3_format_def ctr3_crypt_def ctr3_mac_def y_def mac_def K_def Let_def)
  have ly: "length y = length (fin F)" unfolding y_def by (rule length_ctr_crypt3 [OF init(2)])
  have lm: "length mac = 32" by (simp add: mac_def length_hmac_0)
  have salt: "drbg h (a_salt A) 16 = Inr salt" and nonce: "make_nonce h (a_nonce A) 16 = nonce"
    using A h by (simp_all add: autos_ok_def drbg_ok make_nonce_16 salt_def nonce_def)
  define G where "G = F\<lparr>fout := fout F @ sig @ salt @ nonce, room := room F - 48\<rparr>"
  have op: "crypt_op K nonce st' (\<lambda>x y. y) (encrypt_in_place (a_tmpv A) st')"
    using A by (intro encrypt_in_place_op) (simp add: autos_ok_def)
  have bf: "16 \<le> length (a_buffer A)" "length (a_buffer A) = 32" "length (a_tmpbuf A) = 32"
    using A by (simp_all add: autos_ok_def)
  have loop: "if length (fin F) \<le> room G
      then \<exists>C1 bf'. encrypt_loop (a_tmpv A) st' filesize 0 C' (a_buffer A) G =
          (Inr (C1, bf'), \<lparr>fin = [], fout = fout G @ y, room = room G - length (fin F)\<rparr>)
        \<and> ctr3_ready K nonce ((sig @ salt @ nonce) @ y) st' C1 \<and> length bf' = length (a_buffer A)
      else \<exists>F'. encrypt_loop (a_tmpv A) st' filesize 0 C' (a_buffer A) G = (Inl Must_write, F')
        \<and> fout F' = fout G @ take (room G) y"
    unfolding encrypt_loop_def y_def init(3) [symmetric]
    by (rule file_loop_run [OF op _ _ init(2) bf(1), of G "fin F" "[]" filesize 0, unfolded Let_def])
      (simp_all add: G_def x)
  show ?thesis
  proof (cases "48 \<le> room F")
    case False
    then show ?thesis
      unfolding salt_def [symmetric] nonce_def [symmetric] f
      by (simp add: encrypt_file_def salt nonce init(1) must_fwrite_all len Let_def)
  next
    case True
    have head: "encrypt_file A h st C key keylen filesize F =
        (case encrypt_loop (a_tmpv A) st' filesize 0 C' (a_buffer A) G of
           (Inl e, F) \<Rightarrow> (Inl e, F)
         | (Inr (crypto, bytes32), F) \<Rightarrow>
             let (crypto, bytes32) = finish_encrypt (a_tmpbuf A) crypto bytes32
             in case must_fwrite bytes32 32 F of (Inl e, F) \<Rightarrow> (Inl e, F) | (Inr u, F) \<Rightarrow> (Inr 0, F))"
    proof -
      have "16 \<le> room F" "16 \<le> room F - 16" "16 \<le> room F - 32" using True by simp_all
      then show ?thesis by (simp add: encrypt_file_def salt nonce init(1) must_fwrite_all len G_def)
    qed
    show ?thesis
    proof (cases "length (fin F) \<le> room G")
      case False
      then show ?thesis
        using loop True unfolding head salt_def [symmetric] nonce_def [symmetric] f
        by (auto simp: G_def len ly Let_def)
    next
      case fits: True
      then obtain C1 bf' where r: "encrypt_loop (a_tmpv A) st' filesize 0 C' (a_buffer A) G =
          (Inr (C1, bf'), \<lparr>fin = [], fout = fout G @ y, room = room G - length (fin F)\<rparr>)"
        "ctr3_ready K nonce ((sig @ salt @ nonce) @ y) st' C1" "length bf' = 32"
        using loop bf(2) by auto
      have m: "snd (finish_encrypt (a_tmpbuf A) C1 bf') = mac"
        using finish_encrypt_mac [OF r(2) _ bf(3), of bf'] r(3) by (simp add: mac_def K_def length_ctr3_keys)
      show ?thesis
        unfolding head r(1) salt_def [symmetric] nonce_def [symmetric] f
        using True fits lm by (auto simp: m case_prod_unfold Let_def must_fwrite_all G_def len ly)
    qed
  qed
qed

text \<open>A byte loop that stops at the first difference.\<close>

lemma bytes_differ:
  "length a = n \<Longrightarrow> n \<le> length b \<Longrightarrow> (\<exists>i \<in> set [0..<n]. b ! i \<noteq> a ! i) \<longleftrightarrow> take n b \<noteq> a"
  using list_eq_iff_nth_eq [of "take n b" a] by auto

lemma decrypt_file_run:
  assumes A: "autos_ok A" and st: "aesx_static_ok st" and key: "keylen \<le> length key" "keylen < 2 ^ 30"
    and len: "length salt = 16" "length nonce = 16" "length mac = 32"
    and F: "fin F = sig @ salt @ nonce @ y @ mac" "length y \<le> room F"
  shows "decrypt_file A st C key keylen (int (length (fin F))) F =
    ((if mac = ctr3_mac (take keylen key) nonce salt y then Inr 0 else Inl HMAC_failure),
     \<lparr>fin = [], fout = fout F @ ctr3_crypt (take keylen key) nonce salt y, room = room F - length y\<rparr>)"
proof -
  define K where "K = ctr3_keys (take keylen key) nonce salt"
  define x where "x = ctr_crypt (ctr3_block K) nonce 0 y"
  obtain st' C' where init: "ctr3_init A st C key keylen salt nonce = (st', C')"
      "ctr3_ready K nonce (sig @ salt @ nonce) st' C'" "m_ctr C' = 0"
    by (rule ctr3_init_ready [OF A st key len(1,2)]) (simp add: K_def)
  have a: "length (a_buffer A) = 32" "length (a_salt A) = 16" "length (a_nonce A) = 16"
    "length (a_digest A) = 32" "length (a_tmpbuf A) = 32" "length (a_tmpv A) = 16"
    using A by (simp_all add: autos_ok_def)
  have op: "crypt_op K nonce st' (\<lambda>x y. x) (decrypt_in_place (a_tmpv A) st')"
    by (rule decrypt_in_place_op) (rule a(6))
  define G where "G = F\<lparr>fin := y @ mac\<rparr>"
  define bf where "bf = blit (a_buffer A) 0 sig"
  have bf: "length bf = 32" "take 16 bf = sig" using a(1) by (simp_all add: bf_def blit_def)
  have size: "int (length (fin F)) = 3 * 16 + 32 + int (length y)" using len by (simp add: F)
  have y: "length y = nat (int (length (fin F)) - (3 * 16 + 32))" unfolding size by simp
  have b16: "16 \<le> length bf" by (simp add: bf)
  have loop: "if length y \<le> room G
      then \<exists>C1 bf'. decrypt_loop (a_tmpv A) st' (int (length (fin F))) (3 * 16 + 32) C' bf G =
          (Inr (C1, bf'), \<lparr>fin = mac, fout = fout G @ x, room = room G - length y\<rparr>)
        \<and> ctr3_ready K nonce ((sig @ salt @ nonce) @ y) st' C1 \<and> length bf' = length bf
      else \<exists>F'. decrypt_loop (a_tmpv A) st' (int (length (fin F))) (3 * 16 + 32) C' bf G = (Inl Must_write, F')
        \<and> fout F' = fout G @ take (room G) x"
    unfolding decrypt_loop_def x_def init(3) [symmetric]
    by (rule file_loop_run [OF op _ _ init(2) b16 _ y, unfolded Let_def]) (simp_all add: G_def)
  then obtain C1 bf' where r: "decrypt_loop (a_tmpv A) st' (int (length (fin F))) (3 * 16 + 32) C' bf G =
      (Inr (C1, bf'), \<lparr>fin = mac, fout = fout F @ x, room = room F - length y\<rparr>)"
    "ctr3_ready K nonce ((sig @ salt @ nonce) @ y) st' C1" "length bf' = 32"
    using F(2) bf(1) by (auto simp: G_def)
  have same: "\<not> (\<exists>i \<in> set [0..<16]. bf ! i \<noteq> sig ! i)" using bytes_differ [of sig 16 bf] bf by simp
  have head: "decrypt_file A st C key keylen (int (length (fin F))) F =
      (case decrypt_loop (a_tmpv A) st' (int (length (fin F))) (3 * 16 + 32) C' bf G of
         (Inl e, F) \<Rightarrow> (Inl e, F)
       | (Inr (crypto, bytes32), F) \<Rightarrow>
           (case must_fread bytes32 32 F of
              (Inl e, F) \<Rightarrow> (Inl e, F)
            | (Inr bytes32, F) \<Rightarrow>
                (case finish_decrypt (a_digest A) (a_tmpbuf A) crypto bytes32 of
                   Inl e \<Rightarrow> (Inl e, F) | Inr crypto \<Rightarrow> (Inr 0, F))))"
  proof -
    have r1: "must_fread (a_buffer A) 16 F = (Inr bf, F\<lparr>fin := salt @ nonce @ y @ mac\<rparr>)"
      by (simp add: must_fread_ok F len bf_def)
    have r2: "must_fread (a_salt A) 16 (F\<lparr>fin := salt @ nonce @ y @ mac\<rparr>) = (Inr salt, F\<lparr>fin := nonce @ y @ mac\<rparr>)"
      using a(2) len by (simp add: must_fread_ok blit_def)
    have r3: "must_fread (a_nonce A) 16 (F\<lparr>fin := nonce @ y @ mac\<rparr>) = (Inr nonce, G)"
      using a(3) len by (simp add: must_fread_ok blit_def G_def)
    have "\<not> int (length (fin F)) < 3 * 16 + 32" unfolding size by simp
    then show ?thesis
      unfolding decrypt_file_def r1 by (simp only: if_False prod.case sum.case same r2 r3 init(1) Let_def)
  qed
  have m: "snd (finish_encrypt (a_tmpbuf A) C1 (a_digest A)) = ctr3_mac (take keylen key) nonce salt y"
    using finish_encrypt_mac [OF r(2) _ a(5), of "a_digest A"] a(4)
    by (simp add: ctr3_mac_def K_def length_ctr3_keys)
  have lm: "length (ctr3_mac (take keylen key) nonce salt y) = 32" by (simp add: ctr3_mac_def length_hmac_0)
  have fr: "must_fread bf' 32 \<lparr>fin = mac, fout = fout F @ x, room = room F - length y\<rparr> =
      (Inr mac, \<lparr>fin = [], fout = fout F @ x, room = room F - length y\<rparr>)"
    using r(3) len(3) by (simp add: must_fread_ok blit_def)
  have "(\<exists>i \<in> set [0..<32]. mac ! i \<noteq> ctr3_mac (take keylen key) nonce salt y ! i) \<longleftrightarrow>
      mac \<noteq> ctr3_mac (take keylen key) nonce salt y"
    using bytes_differ [OF lm, of mac] len(3) by simp
  moreover obtain C2 where "finish_encrypt (a_tmpbuf A) C1 (a_digest A) =
      (C2, ctr3_mac (take keylen key) nonce salt y)"
    using m by (metis prod.collapse)
  moreover have "ctr3_crypt (take keylen key) nonce salt y = x" by (simp add: ctr3_crypt_def x_def K_def)
  ultimately show ?thesis
    unfolding head r(1) by (simp add: fr finish_decrypt_def Let_def del: set_upt)
qed

text \<open>A sequence of \<open>encrypt_in_place\<close> calls, the ciphertexts collected.\<close>

definition encrypt_chunks :: "byte list \<Rightarrow> aesx_static \<Rightarrow> ctr3_hmac_crypto \<Rightarrow> byte list list \<Rightarrow>
    ctr3_hmac_crypto \<times> byte list list" where
  "encrypt_chunks tmpv st C xs =
    foldl (\<lambda>(C, cs) x. let (C, c) = encrypt_in_place tmpv st C x (length x) in (C, cs @ [c])) (C, []) xs"

lemma encrypt_chunks_ready:
  assumes "ctr3_ready K nonce m st C" "length tmpv = 16" "\<forall>x \<in> set xs. length x \<le> 16"
  obtains C' cs where "encrypt_chunks tmpv st C xs = (C', cs)" "ctr3_ready K nonce (m @ concat cs) st C'"
    "m_ctr C' = m_ctr C + word_of_nat (length xs)" "map length cs = map length xs"
  using assms(3)
proof (induction xs arbitrary: thesis rule: rev_induct)
  case Nil
  then show ?case using assms by (auto simp: encrypt_chunks_def)
next
  case (snoc x xs)
  obtain C1 cs where 1: "encrypt_chunks tmpv st C xs = (C1, cs)" "ctr3_ready K nonce (m @ concat cs) st C1"
    "m_ctr C1 = m_ctr C + word_of_nat (length xs)" "map length cs = map length xs"
    using snoc.IH snoc.prems(2) by auto
  let ?y = "xor_bytes x (ctr3_block K (ctr_block nonce (m_ctr C1 + 1)))"
  obtain C2 where 2: "encrypt_in_place tmpv st C1 x (length x) = (C2, ?y)"
    "ctr3_ready K nonce ((m @ concat cs) @ ?y) st C2" "m_ctr C2 = m_ctr C1 + 1"
    using encrypt_in_place_op [OF assms(2), of K nonce st, unfolded crypt_op_def, rule_format, of "m @ concat cs" C1 "length x" x]
      1(2) snoc.prems(2) by (auto simp: Let_def)
  have "length ?y = length x" using length_ctr3_block [OF 1(2)] snoc.prems(2) by simp
  then show ?case
    using 1 2 by (intro snoc.prems(1) [of C2 "cs @ [?y]"]) (simp_all add: encrypt_chunks_def Let_def add.assoc)
qed

section \<open>Concrete inputs\<close>

definition empty_autos :: autos where
  "empty_autos = \<lparr>a_kbits = replicate 128 0, a_kdf = cleared_sha, a_ctrbyts = replicate 4 0,
     a_me1 = replicate 4 0, a_mo1 = replicate 4 0, a_pow = replicate 256 0, a_log = replicate 256 0,
     a_me2 = replicate 4 0, a_mo2 = replicate 4 0, a_hctx = cleared_sha, a_sum = replicate 32 0,
     a_tmpv = replicate 16 0, a_tmpbuf = replicate 32 0, a_digest = replicate 32 0,
     a_buffer = replicate 32 0, a_salt = replicate 16 0, a_nonce = replicate 16 0\<rparr>"

definition fresh_static :: aesx_static where
  "fresh_static = \<lparr>init_done = 0, tables = \<lparr>tFSb = replicate 256 0, tFT0 = replicate 256 0,
     tFT1 = replicate 256 0, tFT2 = replicate 256 0, tFT3 = replicate 256 0, tRSb = replicate 256 0,
     tRT0 = replicate 256 0, tRT1 = replicate 256 0, tRT2 = replicate 256 0, tRT3 = replicate 256 0,
     tRCON = replicate 16 0\<rparr>\<rparr>"

definition fresh_crypto :: ctr3_hmac_crypto where
  "fresh_crypto = \<lparr>aesx_ctx = cleared_aesx, twofish_ctx1 = cleared_tf, twofish_ctx2 = cleared_tf,
     sha_ctx = cleared_sha, m_ctr = 0, m_nonce = replicate 16 0\<rparr>"

definition some_host :: host where
  "some_host = \<lparr>urandom = Some (replicate 20 7), tv_sec = 5, tv_usec = 6\<rparr>"

lemma concrete_ok [simp]:
  "autos_ok empty_autos" "aesx_static_ok fresh_static" "urandom some_host = Some (replicate 20 7)"
  by (simp_all add: autos_ok_def empty_autos_def cleared_ok aesx_static_ok_def fresh_static_def tables_shape_def some_host_def)

section \<open>Properties\<close>

text \<open>C12. \<open>encrypt_file\<close> writes signature, salt, nonce, ciphertext and, in the clear, the HMAC-SHA-256
  of all of them, under keys derived from key, nonce and salt, and returns 0; when the output
  does not take that many bytes it throws and has written a prefix. (The comment at
  \<open>main.cpp:272\<close> announces an encrypted digest; the code does not encrypt it.)\<close>

theorem ctr3_encrypt_format:
  assumes "autos_ok A" "aesx_static_ok st" "urandom h = Some r" "16 \<le> length r"
    and "keylen \<le> length key" "keylen < 2 ^ 30"
  shows "let f = ctr3_format (take keylen key) (nonce_of h) (take 16 r) (fin F)
    in if length f \<le> room F
       then encrypt_file A h st C key keylen (int (length (fin F))) F =
         (Inr 0, \<lparr>fin = [], fout = fout F @ f, room = room F - length f\<rparr>)
       else \<exists>F'. encrypt_file A h st C key keylen (int (length (fin F))) F = (Inl Must_write, F')
         \<and> fout F' = fout F @ take (room F) f"
  by (rule encrypt_file_run) (use assms in simp_all)

theorem ctr3_encrypt_format_witness:
  "let f = ctr3_format (take 2 [1, 2, 3]) (nonce_of some_host) (take 16 (replicate 20 7)) (fin \<lparr>fin = [1], fout = [], room = 5\<rparr>)
    in if length f \<le> room \<lparr>fin = [1], fout = [], room = 5\<rparr>
       then encrypt_file empty_autos some_host fresh_static fresh_crypto [1, 2, 3] 2
           (int (length (fin \<lparr>fin = [1], fout = [], room = 5\<rparr>))) \<lparr>fin = [1], fout = [], room = 5\<rparr> =
         (Inr 0, \<lparr>fin = [], fout = fout \<lparr>fin = [1], fout = [], room = 5\<rparr> @ f,
           room = room \<lparr>fin = [1], fout = [], room = 5\<rparr> - length f\<rparr>)
       else \<exists>F'. encrypt_file empty_autos some_host fresh_static fresh_crypto [1, 2, 3] 2
           (int (length (fin \<lparr>fin = [1], fout = [], room = 5\<rparr>))) \<lparr>fin = [1], fout = [], room = 5\<rparr> = (Inl Must_write, F')
         \<and> fout F' = fout \<lparr>fin = [1], fout = [], room = 5\<rparr> @ take (room \<lparr>fin = [1], fout = [], room = 5\<rparr>) f"
  by (rule ctr3_encrypt_format [where r = "replicate 20 7"]) simp_all

text \<open>C13. On a file of the format, with any bytes in the place of the HMAC, \<open>decrypt_file\<close> writes
  the decrypted bytes and then returns 0 exactly when the HMAC is right, and throws
  \<open>HMAC failure\<close> otherwise: the plaintext is already in the output when the check fails.\<close>

theorem ctr3_decrypt_verdict:
  assumes "autos_ok A" "aesx_static_ok st" "keylen \<le> length key" "keylen < 2 ^ 30"
    and "length salt = 16" "length nonce = 16" "length mac = 32"
    and "fin F = sig @ salt @ nonce @ y @ mac" "length y \<le> room F"
  shows "decrypt_file A st C key keylen (int (length (fin F))) F =
    ((if mac = ctr3_mac (take keylen key) nonce salt y then Inr 0 else Inl HMAC_failure),
     \<lparr>fin = [], fout = fout F @ ctr3_crypt (take keylen key) nonce salt y, room = room F - length y\<rparr>)"
  using assms by (rule decrypt_file_run)

theorem ctr3_decrypt_verdict_witness:
  "let F = \<lparr>fin = sig @ replicate 16 1 @ replicate 16 2 @ [3, 4] @ replicate 32 5, fout = [], room = 9\<rparr>
   in decrypt_file empty_autos fresh_static fresh_crypto [8] 1 (int (length (fin F))) F =
    ((if replicate 32 5 = ctr3_mac (take 1 [8]) (replicate 16 2) (replicate 16 1) [3, 4] then Inr 0 else Inl HMAC_failure),
     \<lparr>fin = [], fout = fout F @ ctr3_crypt (take 1 [8]) (replicate 16 2) (replicate 16 1) [3, 4],
       room = room F - length [3, 4 :: byte]\<rparr>)"
  unfolding Let_def
  by (rule ctr3_decrypt_verdict) simp_all

text \<open>C14. What \<open>encrypt_file\<close> wrote, \<open>decrypt_file\<close> accepts under the same key and turns undo into
  the file, for files of any length and whatever the state of the two processes.\<close>

theorem ctr3_file_round_trip:
  assumes "autos_ok A" "aesx_static_ok st" "urandom h = Some r" "16 \<le> length r"
    and "keylen \<le> length key" "keylen < 2 ^ 30" "length x + 80 \<le> n"
    and "autos_ok A'" "aesx_static_ok st'" "length x \<le> n'"
  shows "let (ret, F) = encrypt_file A h st C key keylen (int (length x)) \<lparr>fin = x, fout = [], room = n\<rparr>;
      (ret', F') = decrypt_file A' st' C' key keylen (int (length (fout F))) \<lparr>fin = fout F, fout = [], room = n'\<rparr>
    in ret = Inr 0 \<and> ret' = Inr 0 \<and> fout F' = x"
proof -
  define salt where "salt = take 16 r"
  define nonce where "nonce = nonce_of h"
  define y where "y = ctr3_crypt (take keylen key) nonce salt x"
  define mac where "mac = ctr3_mac (take keylen key) nonce salt y"
  have len: "length salt = 16" "length nonce = 16" using assms(4) by (simp_all add: salt_def nonce_def nonce_of_def)
  obtain s C1 where ready: "ctr3_ready (ctr3_keys (take keylen key) nonce salt) nonce (sig @ salt @ nonce) s C1"
    by (rule ctr3_init_ready [OF assms(1,2,5,6) len])
  have ly: "length y = length x" unfolding y_def ctr3_crypt_def by (rule length_ctr_crypt3 [OF ready])
  have undo: "ctr3_crypt (take keylen key) nonce salt y = x"
    unfolding y_def ctr3_crypt_def by (rule ctr_crypt3_twice [OF ready])
  have lm: "length mac = 32" by (simp add: mac_def ctr3_mac_def length_hmac_0)
  let ?f = "sig @ salt @ nonce @ y @ mac"
  have f: "ctr3_format (take keylen key) nonce salt x = ?f" by (simp add: ctr3_format_def y_def mac_def Let_def)
  have "length ?f \<le> n" using assms(7) len ly lm by simp
  then have e: "encrypt_file A h st C key keylen (int (length x)) \<lparr>fin = x, fout = [], room = n\<rparr> =
      (Inr 0, \<lparr>fin = [], fout = ?f, room = n - length ?f\<rparr>)"
    using encrypt_file_run [OF assms(1-6), of "int (length x)" "\<lparr>fin = x, fout = [], room = n\<rparr>" C]
    unfolding salt_def [symmetric] nonce_def [symmetric] by (simp add: f)
  have "decrypt_file A' st' C' key keylen (int (length (fin \<lparr>fin = ?f, fout = [], room = n'\<rparr>))) \<lparr>fin = ?f, fout = [], room = n'\<rparr> =
      (Inr 0, \<lparr>fin = [], fout = x, room = n' - length y\<rparr>)"
    using decrypt_file_run [OF assms(8,9,5,6) len lm, of "\<lparr>fin = ?f, fout = [], room = n'\<rparr>" y C'] assms(10)
    by (simp add: mac_def undo ly)
  then show ?thesis unfolding e by simp
qed

theorem ctr3_file_round_trip_witness:
  "let (ret, F) = encrypt_file empty_autos some_host fresh_static fresh_crypto [1, 2, 3] 3 (int (length [5, 6, 7 :: byte]))
        \<lparr>fin = [5, 6, 7], fout = [], room = 100\<rparr>;
      (ret', F') = decrypt_file empty_autos fresh_static fresh_crypto [1, 2, 3] 3 (int (length (fout F)))
        \<lparr>fin = fout F, fout = [], room = 3\<rparr>
    in ret = Inr 0 \<and> ret' = Inr 0 \<and> fout F' = [5, 6, 7]"
  by (rule ctr3_file_round_trip [where r = "replicate 20 7"]) simp_all

text \<open>The ways out before any key is derived: \<open>encrypt_file\<close> without a random source, and
  \<open>decrypt_file\<close> on a file that is too short, cannot be read or has another signature, throw
  and leave the output as it was.\<close>

theorem ctr3_early_errors:
  "(urandom h = None \<longrightarrow> encrypt_file A h st C key keylen filesize F = (Inl Failed_to_open_urandom, F))
   \<and> (filesize < 80 \<longrightarrow> decrypt_file A st C key keylen filesize F = (Inl File_too_short, F))
   \<and> (80 \<le> filesize \<and> length (fin F) < 16 \<longrightarrow>
       decrypt_file A st C key keylen filesize F = (Inl Must_read, F\<lparr>fin := []\<rparr>))
   \<and> (80 \<le> filesize \<and> 16 \<le> length (fin F) \<and> length (a_buffer A) = 32 \<and> take 16 (fin F) \<noteq> sig \<longrightarrow>
       decrypt_file A st C key keylen filesize F = (Inl Not_a_ctr3_hmac_crypt_file, F\<lparr>fin := drop 16 (fin F)\<rparr>))"
proof (intro conjI impI)
  show "urandom h = None \<Longrightarrow> encrypt_file A h st C key keylen filesize F = (Inl Failed_to_open_urandom, F)"
    by (simp add: encrypt_file_def drbg_def)
  show "filesize < 80 \<Longrightarrow> decrypt_file A st C key keylen filesize F = (Inl File_too_short, F)"
    by (simp add: decrypt_file_def)
  show "80 \<le> filesize \<and> length (fin F) < 16 \<Longrightarrow>
      decrypt_file A st C key keylen filesize F = (Inl Must_read, F\<lparr>fin := []\<rparr>)"
    by (simp add: decrypt_file_def must_fread_short)
  assume d: "80 \<le> filesize \<and> 16 \<le> length (fin F) \<and> length (a_buffer A) = 32 \<and> take 16 (fin F) \<noteq> sig"
  let ?b = "blit (a_buffer A) 0 (take 16 (fin F))"
  have "take 16 ?b \<noteq> sig" "16 \<le> length ?b" using d by (simp_all add: blit_def)
  then have "\<exists>i \<in> set [0..<16]. ?b ! i \<noteq> sig ! i" using bytes_differ [of sig 16 ?b] by simp
  then show "decrypt_file A st C key keylen filesize F = (Inl Not_a_ctr3_hmac_crypt_file, F\<lparr>fin := drop 16 (fin F)\<rparr>)"
    using d by (simp add: decrypt_file_def must_fread_ok)
qed

theorem ctr3_early_errors_witness:
  "decrypt_file empty_autos fresh_static fresh_crypto [] 0 80 \<lparr>fin = replicate 80 0, fout = [1], room = 4\<rparr> =
     (Inl Not_a_ctr3_hmac_crypt_file, \<lparr>fin = replicate 64 0, fout = [1], room = 4\<rparr>)"
proof -
  let ?F = "\<lparr>fin = replicate 80 0, fout = [1], room = 4\<rparr>"
  have "take 16 (fin ?F) ! 0 \<noteq> sig ! 0" by (simp add: sig_def)
  then have "take 16 (fin ?F) \<noteq> sig" by metis
  moreover have "length (a_buffer empty_autos) = 32" by (simp add: empty_autos_def)
  ultimately show ?thesis
    using ctr3_early_errors [of some_host empty_autos fresh_static fresh_crypto "[]" 0 80 ?F]
    by simp
qed

text \<open>C15. For up to \<open>2^31 - 32\<close> bytes \<open>kdf\<close> writes the first \<open>nbytes\<close> bytes of the chain of 8192-fold
  digests, each link keyed by its counter and started from the previous one, and nothing
  beyond them; for a longer output its \<open>int\<close> counter overflows, and there is no defined result.\<close>

theorem kdf_output:
  assumes "sha2_wf s" "length cb = 4" "keylen < 2 ^ 31" "keylen \<le> length key" "unat nbytes \<le> length dst"
  shows "kdf s cb dst nbytes key keylen =
    (if unat nbytes \<le> 2 ^ 31 - 32
     then Some (take (unat nbytes) (kdf_chain (take keylen key) ((unat nbytes + 31) div 32) 0 (replicate 32 0))
       @ drop (unat nbytes) dst)
     else None)"
  using assms by (rule kdf_spec)

theorem kdf_output_witness:
  "kdf cleared_sha [0, 0, 0, 0] (replicate 50 9) 40 [1, 2] 2 =
    Some (take 40 (kdf_chain (take 2 [1, 2]) ((40 + 31) div 32) 0 (replicate 32 0)) @ drop 40 (replicate 50 9))"
  using kdf_output [of cleared_sha "[0, 0, 0, 0]" 2 "[1, 2]" 40 "replicate 50 9"] by (simp add: cleared_ok)

text \<open>C16. The class keeps its invariant over any sequence of \<open>encrypt_in_place\<close> calls on chunks of
  at most 16 bytes: the counter has advanced once per call and \<open>finish_encrypt\<close> writes the
  HMAC of signature, salt, nonce and all ciphertexts in order.\<close>

theorem ctr3_class_invariant:
  assumes "autos_ok A" "aesx_static_ok st" "keylen \<le> length key" "keylen < 2 ^ 30"
    and "length salt = 16" "length nonce = 16" "\<forall>x \<in> set xs. length x \<le> 16"
  shows "let (st, C) = ctr3_init A st C key keylen salt nonce;
      (C, cs) = encrypt_chunks (a_tmpv A) st C xs
    in m_ctr C = word_of_nat (length xs) \<and> map length cs = map length xs
      \<and> snd (finish_encrypt (a_tmpbuf A) C (a_buffer A)) =
        ctr3_mac (take keylen key) nonce salt (concat cs)"
proof -
  let ?K = "ctr3_keys (take keylen key) nonce salt"
  have a: "length (a_tmpv A) = 16" "length (a_tmpbuf A) = 32" "length (a_buffer A) = 32"
    using assms(1) by (simp_all add: autos_ok_def)
  obtain s C1 where i: "ctr3_init A st C key keylen salt nonce = (s, C1)"
    "ctr3_ready ?K nonce (sig @ salt @ nonce) s C1" "m_ctr C1 = 0"
    by (rule ctr3_init_ready [OF assms(1-6)])
  obtain C2 cs where c: "encrypt_chunks (a_tmpv A) s C1 xs = (C2, cs)"
    "ctr3_ready ?K nonce ((sig @ salt @ nonce) @ concat cs) s C2"
    "m_ctr C2 = m_ctr C1 + word_of_nat (length xs)" "map length cs = map length xs"
    by (rule encrypt_chunks_ready [OF i(2) a(1) assms(7)])
  show ?thesis
    using finish_encrypt_mac [OF c(2) length_ctr3_keys a(2), of "a_buffer A"] a(3) c(3,4) i(3)
    unfolding i(1) by (simp add: c(1) ctr3_mac_def)
qed

theorem ctr3_class_invariant_witness:
  "let (st, C) = ctr3_init empty_autos fresh_static fresh_crypto [1] 1 (replicate 16 2) (replicate 16 3);
      (C, cs) = encrypt_chunks (a_tmpv empty_autos) st C [[1, 2], [], replicate 16 4]
    in m_ctr C = word_of_nat (length [[1, 2], [], replicate 16 (4 :: byte)])
      \<and> map length cs = map length [[1, 2], [], replicate 16 (4 :: byte)]
      \<and> snd (finish_encrypt (a_tmpbuf empty_autos) C (a_buffer empty_autos)) =
        ctr3_mac (take 1 [1]) (replicate 16 3) (replicate 16 2) (concat cs)"
  by (rule ctr3_class_invariant) simp_all

end
