(* ===== verification/Ctr3_Main_Props.thy ===== *)
theory Ctr3_Main_Props
  imports Ctr3_Main Ctr3_Props
begin

unbundle bit_operations_syntax

text \<open>
  The properties of the key text parser and of the whole program \<open>ctr-hmac-crypt\<close>.
\<close>

section \<open>Key texts\<close>

text \<open>A digest printed by \<open>Acudora_digest_to_text\<close> and given as a \<open>hex:\<close> key text is read
  back by \<open>parse_keytext\<close> as the 32 bytes of the digest.\<close>

theorem keytext_digest_round_trip:
  assumes "65 \<le> length txt" "length digest = 32" "32 \<le> buflen" "nat buflen \<le> length keybuf"
  shows "parse_keytext fs (ascii ''hex:'' @ Acudora_digest_to_text txt digest) keybuf buflen =
    (32, digest @ drop 32 keybuf)"
  using hex_loop_text [of 0 digest buflen keybuf "drop 65 txt"] assms
  by (simp add: parse_hex digest_to_text_hex blit_def)

theorem keytext_digest_round_trip_witness:
  "parse_keytext (\<lambda>_. None) (ascii ''hex:'' @ Acudora_digest_to_text (replicate 65 0) (replicate 32 0xA7))
     (replicate 512 0) 512 = (32, replicate 32 0xA7 @ drop 32 (replicate 512 0))"
  by (rule keytext_digest_round_trip) simp_all

text \<open>C17. A \<open>hex:\<close> key text of an even number of digits ends at its terminating zero byte. With an
  odd number the parser steps over that byte: after the last single digit it goes on scanning
  whatever is in memory behind the string, so that hexadecimal digits found there become part
  of the key.\<close>

theorem keytext_odd_digits_overrun:
  assumes "hex_digits ds" "int (length (hex_pairs ds)) \<le> buflen" "nat buflen \<le> length keybuf"
  shows "let bs = hex_pairs ds; n = length bs;
      parse = (\<lambda>m. parse_keytext fs (ascii ''hex:'' @ ds @ 0 # m) keybuf buflen)
    in n = (length ds + 1) div 2
      \<and> (even (length ds) \<longrightarrow> parse m = (int n, bs @ drop n keybuf))
      \<and> (odd (length ds) \<longrightarrow> parse m = hex_loop m (bs @ drop n keybuf) buflen (int n))
      \<and> (odd (length ds) \<and> n + length xs \<le> nat buflen \<longrightarrow>
          parse (hex_text xs @ 0 # r) = (int (n + length xs), (bs @ xs) @ drop (n + length xs) keybuf))"
proof -
  define bs where "bs = hex_pairs ds"
  have n: "length bs = (length ds + 1) div 2" by (simp add: bs_def length_hex_pairs)
  have b: "length bs \<le> length keybuf" "int (length bs) \<le> buflen" using assms(2,3) by (simp_all add: bs_def)
  have parse: "parse_keytext fs (ascii ''hex:'' @ ds @ 0 # m) keybuf buflen =
      (if odd (length ds) then hex_loop m (bs @ drop (length bs) keybuf) buflen (int (length bs))
       else (int (length bs), bs @ drop (length bs) keybuf))" for m
    using hex_loop_digits [OF assms(1), of 0 buflen keybuf m] b unfolding parse_hex bs_def [symmetric]
    by (simp add: blit_def)
  have "hex_loop (hex_text xs @ 0 # r) (bs @ drop (length bs) keybuf) buflen (int (length bs)) =
      (int (length bs + length xs), (bs @ xs) @ drop (length bs + length xs) keybuf)"
    if "length bs + length xs \<le> nat buflen"
    using hex_loop_text [of "int (length bs)" xs buflen "bs @ drop (length bs) keybuf" r] that b assms(3)
    by (simp add: blit_def add.commute)
  then show ?thesis unfolding Let_def bs_def [symmetric] parse using n by auto
qed

theorem keytext_odd_digits_overrun_witness:
  "parse_keytext (\<lambda>_. None) (ascii ''hex:'' @ [0x31, 0x32, 0x41] @ 0 # (hex_text [0xBC, 0xDE] @ 0 # [7]))
     (replicate 512 0) 512 = (4, [0x12, 0x0A, 0xBC, 0xDE] @ drop 4 (replicate 512 0))"
  using keytext_odd_digits_overrun [of "[0x31, 0x32, 0x41]" 512 "replicate 512 0" "\<lambda>_. None" "[]" "[0xBC, 0xDE]" "[7]"]
  by (simp add: hex_digits_def hexval_def Let_def)

section \<open>The program\<close>

text \<open>The exits without success: a wrong number of arguments, an unknown mode, equal file
  names or a file that does not open give status -1 and no output file; so does a key file
  that does not open, and an exception of the file function, with what is written by then.\<close>

theorem ctr3_main_errors:
  "(length (argv env) \<noteq> 5 \<longrightarrow> ctr3_main A st C key env = (- 1, None))
   \<and> (length (argv env) = 5 \<and> main_mode (argv env ! 1) = MODE_UNKNOWN \<longrightarrow> ctr3_main A st C key env = (- 1, None))
   \<and> (argv env ! 2 = argv env ! 3 \<longrightarrow> ctr3_main A st C key env = (- 1, None))
   \<and> (fopen_rb env (argv env ! 2) = None \<or> fopen_wb env (argv env ! 3) = None \<longrightarrow>
       ctr3_main A st C key env = (- 1, None))
   \<and> (fst (parse_keytext (fopen_rb env) (argv env ! 4 @ 0 # after_argv env) key 512) < 0 \<longrightarrow>
       fst (ctr3_main A st C key env) = - 1 \<and> snd (ctr3_main A st C key env) \<in> {None, Some []})
   \<and> (lseek_fails env \<or> fseek_fails env \<longrightarrow> fst (ctr3_main A st C key env) = - 1)"
  by (auto simp: ctr3_main_def Let_def MODE_UNKNOWN_def MODE_ENCRYPT_def MODE_DECRYPT_def split: option.split prod.split)

definition some_env :: "byte list \<Rightarrow> environment" where
  "some_env m = \<lparr>argv = [[], m, [1], [2], [3]], after_argv = [], fopen_rb = (\<lambda>f. if f = [1] then Some [7, 8] else None),
     fopen_wb = (\<lambda>f. Some 200), lseek_fails = False, fseek_fails = False, machine = some_host\<rparr>"

theorem ctr3_main_errors_witness:
  "ctr3_main empty_autos fresh_static fresh_crypto (replicate 512 0) (some_env [0x58]) = (- 1, None)"
  using ctr3_main_errors [of "some_env [0x58]" empty_autos fresh_static fresh_crypto "replicate 512 0"]
  by (simp add: some_env_def main_mode_def upcase_def strncmp_eq_def ascii_prefixes)

text \<open>C18. Running the program with \<open>ENC\<close> and then with \<open>DEC\<close> and the same plain key text on the
  file it wrote ends with status 0 both times and reproduces the input file.\<close>

theorem ctr3_main_round_trip:
  assumes "autos_ok A" "aesx_static_ok st" "length key = 512" "urandom (machine env) = Some r" "16 \<le> length r"
    and "autos_ok A'" "aesx_static_ok st'" "length key' = 512"
    and "argv env = [p, m, i, o1, k]" "main_mode m = MODE_ENCRYPT" "i \<noteq> o1" "plain_key k"
    and "argv env' = [p', m', o1, o2, k]" "main_mode m' = MODE_DECRYPT" "o1 \<noteq> o2"
    and "fopen_rb env i = Some x" "fopen_wb env o1 = Some n" "length x + 80 \<le> n"
    and "fopen_wb env' o2 = Some n'" "length x \<le> n'"
    and "\<not> lseek_fails env" "\<not> fseek_fails env" "\<not> lseek_fails env'" "\<not> fseek_fails env'"
    and "fopen_rb env' o1 = snd (ctr3_main A st C key env)"
  shows "fst (ctr3_main A st C key env) = 0 \<and> ctr3_main A' st' C' key' env' = (0, Some x)"
proof -
  let ?l = "min 512 (length k)"
  have pk: "parse_keytext fs (k @ 0 # q) key 512 = (int ?l, take 512 k @ drop (length k) key)"
    "parse_keytext fs (k @ 0 # q) key' 512 = (int ?l, take 512 k @ drop (length k) key')" for fs q
    using assms(3,8,12) by (simp_all add: parse_plain)
  have tk: "take ?l (take 512 k @ z) = take 512 k" for z by (simp add: min_def)
  have l: "?l \<le> length (take 512 k @ z)" "?l < 2 ^ 30" for z by simp_all
  define salt where "salt = take 16 r"
  define nonce where "nonce = nonce_of (machine env)"
  define y where "y = ctr3_crypt (take 512 k) nonce salt x"
  define mac where "mac = ctr3_mac (take 512 k) nonce salt y"
  have len: "length salt = 16" "length nonce = 16" using assms(5) by (simp_all add: salt_def nonce_def nonce_of_def)
  obtain s C1 where ready: "ctr3_ready (ctr3_keys (take ?l (take 512 k)) nonce salt) nonce (sig @ salt @ nonce) s C1"
    by (rule ctr3_init_ready [OF assms(1,2) _ _ len, of ?l "take 512 k"]) simp_all
  then have ready: "ctr3_ready (ctr3_keys (take 512 k) nonce salt) nonce (sig @ salt @ nonce) s C1"
    using tk [of "[]"] by simp
  have ly: "length y = length x" unfolding y_def ctr3_crypt_def by (rule length_ctr_crypt3 [OF ready])
  have undo: "ctr3_crypt (take 512 k) nonce salt y = x"
    unfolding y_def ctr3_crypt_def by (rule ctr_crypt3_twice [OF ready])
  have lm: "length mac = 32" by (simp add: mac_def ctr3_mac_def length_hmac_0)
  let ?f = "sig @ salt @ nonce @ y @ mac"
  have f: "ctr3_format (take 512 k) nonce salt x = ?f" by (simp add: ctr3_format_def y_def mac_def Let_def)
  have room: "length ?f \<le> n" using assms(18) len ly lm by simp
  have e: "encrypt_file A (machine env) st C (take 512 k @ z) ?l (int (length x)) \<lparr>fin = x, fout = [], room = n\<rparr> =
      (Inr 0, \<lparr>fin = [], fout = ?f, room = n - length ?f\<rparr>)" for z
    using encrypt_file_run [OF assms(1,2,4,5) l, of "int (length x)" "\<lparr>fin = x, fout = [], room = n\<rparr>" z C] room
    unfolding salt_def [symmetric] nonce_def [symmetric] tk by (simp add: f)
  have m1: "ctr3_main A st C key env = (0, Some ?f)"
    using assms(9,10,11,16,17,21,22) e by (simp add: ctr3_main_def Let_def pk del: append_assoc)
  have d: "decrypt_file A' st' C' (take 512 k @ z) ?l (int (length ?f)) \<lparr>fin = ?f, fout = [], room = n'\<rparr> =
      (Inr 0, \<lparr>fin = [], fout = x, room = n' - length y\<rparr>)" for z
    using decrypt_file_run [OF assms(6,7) l len lm, of "\<lparr>fin = ?f, fout = [], room = n'\<rparr>" y C' z] assms(20)
    unfolding tk by (simp add: mac_def undo ly)
  have rb: "fopen_rb env' o1 = Some ?f" using assms(25) by (simp add: m1)
  have "MODE_DECRYPT \<noteq> MODE_ENCRYPT" by (simp add: MODE_DECRYPT_def MODE_ENCRYPT_def)
  then have "ctr3_main A' st' C' key' env' = (0, Some x)"
    using assms(13,14,15,19,23,24) rb d by (simp add: ctr3_main_def Let_def pk del: append_assoc length_append)
  then show ?thesis by (simp add: m1)
qed

theorem ctr3_main_round_trip_witness:
  "\<exists>c. ctr3_main empty_autos fresh_static fresh_crypto (replicate 512 0)
      ((some_env [])\<lparr>argv := [[], ascii ''DEC'', [2], [4], [3]], fopen_rb := \<lambda>_. c\<rparr>) = (0, Some [7, 8])"
  by (rule exI, rule ctr3_main_round_trip [where env = "some_env (ascii ''ENC'')" and n = 200 and n' = 200
        and i = "[1]" and k = "[3]" and p = "[]" and m = "ascii ''ENC''" and x = "[7, 8]"
        and A = empty_autos and st = fresh_static and C = fresh_crypto and key = "replicate 512 0"
        and r = "replicate 20 7" and m' = "ascii ''DEC''" and ?o1.0 = "[2]" and ?o2.0 = "[4]" and p' = "[]",
        THEN conjunct2])
    (simp_all add: some_env_def main_mode_def upcase_def strncmp_eq_def ascii_prefixes plain_key_def Let_def)

end
