(* ===== verification/Aescrypt2.thy ===== *)
theory Aescrypt2
  imports Aes_Cbc Sha2_Hmac Sha2_File File_Io Keytext
begin

unbundle bit_operations_syntax

text \<open>
  The older file format: the program \<open>aescrypt2\<close> of \<open>AES256/main.cpp\<close> (AES-256 in cipher block
  chaining with an HMAC) and the in-memory decryptor \<open>Acudora_decrypt_buffer\<close> of
  \<open>AES256/decrypt.cpp\<close>, with the hash functions exported next to it.

  The cipher uses the literal tables of \<open>aes.c\<close> (\<open>POLARSSL_AES_ROM_TABLES\<close>). First contents
  of automatic variables are the fields of \<open>a2_autos\<close>. \<open>goto exit\<close> is an early return with
  the value \<open>ret\<close> has at that moment, 1.
\<close>

record a2_autos =
  v_IV :: "byte list"
  v_key :: "byte list"
  v_digest :: "byte list"
  v_bytes :: "byte list"
  v_tmp :: "byte list"
  v_aes :: aes_context
  v_aes2 :: aes_context
  v_sha :: sha2_context
  v_hctx :: sha2_context
  v_sum :: "byte list"
  v_tmpbuf :: "byte list"

section \<open>Key and initialization vector\<close>

text \<open>The 8192-fold hash of digest and key.\<close>

definition a2_hash_step :: "byte list \<Rightarrow> int \<Rightarrow> sha2_context \<times> byte list \<Rightarrow> sha2_context \<times> byte list" where
  "a2_hash_step key keylen = (\<lambda>(ctx, digest).
     let ctx = sha2_starts ctx 0;
         ctx = sha2_update ctx digest 32;
         ctx = sha2_update ctx key keylen
     in sha2_finish ctx digest)"

definition a2_derive :: "byte list \<Rightarrow> int \<Rightarrow> byte list \<Rightarrow> sha2_context \<times> byte list \<Rightarrow> sha2_context \<times> byte list" where
  "a2_derive key keylen IV = (\<lambda>(ctx, digest).
     let digest = replicate 32 0;
         digest = blit digest 0 (take 16 IV)
     in (a2_hash_step key keylen ^^ 8192) (ctx, digest))"

text \<open>\<open>IV = SHA-256 (filesize || filename)[0..15]\<close> with the file size modulo 16 in the last digit.\<close>

definition a2_make_IV :: "sha2_context \<Rightarrow> byte list \<Rightarrow> byte list \<Rightarrow> byte list \<Rightarrow> int \<Rightarrow> byte list \<Rightarrow>
    byte list \<times> byte list \<times> sha2_context \<times> byte list" where
  "a2_make_IV ctx digest bytes IV filesize p =
    (let bytes = foldl (\<lambda>b i. b[i := word_of_int (drop_bit (8 * i) filesize)]) bytes [0..<8];
         ctx = sha2_starts ctx 0;
         ctx = sha2_update ctx bytes 8;
         ctx = sha2_update ctx p (int (length p));
         (ctx, digest) = sha2_finish ctx digest;
         IV = blit IV 0 (take 16 digest);
         lastn = filesize AND 0x0F;
         IV = IV[15 := (IV ! 15 AND 0xF0) OR word_of_int lastn]
     in (IV, bytes, ctx, digest))"

section \<open>The program\<close>

definition xor16 :: "byte list \<Rightarrow> byte list \<Rightarrow> byte list" where
  "xor16 bytes IV = foldl (\<lambda>b i. b[i := b ! i XOR IV ! i]) bytes [0..<16]"

type_synonym a2_state = "sha2_context \<times> byte list \<times> byte list \<times> files"

definition a2_encrypt_block :: "aes_context \<Rightarrow> nat \<Rightarrow> a2_state \<Rightarrow> files + a2_state" where
  "a2_encrypt_block aes n = (\<lambda>(ctx, IV, bytes, F).
     let (b, F) = fread n F;
         bytes = blit bytes 0 b
     in if length b \<noteq> n then Inl F
        else
          let bytes = (if n < 16 then blit bytes n (replicate (16 - n) 0) else bytes);
              ctx = sha2_hmac_update ctx bytes 16;
              bytes = xor16 bytes IV;
              bytes = fst (aes_crypt_ecb rom_tables aes AES_ENCRYPT bytes bytes);
              (k, F) = fwrite (take 16 bytes) F
          in if k \<noteq> 16 then Inl F
             else Inr (ctx, blit IV 0 (take 16 bytes), bytes, F))"

function a2_encrypt_loop :: "aes_context \<Rightarrow> int \<Rightarrow> int \<Rightarrow> a2_state \<Rightarrow> files + a2_state" where
  "a2_encrypt_loop aes filesize offset s =
    (if offset < filesize
     then
       let remaining = filesize - offset;
           n = nat (if remaining > 16 then 16 else remaining)
       in case a2_encrypt_block aes n s of
            Inl F \<Rightarrow> Inl F
          | Inr s \<Rightarrow> a2_encrypt_loop aes filesize (offset + 16) s
     else Inr s)"
  by pat_completeness auto
termination by (relation "measure (\<lambda>(aes, filesize, offset, s). nat (filesize - offset))") auto

declare a2_encrypt_loop.simps [simp del]

definition a2_encrypt :: "a2_autos \<Rightarrow> byte list \<Rightarrow> byte list \<Rightarrow> int \<Rightarrow> int \<Rightarrow> files \<Rightarrow> int \<times> files" where
  "a2_encrypt A p key keylen filesize F =
    (let (IV, bytes, ctx, digest) = a2_make_IV (v_sha A) (v_digest A) (v_bytes A) (v_IV A) filesize p;
         (k, F) = fwrite (take 16 IV) F
     in if k \<noteq> 16 then (1, F)
        else
          let (ctx, digest) = a2_derive key keylen IV (ctx, digest);
              aes = fst (aes_setkey_enc rom_tables (v_aes A) digest 256);
              ctx = sha2_hmac_starts (v_hctx A) (v_sum A) ctx digest 32 0
          in case a2_encrypt_loop aes filesize 0 (ctx, IV, bytes, F) of
               Inl F \<Rightarrow> (1, F)
             | Inr (ctx, IV, bytes, F) \<Rightarrow>
                 let (ctx, digest) = sha2_hmac_finish (v_tmpbuf A) ctx digest;
                     (k, F) = fwrite (take 32 digest) F
                 in if k \<noteq> 32 then (1, F) else (0, F))"

definition a2_decrypt_block :: "aes_context \<Rightarrow> int \<Rightarrow> bool \<Rightarrow> byte list \<Rightarrow> a2_state \<Rightarrow>
    files + byte list \<times> a2_state" where
  "a2_decrypt_block aes lastn final tmp = (\<lambda>(ctx, IV, bytes, F).
     let (b, F) = fread 16 F;
         bytes = blit bytes 0 b
     in if length b \<noteq> 16 then Inl F
        else
          let tmp = blit tmp 0 (take 16 bytes);
              bytes = fst (aes_crypt_ecb rom_tables aes AES_DECRYPT bytes bytes);
              bytes = xor16 bytes IV;
              ctx = sha2_hmac_update ctx bytes 16;
              n = nat (if lastn > 0 \<and> final then lastn else 16);
              (k, F) = fwrite (take n bytes) F
          in if k \<noteq> n then Inl F
             else Inr (tmp, ctx, blit IV 0 (take 16 tmp), bytes, F))"

function a2_decrypt_loop :: "aes_context \<Rightarrow> int \<Rightarrow> int \<Rightarrow> int \<Rightarrow> byte list \<Rightarrow> a2_state \<Rightarrow> files + a2_state" where
  "a2_decrypt_loop aes lastn filesize offset tmp s =
    (if offset < filesize
     then
       case a2_decrypt_block aes lastn (offset = filesize - 16) tmp s of
         Inl F \<Rightarrow> Inl F
       | Inr (tmp, s) \<Rightarrow> a2_decrypt_loop aes lastn filesize (offset + 16) tmp s
     else Inr s)"
  by pat_completeness auto
termination by (relation "measure (\<lambda>(aes, lastn, filesize, offset, tmp, s). nat (filesize - offset))") auto

declare a2_decrypt_loop.simps [simp del]

definition a2_decrypt :: "a2_autos \<Rightarrow> byte list \<Rightarrow> int \<Rightarrow> int \<Rightarrow> files \<Rightarrow> int \<times> files" where
  "a2_decrypt A key keylen filesize F =
    (if filesize < 48 then (1, F)
     else if filesize AND 0x0F \<noteq> 0 then (1, F)
     else
       let filesize = filesize - (16 + 32);
           (b, F) = fread 16 F;
           bytes = blit (v_bytes A) 0 b
       in if length b \<noteq> 16 then (1, F)
          else
            let IV = blit (v_IV A) 0 (take 16 bytes);
                lastn = uint (IV ! 15 AND 0x0F);
                (ctx, digest) = a2_derive key keylen IV (v_sha A, v_digest A);
                aes = fst (aes_setkey_dec rom_tables (v_aes2 A) (v_aes A) digest 256);
                ctx = sha2_hmac_starts (v_hctx A) (v_sum A) ctx digest 32 0
            in case a2_decrypt_loop aes lastn filesize 0 (v_tmp A) (ctx, IV, bytes, F) of
                 Inl F \<Rightarrow> (1, F)
               | Inr (ctx, IV, bytes, F) \<Rightarrow>
                   let (ctx, digest) = sha2_hmac_finish (v_tmpbuf A) ctx digest;
                       (b, F) = fread 32 F;
                       bytes = blit bytes 0 b
                   in if length b \<noteq> 32 then (1, F)
                      else if take 32 digest \<noteq> take 32 bytes then (1, F)
                      else (0, F))"

text \<open>
  \<open>main\<close>: \<open>mode\<close> is the value of \<open>atoi (argv[1])\<close>. The result is the exit status and the contents of
  the output file, if it was opened.
\<close>

definition aescrypt2_main :: "a2_autos \<Rightarrow> (byte list \<Rightarrow> byte list option) \<Rightarrow> (byte list \<Rightarrow> nat option) \<Rightarrow>
    bool \<Rightarrow> bool \<Rightarrow> byte list list \<Rightarrow> int \<Rightarrow> byte list \<Rightarrow> int \<times> byte list option" where
  "aescrypt2_main A rb wb lseek_bad fseek_bad args mode behind =
    (if length args \<noteq> 5 then (1, None)
     else if mode \<noteq> 0 \<and> mode \<noteq> 1 then (1, None)
     else if args ! 2 = args ! 3 then (1, None)
     else
       case rb (args ! 2) of
         None \<Rightarrow> (1, None)
       | Some contents \<Rightarrow>
           (case wb (args ! 3) of
              None \<Rightarrow> (1, None)
            | Some space \<Rightarrow>
                let F = \<lparr>fin = contents, fout = [], room = space\<rparr>;
                    (keylen, key) = parse_keytext rb (args ! 4 @ 0 # behind) (v_key A) 512
                in if keylen < 0 then (- 1, Some (fout F))
                   else if lseek_bad then (1, Some (fout F))
                   else
                     let filesize = int (length contents)
                     in if fseek_bad then (1, Some (fout F))
                        else
                          let (ret, F) =
                            (if mode = 0 then a2_encrypt A (args ! 2) key keylen filesize F
                             else a2_decrypt A key keylen filesize F)
                          in (ret, Some (fout F))))"

section \<open>The in-memory decryptor\<close>

definition Acudora_sha2_file :: "sha2_context \<Rightarrow> c_file \<Rightarrow> byte list \<Rightarrow> int \<times> byte list" where
  "Acudora_sha2_file ctx path out = sha2_file ctx path out 0"

definition Acudora_sha2 :: "sha2_context \<Rightarrow> byte list \<Rightarrow> int \<Rightarrow> byte list \<Rightarrow> nat \<Rightarrow> byte list" where
  "Acudora_sha2 ctx txt len digest count =
    (let digest = blit digest 0 (replicate 32 0)
     in snd ((a2_hash_step txt len ^^ count) (ctx, digest)))"

text \<open>
  \<open>inp\<close>, \<open>outp\<close> and \<open>offset\<close> are \<open>int\<close>, the length is \<open>long\<close>. Sums are formed in the wider type of
  their operands, so only the three increments can overflow; that has no defined result
  (\<open>None\<close>).
\<close>

type_synonym buf_state = "sha2_context \<times> byte list \<times> byte list \<times> byte list \<times> int \<times> int"

definition decrypt_buffer_block :: "aes_context \<Rightarrow> int \<Rightarrow> bool \<Rightarrow> byte list \<times> buf_state \<Rightarrow>
    (byte list \<times> buf_state) option" where
  "decrypt_buffer_block aes lastn final = (\<lambda>(tmp, ctx, IV, bytes, data, inp, outp).
     let bytes = blit bytes 0 (take 16 (drop (nat inp) data))
     in if inp + 16 < 2 ^ 31
        then
          let inp = inp + 16;
              tmp = blit tmp 0 (take 16 bytes);
              bytes = fst (aes_crypt_ecb rom_tables aes AES_DECRYPT bytes bytes);
              bytes = xor16 bytes IV;
              ctx = sha2_hmac_update ctx bytes 16;
              n = (if lastn > 0 \<and> final then lastn else 16);
              data = blit data (nat outp) (take (nat n) bytes)
          in if outp + n < 2 ^ 31
             then Some (tmp, ctx, blit IV 0 (take 16 tmp), bytes, data, inp, outp + n)
             else None
        else None)"

function decrypt_buffer_loop :: "aes_context \<Rightarrow> int \<Rightarrow> int \<Rightarrow> int \<Rightarrow> byte list \<times> buf_state \<Rightarrow>
    (byte list \<times> buf_state) option" where
  "decrypt_buffer_loop aes lastn len offset s =
    (if offset < len - 32
     then
       case decrypt_buffer_block aes lastn (offset = len - 16) s of
         None \<Rightarrow> None
       | Some s \<Rightarrow>
           if offset + 16 < 2 ^ 31 then decrypt_buffer_loop aes lastn len (offset + 16) s else None
     else Some s)"
  by pat_completeness auto
termination by (relation "measure (\<lambda>(aes, lastn, len, offset, s). nat (len - offset))") auto

declare decrypt_buffer_loop.simps [simp del]

definition Acudora_decrypt_buffer :: "a2_autos \<Rightarrow> byte list \<Rightarrow> int \<Rightarrow> byte list \<Rightarrow> nat \<Rightarrow>
    (int \<times> byte list) option" where
  "Acudora_decrypt_buffer A data len keytext keylen =
    (let key = blit (v_key A) 0 (take keylen keytext)
     in if len < 48 then Some (- 1, data)
        else if len AND 0x0F \<noteq> 0 then Some (- 1, data)
        else
          let inp = 0; outp = 0;
              IV = blit (v_IV A) 0 (take 16 data);
              inp = inp + 16;
              lastn = uint (IV ! 15 AND 0x0F);
              (ctx, digest) = a2_derive key (int keylen) IV (v_sha A, v_digest A);
              aes = fst (aes_setkey_dec rom_tables (v_aes2 A) (v_aes A) digest 256);
              ctx = sha2_hmac_starts (v_hctx A) (v_sum A) ctx digest 32 0
          in case decrypt_buffer_loop aes lastn len 16 (v_tmp A, ctx, IV, v_bytes A, data, inp, outp) of
               None \<Rightarrow> None
             | Some (tmp, ctx, IV, bytes, data, inp, outp) \<Rightarrow>
                 let (ctx, digest) = sha2_hmac_finish (v_tmpbuf A) ctx digest
                 in if take 32 digest \<noteq> take 32 (drop (nat inp) data) then Some (- 1, data) else Some (0, data))"

section \<open>Sha2Sum\<close>

text \<open>\<open>main\<close> of \<open>SHA256/Sha2Sum.cpp\<close>: exit status and what is printed; \<open>dig\<close> and \<open>txt\<close> are automatic.\<close>

definition sha2sum_main :: "sha2_context \<Rightarrow> byte list \<Rightarrow> byte list \<Rightarrow> nat \<Rightarrow> c_file \<Rightarrow> int \<times> byte list" where
  "sha2sum_main ctx dig txt argc path =
    (let ret = - 1
     in if argc < 2 then (ret, [])
        else
          let (ret, dig) = sha2_file ctx path dig 0
          in if ret = 0 then (ret, c_string (Acudora_digest_to_text txt dig)) else (ret, []))"

end
