(* ===== verification/Aescrypt2_Proofs.thy ===== *)
theory Aescrypt2_Proofs
  imports Aescrypt2
begin

unbundle bit_operations_syntax

text \<open>
  The file format of \<open>aescrypt2\<close> over byte strings, and the proof that the two programs
  write and read it.
\<close>

section \<open>The format\<close>

definition a2_key :: "byte list \<Rightarrow> byte list \<Rightarrow> byte list" where
  "a2_key K IV = ((\<lambda>d. sha_digest 0 (d @ K)) ^^ 8192) (IV @ replicate 16 0)"

definition a2_E :: "byte list \<Rightarrow> byte list \<Rightarrow> byte list" where
  "a2_E D b = aes_cipher 14 (key_expansion 8 14 D) b"

text \<open>The file filled up with zero bytes to whole blocks.\<close>

definition blocks16 :: "nat \<Rightarrow> nat" where
  "blocks16 n = (n + 15) div 16"

definition pad16 :: "byte list \<Rightarrow> byte list" where
  "pad16 x = x @ replicate (16 * blocks16 (length x) - length x) 0"

definition size_bytes :: "int \<Rightarrow> byte list" where
  "size_bytes n = map (\<lambda>i. word_of_int (drop_bit (8 * i) n)) [0..<8]"

definition a2_IV :: "int \<Rightarrow> byte list \<Rightarrow> byte list" where
  "a2_IV n name =
    (let d = take 16 (sha_digest 0 (size_bytes n @ name))
     in d[15 := (d ! 15 AND 0xF0) OR word_of_int (n AND 0x0F)])"

definition a2_body :: "byte list \<Rightarrow> byte list \<Rightarrow> byte list \<Rightarrow> byte list" where
  "a2_body D IV P = cbc_encrypt (a2_E D) (length P div 16) IV P"

definition a2_format :: "byte list \<Rightarrow> byte list \<Rightarrow> byte list \<Rightarrow> byte list" where
  "a2_format K name x =
    (let IV = a2_IV (int (length x)) name; D = a2_key K IV
     in IV @ a2_body D IV (pad16 x) @ hmac_spec 0 D (pad16 x))"

lemma length_pad16: "length (pad16 x) = 16 * blocks16 (length x)"
  by (simp add: pad16_def blocks16_def)

lemma length_a2_IV [simp]: "length (a2_IV n name) = 16"
  by (simp add: a2_IV_def Let_def length_sha_digest digest_length_def)

section \<open>Key derivation\<close>

lemma a2_hash_step_digest:
  assumes "sha2_wf s" "length d = 32" "n < 2 ^ 31" "n \<le> length key"
  obtains s' where "a2_hash_step key (int n) (s, d) = (s', sha_digest 0 (d @ take n key))" "sha2_wf s'"
proof -
  define a where "a = sha2_update (sha2_starts s 0) d 32"
  define c where "c = sha2_update a key (int n)"
  have "sha2_rep 0 d a" using sh.rep_start_update [OF assms(1), of d 0] assms(2) by (simp add: a_def)
  then have c: "sha2_rep 0 (d @ take n key) c"
    using sh.rep_update [of 0 d a "int n" key] assms(3,4) by (simp add: c_def)
  have "a2_hash_step key (int n) (s, d) = sha2_finish c d" by (simp add: a2_hash_step_def a_def c_def Let_def)
  moreover have "snd (sha2_finish c d) = sha_digest 0 (d @ take n key)"
    using sh.finish_digest [OF c, of d] assms(2) by (simp add: length_sha_digest digest_length_def)
  ultimately show ?thesis using that sh.finish_wf [OF c, of d] by (metis prod.collapse)
qed

lemma a2_hash_steps:
  assumes "sha2_wf s" "length d = 32" "n < 2 ^ 31" "n \<le> length key"
  shows "\<exists>s'. (a2_hash_step key (int n) ^^ r) (s, d) = (s', ((\<lambda>d. sha_digest 0 (d @ take n key)) ^^ r) d)
    \<and> sha2_wf s' \<and> length (((\<lambda>d. sha_digest 0 (d @ take n key)) ^^ r) d) = 32"
proof (induction r)
  case 0
  show ?case using assms by simp
next
  case (Suc r)
  then obtain s' where s: "(a2_hash_step key (int n) ^^ r) (s, d) = (s', ((\<lambda>d. sha_digest 0 (d @ take n key)) ^^ r) d)"
    "sha2_wf s'" "length (((\<lambda>d. sha_digest 0 (d @ take n key)) ^^ r) d) = 32" by blast
  obtain t where "a2_hash_step key (int n) (s', ((\<lambda>d. sha_digest 0 (d @ take n key)) ^^ r) d) =
      (t, sha_digest 0 (((\<lambda>d. sha_digest 0 (d @ take n key)) ^^ r) d @ take n key))" "sha2_wf t"
    by (rule a2_hash_step_digest [OF s(2,3) assms(3,4)])
  then show ?case using s(1) by (auto simp: length_sha_digest digest_length_def)
qed

lemma a2_derive_key:
  assumes "sha2_wf s" "n < 2 ^ 31" "n \<le> length key" "length IV = 16" "length d = 32"
  obtains s' where "a2_derive key (int n) IV (s, d) = (s', a2_key (take n key) IV)" "sha2_wf s'"
    "length (a2_key (take n key) IV) = 32"
proof -
  have "blit (replicate 32 0) 0 IV = IV @ replicate 16 0" using assms(4) by (simp add: blit_def)
  then have e: "a2_derive key (int n) IV (s, d) = (a2_hash_step key (int n) ^^ 8192) (s, IV @ replicate 16 0)"
    using assms(4) by (simp add: a2_derive_def Let_def)
  have l: "length (IV @ replicate 16 0) = 32" using assms(4) by simp
  show ?thesis
    using a2_hash_steps [OF assms(1) l assms(2,3), where r = 8192] that unfolding e a2_key_def by blast
qed

lemma a2_make_IV_spec:
  assumes "sha2_wf s" "length d = 32" "8 \<le> length bytes" "length IV = 16" "length p < 2 ^ 31"
  obtains bytes' s' d' where "a2_make_IV s d bytes IV filesize p = (a2_IV filesize p, bytes', s', d')"
    "sha2_wf s'" "length bytes' = length bytes" "length d' = 32"
proof -
  let ?w = "\<lambda>i. word_of_int (drop_bit (8 * i) filesize)"
  define by8 where "by8 = size_bytes filesize @ drop 8 bytes"
  have b8: "foldl (\<lambda>b i. b[i := ?w i]) bytes [0..<8] = by8"
    using scatter_upt [of 8 bytes ?w] assms(3) by (simp add: by8_def size_bytes_def)
  have l8: "length (size_bytes filesize) = 8" by (simp add: size_bytes_def)
  define a where "a = sha2_update (sha2_starts s 0) by8 8"
  define c where "c = sha2_update a p (int (length p))"
  have "sha2_rep 0 (size_bytes filesize) a"
    using sh.rep_update [OF sh.rep_starts [OF assms(1)], of 8 by8 0] l8 assms(3) by (simp add: a_def by8_def)
  then have c: "sha2_rep 0 (size_bytes filesize @ p) c"
    using sh.rep_update_all [of 0 _ a p] assms(5) by (simp add: c_def)
  obtain s' d' where f: "sha2_finish c d = (s', d')" by fastforce
  then have d': "d' = sha_digest 0 (size_bytes filesize @ p)"
    using sh.finish_digest [OF c, of d] assms(2) by (simp add: length_sha_digest digest_length_def)
  then have ld: "length d' = 32" by (simp add: length_sha_digest digest_length_def)
  have "blit IV 0 (take 16 d') = take 16 d'" using assms(4) ld by (simp add: blit_def)
  then have "a2_make_IV s d bytes IV filesize p = (a2_IV filesize p, by8, s', d')"
    unfolding a2_make_IV_def b8 a_def [symmetric] Let_def c_def [symmetric] f
    by (simp add: a2_IV_def Let_def d')
  moreover have "sha2_wf s'" using sh.finish_wf [OF c, of d] f by simp
  moreover have "length by8 = length bytes" using assms(3) l8 by (simp add: by8_def)
  ultimately show ?thesis using that ld by blast
qed

section \<open>The block cipher\<close>

definition enc_ok :: "byte list \<Rightarrow> aes_context \<Rightarrow> bool" where
  "enc_ok D c \<longleftrightarrow> (\<forall>b. 16 \<le> length b \<longrightarrow>
     fst (aes_crypt_ecb rom_tables c AES_ENCRYPT b b) = a2_E D (take 16 b) @ drop 16 b)"

definition dec_ok :: "byte list \<Rightarrow> aes_context \<Rightarrow> bool" where
  "dec_ok D d \<longleftrightarrow> (\<forall>b P. 16 \<le> length b \<and> length P = 16 \<and> take 16 b = a2_E D P \<longrightarrow>
     fst (aes_crypt_ecb rom_tables d AES_DECRYPT b b) = P @ drop 16 b)"

lemma aes256_keys:
  assumes "length D = 32" "68 \<le> length (buf ctx)" "68 \<le> length (buf cty)" "68 \<le> length (buf ctz)"
  shows "enc_ok D (fst (aes_setkey_enc rom_tables ctx D 256))"
    "dec_ok D (fst (aes_setkey_dec rom_tables cty ctz D 256))"
    "length b = 16 \<Longrightarrow> length (a2_E D b) = 16"
proof -
  have k: "8 \<in> {4, 6, 8 :: nat}" "4 * 8 \<le> length D" using assms(1) by simp_all
  obtain c d where cd: "aes_setkey_enc rom_tables ctx D (int (32 * 8)) = (c, 0)"
    "aes_setkey_dec rom_tables cty ctz D (int (32 * 8)) = (d, 0)" "ctx_rounds c (8 + 6)" "ctx_rounds d (8 + 6)"
    "inverse_keys (8 + 6) (keys_of (buf c)) (keys_of (buf d))" "filled 8 D (buf c) (4 * (8 + 7))"
    by (rule aes_setkey_dec_keys [OF rom_tables_ok rcon_rom k assms(2-4)])
  have f: "filled 8 D (buf c) (4 * (14 + 1))" using cd(6) by simp
  have r: "ctx_rounds c 14" using cd(3) by simp
  have e: "fst (aes_crypt_ecb rom_tables c AES_ENCRYPT b b) = a2_E D (take 16 b) @ drop 16 b" if "16 \<le> length b" for b
    using aes_crypt_ecb_cipher [OF rom_tables_ok r f, of b b AES_ENCRYPT] that by (simp add: a2_E_def)
  have ready: "aes_ready (rom_tables, c, d)" using cd by (auto simp: aes_ready_def)
  have en: "aes_enc (rom_tables, c, d) b = a2_E D b" if "length b = 16" for b
    using e [of b] that by (simp add: aes_enc_def)
  show "length b = 16 \<Longrightarrow> length (a2_E D b) = 16" using aes.length_enc [OF ready] en by metis
  have "fst (aes_crypt_ecb rom_tables d AES_DECRYPT b b) = P @ drop 16 b"
    if "16 \<le> length b" "length P = 16" "take 16 b = a2_E D P" for b P
  proof -
    have "fst (aes_crypt_ecb rom_tables d AES_DECRYPT b b) = aes_dec (rom_tables, c, d) (take 16 b) @ drop 16 b"
      using ecb_out [OF rom_tables_ok cd(4), of b b AES_DECRYPT] that(1) by (simp add: aes_dec_def)
    also have "aes_dec (rom_tables, c, d) (take 16 b) = P"
      using aes.dec_enc [OF ready that(2)] en [OF that(2)] that(3) by simp
    finally show ?thesis .
  qed
  with e show "enc_ok D (fst (aes_setkey_enc rom_tables ctx D 256))"
    "dec_ok D (fst (aes_setkey_dec rom_tables cty ctz D 256))"
    using cd(1,2) by (simp_all add: enc_ok_def dec_ok_def)
qed

lemma xor16_spec:
  "16 \<le> length bytes \<Longrightarrow> length IV = 16 \<Longrightarrow> xor16 bytes IV = xor_bytes (take 16 bytes) IV @ drop 16 bytes"
  by (simp add: xor16_def xor_loop)

section \<open>The encryption loop\<close>

lemma pad16_step:
  assumes "x \<noteq> []" "n = min 16 (length x)"
  shows "blocks16 (length x) = Suc (blocks16 (length (drop n x)))"
    "pad16 x = (take n x @ replicate (16 - n) 0) @ pad16 (drop n x)"
proof -
  have l: "0 < length x" using assms(1) by simp
  show b: "blocks16 (length x) = Suc (blocks16 (length (drop n x)))"
  proof (cases "16 \<le> length x")
    case True
    then have "length x + 15 = (length x - 16 + 15) + 16" by simp
    then have "(length x + 15) div 16 = Suc ((length x - 16 + 15) div 16)"
      by (metis div_add_self2 Suc_eq_plus1 zero_neq_numeral)
    then show ?thesis using True assms(2) by (simp add: blocks16_def)
  next
    case False
    then have "(length x + 15) div 16 = 1" using l by (intro div_nat_eqI) (simp_all add: Suc_le_eq)
    then show ?thesis using False assms(2) by (simp add: blocks16_def)
  qed
  show "pad16 x = (take n x @ replicate (16 - n) 0) @ pad16 (drop n x)"
  proof (cases "16 \<le> length x")
    case True
    then have "16 * blocks16 (length x) - length x = 16 * blocks16 (length (drop n x)) - length (drop n x)"
      using assms(2) b by simp
    then show ?thesis using True assms(2) by (simp add: pad16_def)
  next
    case False
    then have "drop n x = []" "n = length x" using assms(2) by simp_all
    then show ?thesis using False unfolding pad16_def b by (simp add: blocks16_def)
  qed
qed

lemma cbc_encrypt_Suc:
  "length a = 16 \<Longrightarrow> cbc_encrypt f (Suc n) iv (a @ y) =
    f (xor_bytes a iv) @ cbc_encrypt f n (f (xor_bytes a iv)) y"
  by (simp add: Let_def)

lemma a2_encrypt_loop_run:
  assumes enc: "enc_ok D aes" and len: "\<And>b. length b = 16 \<Longrightarrow> length (a2_E D b) = 16"
    and "hmac_rep 0 D m ctx" "length IV = 16" "16 \<le> length bytes" "length (fin F) = nat (filesize - offset)"
    and "16 * blocks16 (length (fin F)) \<le> room F"
  shows "\<exists>ctx' IV' bytes'. a2_encrypt_loop aes filesize offset (ctx, IV, bytes, F) =
      Inr (ctx', IV', bytes', \<lparr>fin = [], fout = fout F @ cbc_encrypt (a2_E D) (blocks16 (length (fin F))) IV (pad16 (fin F)),
        room = room F - 16 * blocks16 (length (fin F))\<rparr>)
    \<and> hmac_rep 0 D (m @ pad16 (fin F)) ctx' \<and> length bytes' = length bytes"
  using assms(3-7)
proof (induction "length (fin F)" arbitrary: m ctx IV bytes F offset rule: less_induct)
  case less
  show ?case
  proof (cases "offset < filesize")
    case False
    then have "fin F = []" using less.prems(4) by simp
    then show ?thesis
      using False less.prems by (cases F) (simp add: a2_encrypt_loop.simps pad16_def blocks16_def)
  next
    case True
    define x where "x = fin F"
    define n where "n = min 16 (length x)"
    define a where "a = take n x @ replicate (16 - n) 0"
    define e where "e = a2_E D (xor_bytes a IV)"
    have x: "x \<noteq> []" "length x = nat (filesize - offset)" using True less.prems(4) by (auto simp: x_def)
    note p = pad16_step [OF x(1) n_def]
    have ni: "nat (if filesize - offset > 16 then 16 else filesize - offset) = n"
      using x(2) by (auto simp: n_def)
    have la: "length a = 16" and nx: "n \<le> length x" "0 < n" "n \<le> 16" using x(1) by (simp_all add: a_def n_def)
    have le: "length e = 16" unfolding e_def by (rule len) (simp add: la less.prems(2))
    have b1: "(if n < 16 then blit (blit bytes 0 (take n x)) n (replicate (16 - n) 0) else blit bytes 0 (take n x)) =
        a @ drop 16 bytes"
      using less.prems(3) nx by (auto simp: blit_def a_def)
    have r: "hmac_rep 0 D (m @ a) (sha2_hmac_update ctx (a @ drop 16 bytes) 16)"
      using hmac_rep_update [OF less.prems(1), of 16 "a @ drop 16 bytes"] la by simp
    have lx: "length (xor_bytes a IV) = 16" using la less.prems(2) by simp
    have b3: "xor16 (a @ drop 16 bytes) IV = xor_bytes a IV @ drop 16 bytes"
      using la less.prems(2,3) by (simp add: xor16_spec)
    have b2: "fst (aes_crypt_ecb rom_tables aes AES_ENCRYPT (xor16 (a @ drop 16 bytes) IV) (xor16 (a @ drop 16 bytes) IV)) =
        e @ drop 16 bytes"
      using enc [unfolded enc_ok_def, rule_format, of "xor_bytes a IV @ drop 16 bytes"] lx
      unfolding b3 by (simp add: e_def del: length_xor_bytes)
    let ?G = "\<lparr>fin = drop n x, fout = fout F @ e, room = room F - 16\<rparr>"
    have "a2_encrypt_block aes n (ctx, IV, bytes, F) =
        Inr (sha2_hmac_update ctx (a @ drop 16 bytes) 16, e, e @ drop 16 bytes, ?G)"
    proof -
      have room: "16 \<le> room F" using less.prems(5) p(1) by (simp add: x_def)
      have rd: "fread n F = (take n x, F\<lparr>fin := drop n x\<rparr>)" by (simp add: fread_def x_def)
      have iv: "blit IV 0 (take 16 (e @ drop 16 bytes)) = e" using less.prems(2) le by (simp add: blit_def)
      have wr: "fwrite (take 16 (e @ drop 16 bytes)) (F\<lparr>fin := drop n x\<rparr>) = (16, ?G)"
        using room le by (simp add: fwrite_def Let_def)
      have ln: "length (take n x) \<noteq> n \<longleftrightarrow> False" using nx by simp
      show ?thesis
        unfolding a2_encrypt_block_def prod.case
        by (rule let_eqI [OF rd], unfold prod.case, rule let_eqI [OF refl], unfold ln if_False,
            rule let_eqI [OF b1], rule let_eqI [OF refl], rule let_eqI [OF refl], rule let_eqI [OF b2],
            rule let_eqI [OF wr]) (simp only: prod.case iv if_False simp_thms)
    qed
    then have unf: "a2_encrypt_loop aes filesize offset (ctx, IV, bytes, F) =
        a2_encrypt_loop aes filesize (offset + 16)
          (sha2_hmac_update ctx (a @ drop 16 bytes) 16, e, e @ drop 16 bytes, ?G)"
      using True by (subst a2_encrypt_loop.simps) (simp only: if_True Let_def ni sum.case)
    have "\<exists>ctx' IV' bytes'. a2_encrypt_loop aes filesize (offset + 16)
          (sha2_hmac_update ctx (a @ drop 16 bytes) 16, e, e @ drop 16 bytes, ?G) =
        Inr (ctx', IV', bytes', \<lparr>fin = [], fout = fout ?G @ cbc_encrypt (a2_E D) (blocks16 (length (fin ?G))) e (pad16 (fin ?G)),
          room = room ?G - 16 * blocks16 (length (fin ?G))\<rparr>)
      \<and> hmac_rep 0 D ((m @ a) @ pad16 (fin ?G)) ctx' \<and> length bytes' = length (e @ drop 16 bytes)"
    proof (rule less.hyps [OF _ r le])
      show "length (fin ?G) < length (fin F)" using nx by (simp add: x_def)
      show "16 \<le> length (e @ drop 16 bytes)" using le by simp
      show "length (fin ?G) = nat (filesize - (offset + 16))" using x(2) True by (auto simp: n_def)
      show "16 * blocks16 (length (fin ?G)) \<le> room ?G" using less.prems(5) p(1) by (simp add: x_def)
    qed
    then show ?thesis
      unfolding unf x_def [symmetric] p a_def [symmetric] cbc_encrypt_Suc [OF la] e_def [symmetric]
      using le less.prems(3) by auto
  qed
qed

section \<open>The decryption loop\<close>

text \<open>What is written of the padded file \<open>P\<close>: of the last block only \<open>lastn\<close> bytes, unless 0.\<close>

definition cut_last :: "int \<Rightarrow> byte list \<Rightarrow> byte list" where
  "cut_last lastn P = (if 0 < lastn \<and> P \<noteq> [] then take (length P - 16 + nat lastn) P else P)"

lemma a2_decrypt_loop_run:
  assumes dec: "dec_ok D aes" and len: "\<And>b. length b = 16 \<Longrightarrow> length (a2_E D b) = 16" and l: "0 \<le> lastn" "lastn < 16"
    and "hmac_rep 0 D m ctx" "length IV = 16" "16 \<le> length bytes" "length tmp = 16" "length P = 16 * k"
    and "fin F = cbc_encrypt (a2_E D) k IV P @ rest" "offset = filesize - 16 * int k" "length P \<le> room F"
  shows "\<exists>ctx' IV' bytes' r. a2_decrypt_loop aes lastn filesize offset tmp (ctx, IV, bytes, F) =
      Inr (ctx', IV', bytes', \<lparr>fin = rest, fout = fout F @ cut_last lastn P, room = r\<rparr>)
    \<and> hmac_rep 0 D (m @ P) ctx' \<and> length bytes' = length bytes"
  using assms(5-12)
proof (induction k arbitrary: m ctx IV bytes tmp P F offset)
  case 0
  then show ?case by (cases F) (simp add: a2_decrypt_loop.simps cut_last_def)
next
  case (Suc k)
  define a where "a = take 16 P"
  define Q where "Q = drop 16 P"
  have P: "P = a @ Q" "length a = 16" "length Q = 16 * k" using Suc.prems(5) by (simp_all add: a_def Q_def)
  define e where "e = a2_E D (xor_bytes a IV)"
  have le: "length e = 16" unfolding e_def by (rule len) (simp add: P(2) Suc.prems(2))
  have fin: "fin F = e @ cbc_encrypt (a2_E D) k e Q @ rest"
    unfolding Suc.prems(6) P(1) cbc_encrypt_Suc [OF P(2)] by (simp add: e_def)
  have b1: "blit bytes 0 e = e @ drop 16 bytes" using le by (simp add: blit_def)
  have ax: "length (xor_bytes a IV) = 16" using P(2) Suc.prems(2) by simp
  have b2: "fst (aes_crypt_ecb rom_tables aes AES_DECRYPT (e @ drop 16 bytes) (e @ drop 16 bytes)) =
      xor_bytes a IV @ drop 16 bytes"
    using dec [unfolded dec_ok_def, rule_format, of "e @ drop 16 bytes" "xor_bytes a IV"] le ax by (simp add: e_def)
  have b3: "xor16 (xor_bytes a IV @ drop 16 bytes) IV = a @ drop 16 bytes"
    using ax P(2) Suc.prems(2,3) by (simp add: xor16_spec)
  have r: "hmac_rep 0 D (m @ a) (sha2_hmac_update ctx (a @ drop 16 bytes) 16)"
    using hmac_rep_update [OF Suc.prems(1), of 16 "a @ drop 16 bytes"] P(2) by simp
  have off: "offset < filesize" "offset + 16 = filesize - 16 * int k" "offset = filesize - 16 \<longleftrightarrow> k = 0"
    using Suc.prems(7) by auto
  define n where "n = nat (if lastn > 0 \<and> k = 0 then lastn else 16)"
  have n: "n \<le> 16" using l by (auto simp: n_def)
  let ?G = "\<lparr>fin = cbc_encrypt (a2_E D) k e Q @ rest, fout = fout F @ take n a, room = room F - n\<rparr>"
  have "a2_decrypt_block aes lastn (offset = filesize - 16) tmp (ctx, IV, bytes, F) =
      Inr (e, sha2_hmac_update ctx (a @ drop 16 bytes) 16, e, a @ drop 16 bytes, ?G)"
  proof -
    have room: "n \<le> room F" using Suc.prems(5,8) n by simp
    have rd: "fread 16 F = (e, F\<lparr>fin := cbc_encrypt (a2_E D) k e Q @ rest\<rparr>)" using le by (simp add: fread_def fin)
    have iv: "blit IV 0 (take 16 e) = e" and tm: "blit tmp 0 (take 16 (e @ drop 16 bytes)) = e"
      using Suc.prems(2,4) le by (simp_all add: blit_def)
    have nn: "nat (if lastn > 0 \<and> (offset = filesize - 16) then lastn else 16) = n" by (simp add: n_def off(3))
    have wr: "fwrite (take n (a @ drop 16 bytes)) (F\<lparr>fin := cbc_encrypt (a2_E D) k e Q @ rest\<rparr>) = (n, ?G)"
      using room n P(2) by (simp add: fwrite_def Let_def)
    have ln: "length e \<noteq> 16 \<longleftrightarrow> False" using le by simp
    show ?thesis
      unfolding a2_decrypt_block_def prod.case
      by (rule let_eqI [OF rd], unfold prod.case, rule let_eqI [OF b1], unfold ln if_False,
          rule let_eqI [OF tm], rule let_eqI [OF b2], rule let_eqI [OF b3], rule let_eqI [OF refl],
          rule let_eqI [OF nn], rule let_eqI [OF wr]) (simp add: iv)
  qed
  then have unf: "a2_decrypt_loop aes lastn filesize offset tmp (ctx, IV, bytes, F) =
      a2_decrypt_loop aes lastn filesize (offset + 16) e
        (sha2_hmac_update ctx (a @ drop 16 bytes) 16, e, a @ drop 16 bytes, ?G)"
    using off(1) by (subst a2_decrypt_loop.simps) (simp only: if_True sum.case prod.case)
  have "\<exists>ctx' IV' bytes' r. a2_decrypt_loop aes lastn filesize (offset + 16) e
        (sha2_hmac_update ctx (a @ drop 16 bytes) 16, e, a @ drop 16 bytes, ?G) =
      Inr (ctx', IV', bytes', \<lparr>fin = rest, fout = fout ?G @ cut_last lastn Q, room = r\<rparr>)
    \<and> hmac_rep 0 D ((m @ a) @ Q) ctx' \<and> length bytes' = length (a @ drop 16 bytes)"
    by (rule Suc.IH [OF r]) (use le P Suc.prems(3,5,8) n off(2) in simp_all)
  moreover have "take n a @ cut_last lastn Q = cut_last lastn P"
  proof (cases "k = 0")
    case True
    then have "Q = []" using P(3) by simp
    moreover have "P = a" using P(1) calculation by simp
    ultimately show ?thesis using True P(2) l by (auto simp: cut_last_def n_def)
  next
    case False
    then have "Q \<noteq> []" using P(3) by auto
    then show ?thesis using False P by (simp add: cut_last_def n_def)
  qed
  ultimately show ?case unfolding unf P(1) [symmetric] using P(1,2) Suc.prems(3) by auto
qed

section \<open>The loop of the in-memory decryptor\<close>

lemma decrypt_buffer_loop_run:
  assumes dec: "dec_ok D aes" and len: "\<And>b. length b = 16 \<Longrightarrow> length (a2_E D b) = 16"
    and "hmac_rep 0 D m ctx" "length IV = 16" "16 \<le> length bytes" "length tmp = 16" "length P = 16 * k"
    and "data = Z @ cbc_encrypt (a2_E D) k IV P @ rest" "length Z = inp" "inp = outp + 16"
    and "offset = n - 32 - 16 * int k" "int inp = offset" "n - 32 < 2 ^ 31"
  shows "\<exists>tmp' ctx' IV' bytes' W. decrypt_buffer_loop aes lastn n offset (tmp, ctx, IV, bytes, data, int inp, int outp) =
      Some (tmp', ctx', IV', bytes', take outp Z @ P @ W @ rest, int (inp + 16 * k), int (outp + 16 * k))
    \<and> hmac_rep 0 D (m @ P) ctx' \<and> length W = 16"
  using assms(3-13)
proof (induction k arbitrary: m ctx IV bytes tmp P data Z inp outp offset)
  case 0
  then have "take outp Z @ drop outp Z @ rest = Z @ rest" by simp
  with 0 show ?case
    by (intro exI [of _ tmp] exI [of _ ctx] exI [of _ IV] exI [of _ bytes] exI [of _ "drop outp Z"])
      (simp add: decrypt_buffer_loop.simps)
next
  case (Suc k)
  define a where "a = take 16 P"
  define Q where "Q = drop 16 P"
  have P: "P = a @ Q" "length a = 16" "length Q = 16 * k" using Suc.prems(5) by (simp_all add: a_def Q_def)
  define e where "e = a2_E D (xor_bytes a IV)"
  have le: "length e = 16" unfolding e_def by (rule len) (simp add: P(2) Suc.prems(2))
  have data: "data = Z @ e @ cbc_encrypt (a2_E D) k e Q @ rest"
    unfolding Suc.prems(6) P(1) cbc_encrypt_Suc [OF P(2)] by (simp add: e_def)
  have rd: "blit bytes 0 (take 16 (drop (nat (int inp)) data)) = e @ drop 16 bytes"
    using Suc.prems(7) le by (simp add: data blit_def)
  have ax: "length (xor_bytes a IV) = 16" using P(2) Suc.prems(2) by simp
  have b2: "fst (aes_crypt_ecb rom_tables aes AES_DECRYPT (e @ drop 16 bytes) (e @ drop 16 bytes)) =
      xor_bytes a IV @ drop 16 bytes"
    using dec [unfolded dec_ok_def, rule_format, of "e @ drop 16 bytes" "xor_bytes a IV"] le ax by (simp add: e_def)
  have b3: "xor16 (xor_bytes a IV @ drop 16 bytes) IV = a @ drop 16 bytes"
    using ax P(2) Suc.prems(2,3) by (simp add: xor16_spec)
  have r: "hmac_rep 0 D (m @ a) (sha2_hmac_update ctx (a @ drop 16 bytes) 16)"
    using hmac_rep_update [OF Suc.prems(1), of 16 "a @ drop 16 bytes"] P(2) by simp
  have off: "offset < n - 32" "offset + 16 = n - 32 - 16 * int k" "(offset = n - 16) = False"
    using Suc.prems(9) by auto
  have ovf: "int inp + 16 < 2 ^ 31" "int outp + 16 < 2 ^ 31" "offset + 16 < 2 ^ 31"
    using off(2) Suc.prems(8,10,11) by linarith+
  have iv: "blit IV 0 (take 16 e) = e" and tm: "blit tmp 0 (take 16 (e @ drop 16 bytes)) = e"
    using Suc.prems(2,4) le by (simp_all add: blit_def)
  have nn: "(if lastn > 0 \<and> False then lastn else 16) = 16" by simp
  let ?Z = "take outp Z @ a @ e"
  have wr: "blit data (nat (int outp)) (take (nat 16) (a @ drop 16 bytes)) = ?Z @ cbc_encrypt (a2_E D) k e Q @ rest"
    using Suc.prems(7,8) P(2) by (simp add: data blit_def)
  have "decrypt_buffer_block aes lastn (offset = n - 16) (tmp, ctx, IV, bytes, data, int inp, int outp) =
      Some (e, sha2_hmac_update ctx (a @ drop 16 bytes) 16, e, a @ drop 16 bytes,
       ?Z @ cbc_encrypt (a2_E D) k e Q @ rest, int (inp + 16), int (outp + 16))"
    unfolding decrypt_buffer_block_def prod.case off(3)
    by (rule let_eqI [OF rd], unfold if_P [OF ovf(1)], rule let_eqI [OF refl], rule let_eqI [OF tm],
        rule let_eqI [OF b2], rule let_eqI [OF b3], rule let_eqI [OF refl], rule let_eqI [OF nn],
        rule let_eqI [OF wr], unfold if_P [OF ovf(2)]) (simp add: iv)
  then have unf: "decrypt_buffer_loop aes lastn n offset (tmp, ctx, IV, bytes, data, int inp, int outp) =
      decrypt_buffer_loop aes lastn n (offset + 16) (e, sha2_hmac_update ctx (a @ drop 16 bytes) 16, e,
        a @ drop 16 bytes, ?Z @ cbc_encrypt (a2_E D) k e Q @ rest, int (inp + 16), int (outp + 16))"
    using off(1) ovf(3) by (subst decrypt_buffer_loop.simps) (simp only: if_True option.case)
  have "\<exists>tmp' ctx' IV' bytes' W. decrypt_buffer_loop aes lastn n (offset + 16) (e, sha2_hmac_update ctx (a @ drop 16 bytes) 16, e,
        a @ drop 16 bytes, ?Z @ cbc_encrypt (a2_E D) k e Q @ rest, int (inp + 16), int (outp + 16)) =
      Some (tmp', ctx', IV', bytes', take (outp + 16) ?Z @ Q @ W @ rest, int (inp + 16 + 16 * k), int (outp + 16 + 16 * k))
    \<and> hmac_rep 0 D ((m @ a) @ Q) ctx' \<and> length W = 16"
    by (rule Suc.IH [OF r le _ le P(3) refl]) (use le P Suc.prems(7,8,10,11) off(2) in simp_all)
  then obtain tmp' ctx' IV' bytes' W where ih:
    "decrypt_buffer_loop aes lastn n (offset + 16) (e, sha2_hmac_update ctx (a @ drop 16 bytes) 16, e,
        a @ drop 16 bytes, ?Z @ cbc_encrypt (a2_E D) k e Q @ rest, int (inp + 16), int (outp + 16)) =
      Some (tmp', ctx', IV', bytes', take (outp + 16) ?Z @ Q @ W @ rest, int (inp + 16 + 16 * k), int (outp + 16 + 16 * k))"
    "hmac_rep 0 D ((m @ a) @ Q) ctx'" "length W = 16" by blast
  have t: "take (outp + 16) ?Z = take outp Z @ a"
    using Suc.prems(7,8) P(2) by simp
  have n: "inp + 16 + 16 * k = inp + 16 * Suc k" "outp + 16 + 16 * k = outp + 16 * Suc k" by simp_all
  show ?case
    by (rule exI [of _ tmp'], rule exI [of _ ctx'], rule exI [of _ IV'], rule exI [of _ bytes'], rule exI [of _ W],
        insert ih(2,3), simp only: unf ih(1) t n P(1), simp only: append_assoc simp_thms)
qed

text \<open>From \<open>2^31 + 32\<close> bytes on the offset overflows, whatever the buffer contains.\<close>

lemma decrypt_buffer_loop_overflow:
  assumes "offset < 2 ^ 31" "16 dvd offset" "2 ^ 31 + 32 \<le> len"
  shows "decrypt_buffer_loop aes lastn len offset s = None"
  using assms
proof (induction aes lastn len offset s rule: decrypt_buffer_loop.induct)
  case (1 aes lastn len offset s)
  then have c: "offset < len - 32" by simp
  have "16 dvd offset + 16" using 1(3) by simp
  then show ?case
    using 1(1) [OF c] 1(4) c by (subst decrypt_buffer_loop.simps) (simp split: option.split)
qed

section \<open>The functions\<close>

text \<open>The automatic variables have their declared sizes.\<close>

definition a2_autos_ok :: "a2_autos \<Rightarrow> bool" where
  "a2_autos_ok A \<longleftrightarrow>
     length (v_IV A) = 16 \<and> length (v_key A) = 512 \<and> length (v_digest A) = 32 \<and> length (v_bytes A) = 1024
     \<and> length (v_tmp A) = 16 \<and> length (buf (v_aes A)) = 68 \<and> length (buf (v_aes2 A)) = 68 \<and> sha2_wf (v_sha A)
     \<and> sha2_wf (v_hctx A) \<and> length (v_sum A) = 32 \<and> length (v_tmpbuf A) = 32"

lemma hmac_finish_32:
  assumes "hmac_rep 0 D m ctx" "length tmp = 32" "length out = 32"
  obtains ctx' where "sha2_hmac_finish tmp ctx out = (ctx', hmac_spec 0 D m)"
proof -
  obtain c where c: "sha2_hmac_finish tmp ctx out = sha2_finish c out"
    "sha2_rep 0 (hmac_pad 0 D 0x5C @ sha_digest 0 (hmac_pad 0 D 0x36 @ m)) c"
    by (metis hmac_finish_outer assms(1,2))
  have "snd (sha2_hmac_finish tmp ctx out) = hmac_spec 0 D m"
    using sh.finish_digest [OF c(2), of out] assms(3)
    by (simp add: c(1) hmac_spec_def length_sha_digest digest_length_def)
  then show ?thesis using that by (metis prod.collapse)
qed

lemma length_hmac0: "length (hmac_spec 0 K m) = 32"
  by (simp add: hmac_spec_def length_sha_digest digest_length_def)

lemma length_a2_body:
  assumes "length D = 32" "length IV = 16" "length P = 16 * k"
  shows "length (a2_body D IV P) = 16 * k"
proof -
  define c :: aes_context where "c = \<lparr>nr = 0, rk = 0, buf = replicate 68 0\<rparr>"
  have l: "length (a2_E D b) = 16" if "length b = 16" for b
    by (rule aes256_keys(3) [OF assms(1), of c c c]) (simp_all add: c_def that)
  have "length iv = 16 \<Longrightarrow> 16 * n \<le> length x \<Longrightarrow> length (cbc_encrypt (a2_E D) n iv x) = 16 * n" for n iv x
    by (induction n arbitrary: iv x) (simp_all add: Let_def l)
  then show ?thesis using assms by (simp add: a2_body_def)
qed

lemma length_a2_key: "length (a2_key K IV) = 32"
proof -
  have "length (((\<lambda>d. sha_digest 0 (d @ K)) ^^ Suc r) d) = 32" for r d
    by (simp add: length_sha_digest digest_length_def)
  from this [of 8191] show ?thesis by (simp add: a2_key_def eval_nat_numeral(2,3) [symmetric] del: funpow.simps)
qed

lemma length_a2_format: "length (a2_format K name x) = 48 + 16 * blocks16 (length x)"
  using length_a2_body [OF length_a2_key length_a2_IV length_pad16]
  by (simp add: a2_format_def Let_def length_hmac0)

lemma a2_encrypt_run:
  assumes A: "a2_autos_ok A" and key: "n < 2 ^ 31" "n \<le> length key" and name: "length p < 2 ^ 31"
    and F: "fin F = x" and room: "length x + 63 \<le> room F"
  shows "\<exists>r. a2_encrypt A p key (int n) (int (length x)) F =
    (0, \<lparr>fin = [], fout = fout F @ a2_format (take n key) p x, room = r\<rparr>)"
proof -
  define IV where "IV = a2_IV (int (length x)) p"
  define D where "D = a2_key (take n key) IV"
  have lIV: "length IV = 16" by (simp add: IV_def)
  have a: "length (v_IV A) = 16" "length (v_digest A) = 32" "8 \<le> length (v_bytes A)" "sha2_wf (v_sha A)"
    "68 \<le> length (buf (v_aes A))" "sha2_wf (v_hctx A)" "length (v_sum A) = 32" "length (v_tmpbuf A) = 32"
    using A by (simp_all add: a2_autos_ok_def)
  obtain bytes s d where iv: "a2_make_IV (v_sha A) (v_digest A) (v_bytes A) (v_IV A) (int (length x)) p = (IV, bytes, s, d)"
    "sha2_wf s" "length bytes = length (v_bytes A)" "length d = 32"
    unfolding IV_def by (rule a2_make_IV_spec [OF a(4,2,3,1) name])
  obtain s' where dk: "a2_derive key (int n) IV (s, d) = (s', D)" "sha2_wf s'" "length D = 32"
    unfolding D_def by (rule a2_derive_key [OF iv(2) key lIV iv(4)])
  define aes where "aes = fst (aes_setkey_enc rom_tables (v_aes A) D 256)"
  define h where "h = sha2_hmac_starts (v_hctx A) (v_sum A) s' D 32 0"
  have h: "hmac_rep 0 D [] h"
    using hmac_rep_starts [OF dk(2) a(6,7), of D 0] dk(3) by (simp add: h_def)
  have enc: "enc_ok D aes" unfolding aes_def by (rule aes256_keys(1) [OF dk(3) a(5) a(5) a(5)])
  have le: "length (a2_E D b) = 16" if "length b = 16" for b by (rule aes256_keys(3) [OF dk(3) a(5) a(5) a(5) that])
  let ?k = "blocks16 (length x)"
  have k: "16 * ?k \<le> length x + 15" by (simp add: blocks16_def)
  have kr: "16 * ?k \<le> room F - 16" using room k by linarith
  let ?G = "F\<lparr>fout := fout F @ IV, room := room F - 16\<rparr>"
  have w1: "fwrite (take 16 IV) F = (16, ?G)" using lIV room by (simp add: fwrite_def)
  obtain c IV' b' where loop: "a2_encrypt_loop aes (int (length x)) 0 (h, IV, bytes, ?G) =
      Inr (c, IV', b', \<lparr>fin = [], fout = fout ?G @ cbc_encrypt (a2_E D) ?k IV (pad16 x), room = room ?G - 16 * ?k\<rparr>)"
    "hmac_rep 0 D ([] @ pad16 x) c"
    using a2_encrypt_loop_run [OF enc le h lIV, of bytes ?G "int (length x)" 0] iv(3) A F kr
    by (auto simp: a2_autos_ok_def)
  define mac where "mac = hmac_spec 0 D (pad16 x)"
  obtain c' where fin: "sha2_hmac_finish (v_tmpbuf A) c D = (c', mac)"
    unfolding mac_def using hmac_finish_32 [OF loop(2) a(8) dk(3)] by auto
  have lm: "length mac = 32" by (simp add: mac_def length_hmac0)
  let ?H = "\<lparr>fin = [], fout = (fout F @ IV) @ cbc_encrypt (a2_E D) ?k IV (pad16 x), room = room F - 16 - 16 * ?k\<rparr>"
  have w2: "fwrite (take 32 mac) ?H = (32, ?H\<lparr>fout := fout ?H @ mac, room := room ?H - 32\<rparr>)"
    using lm room k by (simp add: fwrite_def)
  have f: "a2_format (take n key) p x = IV @ cbc_encrypt (a2_E D) ?k IV (pad16 x) @ mac"
    by (simp add: a2_format_def Let_def IV_def D_def mac_def a2_body_def length_pad16)
  show ?thesis
    unfolding a2_encrypt_def iv(1) Let_def prod.case w1 dk(1) aes_def [symmetric] h_def [symmetric] loop(1)
    using w2 by (simp add: fin f)
qed

lemma a2_decrypt_run:
  assumes A: "a2_autos_ok A" and key: "n < 2 ^ 31" "n \<le> length key"
    and len: "length IV = 16" "length P = 16 * k" "length mac = 32"
    and F: "fin F = IV @ a2_body (a2_key (take n key) IV) IV P @ mac" and room: "length P \<le> room F"
  shows "\<exists>r. a2_decrypt A key (int n) (int (length (fin F))) F =
    ((if mac = hmac_spec 0 (a2_key (take n key) IV) P then 0 else 1),
     \<lparr>fin = [], fout = fout F @ cut_last (uint (IV ! 15 AND 0x0F)) P, room = r\<rparr>)"
proof -
  define D where "D = a2_key (take n key) IV"
  have a: "length (v_IV A) = 16" "length (v_digest A) = 32" "16 \<le> length (v_bytes A)" "sha2_wf (v_sha A)"
    "68 \<le> length (buf (v_aes A))" "sha2_wf (v_hctx A)" "length (v_sum A) = 32" "length (v_tmpbuf A) = 32"
    "68 \<le> length (buf (v_aes2 A))" "length (v_tmp A) = 16" "length (v_bytes A) = 1024"
    using A by (simp_all add: a2_autos_ok_def)
  obtain s' where dk: "a2_derive key (int n) IV (v_sha A, v_digest A) = (s', D)" "sha2_wf s'" "length D = 32"
    unfolding D_def by (rule a2_derive_key [OF a(4) key len(1) a(2)])
  define aes where "aes = fst (aes_setkey_dec rom_tables (v_aes2 A) (v_aes A) D 256)"
  define h where "h = sha2_hmac_starts (v_hctx A) (v_sum A) s' D 32 0"
  define lastn where "lastn = uint (IV ! 15 AND 0x0F)"
  have h: "hmac_rep 0 D [] h"
    using hmac_rep_starts [OF dk(2) a(6,7), of D 0] dk(3) by (simp add: h_def)
  have dec: "dec_ok D aes" unfolding aes_def by (rule aes256_keys(2) [OF dk(3) a(5) a(9) a(5)])
  have le: "length (a2_E D b) = 16" if "length b = 16" for b by (rule aes256_keys(3) [OF dk(3) a(5) a(5) a(5) that])
  have body: "a2_body D IV P = cbc_encrypt (a2_E D) k IV P" by (simp add: a2_body_def len(2))
  have size: "int (length (fin F)) = 16 * int k + 48"
    unfolding F D_def [symmetric] using length_a2_body [OF dk(3) len(1,2)] len by simp
  have sz: "\<not> int (length (fin F)) < 48" "int (length (fin F)) AND 0x0F = 0"
  proof -
    have "int (length (fin F)) AND 0x0F = take_bit 4 (int (length (fin F)))"
      by (simp add: take_bit_eq_mask mask_eq_exp_minus_1)
    also have "\<dots> = 0" unfolding size by (simp add: take_bit_eq_mod)
    finally show "int (length (fin F)) AND 0x0F = 0" .
  qed (simp add: size)
  have l16: "0 \<le> lastn" "lastn < 16"
  proof -
    have "IV ! 15 AND 0x0F = take_bit 4 (IV ! 15)" by (simp add: take_bit_eq_mask mask_eq_exp_minus_1)
    moreover have "uint (take_bit 4 (IV ! 15)) = take_bit 4 (uint (IV ! 15))" by (rule unsigned_take_bit_eq)
    ultimately show "0 \<le> lastn" "lastn < 16" by (simp_all add: lastn_def take_bit_eq_mod)
  qed
  let ?G = "F\<lparr>fin := a2_body D IV P @ mac\<rparr>"
  let ?b = "IV @ drop 16 (v_bytes A)"
  have rd: "fread 16 F = (IV, ?G)" "blit (v_bytes A) 0 IV = ?b" "blit (v_IV A) 0 (take 16 ?b) = IV"
    using len(1) a(1) by (simp_all add: fread_def F D_def blit_def)
  have lb: "16 \<le> length ?b" using len(1) by simp
  have off: "0 = (int (length (fin F)) - (16 + 32)) - 16 * int k" unfolding size by simp
  obtain c IV' b' r where loop: "a2_decrypt_loop aes lastn (int (length (fin F)) - (16 + 32)) 0 (v_tmp A) (h, IV, ?b, ?G) =
      Inr (c, IV', b', \<lparr>fin = mac, fout = fout F @ cut_last lastn P, room = r\<rparr>)"
    "hmac_rep 0 D ([] @ P) c" "length b' = length ?b"
    using a2_decrypt_loop_run [OF dec le l16 h len(1) lb a(10) len(2) _ off, of ?G mac] room
    by (auto simp: body)
  define m where "m = hmac_spec 0 D P"
  obtain c' where fin: "sha2_hmac_finish (v_tmpbuf A) c D = (c', m)"
    unfolding m_def using hmac_finish_32 [OF loop(2) a(8) dk(3)] by auto
  have lm: "length m = 32" by (simp add: m_def length_hmac0)
  let ?H = "\<lparr>fin = mac, fout = fout F @ cut_last lastn P, room = r\<rparr>"
  have r2: "fread 32 ?H = (mac, ?H\<lparr>fin := []\<rparr>)" "take 32 (blit b' 0 mac) = mac"
    using len(3) by (simp_all add: fread_def blit_def)
  have ln: "(length IV \<noteq> 16) = False" "(length mac \<noteq> 32) = False" "((0 :: int) \<noteq> 0) = False"
    "(int (length (fin F)) < 48) = False" "(take 32 m \<noteq> mac) = (mac \<noteq> m)"
    using len sz(1) lm by auto
  have "a2_decrypt A key (int n) (int (length (fin F))) F = (if mac \<noteq> m then (1, ?H\<lparr>fin := []\<rparr>) else (0, ?H\<lparr>fin := []\<rparr>))"
    unfolding a2_decrypt_def
    by (simp only: sz(2) ln Let_def prod.case rd if_False lastn_def [symmetric] dk(1) fst_conv aes_def [symmetric]
        h_def [symmetric] loop(1) sum.case fin r2 files.select_convs files.update_convs)
  then show ?thesis by (simp add: m_def D_def lastn_def)
qed

lemma decrypt_buffer_run:
  assumes A: "a2_autos_ok A" and key: "n \<le> 512" "n \<le> length keytext"
    and len: "length IV = 16" "length P = 16 * k" "length mac = 32"
    and data: "data = IV @ a2_body (a2_key (take n keytext) IV) IV P @ mac"
    and size31: "length data < 2 ^ 31 + 32"
  shows "\<exists>W. Acudora_decrypt_buffer A data (int (length data)) keytext n =
      Some ((if mac = hmac_spec 0 (a2_key (take n keytext) IV) P then 0 else - 1), P @ W @ mac) \<and> length W = 16"
proof -
  define D where "D = a2_key (take n keytext) IV"
  define key where "key = blit (v_key A) 0 (take n keytext)"
  have a: "length (v_IV A) = 16" "length (v_digest A) = 32" "16 \<le> length (v_bytes A)" "sha2_wf (v_sha A)"
    "68 \<le> length (buf (v_aes A))" "sha2_wf (v_hctx A)" "length (v_sum A) = 32" "length (v_tmpbuf A) = 32"
    "68 \<le> length (buf (v_aes2 A))" "length (v_tmp A) = 16" "length (v_key A) = 512"
    using A by (simp_all add: a2_autos_ok_def)
  have kk: "n < 2 ^ 31" "n \<le> length key" "take n key = take n keytext"
    using key a(11) by (simp_all add: key_def blit_def)
  obtain s' where dk: "a2_derive key (int n) IV (v_sha A, v_digest A) = (s', D)" "sha2_wf s'" "length D = 32"
    unfolding D_def using a2_derive_key [OF a(4) kk(1,2) len(1) a(2)] unfolding kk(3) by blast
  define aes where "aes = fst (aes_setkey_dec rom_tables (v_aes2 A) (v_aes A) D 256)"
  define h where "h = sha2_hmac_starts (v_hctx A) (v_sum A) s' D 32 0"
  define lastn where "lastn = uint (IV ! 15 AND 0x0F)"
  have h: "hmac_rep 0 D [] h"
    using hmac_rep_starts [OF dk(2) a(6,7), of D 0] dk(3) by (simp add: h_def)
  have dec: "dec_ok D aes" unfolding aes_def by (rule aes256_keys(2) [OF dk(3) a(5) a(9) a(5)])
  have le: "length (a2_E D b) = 16" if "length b = 16" for b by (rule aes256_keys(3) [OF dk(3) a(5) a(5) a(5) that])
  have body: "data = IV @ cbc_encrypt (a2_E D) k IV P @ mac"
    unfolding data D_def [symmetric] by (simp add: a2_body_def len(2))
  have size: "int (length data) = 16 * int k + 48"
    unfolding data D_def [symmetric] using length_a2_body [OF dk(3) len(1,2)] len by simp
  have sz: "(int (length data) < 48) = False" "(int (length data) AND 0x0F \<noteq> 0) = False"
  proof -
    have "int (length data) AND 0x0F = take_bit 4 (int (length data))"
      by (simp add: take_bit_eq_mask mask_eq_exp_minus_1)
    also have "\<dots> = 0" unfolding size by (simp add: take_bit_eq_mod)
    finally show "(int (length data) AND 0x0F \<noteq> 0) = False" by simp
  qed (simp add: size)
  have iv: "blit (v_IV A) 0 (take 16 data) = IV" using len(1) a(1) by (simp add: data blit_def)
  have off: "16 = int (length data) - 32 - 16 * int k" unfolding size by simp
  have z: "16 = (0 :: nat) + 16" "int 16 = 16" "int (length data) - 32 < 2 ^ 31" using size31 by simp_all
  obtain tmp c IV' b' W where loop:
    "decrypt_buffer_loop aes lastn (int (length data)) 16 (v_tmp A, h, IV, v_bytes A, data, 16, 0) =
      Some (tmp, c, IV', b', P @ W @ mac, int (16 + 16 * k), int (0 + 16 * k))" "hmac_rep 0 D ([] @ P) c" "length W = 16"
    using decrypt_buffer_loop_run [OF dec le h len(1) a(3,10) len(2) body len(1) z(1) off z(2,3), of lastn] by auto
  define m where "m = hmac_spec 0 D P"
  obtain c' where fin: "sha2_hmac_finish (v_tmpbuf A) c D = (c', m)"
    unfolding m_def using hmac_finish_32 [OF loop(2) a(8) dk(3)] by auto
  have r: "take 32 (drop (nat (int (16 + 16 * k))) (P @ W @ mac)) = mac" "take 32 m = m"
    using len(2,3) loop(3) by (simp_all add: m_def length_hmac0)
  have nn: "0 + 16 = (16 :: int)" by simp_all
  have "Acudora_decrypt_buffer A data (int (length data)) keytext n =
      (if m \<noteq> mac then Some (- 1, P @ W @ mac) else Some (0, P @ W @ mac))"
    unfolding Acudora_decrypt_buffer_def
    by (simp only: Let_def key_def [symmetric] sz if_False iv nn lastn_def [symmetric] dk(1) prod.case fst_conv
        aes_def [symmetric] h_def [symmetric] loop(1) fin r option.case)
  then show ?thesis using loop(3) by (auto simp: m_def D_def)
qed

lemma decrypt_buffer_overflow:
  assumes "2 ^ 31 + 32 \<le> len" "len mod 16 = 0"
  shows "Acudora_decrypt_buffer A data len keytext n = None"
proof -
  have "len AND 0x0F = take_bit 4 len" by (simp add: take_bit_eq_mask mask_eq_exp_minus_1)
  then have "\<not> len < 48" "len AND 0x0F = 0" using assms by (simp_all add: take_bit_eq_mod)
  moreover have "decrypt_buffer_loop aes lastn len 16 s = None" for aes lastn s
    by (rule decrypt_buffer_loop_overflow [OF _ _ assms(1)]) simp_all
  ultimately show ?thesis by (simp add: Acudora_decrypt_buffer_def Let_def split: prod.split)
qed

text \<open>Every sequence of whole blocks is the encryption of one.\<close>

lemma a2_E_surj:
  assumes "length D = 32" "length e = 16"
  obtains b where "length b = 16" "a2_E D b = e"
proof -
  define c :: aes_context where "c = \<lparr>nr = 0, rk = 0, buf = replicate 68 0\<rparr>"
  have c: "68 \<le> length (buf c)" by (simp add: c_def)
  note k = aes256_keys [OF assms(1) c c c]
  let ?B = "{b :: byte list. length b = 16}"
  have "finite ?B" using finite_lists_length_eq [of "UNIV :: byte set" 16] by simp
  moreover have "inj_on (a2_E D) ?B"
  proof (rule inj_onI)
    fix x y assume xy: "x \<in> ?B" "y \<in> ?B" "a2_E D x = a2_E D y"
    then have "length (a2_E D x) = 16" using k(3) by simp
    with xy k(2) [unfolded dec_ok_def, rule_format, of "a2_E D x" x] k(2) [unfolded dec_ok_def, rule_format, of "a2_E D x" y]
    show "x = y" by simp
  qed
  moreover have "a2_E D ` ?B \<subseteq> ?B" using k(3) by auto
  ultimately have "a2_E D ` ?B = ?B" by (simp add: endo_inj_surj)
  then have "e \<in> a2_E D ` ?B" using assms(2) by simp
  then show ?thesis using that by auto
qed

lemma a2_body_surj:
  assumes "length D = 32" "length IV = 16" "length e = 16 * k"
  obtains P where "length P = 16 * k" "a2_body D IV P = e"
proof -
  have "\<exists>P. length P = 16 * k \<and> cbc_encrypt (a2_E D) k IV P = e"
    using assms(2,3)
  proof (induction k arbitrary: IV e)
    case 0
    then show ?case by simp
  next
    case (Suc k)
    define a where "a = take 16 e"
    have a: "length a = 16" "length (drop 16 e) = 16 * k" "e = a @ drop 16 e" using Suc.prems(2) by (simp_all add: a_def)
    obtain b where b: "length b = 16" "a2_E D b = a" using a2_E_surj [OF assms(1) a(1)] .
    obtain Q where Q: "length Q = 16 * k" "cbc_encrypt (a2_E D) k a Q = drop 16 e"
      using Suc.IH [OF a(1,2)] by blast
    let ?x = "xor_bytes b IV"
    have x: "length ?x = 16" "xor_bytes ?x IV = b" using b(1) Suc.prems(1) by simp_all
    have "cbc_encrypt (a2_E D) (Suc k) IV (?x @ Q) = e"
      unfolding cbc_encrypt_Suc [OF x(1)] x(2) b(2) Q(2) using a(3) by simp
    then show ?case using x(1) Q(1) by (intro exI [of _ "?x @ Q"]) simp
  qed
  then show ?thesis using that by (auto simp: a2_body_def)
qed

end
