(* ===== verification/Aescrypt2_Props.thy ===== *)
theory Aescrypt2_Props
  imports Aescrypt2_Proofs Sha2_Props
begin

unbundle bit_operations_syntax

text \<open>
  The properties of \<open>aescrypt2\<close>, of the in-memory decryptor that reads its files, and of the
  digest printer.
\<close>

section \<open>Lengths and padding\<close>

lemma int_low_nibble: "(i :: int) AND 0x0F = i mod 16"
proof -
  have "i AND 0x0F = take_bit 4 i" by (simp add: take_bit_eq_mask mask_eq_exp_minus_1)
  then show ?thesis by (simp add: take_bit_eq_mod)
qed

lemma low_nibble: "uint ((b :: byte) AND 0x0F) = uint b mod 16"
  by (simp add: unsigned_and_eq int_low_nibble)

lemma a2_IV_lastn: "uint (a2_IV (int n) name ! 15 AND 0x0F) = int (n mod 16)"
proof -
  have split: "((d :: byte) AND 0xF0 OR v) AND 0x0F = v AND 0x0F" for d v
    by (simp add: bit.conj_disj_distrib2 and.assoc)
  have "uint ((word_of_int (int n AND 0x0F) :: byte) AND 0x0F) = int n mod 16"
    unfolding low_nibble int_low_nibble by (simp add: unsigned_of_int take_bit_eq_mod mod_mod_cancel)
  then show ?thesis
    by (simp add: a2_IV_def Let_def length_sha_digest digest_length_def split zmod_int)
qed

lemma blocks16_eq: "blocks16 n = (if n mod 16 = 0 then n div 16 else Suc (n div 16))"
proof (cases "n mod 16 = 0")
  case True
  then obtain k where "n = 16 * k" by blast
  then show ?thesis by (simp add: blocks16_def)
next
  case False
  have q: "16 * (n div 16) + n mod 16 = n" by (rule mult_div_mod_eq)
  have m: "0 < n mod 16" "n mod 16 < 16" using False by simp_all
  have "16 * Suc a \<le> 16 * a + b + 15 \<and> 16 * a + b + 15 < 16 * Suc (Suc a)" if "0 < b" "b < 16" for a b :: nat
    using that by simp
  from this [OF m, of "n div 16"] have "(n + 15) div 16 = Suc (n div 16)"
    unfolding q by (intro div_nat_eqI) blast+
  then show ?thesis using False by (simp add: blocks16_def)
qed

lemma pad16_eq: "pad16 x = x @ replicate ((16 - length x mod 16) mod 16) 0"
proof -
  define n where "n = length x"
  have q: "16 * (n div 16) + n mod 16 = n" by (rule mult_div_mod_eq)
  have "16 * blocks16 n - n = (16 - n mod 16) mod 16"
  proof (cases "n mod 16 = 0")
    case False
    then have "16 * blocks16 n = 16 * (n div 16) + 16" by (simp add: blocks16_eq)
    then have "16 * blocks16 n - n = 16 - n mod 16" using q by linarith
    then show ?thesis using False by simp
  qed (use q in \<open>simp add: blocks16_eq\<close>)
  then show ?thesis by (simp add: pad16_def n_def)
qed

lemma cut_last_pad16: "cut_last (int (length x mod 16)) (pad16 x) = x"
proof (cases "length x mod 16 = 0")
  case True
  then show ?thesis by (simp add: cut_last_def pad16_eq)
next
  case False
  define n where "n = length x"
  have q: "16 * (n div 16) + n mod 16 = n" by (rule mult_div_mod_eq)
  have "16 * blocks16 n = 16 * (n div 16) + 16" using False by (simp add: blocks16_eq n_def)
  then have "length (pad16 x) - 16 + nat (int (length x mod 16)) = length x"
    using q unfolding length_pad16 nat_int n_def by linarith
  moreover have "pad16 x \<noteq> []" using False by (auto simp: pad16_def)
  moreover have "0 < int (length x mod 16)" using False by simp
  ultimately have "cut_last (int (length x mod 16)) (pad16 x) = take (length x) (pad16 x)"
    unfolding cut_last_def by presburger
  then show ?thesis by (simp add: pad16_def)
qed

section \<open>The program\<close>

text \<open>C19. Encrypting writes the initialization vector made of size and name, the plaintext padded
  with zero bytes in cipher block chaining with the AES-256 cipher of FIPS-197 under the
  stretched key, and the HMAC-SHA-256 of the padded plaintext, not of the ciphertext, as
  the comment in the decryption branch has it.\<close>

theorem aescrypt2_encrypt_format:
  assumes "a2_autos_ok A" "n < 2 ^ 31" "n \<le> length key" "length p < 2 ^ 31"
    and "fin F = x" "length x + 63 \<le> room F"
  shows "\<exists>r. a2_encrypt A p key (int n) (int (length x)) F =
    (0, \<lparr>fin = [], fout = fout F @ a2_format (take n key) p x, room = r\<rparr>)"
  by (rule a2_encrypt_run [OF assms])

definition a2_empty :: a2_autos where
  "a2_empty = \<lparr>v_IV = replicate 16 0, v_key = replicate 512 0, v_digest = replicate 32 0, v_bytes = replicate 1024 0,
     v_tmp = replicate 16 0, v_aes = \<lparr>nr = 0, rk = 0, buf = replicate 68 0\<rparr>,
     v_aes2 = \<lparr>nr = 0, rk = 0, buf = replicate 68 0\<rparr>, v_sha = zero_ctx, v_hctx = zero_ctx,
     v_sum = replicate 32 0, v_tmpbuf = replicate 32 0\<rparr>"

lemma a2_empty_ok: "a2_autos_ok a2_empty"
  by (simp add: a2_autos_ok_def a2_empty_def zero_ctx_def sha2_wf_def)

theorem aescrypt2_encrypt_format_witness:
  "\<exists>r. a2_encrypt a2_empty [1] [2, 3] (int 2) (int (length [7, 8 :: byte])) \<lparr>fin = [7, 8], fout = [], room = 99\<rparr> =
    (0, \<lparr>fin = [], fout = fout \<lparr>fin = [7, 8], fout = [], room = 99\<rparr> @ a2_format (take 2 [2, 3]) [1] [7, 8], room = r\<rparr>)"
  by (rule aescrypt2_encrypt_format [OF a2_empty_ok]) simp_all

text \<open>C20. The verdict of decrypting, for every file: one shorter than 48 bytes or with a size that
  is no multiple of 16 is refused untouched. Any other is a vector, whole blocks and 32 last
  bytes, and the blocks are the encryption of some \<open>P\<close>; \<open>P\<close> is written, cut as the vector
  says, and the result is 0 exactly when the last 32 bytes are the HMAC of \<open>P\<close>. The plaintext
  of a file that is refused for its HMAC is in the output all the same.\<close>

theorem aescrypt2_decrypt_verdict:
  assumes "a2_autos_ok A" "n < 2 ^ 31" "n \<le> length key" "length (fin F) \<le> room F + 48"
  shows "let f = fin F; IV = take 16 f; mac = drop (length f - 32) f; D = a2_key (take n key) IV;
      result = a2_decrypt A key (int n) (int (length f)) F
    in if length f < 48 \<or> length f mod 16 \<noteq> 0 then result = (1, F)
       else \<exists>P r. length P = length f - 48 \<and> f = IV @ a2_body D IV P @ mac \<and>
         result = ((if mac = hmac_spec 0 D P then 0 else 1),
           \<lparr>fin = [], fout = fout F @ cut_last (uint (IV ! 15 AND 0x0F)) P, room = r\<rparr>)"
proof (cases "length (fin F) < 48 \<or> length (fin F) mod 16 \<noteq> 0")
  case True
  then have "int (length (fin F)) < 48 \<or> int (length (fin F)) mod 16 \<noteq> 0"
    by (simp add: zmod_int [symmetric, of _ 16, simplified])
  then show ?thesis using True by (auto simp: a2_decrypt_def int_low_nibble Let_def)
next
  case False
  define f where "f = fin F"
  define IV where "IV = take 16 f"
  define mac where "mac = drop (length f - 32) f"
  define D where "D = a2_key (take n key) IV"
  define e where "e = take (length f - 48) (drop 16 f)"
  have l: "48 \<le> length f" "length f mod 16 = 0" "length IV = 16" "length mac = 32" "length e = length f - 48"
    using False by (simp_all add: f_def IV_def mac_def e_def)
  then obtain k where k: "length f = 16 * k" by auto
  have le: "length e = 16 * (k - 3)" using l k by simp
  have f: "f = IV @ e @ mac"
    using l(1) append_take_drop_id [of "length f - 48" "drop 16 f"] append_take_drop_id [of 16 f]
    by (simp add: IV_def e_def mac_def)
  have lD: "length D = 32" by (simp add: D_def length_a2_key)
  obtain P where P: "length P = 16 * (k - 3)" "a2_body D IV P = e" by (rule a2_body_surj [OF lD l(3) le])
  have F: "fin F = IV @ a2_body (a2_key (take n key) IV) IV P @ mac"
    using f P(2) by (simp add: D_def f_def)
  have room: "length P \<le> room F" using P(1) assms(4) k by (simp add: f_def)
  obtain r where "a2_decrypt A key (int n) (int (length (fin F))) F =
    ((if mac = hmac_spec 0 (a2_key (take n key) IV) P then 0 else 1),
     \<lparr>fin = [], fout = fout F @ cut_last (uint (IV ! 15 AND 0x0F)) P, room = r\<rparr>)"
    using a2_decrypt_run [OF assms(1-3) l(3) P(1) l(4) F room] by blast
  moreover have "length P = length f - 48" using P(1) k by simp
  ultimately show ?thesis
    using False f P(2) unfolding Let_def f_def [symmetric] IV_def [symmetric] mac_def [symmetric] D_def [symmetric]
    by auto
qed

theorem aescrypt2_decrypt_verdict_witness:
  "(let F = \<lparr>fin = replicate 64 7, fout = [], room = 16\<rparr>;
        f = fin F; IV = take 16 f; mac = drop (length f - 32) f; D = a2_key (take 2 [2, 3]) IV
    in \<exists>P r. length P = length f - 48 \<and> f = IV @ a2_body D IV P @ mac \<and>
         a2_decrypt a2_empty [2, 3] (int 2) (int (length f)) F = ((if mac = hmac_spec 0 D P then 0 else 1),
           \<lparr>fin = [], fout = fout F @ cut_last (uint (IV ! 15 AND 0x0F)) P, room = r\<rparr>))
   \<and> a2_decrypt a2_empty [2, 3] (int 2) (int 47) \<lparr>fin = replicate 47 7, fout = [], room = 16\<rparr> =
     (1, \<lparr>fin = replicate 47 7, fout = [], room = 16\<rparr>)"
  using aescrypt2_decrypt_verdict [OF a2_empty_ok, of 2 "[2, 3]" "\<lparr>fin = replicate 64 7, fout = [], room = 16\<rparr>"]
    aescrypt2_decrypt_verdict [OF a2_empty_ok, of 2 "[2, 3]" "\<lparr>fin = replicate 47 7, fout = [], room = 16\<rparr>"]
  by (simp add: Let_def)

text \<open>C21. Running the program to encrypt and then, with the same plain key text, to decrypt the file
  it wrote ends with status 0 both times and reproduces the input, its length included.\<close>

theorem aescrypt2_round_trip:
  assumes "a2_autos_ok A" "a2_autos_ok B" "plain_key k" "length i < 2 ^ 31" "i \<noteq> o1" "o1 \<noteq> o2"
    and "rb i = Some x" "wb o1 = Some n" "length x + 63 \<le> n"
    and "rb' o1 = snd (aescrypt2_main A rb wb False False [p, m, i, o1, k] 0 q)"
    and "wb' o2 = Some n'" "length x + 15 \<le> n'"
  shows "fst (aescrypt2_main A rb wb False False [p, m, i, o1, k] 0 q) = 0
    \<and> aescrypt2_main B rb' wb' False False [p', m', o1, o2, k] 1 q' = (0, Some x)"
proof -
  let ?l = "min 512 (length k)"
  have K: "length (v_key A) = 512" "length (v_key B) = 512" using assms(1,2) by (simp_all add: a2_autos_ok_def)
  have pk: "parse_keytext fs (k @ 0 # z) (v_key A) 512 = (int ?l, take 512 k @ drop (length k) (v_key A))"
    "parse_keytext fs (k @ 0 # z) (v_key B) 512 = (int ?l, take 512 k @ drop (length k) (v_key B))" for fs z
    using K assms(3) by (simp_all add: parse_plain)
  have tk: "take ?l (take 512 k @ z) = take 512 k" for z by (simp add: min_def)
  have l: "?l \<le> length (take 512 k @ z)" "?l < 2 ^ 31" for z by simp_all
  define IV where "IV = a2_IV (int (length x)) i"
  define D where "D = a2_key (take 512 k) IV"
  define f where "f = a2_format (take 512 k) i x"
  have f: "f = IV @ a2_body D IV (pad16 x) @ hmac_spec 0 D (pad16 x)"
    by (simp add: f_def a2_format_def Let_def IV_def D_def)
  obtain r where e: "a2_encrypt A i (take 512 k @ drop (length k) (v_key A)) (int ?l) (int (length x))
      \<lparr>fin = x, fout = [], room = n\<rparr> = (0, \<lparr>fin = [], fout = f, room = r\<rparr>)"
    using a2_encrypt_run [OF assms(1) l(2,1) assms(4), of "\<lparr>fin = x, fout = [], room = n\<rparr>" x "drop (length k) (v_key A)"]
      assms(9) unfolding tk f_def by auto
  have m1: "aescrypt2_main A rb wb False False [p, m, i, o1, k] 0 q = (0, Some f)"
    using assms(5,7,8) e by (simp add: aescrypt2_main_def Let_def pk)
  have lP: "length (pad16 x) = 16 * blocks16 (length x)" "length (pad16 x) \<le> n'"
    using assms(12) by (simp_all add: length_pad16 blocks16_def)
  obtain r' where d: "a2_decrypt B (take 512 k @ drop (length k) (v_key B)) (int ?l) (int (length f))
      \<lparr>fin = f, fout = [], room = n'\<rparr> = (0, \<lparr>fin = [], fout = x, room = r'\<rparr>)"
    using a2_decrypt_run [OF assms(2) l(2,1) _ lP(1) length_hmac0 [of D "pad16 x"],
        of IV "\<lparr>fin = f, fout = [], room = n'\<rparr>" "drop (length k) (v_key B)"] lP(2)
    unfolding tk D_def [symmetric] by (auto simp: f IV_def a2_IV_lastn cut_last_pad16)
  have "aescrypt2_main B rb' wb' False False [p', m', o1, o2, k] 1 q' = (0, Some x)"
    using assms(6,10,11) m1 d by (simp add: aescrypt2_main_def Let_def pk)
  then show ?thesis by (simp add: m1)
qed

theorem aescrypt2_round_trip_witness:
  "\<exists>c. aescrypt2_main a2_empty (\<lambda>f. if f = [1] then Some [7, 8] else c) (\<lambda>_. Some 99) False False
      [[], [0x31], [2], [3], [9]] 1 [] = (0, Some [7, 8])"
  by (rule exI, rule aescrypt2_round_trip [where k = "[9]" and i = "[1]" and q = "[]" and p = "[]" and m = "[0x30]"
        and n = 99 and n' = 99 and x = "[7, 8]" and wb = "\<lambda>_. Some 99" and rb = "\<lambda>_. Some [7, 8]",
        THEN conjunct2, OF a2_empty_ok a2_empty_ok])
    (simp_all add: plain_key_def ascii_prefixes)

section \<open>The in-memory decryptor and the hash functions\<close>

text \<open>The verdict of \<open>Acudora_decrypt_buffer\<close>: wrong sizes leave the buffer alone; otherwise, below
  \<open>2^31 + 32\<close> bytes, the whole padded plaintext is moved to the start of the buffer, and the
  result is 0 exactly when the HMAC in the last 32 bytes is that of the padded plaintext.\<close>

theorem decrypt_buffer_verdict:
  assumes "a2_autos_ok A" "n \<le> 512" "n \<le> length keytext"
    and "length IV = 16" "length P = 16 * k" "length mac = 32"
    and "data = IV @ a2_body (a2_key (take n keytext) IV) IV P @ mac" "length data < 2 ^ 31 + 32"
  shows "(len < 48 \<or> len mod 16 \<noteq> 0 \<longrightarrow> Acudora_decrypt_buffer A z len keytext n = Some (- 1, z))
    \<and> (\<exists>W. Acudora_decrypt_buffer A data (int (length data)) keytext n =
         Some ((if mac = hmac_spec 0 (a2_key (take n keytext) IV) P then 0 else - 1), P @ W @ mac) \<and> length W = 16)"
proof -
  have "len < 48 \<or> len mod 16 \<noteq> 0 \<Longrightarrow> Acudora_decrypt_buffer A z len keytext n = Some (- 1, z)"
    by (auto simp: Acudora_decrypt_buffer_def int_low_nibble)
  then show ?thesis using decrypt_buffer_run [OF assms] by blast
qed

theorem decrypt_buffer_verdict_witness:
  "\<exists>data. (\<exists>W. Acudora_decrypt_buffer a2_empty data (int (length data)) [9] 1 =
         Some ((if replicate 32 0 = hmac_spec 0 (a2_key (take 1 [9]) (replicate 16 0)) (replicate 16 5) then 0 else - 1),
          replicate 16 5 @ W @ replicate 32 0) \<and> length W = 16)"
  by (rule exI, rule decrypt_buffer_verdict [OF a2_empty_ok _ _ _ _ _ refl, where k = 1 and len = 0 and z = "[]", THEN conjunct2])
    (simp_all add: length_a2_body [OF length_a2_key, of _ _ 1])

text \<open>C22. \<open>Acudora_decrypt_buffer\<close> accepts every file \<open>aescrypt2\<close> writes with the same key, up to the
  size, \<open>2^31 + 32\<close> bytes, from which on its \<open>int\<close> offsets overflow and there is no defined
  result. Below it the buffer then starts with the plaintext. But it is the plaintext up to
  whole blocks: the size modulo 16 in the initialization vector is read and has no effect, so
  the caller cannot tell the zero bytes of the padding from those of the file.\<close>

theorem decrypt_buffer_reads_aescrypt2:
  assumes "a2_autos_ok A" "n \<le> 512" "n \<le> length keytext"
  shows "let f = a2_format (take n keytext) name x;
      result = Acudora_decrypt_buffer A f (int (length f)) keytext n
    in if length f < 2 ^ 31 + 32
       then \<exists>W. result = Some (0, x @ replicate ((16 - length x mod 16) mod 16) 0 @ W)
       else result = None"
proof -
  let ?IV = "a2_IV (int (length x)) name"
  let ?D = "a2_key (take n keytext) ?IV"
  define f where "f = a2_format (take n keytext) name x"
  have f: "f = ?IV @ a2_body ?D ?IV (pad16 x) @ hmac_spec 0 ?D (pad16 x)"
    by (simp add: f_def a2_format_def Let_def)
  have "length f = 48 + 16 * blocks16 (length x)" by (simp add: f_def length_a2_format)
  then have m: "int (length f) mod 16 = 0" by simp
  show ?thesis
  proof (cases "length f < 2 ^ 31 + 32")
    case True
    then show ?thesis
      using decrypt_buffer_run [OF assms length_a2_IV length_pad16 length_hmac0 f]
      unfolding Let_def f_def [symmetric] by (auto simp: pad16_eq)
  next
    case False
    then have "2 ^ 31 + 32 \<le> int (length f)" by simp
    then show ?thesis
      using decrypt_buffer_overflow [OF _ m] False unfolding Let_def f_def [symmetric] by simp
  qed
qed

theorem decrypt_buffer_reads_aescrypt2_witness:
  "\<exists>W. Acudora_decrypt_buffer a2_empty (a2_format (take 1 [9]) [0x61] [1, 2, 3])
      (int (length (a2_format (take 1 [9]) [0x61] [1, 2, 3]))) [9] 1 =
    Some (0, [1, 2, 3] @ replicate 13 0 @ W)"
  using decrypt_buffer_reads_aescrypt2 [OF a2_empty_ok, of 1 "[9]" "[0x61]" "[1, 2, 3]"]
  by (simp add: Let_def length_a2_format blocks16_def)

text \<open>\<open>Sha2Sum\<close> prints the 64 hexadecimal digits of the SHA-256 digest of the file and nothing
  when it cannot be read; \<open>Acudora_sha2\<close> is \<open>count\<close> rounds of hashing digest and text,
  starting from zeros; \<open>Acudora_sha2_file\<close> is the digest of the file.\<close>

theorem sha2sum_prints_digest:
  assumes "sha2_wf ctx" "reads_ok blocks" "length dig = 32" "65 \<le> length txt" "2 \<le> argc"
    and "n < 2 ^ 31" "n \<le> length t"
  shows "sha2sum_main ctx dig txt argc (Some (blocks, err)) =
      (if err then (2, []) else (0, hex_text (sha_digest 0 (concat (file_reads blocks)))))
    \<and> sha2sum_main ctx dig txt argc None = (1, [])
    \<and> sha2sum_main ctx dig txt 1 path = (- 1, [])
    \<and> Acudora_sha2_file ctx (Some (blocks, err)) dig =
        ((if err then 2 else 0), sha_digest 0 (concat (file_reads blocks)))
    \<and> Acudora_sha2 ctx t (int n) dig count = ((\<lambda>d. sha_digest 0 (d @ take n t)) ^^ count) (replicate 32 0)"
proof -
  have ne: "hexdigit (drop_bit 4 b) \<noteq> 0 \<and> hexdigit (b AND 15) \<noteq> 0" for b
    using hexdigit_nibble [of "drop_bit 4 b"] hexdigit_nibble [of "b AND 15"] nibbles [of b] by simp
  then have nz: "0 \<notin> set (hex_text bs)" for bs by (induction bs) (auto simp: hex_text_def)
  have "0 \<notin> set s \<Longrightarrow> c_string (s @ 0 # z) = s" for s z by (induction s) (auto simp: c_string_def)
  then have cs: "c_string (hex_text bs @ 0 # z) = hex_text bs" for bs z using nz by blast
  have "blit dig 0 (replicate 32 0) = replicate 32 0" using assms(3) by (simp add: blit_def)
  moreover have "\<exists>s'. (a2_hash_step t (int n) ^^ count) (ctx, replicate 32 0) =
      (s', ((\<lambda>d. sha_digest 0 (d @ take n t)) ^^ count) (replicate 32 0))"
    using a2_hash_steps [OF assms(1) _ assms(6,7), of "replicate 32 0" count] by auto
  ultimately have s: "Acudora_sha2 ctx t (int n) dig count =
      ((\<lambda>d. sha_digest 0 (d @ take n t)) ^^ count) (replicate 32 0)"
    by (auto simp: Acudora_sha2_def)
  have none: "sha2_file ctx None dig 0 = (1, dig)" by (simp add: sha2_file_def)
  show ?thesis
    using assms(4,5) by (simp add: s sha2sum_main_def Acudora_sha2_file_def sha2_file_digest [OF assms(1-3)]
        digest_length_def assms(3) length_sha_digest digest_to_text_hex cs none)
qed

theorem sha2sum_prints_digest_witness:
  "sha2sum_main zero_ctx (replicate 32 0) (replicate 65 0) 1 None = (- 1, [])"
  using sha2sum_prints_digest [of zero_ctx "[]" "replicate 32 0" "replicate 65 0" 2 0 "[]" False None 0]
  by (simp add: sha2_wf_def zero_ctx_def reads_ok_def)

end
