(* ===== verification/Ldb_Dpb.thy ===== *)
theory Ldb_Dpb
  imports Prelude
begin

unbundle bit_operations_syntax

text \<open>
  \<open>ldb-dpb.c\<close>: loading and depositing a field of bits in an array of 64-bit words. The mask
  is computed as an \<open>int\<close>, so \<open>1 << len\<close> is undefined from 31 bits on (though the comment
  allows 64); there the functions have no value.
\<close>

definition field_mask :: "nat \<Rightarrow> u64 option" where
  "field_mask len = (if len < 31 then Some (push_bit len 1 - 1) else None)"

definition ldb :: "u64 list \<Rightarrow> nat \<Rightarrow> nat \<Rightarrow> u64 option" where
  "ldb v len pos =
    (let byt = take_bit 32 (drop_bit 6 pos);
         off = pos AND 63
     in case field_mask len of
          None \<Rightarrow> None
        | Some msk \<Rightarrow>
            let xlo = drop_bit off (v ! byt);
                nlo = 64 - off
            in if nlo \<ge> len then Some (xlo AND msk)
               else
                 let xhi = push_bit nlo (v ! (byt + 1))
                 in Some ((xhi OR xlo) AND msk))"

definition dbp :: "u64 \<Rightarrow> u64 list \<Rightarrow> nat \<Rightarrow> nat \<Rightarrow> u64 list option" where
  "dbp x v len pos =
    (let byt = take_bit 32 (drop_bit 6 pos);
         off = pos AND 63
     in case field_mask len of
          None \<Rightarrow> None
        | Some msk \<Rightarrow>
            let xbits = x AND msk;
                v = v[byt := v ! byt AND NOT (push_bit off msk)];
                v = v[byt := v ! byt OR push_bit off xbits];
                nlo = 64 - off
            in if nlo < len
               then
                 let nsh = len - nlo;
                     v = v[byt + 1 := v ! (byt + 1) AND NOT (drop_bit nsh msk)];
                     v = v[byt + 1 := v ! (byt + 1) OR drop_bit nsh xbits]
                 in Some v
               else Some v)"

section \<open>The bits of an array\<close>

definition abit :: "u64 list \<Rightarrow> nat \<Rightarrow> bool" where
  "abit v k \<longleftrightarrow> bit (v ! (k div 64)) (k mod 64)"








section \<open>Properties\<close>



text \<open>
  Across a word boundary what is read back differs, and bits outside of the field are changed.
\<close>

lemma dbp_straddling:
  "dbp 4 [0, 0] 3 62 = Some [0, 2]" "ldb [0, 2] 3 62 = Some 0"
  "dbp 0 [0, 15] 3 62 = Some [0, 12]" "abit [0, 15] 65" "\<not> abit [0, 12] 65"
  by (simp_all add: dbp_def ldb_def field_mask_def abit_def Let_def push_bit_eq_mult drop_bit_eq_div)

end
