(* ===== verification/Limbs.thy ===== *)
theory Limbs
  imports Prelude
begin

unbundle bit_operations_syntax

text \<open>
  Elements of a prime field as arrays of signed 64-bit limbs, as in \<open>ed3363_intf.cpp\<close> (six limbs
  of 56 bits) and \<open>curve1174_intf.cpp\<close> (five limbs of 51 bits). The functions that work
  limb by limb have the same text in both files but for the number of limbs, which here is
  the length of the list.

  A \<open>type64\<close> is an integer, wrapped where it is assigned or shifted (\<open>w64\<close>); \<open>type128\<close>
  likewise. Wrapping commutes with addition and multiplication, so one \<open>w64\<close> or \<open>w128\<close>
  around an expression stands for those of its parts.
\<close>

definition w64 :: "int \<Rightarrow> int" where
  "w64 x = signed_take_bit 63 x"

definition w128 :: "int \<Rightarrow> int" where
  "w128 x = signed_take_bit 127 x"

type_synonym fe = "int list"

definition gadd :: "fe \<Rightarrow> fe \<Rightarrow> fe" where
  "gadd x y = map2 (\<lambda>a b. w64 (a + b)) x y"

definition gsub :: "fe \<Rightarrow> fe \<Rightarrow> fe" where
  "gsub x y = map2 (\<lambda>a b. w64 (a - b)) x y"

definition gdec :: "fe \<Rightarrow> fe \<Rightarrow> fe" where
  "gdec x w = map2 (\<lambda>a b. w64 (b - a)) x w"

definition gcopy :: "fe \<Rightarrow> fe" where
  "gcopy x = x"

definition gmul2 :: "fe \<Rightarrow> fe" where
  "gmul2 w = map (\<lambda>a. w64 (a * 2)) w"

definition gsb2 :: "fe \<Rightarrow> fe \<Rightarrow> fe" where
  "gsb2 x w = map2 (\<lambda>a b. w64 (b - 2 * a)) x w"

definition gneg :: "fe \<Rightarrow> fe" where
  "gneg x = map (\<lambda>a. w64 (- a)) x"

section \<open>What a list of limbs stands for\<close>

text \<open>\<open>val ws x\<close> is the number with the limbs \<open>x\<close> of weights \<open>ws\<close>.\<close>

definition val :: "int list \<Rightarrow> fe \<Rightarrow> int" where
  "val ws x = sum_list (map2 (*) ws x)"

text \<open>\<open>x\<close> has limbs of absolute value at most \<open>B\<close> and stands for \<open>a\<close> modulo \<open>p\<close>.\<close>

definition rep :: "int list \<Rightarrow> int \<Rightarrow> int \<Rightarrow> fe \<Rightarrow> int \<Rightarrow> bool" where
  "rep ws p B x a \<longleftrightarrow> length x = length ws \<and> (\<forall>l \<in> set x. \<bar>l\<bar> \<le> B) \<and> p dvd (val ws x - a)"

lemma w64_id: "- (2 ^ 63) \<le> x \<Longrightarrow> x < 2 ^ 63 \<Longrightarrow> w64 x = x"
  unfolding w64_def by (rule signed_take_bit_int_eq_self)

lemma w128_id: "- (2 ^ 127) \<le> x \<Longrightarrow> x < 2 ^ 127 \<Longrightarrow> w128 x = x"
  unfolding w128_def by (rule signed_take_bit_int_eq_self)

lemma w64_abs: "\<bar>x\<bar> < 2 ^ 63 \<Longrightarrow> w64 x = x"
  by (rule w64_id) (simp_all add: abs_less_iff)

lemma w128_abs: "\<bar>x\<bar> < 2 ^ 127 \<Longrightarrow> w128 x = x"
  by (rule w128_id) (simp_all add: abs_less_iff)

lemma w64_and_mask:
  assumes "n \<le> 63"
  shows "w64 x AND mask n = x mod 2 ^ n"
proof -
  have "w64 x AND mask n = take_bit n (signed_take_bit 63 x)" by (simp add: w64_def take_bit_eq_mask)
  also have "\<dots> = take_bit n x" using assms by (simp add: take_bit_signed_take_bit)
  finally show ?thesis by (simp add: take_bit_eq_mod)
qed

lemma rep_weaken: "rep ws p B x a \<Longrightarrow> B \<le> C \<Longrightarrow> rep ws p C x a"
  by (force simp: rep_def)

lemma rep_cong: "rep ws p B x a \<Longrightarrow> p dvd (a - b) \<Longrightarrow> rep ws p B x b"
  using dvd_add [of p "val ws x - a" "a - b"] by (simp add: rep_def)

lemma val_map2:
  "length x = length ws \<Longrightarrow> length ws = length y \<Longrightarrow>
    val ws (map2 (\<lambda>a b. m * a + n * b) x y) = m * val ws x + n * val ws y"
  unfolding val_def by (induction x ws y rule: list_induct3) (simp_all add: algebra_simps)

text \<open>Any linear combination, computed without overflow.\<close>

lemma rep_linear:
  assumes x: "rep ws p A x a" and y: "rep ws p B y b" and f: "\<And>u v. f u v = w64 (m * u + n * v)"
    and C: "\<bar>m\<bar> * A + \<bar>n\<bar> * B \<le> C" "C < 2 ^ 63"
  shows "rep ws p C (map2 f x y) (m * a + n * b)"
proof -
  have l: "length x = length ws" "length ws = length y" using x y by (simp_all add: rep_def)
  have b: "\<bar>m * u + n * v\<bar> \<le> C" if "(u, v) \<in> set (zip x y)" for u v
  proof -
    have "\<bar>u\<bar> \<le> A" "\<bar>v\<bar> \<le> B" using that x y by (auto simp: rep_def dest: set_zip_leftD set_zip_rightD)
    then have "\<bar>m\<bar> * \<bar>u\<bar> \<le> \<bar>m\<bar> * A" "\<bar>n\<bar> * \<bar>v\<bar> \<le> \<bar>n\<bar> * B" by (simp_all add: mult_left_mono)
    then have "\<bar>m * u\<bar> + \<bar>n * v\<bar> \<le> C" using C(1) by (simp add: abs_mult)
    then show ?thesis using abs_triangle_ineq [of "m * u" "n * v"] by linarith
  qed
  have e: "map2 f x y = map2 (\<lambda>u v. m * u + n * v) x y"
  proof (rule map_cong [OF refl], clarify)
    fix u v assume "(u, v) \<in> set (zip x y)"
    then have "w64 (m * u + n * v) = m * u + n * v" using b C(2) by (intro w64_abs) fastforce
    then show "f u v = m * u + n * v" by (simp add: f)
  qed
  have "p dvd m * (val ws x - a) + n * (val ws y - b)" using x y by (simp add: rep_def)
  also have "m * (val ws x - a) + n * (val ws y - b) = val ws (map2 f x y) - (m * a + n * b)"
    unfolding e val_map2 [OF l] by (simp add: algebra_simps)
  finally show ?thesis using l b unfolding rep_def e by auto
qed

lemma rep_gadd: "rep ws p A x a \<Longrightarrow> rep ws p B y b \<Longrightarrow> A + B < 2 ^ 63 \<Longrightarrow> rep ws p (A + B) (gadd x y) (a + b)"
  unfolding gadd_def using rep_linear [of ws p A x a B y b "\<lambda>u v. w64 (u + v)" 1 1 "A + B"] by simp

lemma rep_gsub: "rep ws p A x a \<Longrightarrow> rep ws p B y b \<Longrightarrow> A + B < 2 ^ 63 \<Longrightarrow> rep ws p (A + B) (gsub x y) (a - b)"
  unfolding gsub_def using rep_linear [of ws p A x a B y b "\<lambda>u v. w64 (u - v)" 1 "- 1" "A + B"] by simp

lemma rep_gdec: "rep ws p A x a \<Longrightarrow> rep ws p B y b \<Longrightarrow> A + B < 2 ^ 63 \<Longrightarrow> rep ws p (A + B) (gdec x y) (b - a)"
  unfolding gdec_def using rep_linear [of ws p A x a B y b "\<lambda>u v. w64 (v - u)" "- 1" 1 "A + B"] by simp

lemma rep_gsb2: "rep ws p A x a \<Longrightarrow> rep ws p B y b \<Longrightarrow> 2 * A + B < 2 ^ 63 \<Longrightarrow> rep ws p (2 * A + B) (gsb2 x y) (b - 2 * a)"
  unfolding gsb2_def using rep_linear [of ws p A x a B y b "\<lambda>u v. w64 (v - 2 * u)" "- 2" 1 "2 * A + B"] by simp

lemma map_map2: "map f x = map2 (\<lambda>u v. f u) x x"
  by (induction x) simp_all

lemma rep_gmul2: "rep ws p A x a \<Longrightarrow> 2 * A < 2 ^ 63 \<Longrightarrow> rep ws p (2 * A) (gmul2 x) (2 * a)"
  unfolding gmul2_def map_map2 [of "\<lambda>a. w64 (a * 2)"]
  using rep_linear [of ws p A x a A x a "\<lambda>u v. w64 (u * 2)" 2 0 "2 * A"] by (simp add: mult.commute)

lemma rep_gneg: "rep ws p A x a \<Longrightarrow> A < 2 ^ 63 \<Longrightarrow> rep ws p A (gneg x) (- a)"
  unfolding gneg_def map_map2 [of "\<lambda>a. w64 (- a)"]
  using rep_linear [of ws p A x a A x a "\<lambda>u v. w64 (- u)" "- 1" 0 A] by simp

lemma rep_gcopy: "rep ws p A x a \<Longrightarrow> rep ws p A (gcopy x) a"
  by (simp add: gcopy_def)

end
