(* ===== verification/Edwards.thy ===== *)
theory Edwards
  imports Limbs
begin

unbundle bit_operations_syntax

text \<open>
  The point functions of \<open>ed3363_intf.cpp\<close>; the text of \<open>curve1174_intf.cpp\<close> is the same but
  for the field functions and constants it uses, which are the fields of a record here. A
  function that writes through a pointer returns the new value; the contents of automatic
  arrays are assigned before they are read, but for \<open>Q\<close> in \<open>mul_to_proj\<close>.
\<close>

record field_ops =
  f_mul :: "fe \<Rightarrow> fe \<Rightarrow> fe"
  f_sqr :: "fe \<Rightarrow> fe"
  f_muli :: "fe \<Rightarrow> int \<Rightarrow> fe"
  f_scr :: "fe \<Rightarrow> fe"
  f_inv :: "fe \<Rightarrow> fe"
  f_limbs :: nat
  kCurveD :: int
  f_panes :: nat

record ECp =
  px :: fe
  py :: fe
  pz :: fe
  pt :: fe

definition double_1 :: "field_ops \<Rightarrow> ECp \<Rightarrow> ECp" where
  "double_1 F P =
    (let a = f_sqr F (px P);
         b = f_sqr F (py P);
         e = gcopy (pt P);
         e = gmul2 e;
         g = gadd a b;
         f = gcopy g;
         f = f[0 := w64 (f ! 0 - 2)];
         h = gsub a b;
         x = f_mul F e f;
         y = f_mul F g h;
         z = f_sqr F g;
         z = gsb2 g z;
         t = f_mul F e h;
         z = f_scr F z
     in \<lparr>px = x, py = y, pz = z, pt = t\<rparr>)"

definition double_2 :: "field_ops \<Rightarrow> ECp \<Rightarrow> ECp" where
  "double_2 F P =
    (let a = f_sqr F (px P);
         b = f_sqr F (py P);
         c = f_sqr F (pz P);
         c = gmul2 c;
         g = gadd (px P) (py P);
         e = f_sqr F g;
         e = gdec a e;
         e = gdec b e;
         g = gadd a b;
         f = gsub g c;
         h = gsub a b
     in P\<lparr>px := f_mul F e f, py := f_mul F g h, pz := f_mul F f g\<rparr>)"

definition double_3 :: "field_ops \<Rightarrow> ECp \<Rightarrow> ECp" where
  "double_3 F P =
    (let a = f_sqr F (px P);
         b = f_sqr F (py P);
         c = f_sqr F (pz P);
         c = gmul2 c;
         g = gadd (px P) (py P);
         e = f_sqr F g;
         e = gdec a e;
         e = gdec b e;
         g = gadd a b;
         f = gsub g c;
         h = gsub a b
     in \<lparr>px = f_mul F e f, py = f_mul F g h, pz = f_mul F f g, pt = f_mul F e h\<rparr>)"

definition add_1 :: "field_ops \<Rightarrow> ECp \<Rightarrow> ECp \<Rightarrow> ECp" where
  "add_1 F Q P =
    (let a = f_mul F (px P) (px Q);
         b = f_mul F (py P) (py Q);
         c = f_mul F (pt P) (pt Q);
         f = gsub (pz P) c;
         g = gadd (pz P) c;
         h = gsub b a;
         c = gadd (px P) (py P);
         d = gadd (px Q) (py Q);
         e = f_mul F c d;
         e = gdec a e;
         e = gdec b e
     in \<lparr>px = f_mul F e f, py = f_mul F g h, pz = f_mul F f g, pt = f_mul F e h\<rparr>)"

definition add_2 :: "field_ops \<Rightarrow> ECp \<Rightarrow> ECp \<Rightarrow> ECp" where
  "add_2 F Q P =
    (let a = f_mul F (px P) (px Q);
         b = f_mul F (py P) (py Q);
         c = f_mul F (pt P) (pt Q);
         d = f_mul F (pz P) (pz Q);
         f = gsub d c;
         g = gadd d c;
         h = gsub b a;
         c = gadd (px P) (py P);
         d = gadd (px Q) (py Q);
         e = f_mul F c d;
         e = gdec a e;
         e = gdec b e
     in P\<lparr>px := f_mul F e f, py := f_mul F g h, pz := f_mul F f g\<rparr>)"

definition fe_zero :: "field_ops \<Rightarrow> fe" where
  "fe_zero F = replicate (f_limbs F) 0"

definition inf_point :: "field_ops \<Rightarrow> ECp" where
  "inf_point F = \<lparr>px = fe_zero F, py = (fe_zero F)[0 := 1], pz = (fe_zero F)[0 := 1], pt = fe_zero F\<rparr>"

definition init :: "field_ops \<Rightarrow> fe \<Rightarrow> fe \<Rightarrow> ECp" where
  "init F x y = \<lparr>px = x, py = y, pz = (fe_zero F)[0 := 1], pt = f_mul F x y\<rparr>"

definition copy :: "ECp \<Rightarrow> ECp" where
  "copy Q = \<lparr>px = px Q, py = py Q, pz = pz Q, pt = pt Q\<rparr>"

definition neg :: "ECp \<Rightarrow> ECp" where
  "neg Q = \<lparr>px = gneg (px Q), py = py Q, pz = pz Q, pt = gneg (pt Q)\<rparr>"

definition norm_point :: "field_ops \<Rightarrow> ECp \<Rightarrow> ECp" where
  "norm_point F P =
    (let w = f_inv F (gcopy (pz P));
         x = gcopy (f_scr F (f_mul F (px P) w));
         y = gcopy (f_scr F (f_mul F (py P) w));
         z = gcopy (f_scr F (f_mul F (pz P) w));
         t = gcopy (f_scr F (f_mul F (pt P) w))
     in \<lparr>px = x, py = y, pz = z, pt = t\<rparr>)"

section \<open>Repeated squaring\<close>

text \<open>The loops of \<open>n\<close> pairs of squarings: of \<open>t\<close> into \<open>w\<close> and back.\<close>

definition sqr_pairs :: "(fe \<Rightarrow> fe) \<Rightarrow> nat \<Rightarrow> fe \<Rightarrow> fe" where
  "sqr_pairs sqr n t = ((\<lambda>t. let w = sqr t in sqr w) ^^ n) t"

section \<open>Scalar multiplication\<close>

definition muli_t :: "field_ops \<Rightarrow> ECp \<Rightarrow> ECp" where
  "muli_t F P = P\<lparr>pt := f_muli F (pt P) (kCurveD F)\<rparr>"

definition precomp :: "field_ops \<Rightarrow> ECp \<Rightarrow> ECp list" where
  "precomp F P =
    (let W0 = inf_point F;
         W1 = muli_t F (copy P);
         W2 = double_1 F (copy P);
         W3 = add_1 F W1 (copy W2);
         W4 = double_3 F (copy W2);
         W5 = add_1 F W1 (copy W4);
         W6 = double_3 F (copy W3);
         W7 = add_1 F W1 (copy W6);
         W8 = double_3 F (copy W4)
     in [W0, W1, muli_t F W2, muli_t F W3, muli_t F W4, muli_t F W5, muli_t F W6, muli_t F W7, muli_t F W8])"

definition window :: "field_ops \<Rightarrow> ECp \<Rightarrow> ECp \<Rightarrow> ECp" where
  "window F Q P =
    (let P = double_2 F P;
         P = double_2 F P;
         P = double_2 F P;
         P = double_3 F P
     in add_2 F Q P)"

text \<open>The constant time table look-up; \<open>int\<close> is 32 bits wide.\<close>

definition w32 :: "int \<Rightarrow> int" where
  "w32 x = signed_take_bit 31 x"

definition fe_cmov :: "fe \<Rightarrow> fe \<Rightarrow> int \<Rightarrow> fe" where
  "fe_cmov f g ib = (let b = w64 (- ib) in map2 (\<lambda>f g. f XOR ((f XOR g) AND b)) f g)"

definition cmov :: "ECp \<Rightarrow> ECp \<Rightarrow> int \<Rightarrow> ECp" where
  "cmov w u b =
    \<lparr>px = fe_cmov (px w) (px u) b, py = fe_cmov (py w) (py u) b,
     pz = fe_cmov (pz w) (pz u) b, pt = fe_cmov (pt w) (pt u) b\<rparr>"

definition equal_int :: "int \<Rightarrow> int \<Rightarrow> int" where
  "equal_int b c =
    (let x = b XOR c;
         x = w32 (x - 1)
     in drop_bit 31 x AND 1)"

definition select :: "ECp \<Rightarrow> ECp list \<Rightarrow> int \<Rightarrow> ECp" where
  "select T W b =
    (let m = drop_bit 31 b;
         babs = w32 ((b XOR m) - m);
         T = cmov T (W ! 0) (equal_int babs 0);
         T = cmov T (W ! 1) (equal_int babs 1);
         T = cmov T (W ! 2) (equal_int babs 2);
         T = cmov T (W ! 3) (equal_int babs 3);
         T = cmov T (W ! 4) (equal_int babs 4);
         T = cmov T (W ! 5) (equal_int babs 5);
         T = cmov T (W ! 6) (equal_int babs 6);
         T = cmov T (W ! 7) (equal_int babs 7);
         T = cmov T (W ! 8) (equal_int babs 8);
         MT = neg T
     in cmov T MT (m AND 1))"

definition mul_step :: "field_ops \<Rightarrow> ECp list \<Rightarrow> int list \<Rightarrow> ECp \<times> ECp \<Rightarrow> nat \<Rightarrow> ECp \<times> ECp" where
  "mul_step F W w = (\<lambda>(Q, P) i. let Q = select Q W (w ! i) in (Q, window F Q P))"

definition mul_to_proj :: "field_ops \<Rightarrow> ECp \<Rightarrow> int list \<Rightarrow> ECp \<Rightarrow> ECp" where
  "mul_to_proj F Q w P =
    (let W = precomp F P;
         P = copy (W ! nat (w ! (f_panes F - 1)))
     in snd (foldl (mul_step F W w) (Q, P) (rev [0..<f_panes F - 1])))"

definition mul_point :: "field_ops \<Rightarrow> ECp \<Rightarrow> int list \<Rightarrow> ECp \<Rightarrow> ECp" where
  "mul_point F Q w P = norm_point F (mul_to_proj F Q w P)"

section \<open>Scalars\<close>

text \<open>One nibble with the carry: the digit and the next carry.\<close>

definition win_digit :: "int \<Rightarrow> int \<Rightarrow> int \<times> int" where
  "win_digit cy nibble =
    (let v = cy + nibble;
         cy = drop_bit 3 v;
         cy = cy OR drop_bit 1 cy;
         cy = cy AND 1;
         v = v - push_bit 4 cy
     in (v, cy))"

definition win4_step :: "byte list \<Rightarrow> int list \<times> int \<Rightarrow> nat \<Rightarrow> int list \<times> int" where
  "win4_step nv = (\<lambda>(w, cy) j.
     let byt = uint (nv ! j);
         (v, cy) = win_digit cy (byt AND 15);
         w = w[2 * j := v];
         (v, cy) = win_digit cy (drop_bit 4 byt);
         w = w[2 * j + 1 := v]
     in (w, cy))"

definition win4 :: "field_ops \<Rightarrow> byte list \<Rightarrow> int list \<Rightarrow> int list" where
  "win4 F nv w = fst (foldl (win4_step nv) (w, 0) [0..<f_panes F div 2])"

section \<open>Projective addition\<close>

definition init_proj :: "field_ops \<Rightarrow> fe \<Rightarrow> fe \<Rightarrow> fe \<Rightarrow> ECp" where
  "init_proj F x y z = \<lparr>px = x, py = y, pz = z, pt = fe_zero F\<rparr>"

definition add_proj :: "field_ops \<Rightarrow> ECp \<Rightarrow> ECp \<Rightarrow> ECp" where
  "add_proj F Q P =
    (let A = f_mul F (pz Q) (pz P);
         B = f_sqr F A;
         C = f_mul F (px Q) (px P);
         D = f_mul F (py Q) (py P);
         E = f_mul F C D;
         E = f_muli F E (kCurveD F);
         Fv = gsub B E;
         G = gadd B E;
         X3 = gadd (px Q) (py Q);
         Y3 = gadd (px P) (py P);
         Z3 = f_mul F X3 Y3;
         Y3 = gsub Z3 C;
         X3 = gsub Y3 D;
         Y3 = f_mul F Fv X3;
         X3 = f_mul F A Y3;
         Y3 = gsub D C;
         Z3 = f_mul F G Y3;
         Y3 = f_mul F A Z3;
         Z3 = f_mul F Fv G
     in init_proj F X3 Y3 Z3)"

definition normz :: "field_ops \<Rightarrow> fe \<Rightarrow> fe \<Rightarrow> fe \<Rightarrow> fe \<times> fe \<times> fe" where
  "normz F x y z =
    (let z = f_inv F z;
         x = gcopy (f_scr F (f_mul F x z));
         y = gcopy (f_scr F (f_mul F y z))
     in (x, y, z))"

end
