(* ===== verification/Ed3363.thy ===== *)
theory Ed3363
  imports Edwards
begin

unbundle bit_operations_syntax

text \<open>
  The field functions of \<open>ed3363_intf.cpp\<close>, for the prime \<open>2 ^ 336 - 3\<close>, and the functions
  exported to Lisp. A buffer of coordinates is the list of its 64-bit words.
\<close>

definition bot56bits :: int where
  "bot56bits = mask 56"

definition scr :: "fe \<Rightarrow> fe" where
  "scr w =
    (let t0 = w ! 0 AND bot56bits;
         t1 = w64 (w ! 1 + drop_bit 56 (w ! 0)); w1 = t1 AND bot56bits;
         t2 = w64 (w ! 2 + drop_bit 56 t1); w2 = t2 AND bot56bits;
         t1 = w64 (w ! 3 + drop_bit 56 t2); w3 = t1 AND bot56bits;
         t2 = w64 (w ! 4 + drop_bit 56 t1); w4 = t2 AND bot56bits;
         t1 = w64 (w ! 5 + drop_bit 56 t2); w5 = t1 AND bot56bits;
         w0 = w64 (t0 + 3 * drop_bit 56 t1)
     in [w0, w1, w2, w3, w4, w5])"

definition gnorm :: "fe \<Rightarrow> fe" where
  "gnorm x =
    (let tmp = gneg x;
         tmp = scr tmp;
         y = gneg tmp;
         y = scr y;
         y = scr y
     in y)"

definition geq :: "fe \<Rightarrow> fe \<Rightarrow> bool" where
  "geq x y =
    (let z1 = gsub x y;
         z2 = gnorm z1
     in z2 ! 0 = 0 \<and> z2 ! 1 = 0 \<and> z2 ! 2 = 0 \<and> z2 ! 3 = 0 \<and> z2 ! 4 = 0 \<and> z2 ! 5 = 0)"

definition gmuli :: "fe \<Rightarrow> int \<Rightarrow> fe" where
  "gmuli w i =
    (let t = w128 (w ! 0 * i); w0 = w64 t AND bot56bits;
         t = w128 (w ! 1 * i + drop_bit 56 t); w1 = w64 t AND bot56bits;
         t = w128 (w ! 2 * i + drop_bit 56 t); w2 = w64 t AND bot56bits;
         t = w128 (w ! 3 * i + drop_bit 56 t); w3 = w64 t AND bot56bits;
         t = w128 (w ! 4 * i + drop_bit 56 t); w4 = w64 t AND bot56bits;
         t = w128 (w ! 5 * i + drop_bit 56 t); w5 = w64 t AND bot56bits;
         w0 = w64 (w0 + 3 * drop_bit 56 t)
     in [w0, w1, w2, w3, w4, w5])"

definition gsqr :: "fe \<Rightarrow> fe" where
  "gsqr x =
    (let t0 = w128 (2 * (x ! 0 * x ! 5 + x ! 1 * x ! 4 + x ! 2 * x ! 3));
         z5 = w64 t0 AND bot56bits;
         t1 = w128 (x ! 0 * x ! 0 + 3 * (2 * (x ! 1 * x ! 5 + x ! 2 * x ! 4) + x ! 3 * x ! 3 + drop_bit 56 t0));
         z0 = w64 t1 AND bot56bits;
         t0 = w128 (2 * (x ! 0 * x ! 1 + 3 * (x ! 2 * x ! 5 + x ! 3 * x ! 4)) + drop_bit 56 t1);
         z1 = w64 t0 AND bot56bits;
         t1 = w128 (x ! 0 * w64 (2 * x ! 2) + x ! 1 * x ! 1 + 3 * (x ! 3 * w64 (2 * x ! 5) + x ! 4 * x ! 4) + drop_bit 56 t0);
         z2 = w64 t1 AND bot56bits;
         t0 = w128 (2 * (x ! 0 * x ! 3 + x ! 1 * x ! 2 + x ! 4 * w64 (3 * x ! 5)) + drop_bit 56 t1);
         z3 = w64 t0 AND bot56bits;
         t1 = w128 (2 * (x ! 0 * x ! 4 + x ! 1 * x ! 3) + x ! 2 * x ! 2 + x ! 5 * w64 (3 * x ! 5) + drop_bit 56 t0);
         z4 = w64 t1 AND bot56bits;
         t0 = w128 (z5 + drop_bit 56 t1);
         z5 = w64 t0 AND bot56bits;
         z0 = w64 (z0 + 3 * drop_bit 56 t0)
     in [z0, z1, z2, z3, z4, z5])"

text \<open>Granger's method.\<close>

definition gmul :: "fe \<Rightarrow> fe \<Rightarrow> fe" where
  "gmul x y =
    (let a0 = w128 (x ! 0 * y ! 0);
         a1 = w128 (x ! 1 * y ! 1);
         a2 = w128 (x ! 2 * y ! 2);
         a3 = w128 (x ! 3 * y ! 3);
         a4 = w128 (x ! 4 * y ! 4);
         a5 = w128 (x ! 5 * y ! 5);
         b4 = w128 (a5 + a4);
         b3 = w128 (b4 + a3);
         b2 = w128 (b3 + a2);
         b1 = w128 (b2 + a1);
         b0 = w128 (b1 + a0);
         m = (\<lambda>i j. w64 (x ! i - x ! j) * w64 (y ! i - y ! j));
         t0 = w128 (b0 - m 0 5 - m 1 4 - m 2 3);
         z5 = w64 t0 AND bot56bits;
         t1 = w128 (a0 + 3 * (b1 - m 1 5 - m 2 4 + drop_bit 56 t0));
         z0 = w64 t1 AND bot56bits;
         a0 = w128 (a0 + a1);
         t0 = w128 (a0 - m 0 1 + 3 * (b2 - m 2 5 - m 3 4) + drop_bit 56 t1);
         z1 = w64 t0 AND bot56bits;
         a0 = w128 (a0 + a2);
         t1 = w128 (a0 - m 0 2 + 3 * (b3 - m 3 5) + drop_bit 56 t0);
         z2 = w64 t1 AND bot56bits;
         a0 = w128 (a0 + a3);
         t0 = w128 (a0 - m 0 3 - m 1 2 + 3 * (b4 - m 4 5) + drop_bit 56 t1);
         z3 = w64 t0 AND bot56bits;
         a0 = w128 (a0 + a4);
         t1 = w128 (a0 - m 0 4 - m 1 3 + 3 * a5 + drop_bit 56 t0);
         z4 = w64 t1 AND bot56bits;
         t0 = w128 (z5 + drop_bit 56 t1);
         z5 = w64 t0 AND bot56bits;
         z0 = w64 (z0 + 3 * drop_bit 56 t0)
     in [z0, z1, z2, z3, z4, z5])"

section \<open>Inversion\<close>

definition ginv :: "fe \<Rightarrow> fe" where
  "ginv x =
    (let w = gsqr x;
         xc = gmul w x;
         t1 = gsqr w;
         x11 = gsqr t1;
         t2 = gmul x11 x;
         x11 = gmul t2 w;
         w = gsqr x11;
         t1 = gmul w t2;
         w = gcopy t1;
         t2 = gsqr w;
         w = gsqr t2;
         t2 = gsqr w;
         w = gsqr t2;
         t2 = gsqr w;
         x = gmul t2 t1;
         t2 = gcopy x;
         w = gsqr t2;
         t2 = gsqr w;
         w = gmul t2 xc;
         xc = gcopy w;
         w = gsqr t2;
         t2 = gsqr w;
         w = gsqr t2;
         t2 = gsqr w;
         w = gsqr t2;
         t2 = gsqr w;
         w = gsqr t2;
         t2 = gsqr w;
         t1 = gmul t2 x;
         x = gcopy t1;
         t1 = sqr_pairs gsqr 10 t1;
         t2 = gmul t1 x;
         x = gcopy t2;
         t2 = sqr_pairs gsqr 20 t2;
         t1 = gmul t2 x;
         x = gcopy t1;
         t1 = sqr_pairs gsqr 40 t1;
         t2 = gmul t1 x;
         x = gcopy t2;
         t2 = sqr_pairs gsqr 80 t2;
         t1 = gmul t2 x;
         t1 = sqr_pairs gsqr 6 t1;
         t2 = gmul t1 xc;
         t2 = sqr_pairs gsqr 2 t2
     in gmul t2 x11)"

definition ed_ops :: field_ops where
  "ed_ops = \<lparr>f_mul = gmul, f_sqr = gsqr, f_muli = gmuli, f_scr = scr, f_inv = ginv, f_limbs = 6,
     kCurveD = 11111, f_panes = 84\<rparr>"

section \<open>Buffers\<close>

definition gfetch :: "u64 list \<Rightarrow> fe" where
  "gfetch pv =
    (let t1 = pv ! 0; w0 = uint (t1 AND mask 56);
         t2 = pv ! 1; w1 = uint ((push_bit 8 t2 OR drop_bit 56 t1) AND mask 56);
         t1 = pv ! 2; w2 = uint ((push_bit 16 t1 OR drop_bit 48 t2) AND mask 56);
         t2 = pv ! 3; w3 = uint ((push_bit 24 t2 OR drop_bit 40 t1) AND mask 56);
         t1 = pv ! 4; w4 = uint ((push_bit 32 t1 OR drop_bit 32 t2) AND mask 56);
         t2 = pv ! 5; w5 = uint ((push_bit 40 t2 OR drop_bit 24 t1) AND mask 56)
     in [w0, w1, w2, w3, w4, w5])"

text \<open>\<open>wn\<close>, the normalized number, is computed and not used.\<close>

definition gstore :: "fe \<Rightarrow> u64 list" where
  "gstore w =
    (let wn = gnorm w;
         t1 = word_of_int (w ! 0); t2 = word_of_int (w ! 1);
         v0 = t1 OR push_bit 56 t2;
         t1 = word_of_int (w ! 2);
         v1 = drop_bit 8 t2 OR push_bit 48 t1;
         t2 = word_of_int (w ! 3);
         v2 = drop_bit 16 t1 OR push_bit 40 t2;
         t1 = word_of_int (w ! 4);
         v3 = drop_bit 24 t2 OR push_bit 32 t1;
         t2 = word_of_int (w ! 5);
         v4 = drop_bit 32 t1 OR push_bit 24 t2;
         v5 = drop_bit 40 t2
     in [v0, v1, v2, v3, v4, v5])"

section \<open>Functions for Lisp\<close>

text \<open>\<open>W\<close> and \<open>Q\<close> are the first contents of the automatic variables \<open>w\<close> and \<open>Q\<close>.\<close>

definition Ed3363_affine_mul :: "int list \<Rightarrow> ECp \<Rightarrow> u64 list \<Rightarrow> u64 list \<Rightarrow> byte list \<Rightarrow>
    u64 list \<times> u64 list \<times> u64 list" where
  "Ed3363_affine_mul W Q ptx pty nv =
    (let w = win4 ed_ops nv W;
         x = gfetch ptx;
         y = gfetch pty;
         P = init ed_ops x y;
         P = mul_to_proj ed_ops Q w P
     in (gstore (px P), gstore (py P), gstore (pz P)))"

definition Ed3363_projective_mul :: "int list \<Rightarrow> ECp \<Rightarrow> u64 list \<Rightarrow> u64 list \<Rightarrow> u64 list \<Rightarrow> byte list \<Rightarrow>
    u64 list \<times> u64 list \<times> u64 list" where
  "Ed3363_projective_mul W Q ptx pty ptz nv =
    (let w = win4 ed_ops nv W;
         x = gfetch ptx;
         y = gfetch pty;
         z = gfetch ptz;
         (x, y, z) = normz ed_ops x y z;
         P = init ed_ops x y;
         P = mul_to_proj ed_ops Q w P
     in (gstore (px P), gstore (py P), gstore (pz P)))"

definition Ed3363_projective_add :: "u64 list \<Rightarrow> u64 list \<Rightarrow> u64 list \<Rightarrow> u64 list \<Rightarrow> u64 list \<Rightarrow> u64 list \<Rightarrow>
    u64 list \<times> u64 list \<times> u64 list" where
  "Ed3363_projective_add lp1x lp1y lp1z lp2x lp2y lp2z =
    (let P = init_proj ed_ops (gfetch lp1x) (gfetch lp1y) (gfetch lp1z);
         Q = init_proj ed_ops (gfetch lp2x) (gfetch lp2y) (gfetch lp2z);
         P = add_proj ed_ops Q P
     in (gstore (px P), gstore (py P), gstore (pz P)))"

definition Ed3363_to_affine :: "u64 list \<Rightarrow> u64 list \<Rightarrow> u64 list \<Rightarrow> u64 list \<times> u64 list \<times> u64 list" where
  "Ed3363_to_affine lpx lpy lpz =
    (let x = gfetch lpx;
         y = gfetch lpy;
         z = ginv (gfetch lpz)
     in (gstore (gmul z x), gstore (gmul z y), gstore z))"

end
