(* ===== verification/Mixed_Radix.thy ===== *)
theory Mixed_Radix
  imports Limbs
begin

unbundle bit_operations_syntax

text \<open>
  Carrying along a list of limbs of given widths: what the sequences \<open>t = w[i] + (t >> n)\<close>,
  \<open>w[i] = t & mask\<close> of the field functions compute, for any number of limbs and any widths.
\<close>

section \<open>Numbers as limbs of given widths\<close>

fun hval :: "nat list \<Rightarrow> int list \<Rightarrow> int" where
  "hval (n # ns) (e # es) = e + 2 ^ n * hval ns es"
| "hval _ _ = 0"

fun digits :: "nat list \<Rightarrow> int \<Rightarrow> int list" where
  "digits [] x = []"
| "digits (n # ns) x = x mod 2 ^ n # digits ns (x div 2 ^ n)"

definition fits :: "nat list \<Rightarrow> int list \<Rightarrow> bool" where
  "fits ns ds \<longleftrightarrow> list_all2 (\<lambda>n d. 0 \<le> d \<and> d < 2 ^ n) ns ds"

lemma fits_simps [simp]:
  "fits [] ds \<longleftrightarrow> ds = []"
  "fits (n # ns) ds \<longleftrightarrow> (\<exists>d ds'. ds = d # ds' \<and> 0 \<le> d \<and> d < 2 ^ n \<and> fits ns ds')"
  by (auto simp: fits_def list_all2_Cons1)

lemma length_digits [simp]: "length (digits ns x) = length ns"
  by (induction ns x rule: digits.induct) simp_all

lemma fits_digits: "fits ns (digits ns x)"
  by (induction ns x rule: digits.induct) simp_all

lemma in_digits: "d \<in> set (digits ns x) \<Longrightarrow> 0 \<le> d \<and> (\<exists>n \<in> set ns. d < 2 ^ n)"
  by (induction ns x rule: digits.induct) auto

lemma hval_digits: "hval ns (digits ns x) = x mod 2 ^ sum_list ns"
proof (induction ns x rule: digits.induct)
  case (2 n ns x)
  then show ?case by (simp add: power_add zmod_zmult2_eq)
qed simp

lemma digits_hval: "fits ns ds \<Longrightarrow> digits ns (hval ns ds) = ds"
  by (induction ns arbitrary: ds) auto

lemma hval_bounds: "fits ns ds \<Longrightarrow> 0 \<le> hval ns ds \<and> hval ns ds < 2 ^ sum_list ns"
  by (metis digits_hval hval_digits pos_mod_bound pos_mod_sign zero_less_numeral zero_less_power)

lemma digits_zero: "digits ns 0 = replicate (length ns) 0"
  by (induction ns) simp_all

lemma digits_eq_zero:
  assumes "0 \<le> x" "x < 2 ^ sum_list ns"
  shows "digits ns x = replicate (length ns) 0 \<longleftrightarrow> x = 0"
  using hval_digits [of ns x] hval_digits [of ns 0] assms digits_zero [of ns] by auto

lemma hval_abs:
  "length es = length ns \<Longrightarrow> \<forall>e \<in> set es. \<bar>e\<bar> \<le> B \<Longrightarrow>
    \<bar>hval ns es\<bar> \<le> B * hval ns (map (\<lambda>_. 1) es)"
proof (induction ns arbitrary: es)
  case (Cons n ns)
  then obtain e es' where es: "es = e # es'" "length es' = length ns" by (auto simp: length_Suc_conv)
  have "\<bar>hval ns es'\<bar> \<le> B * hval ns (map (\<lambda>_. 1) es')" using Cons es by simp
  then have "\<bar>2 ^ n * hval ns es'\<bar> \<le> 2 ^ n * (B * hval ns (map (\<lambda>_. 1) es'))" by (simp add: abs_mult)
  moreover have "\<bar>e\<bar> \<le> B" using Cons.prems(2) es by simp
  ultimately show ?case by (simp add: es(1) algebra_simps)
qed simp

lemma hval_div:
  assumes "length es = length ns" "\<forall>e \<in> set es. \<bar>e\<bar> \<le> B" "B * hval ns (map (\<lambda>_. 1) es) \<le> C * 2 ^ sum_list ns"
  shows "\<bar>hval ns es div 2 ^ sum_list ns\<bar> \<le> C"
proof -
  define W where "W = (2 :: int) ^ sum_list ns"
  have W: "0 < W" by (simp add: W_def)
  have h: "\<bar>hval ns es\<bar> \<le> C * W" using hval_abs [OF assms(1,2)] assms(3) by (simp add: W_def)
  have "hval ns es div W \<le> C * W div W" using h W by (intro zdiv_mono1) linarith+
  moreover have "(- C * W) div W \<le> hval ns es div W" using h W by (intro zdiv_mono1) simp_all
  moreover have "(- C * W) div W = - C" using W by (intro nonzero_mult_div_cancel_right) simp
  ultimately show ?thesis using W by (simp add: abs_le_iff minus_le_iff flip: W_def)
qed

section \<open>Carrying\<close>

fun ripple :: "nat list \<Rightarrow> int \<Rightarrow> int list \<Rightarrow> int list \<times> int" where
  "ripple (n # ns) c (e # es) =
    (let (ds, q) = ripple ns ((e + c) div 2 ^ n) es in ((e + c) mod 2 ^ n # ds, q))"
| "ripple _ c _ = ([], c)"

lemma ripple_digits:
  "length es = length ns \<Longrightarrow>
    ripple ns c es = (digits ns (hval ns es + c), (hval ns es + c) div 2 ^ sum_list ns)"
proof (induction ns arbitrary: c es)
  case (Cons n ns)
  then obtain e es' where es: "es = e # es'" "length es' = length ns" by (auto simp: length_Suc_conv)
  have h: "hval (n # ns) es + c = (e + c) + 2 ^ n * hval ns es'" by (simp add: es(1))
  have "(e + c + 2 ^ n * hval ns es') div 2 ^ n = hval ns es' + (e + c) div 2 ^ n"
    "(e + c + 2 ^ n * hval ns es') mod 2 ^ n = (e + c) mod 2 ^ n"
    by simp_all
  then show ?case unfolding h by (simp add: es Cons.IH power_add zdiv_zmult2_eq)
qed simp

text \<open>The same with machine integers: \<open>f\<close> wraps every sum.\<close>

fun wripple :: "(int \<Rightarrow> int) \<Rightarrow> nat list \<Rightarrow> int \<Rightarrow> int list \<Rightarrow> int list \<times> int" where
  "wripple f (n # ns) c (e # es) =
    (let t = f (e + c); (ds, q) = wripple f ns (t div 2 ^ n) es in (t mod 2 ^ n # ds, q))"
| "wripple _ _ c _ = ([], c)"

lemma div_half:
  fixes t B :: int
  assumes "\<bar>t\<bar> \<le> 2 * B" "0 < n"
  shows "\<bar>t div 2 ^ n\<bar> \<le> B"
proof -
  have p: "2 \<le> (2 :: int) ^ n" using assms(2) self_le_power [of "2 :: int" n] by simp
  have B: "0 \<le> B" using assms(1) by linarith
  define q r where "q = t div 2 ^ n" and "r = t mod 2 ^ n"
  have t: "t = 2 ^ n * q + r" "0 \<le> r" "r < 2 ^ n" by (simp_all add: q_def r_def)
  have "q \<le> B"
  proof (rule ccontr)
    assume "\<not> q \<le> B"
    then have "2 * (B + 1) \<le> 2 ^ n * q" using p B by (intro mult_mono) linarith+
    then show False using t(1,2) abs_le_D1 [OF assms(1)] by (simp add: distrib_left)
  qed
  moreover have "- B \<le> q"
  proof (rule ccontr)
    assume "\<not> - B \<le> q"
    then have "2 * B \<le> 2 ^ n * (- q - 1)" using p B by (intro mult_mono) linarith+
    then have "2 ^ n * q + 2 ^ n \<le> - 2 * B" by (simp add: right_diff_distrib)
    then show False using t abs_le_D2 [OF assms(1)] by linarith
  qed
  ultimately show ?thesis by (simp add: q_def abs_le_iff minus_le_iff)
qed

lemma wripple_ripple:
  assumes "\<And>t. \<bar>t\<bar> \<le> 2 * A \<Longrightarrow> f t = t" "\<forall>e \<in> set es. \<bar>e\<bar> \<le> A" "\<bar>c\<bar> \<le> A" "0 \<notin> set ns"
  shows "wripple f ns c es = ripple ns c es"
  using assms(2-4)
proof (induction ns arbitrary: c es)
  case (Cons n ns)
  show ?case
  proof (cases es)
    case (Cons e es')
    have "\<bar>e\<bar> \<le> A" using Cons.prems(1) Cons by simp
    then have t: "\<bar>e + c\<bar> \<le> 2 * A" using Cons.prems(2) by linarith
    have "\<bar>(e + c) div 2 ^ n\<bar> \<le> A" using div_half [OF t] Cons.prems(3) by simp
    then show ?thesis
      using Cons.IH [of es' "(e + c) div 2 ^ n"] Cons.prems Cons assms(1) [OF t] by (simp add: Let_def)
  qed simp
qed simp

lemma wripple_digits:
  assumes "\<And>t. \<bar>t\<bar> \<le> 2 * A \<Longrightarrow> f t = t" "\<forall>e \<in> set es. \<bar>e\<bar> \<le> A" "length es = length ns" "0 \<notin> set ns" "0 \<le> A"
  shows "wripple f ns 0 es = (digits ns (hval ns es), hval ns es div 2 ^ sum_list ns)"
proof -
  have "wripple f ns 0 es = ripple ns 0 es" by (rule wripple_ripple [OF assms(1,2) _ assms(4)]) (simp_all add: assms(5))
  also have "\<dots> = (digits ns (hval ns es), hval ns es div 2 ^ sum_list ns)" using ripple_digits [OF assms(3), of 0] by simp
  finally show ?thesis .
qed

end
