(* ===== verification/Radix_Field.thy ===== *)
theory Radix_Field
  imports Mixed_Radix
begin

unbundle bit_operations_syntax

text \<open>
  Fields modulo \<open>2 ^ s - k\<close> for a small \<open>k\<close>, on limbs of widths that add up to \<open>s\<close>: carrying
  out of the last limb adds \<open>k\<close> times the carry to the first one. The locale holds what the
  two curves share; it is interpreted for the limbs of each.
\<close>

definition add_first :: "int list \<Rightarrow> int \<Rightarrow> int list" where
  "add_first ds d = ds[0 := ds ! 0 + d]"

lemma length_add_first [simp]: "length (add_first ds d) = length ds"
  by (simp add: add_first_def)

lemma hval_add_first: "ds \<noteq> [] \<Longrightarrow> ns \<noteq> [] \<Longrightarrow> hval ns (add_first ds d) = hval ns ds + d"
  by (cases ds; cases ns) (simp_all add: add_first_def)

fun weights :: "nat list \<Rightarrow> int list" where
  "weights [] = []"
| "weights (n # ns) = 1 # map ((*) (2 ^ n)) (weights ns)"

lemma length_weights [simp]: "length (weights ns) = length ns"
  by (induction ns) simp_all

lemma val_weights: "val (weights ns) x = hval ns x"
proof (induction ns arbitrary: x)
  case (Cons n ns)
  have "val (map ((*) (2 ^ n)) ws) y = 2 ^ n * val ws y" for ws y
    by (induction ws y rule: list_induct2') (simp_all add: val_def algebra_simps)
  then show ?case using Cons by (cases x) (simp_all add: val_def)
qed (simp add: val_def)

lemma hval_append: "length xs = length ns \<Longrightarrow> hval (ns @ ms) (xs @ ys) = hval ns xs + 2 ^ sum_list ns * hval ms ys"
proof (induction ns arbitrary: xs)
  case (Cons n ns)
  then obtain x xs' where "xs = x # xs'" "length xs' = length ns" by (auto simp: length_Suc_conv)
  then show ?case using Cons.IH [of xs'] by (simp add: power_add algebra_simps)
qed simp

lemma hval_scale: "hval ns (map (\<lambda>l. l * i) w) = hval ns w * i"
  by (induction ns w rule: hval.induct) (simp_all add: distrib_right)

lemma abs_product: "\<bar>u\<bar> \<le> A \<Longrightarrow> \<bar>v\<bar> \<le> B \<Longrightarrow> \<bar>u * v\<bar> \<le> A * B" for u v A B :: int
  unfolding abs_mult by (rule mult_mono) linarith+

lemma rep_mult_cong:
  assumes "rep ws p A x a" "rep ws p B y b" "rep ws p C z c" "p dvd (c - val ws x * val ws y)"
  shows "rep ws p C z (a * b)"
proof (rule rep_cong [OF assms(3)])
  have "p dvd (c - val ws x * val ws y) + val ws y * (val ws x - a) + a * (val ws y - b)"
    using assms by (simp add: rep_def)
  then show "p dvd (c - a * b)" by (simp add: algebra_simps)
qed

lemma rep_same:
  assumes "rep ws p A x a" "rep ws p B y b"
  shows "p dvd val ws x - val ws y \<longleftrightarrow> p dvd a - b"
proof -
  have "p dvd val ws x - a" "p dvd val ws y - b" using assms unfolding rep_def by blast+
  then have "p dvd (val ws x - a) - (val ws y - b)" by (rule dvd_diff)
  then have m: "p dvd (val ws x - val ws y) - (a - b)" by (simp add: algebra_simps)
  show ?thesis using dvd_add_right_iff [OF m, of "a - b"] by (simp only: diff_add_cancel)
qed

text \<open>The last steps of every carry chain of the code.\<close>

definition wrap_chain :: "(int \<Rightarrow> int) \<Rightarrow> nat list \<Rightarrow> int \<Rightarrow> int list \<Rightarrow> int list" where
  "wrap_chain f ns k es = (case wripple f ns 0 es of (ds, q) \<Rightarrow> ds[0 := w64 (ds ! 0 + k * q)])"

definition fold_digits :: "nat list \<Rightarrow> int \<Rightarrow> int \<Rightarrow> int list" where
  "fold_digits ns k N = add_first (digits ns N) (k * (N div 2 ^ sum_list ns))"

definition fold_once :: "nat list \<Rightarrow> int \<Rightarrow> int \<Rightarrow> int" where
  "fold_once ns k N = N mod 2 ^ sum_list ns + k * (N div 2 ^ sum_list ns)"

locale radix_field =
  fixes ns :: "nat list" and k p :: int
  assumes widths: "ns \<noteq> []" "50 \<le> hd ns" "hd ns \<le> 57" "n \<in> set ns \<Longrightarrow> 0 < n \<and> n \<le> hd ns"
    and fold: "p = 2 ^ sum_list ns - k" "1 \<le> k" "k \<le> 16"
    and margin: "2 ^ 45 * hval ns (map (\<lambda>_. 1) ns) \<le> 2 ^ sum_list ns"
      "2 ^ 96 * hval (butlast ns) (map (\<lambda>_. 1) (butlast ns)) \<le> 2 ^ sum_list ns" "2 ^ 100 < (2 :: int) ^ sum_list ns"
begin

lemma widths0: "0 \<notin> set ns"
  using widths(4) by auto

lemma digits_nonempty: "digits ns N \<noteq> []"
  using widths(1) by (cases ns) simp_all

lemma fold_value: "hval ns (fold_digits ns k N) = fold_once ns k N"
  unfolding fold_digits_def fold_once_def hval_add_first [OF digits_nonempty widths(1)] hval_digits by (rule refl)

lemma fold_once_eq: "fold_once ns k N = N - p * (N div 2 ^ sum_list ns)"
  using minus_mult_div_eq_mod [of N "2 ^ sum_list ns"] unfolding fold_once_def fold(1) left_diff_distrib by linarith

lemma fold_once_cong: "p dvd fold_once ns k N - N"
  by (simp add: fold_once_eq)

lemma length_fold [simp]: "length (fold_digits ns k N) = length ns"
  by (simp add: fold_digits_def)

lemma first_digit: "0 \<le> digits ns N ! 0" "digits ns N ! 0 < 2 ^ hd ns"
  using widths(1) by (cases ns; simp)+

lemma fold_limbs:
  assumes "\<bar>N div 2 ^ sum_list ns\<bar> \<le> C" "16 * C \<le> 2 ^ hd ns" "l \<in> set (fold_digits ns k N)"
  shows "\<bar>l\<bar> \<le> 2 ^ (hd ns + 1)"
proof -
  have "l \<in> set (digits ns N) \<or> l = digits ns N ! 0 + k * (N div 2 ^ sum_list ns)"
    using assms(3) unfolding fold_digits_def add_first_def by (auto dest: set_update_subset_insert [THEN subsetD])
  moreover have "0 \<le> d \<and> d < 2 ^ hd ns" if d: "d \<in> set (digits ns N)" for d
  proof -
    obtain n where n: "n \<in> set ns" "0 \<le> d" "d < 2 ^ n" using in_digits [OF d] by blast
    have "(2 :: int) ^ n \<le> 2 ^ hd ns" using widths(4) [OF n(1)] by (intro power_increasing) simp_all
    then show ?thesis using n(2,3) by linarith
  qed
  moreover have "\<bar>k * (N div 2 ^ sum_list ns)\<bar> \<le> 16 * C" using fold(2,3) by (intro abs_product assms(1)) simp
  ultimately show ?thesis using assms(2) first_digit [of N] unfolding power_add by fastforce
qed

lemma fold_rep:
  assumes "p dvd N - a" "\<bar>N div 2 ^ sum_list ns\<bar> \<le> C" "16 * C \<le> 2 ^ hd ns"
  shows "rep (weights ns) p (2 ^ (hd ns + 1)) (fold_digits ns k N) a"
proof -
  have v: "val (weights ns) (fold_digits ns k N) - a = (N - a) - p * (N div 2 ^ sum_list ns)"
    unfolding val_weights fold_value fold_once_eq by simp
  have "p dvd val (weights ns) (fold_digits ns k N) - a" unfolding v using assms(1) by (rule dvd_diff) simp
  then show ?thesis using fold_limbs [OF assms(2,3)] unfolding rep_def by simp
qed

lemma quotient:
  assumes "length es = length ns" "\<forall>e \<in> set es. \<bar>e\<bar> \<le> C * 2 ^ 45" "0 \<le> C"
  shows "\<bar>hval ns es div 2 ^ sum_list ns\<bar> \<le> C"
proof (rule hval_div [OF assms(1,2)])
  have "map (\<lambda>_. 1 :: int) es = map (\<lambda>_. 1) ns" using assms(1) by (simp add: map_replicate_const)
  then show "C * 2 ^ 45 * hval ns (map (\<lambda>_. 1) es) \<le> C * 2 ^ sum_list ns"
    using mult_left_mono [OF margin(1) assms(3)] by (simp add: mult.assoc)
qed

lemma chain_fold:
  assumes "\<And>t. \<bar>t\<bar> \<le> 2 * A \<Longrightarrow> f t = t" "\<forall>e \<in> set es. \<bar>e\<bar> \<le> A" "length es = length ns" "0 \<le> A"
    and "\<bar>hval ns es div 2 ^ sum_list ns\<bar> \<le> C" "16 * C \<le> 2 ^ hd ns"
  shows "wrap_chain f ns k es = fold_digits ns k (hval ns es)"
proof -
  let ?N = "hval ns es"
  have "digits ns ?N ! 0 + k * (?N div 2 ^ sum_list ns) \<in> set (fold_digits ns k ?N)"
    using widths(1) unfolding fold_digits_def add_first_def by (intro set_update_memI) auto
  from fold_limbs [OF assms(5,6) this] have "\<bar>digits ns ?N ! 0 + k * (?N div 2 ^ sum_list ns)\<bar> \<le> 2 ^ (hd ns + 1)" .
  also have "\<dots> \<le> (2 :: int) ^ 58" using widths(3) by (intro power_increasing) simp_all
  finally have "w64 (digits ns ?N ! 0 + k * (?N div 2 ^ sum_list ns)) = digits ns ?N ! 0 + k * (?N div 2 ^ sum_list ns)"
    by (intro w64_abs) simp
  moreover have "wripple f ns 0 es = (digits ns ?N, ?N div 2 ^ sum_list ns)"
    by (rule wripple_digits [OF assms(1-3) widths0 assms(4)])
  ultimately show ?thesis by (simp add: wrap_chain_def fold_digits_def add_first_def)
qed

lemma chain_rep:
  assumes "\<And>t. \<bar>t\<bar> \<le> 2 * A \<Longrightarrow> f t = t" "\<forall>e \<in> set es. \<bar>e\<bar> \<le> A" "length es = length ns"
    and "A = C * 2 ^ 45" "0 \<le> C" "16 * C \<le> 2 ^ hd ns" "p dvd hval ns es - a"
  shows "rep (weights ns) p (2 ^ (hd ns + 1)) (wrap_chain f ns k es) a"
proof -
  have q: "\<bar>hval ns es div 2 ^ sum_list ns\<bar> \<le> C" using quotient [OF assms(3) _ assms(5)] assms(2,4) by simp
  have A: "0 \<le> A" using assms(4,5) by simp
  have c: "wrap_chain f ns k es = fold_digits ns k (hval ns es)" by (rule chain_fold [OF assms(1-3) A q assms(6)])
  show ?thesis unfolding c by (rule fold_rep [OF assms(7) q assms(6)])
qed

section \<open>Multiplication and squaring: the last coefficient is carried first\<close>

lemma top_rep:
  fixes c :: int
  assumes "length ds + 1 = length ns" "ds \<noteq> []"
  defines "q \<equiv> c div 2 ^ last ns" and "r \<equiv> c mod 2 ^ last ns"
  defines "es \<equiv> ds[0 := ds ! 0 + k * q] @ [r]"
  assumes "\<And>t. \<bar>t\<bar> \<le> 2 * B \<Longrightarrow> f t = t" "\<forall>e \<in> set (ds[0 := ds ! 0 + k * q]). \<bar>e\<bar> \<le> B" "2 ^ 57 \<le> B" "B \<le> 2 ^ 126"
    and "p dvd hval ns (ds @ [c]) - a"
  shows "rep (weights ns) p (2 ^ (hd ns + 1)) (wrap_chain f ns k es) a"
proof -
  define W where "W = (2 :: int) ^ sum_list ns"
  have ns: "ns = butlast ns @ [last ns]" using widths(1) by simp
  define ms where "ms = butlast ns"
  have ms: "length ds = length ms" "ns = ms @ [last ns]" using assms(1) by (simp_all add: ms_def ns [symmetric])
  have Ws: "W = 2 ^ sum_list ms * 2 ^ last ns" unfolding W_def by (subst ms(2)) (simp add: power_add)
  have ms0: "ms \<noteq> []" using ms(1) assms(2) by auto
  have r: "0 \<le> r" "r < 2 ^ last ns" "c = 2 ^ last ns * q + r" by (simp_all add: r_def q_def)
  have "(2 :: int) ^ last ns \<le> 2 ^ 57"
    using widths(1,3) widths(4) [of "last ns"] by (intro power_increasing) auto
  then have rB: "\<bar>r\<bar> \<le> B" using r(1,2) assms(8) by linarith
  let ?ds = "ds[0 := ds ! 0 + k * q]"
  have len: "length ?ds = length ms" "length es = length ns" using ms assms(1) by (simp_all add: es_def)
  have he: "hval ns es = hval ms ?ds + 2 ^ sum_list ms * r"
    unfolding es_def by (subst ms(2), subst hval_append [OF len(1)]) simp
  have "hval ms ?ds = hval ms ds + k * q"
    using hval_add_first [OF assms(2) ms0, of "k * q"] by (simp add: add_first_def)
  moreover have "hval ns (ds @ [c]) = hval ms ds + 2 ^ sum_list ms * c"
    by (subst ms(2), subst hval_append [OF ms(1)]) simp
  ultimately have d: "hval ns (ds @ [c]) - hval ns es = p * q"
    unfolding he r(3) fold(1) W_def [symmetric] Ws by (simp add: algebra_simps)
  have "p dvd (hval ns (ds @ [c]) - a) - (hval ns (ds @ [c]) - hval ns es)" 
    by (rule dvd_diff [OF assms(10)]) (simp add: d)
  then have cong: "p dvd hval ns es - a" by simp
  have "map (\<lambda>_. 1 :: int) ?ds = map (\<lambda>_. 1) ms" using ms(1) by (simp add: map_replicate_const)
  then have "\<bar>hval ms ?ds\<bar> \<le> B * hval ms (map (\<lambda>_. 1) ms)" using hval_abs [OF len(1) assms(7)] by simp
  also have "\<dots> \<le> 2 ^ 126 * hval ms (map (\<lambda>_. 1) ms)"
  proof (rule mult_right_mono [OF assms(9)])
    show "0 \<le> hval ms (map (\<lambda>_. 1) ms)" by (induction ms) simp_all
  qed
  also have "\<dots> \<le> 2 ^ 30 * W" using margin(2) unfolding ms_def [symmetric] W_def [symmetric] by simp
  finally have b: "\<bar>hval ms ?ds\<bar> \<le> 2 ^ 30 * W" .
  have "2 ^ sum_list ms * r \<le> W" "0 \<le> 2 ^ sum_list ms * r"
    unfolding Ws using r(1,2) by (simp_all add: mult_left_mono)
  then have N: "hval ns es \<le> 2 ^ 31 * W" "- (2 ^ 31) * W \<le> hval ns es" "0 < W" unfolding he using b by (simp_all add: W_def)
  have "hval ns es div W \<le> 2 ^ 31 * W div W" "(- (2 ^ 31) * W) div W \<le> hval ns es div W"
    using N by (intro zdiv_mono1; simp)+
  moreover have "(- (2 ^ 31) * W) div W = - (2 ^ 31)" using N(3) by (intro nonzero_mult_div_cancel_right) simp
  ultimately have qb: "\<bar>hval ns es div 2 ^ sum_list ns\<bar> \<le> 2 ^ 31"
    using N(3) by (simp add: abs_le_iff minus_le_iff flip: W_def)
  have "(2 :: int) ^ 50 \<le> 2 ^ hd ns" using widths(2) by (intro power_increasing) simp_all
  then have C: "16 * 2 ^ 31 \<le> (2 :: int) ^ hd ns" by simp
  have eb: "\<forall>e \<in> set es. \<bar>e\<bar> \<le> B" using assms(7) rB by (auto simp: es_def)
  have B: "0 \<le> B" using assms(8) by simp
  have c: "wrap_chain f ns k es = fold_digits ns k (hval ns es)"
    by (rule chain_fold [OF assms(6) eb len(2) B qb C])
  show ?thesis unfolding c by (rule fold_rep [OF cong qb C])
qed

section \<open>Normal form\<close>

lemma gneg_hval:
  assumes "length x = length ns" "\<forall>l \<in> set x. \<bar>l\<bar> \<le> 2 ^ 61"
  shows "hval ns (gneg x) = - hval ns x" "length (gneg x) = length ns" "\<forall>l \<in> set (gneg x). \<bar>l\<bar> \<le> 2 ^ 61"
proof -
  have "gneg x = map uminus x" unfolding gneg_def using assms(2) by (auto simp: w64_abs)
  then show "hval ns (gneg x) = - hval ns x" "length (gneg x) = length ns" "\<forall>l \<in> set (gneg x). \<bar>l\<bar> \<le> 2 ^ 61"
    using assms hval_scale [of ns "- 1" x] by simp_all
qed

text \<open>The last fold: a number from \<open>- k\<close> to \<open>p - 1\<close> becomes its remainder.\<close>

lemma fold_last:
  assumes "- k \<le> N" "N < p"
  shows "fold_digits ns k N = digits ns (N mod p)"
proof (cases "0 \<le> N")
  case True
  then have "N div 2 ^ sum_list ns = 0" "N mod p = N" using assms fold by (simp_all add: div_pos_pos_trivial)
  then show ?thesis by (simp add: fold_digits_def add_first_def)
next
  case False
  define W where "W = (2 :: int) ^ sum_list ns"
  have W: "2 ^ 100 < W" "p = W - k" using margin(3) fold(1) by (simp_all add: W_def)
  have q: "N div W = - 1" "N mod W = N + W"
    using int_div_pos_eq [of N W "- 1" "N + W"] int_mod_pos_eq [of N W "- 1" "N + W"] assms False W fold(2,3) by simp_all
  have p: "N mod p = N + p"
    using int_mod_pos_eq [of N p "- 1" "N + p"] assms False W fold(2,3) by simp
  have "hval ns (fold_digits ns k N) = N + p"
    unfolding fold_value fold_once_def W_def [symmetric] q using W(2) by simp
  moreover have "fits ns (fold_digits ns k N)"
  proof -
    obtain n ns' where ns: "ns = n # ns'" using widths(1) by (cases ns) auto
    have "(2 :: int) ^ 50 \<le> 2 ^ n" using widths(2) ns by (intro power_increasing) simp_all
    then have "N mod 2 ^ n = N + 2 ^ n" "0 \<le> N + 2 ^ n - k"
      using int_mod_pos_eq [of N "2 ^ n" "- 1" "N + 2 ^ n"] assms False fold(2,3) by simp_all
    then show ?thesis
      using fits_digits [of ns' "N div 2 ^ n"] fold(2) False
      unfolding fold_digits_def W_def [symmetric] q(1) by (simp add: ns add_first_def)
  qed
  ultimately show ?thesis using digits_hval [of ns "fold_digits ns k N"] by (simp add: p)
qed

lemma fold_range:
  assumes "- (2 ^ 60) \<le> N" "N \<le> 2 ^ sum_list ns + 2 ^ 60"
  shows "- k \<le> fold_once ns k (- N)" "fold_once ns k (- N) < p"
proof -
  define W where "W = (2 :: int) ^ sum_list ns"
  have W: "2 ^ 100 < W" "p = W - k" using margin(3) fold(1) by (simp_all add: W_def)
  note a = assms [folded W_def]
  define m where "m = (- N) div W"
  have e: "fold_once ns k (- N) = - N - W * m + k * m"
    using minus_mult_div_eq_mod [of "- N" W] unfolding fold_once_def W_def m_def by linarith
  have W3: "4 * 2 ^ 60 < W" "0 < (2 :: int) ^ 60" using W(1) by simp_all
  have m0: "m = 0" if "N \<le> 0" unfolding m_def using that a W3 by (intro int_div_pos_eq [of _ _ _ "- N"]) linarith+
  have m1: "m = - 1" if "0 < N" "N \<le> W"
    unfolding m_def using that a W3 by (intro int_div_pos_eq [of _ _ _ "W - N"]) linarith+
  have m2: "m = - 2" if "W < N"
    unfolding m_def using that a W3 by (intro int_div_pos_eq [of _ _ _ "2 * W - N"]) linarith+
  consider "N \<le> 0" "m = 0" | "0 < N" "N \<le> W" "m = - 1" | "W < N" "m = - 2" using m0 m1 m2 by linarith
  then have "- k \<le> - N - W * m + k * m \<and> - N - W * m + k * m < p"
  proof cases
    case 1
    then show ?thesis using a W fold(2,3) by simp
  next
    case 2
    then show ?thesis using a W fold(2,3) by simp
  next
    case 3
    then show ?thesis using a W fold(2,3) by simp
  qed
  then show "- k \<le> fold_once ns k (- N)" "fold_once ns k (- N) < p" unfolding e by simp_all
qed

lemma normal_form:
  assumes scr: "\<And>w. length w = length ns \<Longrightarrow> \<forall>l \<in> set w. \<bar>l\<bar> \<le> 2 ^ 61 \<Longrightarrow> scr w = fold_digits ns k (hval ns w)"
    and x: "length x = length ns" "\<forall>l \<in> set x. \<bar>l\<bar> \<le> 2 ^ 61"
  shows "scr (scr (gneg (scr (gneg x)))) = digits ns (hval ns x mod p)"
proof -
  have C: "16 * 2 ^ 16 \<le> (2 :: int) ^ hd ns"
  proof -
    have "(2 :: int) ^ 50 \<le> 2 ^ hd ns" using widths(2) by (intro power_increasing) simp_all
    then show ?thesis by simp
  qed
  have q: "\<bar>hval ns w div 2 ^ sum_list ns\<bar> \<le> 2 ^ 16" if "length w = length ns" "\<forall>l \<in> set w. \<bar>l\<bar> \<le> 2 ^ 61" for w
    using quotient [OF that(1), of "2 ^ 16"] that(2) by simp
  have s: "hval ns (scr w) = fold_once ns k (hval ns w)" "length (scr w) = length ns" "\<forall>l \<in> set (scr w). \<bar>l\<bar> \<le> 2 ^ 61"
    if w: "length w = length ns" "\<forall>l \<in> set w. \<bar>l\<bar> \<le> 2 ^ 61" for w
  proof -
    have "(2 :: int) ^ (hd ns + 1) \<le> 2 ^ 58" using widths(3) by (intro power_increasing) simp_all
    then have "\<bar>l\<bar> \<le> 2 ^ 61" if "l \<in> set (scr w)" for l
      using fold_limbs [OF q [OF w] C that [unfolded scr [OF w]]] by simp
    then show "hval ns (scr w) = fold_once ns k (hval ns w)" "length (scr w) = length ns" "\<forall>l \<in> set (scr w). \<bar>l\<bar> \<le> 2 ^ 61"
      by (simp_all add: scr [OF w] fold_value)
  qed
  note n = gneg_hval [OF x]
  note s1 = s [OF n(2,3)]
  note n' = gneg_hval [OF s1(2,3)]
  note s2 = s [OF n'(2,3)]
  let ?N1 = "fold_once ns k (- hval ns x)"
  let ?N2 = "fold_once ns k (- ?N1)"
  have "\<bar>k * ((- hval ns x) div 2 ^ sum_list ns)\<bar> \<le> 16 * 2 ^ 16"
    using fold(2,3) q [OF n(2,3)] unfolding n(1) by (intro abs_product) simp_all
  then have "\<bar>k * ((- hval ns x) div 2 ^ sum_list ns)\<bar> \<le> 2 ^ 60" by simp
  moreover have "0 \<le> (- hval ns x) mod 2 ^ sum_list ns" "(- hval ns x) mod 2 ^ sum_list ns < 2 ^ sum_list ns" by simp_all
  ultimately have "- (2 ^ 60) \<le> ?N1" "?N1 \<le> 2 ^ sum_list ns + 2 ^ 60" unfolding fold_once_def by linarith+
  note r = fold_range [OF this]
  have "p dvd ?N2 - - ?N1" "p dvd ?N1 - - hval ns x" by (rule fold_once_cong)+
  then have "p dvd (?N2 - - ?N1) - (?N1 - - hval ns x)" by (rule dvd_diff)
  then have "?N2 mod p = hval ns x mod p" by (simp add: mod_eq_dvd_iff)
  then show ?thesis using scr [OF s2(2,3)] fold_last [OF r] by (simp add: s1(1) n(1) s2(1) n'(1))
qed

lemma gsub_hval:
  assumes "length x = length ns" "length y = length ns" "\<forall>l \<in> set x. \<bar>l\<bar> \<le> 2 ^ 60" "\<forall>l \<in> set y. \<bar>l\<bar> \<le> 2 ^ 60"
  shows "hval ns (gsub x y) = hval ns x - hval ns y" "length (gsub x y) = length ns"
    "\<forall>l \<in> set (gsub x y). \<bar>l\<bar> \<le> 2 ^ 61"
proof -
  have "rep (weights ns) 0 (2 ^ 60) x (hval ns x)" "rep (weights ns) 0 (2 ^ 60) y (hval ns y)"
    using assms by (simp_all add: rep_def val_weights)
  from rep_gsub [OF this] have "rep (weights ns) 0 (2 ^ 61) (gsub x y) (hval ns x - hval ns y)" by simp
  then show "hval ns (gsub x y) = hval ns x - hval ns y" "length (gsub x y) = length ns"
    "\<forall>l \<in> set (gsub x y). \<bar>l\<bar> \<le> 2 ^ 61"
    by (simp_all add: rep_def val_weights)
qed

lemma remainder_zero: "digits ns (N mod p) = replicate (length ns) 0 \<longleftrightarrow> p dvd N"
proof -
  have "0 < p" using fold margin(3) by simp
  then have "0 \<le> N mod p" "N mod p < 2 ^ sum_list ns" using pos_mod_bound [of p N] fold(1,2) by (simp, linarith)
  then show ?thesis using digits_eq_zero [of "N mod p" ns] by (simp add: dvd_eq_mod_eq_0)
qed

end

end
