(* ===== verification/Ed3363_Field.thy ===== *)
theory Ed3363_Field
  imports Ed3363 Radix_Field
begin

unbundle bit_operations_syntax

text \<open>
  The field functions of \<open>ed3363_intf.cpp\<close> compute modulo \<open>2 ^ 336 - 3\<close> and overflow never affects their results,
  for limbs up to \<open>2 ^ 60\<close> in absolute value; their results have limbs up to \<open>2 ^ 57\<close>.
\<close>

definition ed_p :: int where
  "ed_p = 2 ^ 336 - 3"

definition ed_weights :: "int list" where
  "ed_weights = [1, 2 ^ 56, 2 ^ 112, 2 ^ 168, 2 ^ 224, 2 ^ 280]"

definition ed_widths :: "nat list" where
  "ed_widths = [56, 56, 56, 56, 56, 56]"

lemma ed_widths_props [simp]: "length ed_widths = 6" "sum_list ed_widths = 336" "hd ed_widths = 56"
  by (simp_all add: ed_widths_def)

lemma ed_weights: "weights ed_widths = ed_weights"
  by (simp add: ed_widths_def ed_weights_def)

interpretation edr: radix_field ed_widths 3 ed_p
  by unfold_locales (auto simp: ed_widths_def ed_p_def)

lemma val_hval: "val ed_weights x = hval ed_widths x"
  by (simp add: ed_weights [symmetric] val_weights)

lemma list6_cases:
  assumes "length l = 6"
  obtains a b c d e f where "l = [a, b, c, d, e, f]"
proof -
  have "length l = Suc (Suc (Suc (Suc (Suc (Suc 0)))))" using assms by simp
  then show ?thesis using that by (auto simp: length_Suc_conv)
qed

section \<open>The common carry chain\<close>

lemma w64_mask56: "w64 t AND bot56bits = t mod 2 ^ 56"
  unfolding bot56bits_def by (rule w64_and_mask) simp

lemma mask56: "t AND bot56bits = t mod 2 ^ 56"
  by (simp add: bot56bits_def take_bit_eq_mod flip: take_bit_eq_mask)

lemma drop_56: "drop_bit 56 t = t div 2 ^ 56" for t :: int
  by (simp add: drop_bit_eq_div)

lemma val_ed:
  "val ed_weights [x0, x1, x2, x3, x4, x5] =
    x0 + 2 ^ 56 * x1 + (2 ^ 56) ^ 2 * x2 + (2 ^ 56) ^ 3 * x3 + (2 ^ 56) ^ 4 * x4 + (2 ^ 56) ^ 5 * x5"
  by (simp add: val_def ed_weights_def)

lemma wrap_chain_ed:
  "wrap_chain f ed_widths 3 [a, b, c, d, e, g] =
    (let t0 = f a; t1 = f (b + t0 div 2 ^ 56); t2 = f (c + t1 div 2 ^ 56); t3 = f (d + t2 div 2 ^ 56);
         t4 = f (e + t3 div 2 ^ 56); t5 = f (g + t4 div 2 ^ 56)
     in [w64 (t0 mod 2 ^ 56 + 3 * (t5 div 2 ^ 56)), t1 mod 2 ^ 56, t2 mod 2 ^ 56, t3 mod 2 ^ 56, t4 mod 2 ^ 56, t5 mod 2 ^ 56])"
  by (simp only: wrap_chain_def ed_widths_def wripple.simps Let_def prod.case add_0_right list_update.simps nat.case nth_Cons_0)

text \<open>The chain of \<open>gmul\<close> and \<open>gsqr\<close>, which carry the last coefficient first.\<close>

definition chain6 :: "int \<Rightarrow> int \<Rightarrow> int \<Rightarrow> int \<Rightarrow> int \<Rightarrow> int \<Rightarrow> fe" where
  "chain6 d0 d1 d2 d3 d4 c5 =
    (let t0 = w128 c5; z5 = w64 t0 AND bot56bits;
         t1 = w128 (d0 + 3 * drop_bit 56 t0); z0 = w64 t1 AND bot56bits;
         t2 = w128 (d1 + drop_bit 56 t1); z1 = w64 t2 AND bot56bits;
         t3 = w128 (d2 + drop_bit 56 t2); z2 = w64 t3 AND bot56bits;
         t4 = w128 (d3 + drop_bit 56 t3); z3 = w64 t4 AND bot56bits;
         t5 = w128 (d4 + drop_bit 56 t4); z4 = w64 t5 AND bot56bits;
         t6 = w128 (z5 + drop_bit 56 t5); z5 = w64 t6 AND bot56bits;
         z0 = w64 (z0 + 3 * drop_bit 56 t6)
     in [z0, z1, z2, z3, z4, z5])"

lemma chain6_rep:
  assumes "\<bar>d0\<bar> \<le> 60 * 2 ^ 120" "\<bar>d1\<bar> \<le> 60 * 2 ^ 120" "\<bar>d2\<bar> \<le> 60 * 2 ^ 120" "\<bar>d3\<bar> \<le> 60 * 2 ^ 120"
    "\<bar>d4\<bar> \<le> 60 * 2 ^ 120" "\<bar>c5\<bar> \<le> 60 * 2 ^ 120"
  shows "rep ed_weights ed_p (2 ^ 57) (chain6 d0 d1 d2 d3 d4 c5)
    (d0 + 2 ^ 56 * d1 + (2 ^ 56) ^ 2 * d2 + (2 ^ 56) ^ 3 * d3 + (2 ^ 56) ^ 4 * d4 + (2 ^ 56) ^ 5 * c5)"
proof -
  let ?q = "c5 div 2 ^ last ed_widths" and ?ds = "[d0, d1, d2, d3, d4]"
  have l: "last ed_widths = 56" by (simp add: ed_widths_def)
  have c: "w128 c5 = c5" using assms(6) by (intro w128_abs) simp
  have u: "?ds[0 := ?ds ! 0 + 3 * ?q] @ [c5 mod 2 ^ last ed_widths] = [d0 + 3 * (c5 div 2 ^ 56), d1, d2, d3, d4, c5 mod 2 ^ 56]"
    by (simp add: l)
  have "chain6 d0 d1 d2 d3 d4 c5 = wrap_chain w128 ed_widths 3 (?ds[0 := ?ds ! 0 + 3 * ?q] @ [c5 mod 2 ^ last ed_widths])"
    unfolding u wrap_chain_ed chain6_def Let_def w64_mask56 drop_56 c by (rule refl)
  moreover have "rep (weights ed_widths) ed_p (2 ^ (hd ed_widths + 1))
      (wrap_chain w128 ed_widths 3 (?ds[0 := ?ds ! 0 + 3 * ?q] @ [c5 mod 2 ^ last ed_widths])) (hval ed_widths (?ds @ [c5]))"
  proof (rule edr.top_rep [where B = "63 * 2 ^ 120"])
    show "w128 t = t" if "\<bar>t\<bar> \<le> 2 * (63 * 2 ^ 120)" for t using that by (intro w128_abs) simp
    have "\<bar>c5 div 2 ^ 56\<bar> \<le> 2 ^ 120"
      using zdiv_mono1 [of c5 "60 * 2 ^ 120" "2 ^ 56"] zdiv_mono1 [of "- (60 * 2 ^ 120)" c5 "2 ^ 56"] assms(6)
      by (simp add: abs_le_iff minus_le_iff)
    then have h: "\<bar>d0 + 3 * (c5 div 2 ^ 56)\<bar> \<le> 63 * 2 ^ 120" using assms(1) by linarith
    have m: "60 * 2 ^ 120 \<le> (63 * 2 ^ 120 :: int)" by simp
    show "\<forall>e \<in> set (?ds[0 := ?ds ! 0 + 3 * ?q]). \<bar>e\<bar> \<le> 63 * 2 ^ 120"
      using h order_trans [OF assms(2) m] order_trans [OF assms(3) m] order_trans [OF assms(4) m] order_trans [OF assms(5) m]
      by (simp only: l list_update.simps nat.case nth_Cons_0 list.set ball_simps HOL.simp_thms)
  qed simp_all
  ultimately show ?thesis
    by (simp add: ed_weights val_hval [symmetric] val_ed)
qed

section \<open>Multiplication\<close>

lemma abs_prod: "\<bar>u\<bar> \<le> A \<Longrightarrow> \<bar>v\<bar> \<le> B \<Longrightarrow> \<bar>u * v\<bar> \<le> A * B" for u v A B :: int
  by (rule abs_product)

lemma abs_diff: "\<bar>u\<bar> \<le> A \<Longrightarrow> \<bar>v\<bar> \<le> A \<Longrightarrow> \<bar>u - v\<bar> \<le> 2 * A" for u v A :: int
  by linarith

lemma gmul_coefficients:
  fixes x y :: fe
  assumes x: "\<And>i. i < 6 \<Longrightarrow> \<bar>x ! i\<bar> \<le> 2 ^ 60" and y: "\<And>i. i < 6 \<Longrightarrow> \<bar>y ! i\<bar> \<le> 2 ^ 60"
  defines "A \<equiv> \<lambda>i. x ! i * y ! i" and "m \<equiv> \<lambda>i j. (x ! i - x ! j) * (y ! i - y ! j)"
  shows "rep ed_weights ed_p (2 ^ 57) (gmul x y)
      ((A 0 + 3 * (A 5 + A 4 + A 3 + A 2 + A 1 - m 1 5 - m 2 4))
       + 2 ^ 56 * (A 0 + A 1 - m 0 1 + 3 * (A 5 + A 4 + A 3 + A 2 - m 2 5 - m 3 4))
       + (2 ^ 56) ^ 2 * (A 0 + A 1 + A 2 - m 0 2 + 3 * (A 5 + A 4 + A 3 - m 3 5))
       + (2 ^ 56) ^ 3 * (A 0 + A 1 + A 2 + A 3 - m 0 3 - m 1 2 + 3 * (A 5 + A 4 - m 4 5))
       + (2 ^ 56) ^ 4 * (A 0 + A 1 + A 2 + A 3 + A 4 - m 0 4 - m 1 3 + 3 * A 5)
       + (2 ^ 56) ^ 5 * (A 5 + A 4 + A 3 + A 2 + A 1 + A 0 - m 0 5 - m 1 4 - m 2 3))"
    (is "rep _ _ _ _ (?d0 + _ * ?d1 + _ * ?d2 + _ * ?d3 + _ * ?d4 + _ * ?c5)")
proof -
  define K :: int where "K = 2 ^ 120"
  have A: "\<bar>A i\<bar> \<le> K" if "i < 6" for i
    using abs_prod [OF x y, OF that that] by (simp add: A_def K_def)
  have d: "\<bar>x ! i - x ! j\<bar> \<le> 2 * 2 ^ 60" "\<bar>y ! i - y ! j\<bar> \<le> 2 * 2 ^ 60" if "i < 6" "j < 6" for i j
    using abs_diff [OF x x, OF that] abs_diff [OF y y, OF that] .
  have m: "\<bar>m i j\<bar> \<le> 4 * K" if "i < 6" "j < 6" for i j
    using abs_prod [OF d, OF that that] by (simp add: m_def K_def)
  have wm: "w64 (x ! i - x ! j) * w64 (y ! i - y ! j) = m i j" if "i < 6" "j < 6" for i j
    using d [OF that] by (simp add: m_def w64_abs)
  have A6: "\<bar>A 0\<bar> \<le> K" "\<bar>A 1\<bar> \<le> K" "\<bar>A 2\<bar> \<le> K" "\<bar>A 3\<bar> \<le> K" "\<bar>A 4\<bar> \<le> K" "\<bar>A 5\<bar> \<le> K"
    by (rule A; simp)+
  have m15: "\<bar>m 0 5\<bar> \<le> 4 * K" "\<bar>m 1 4\<bar> \<le> 4 * K" "\<bar>m 2 3\<bar> \<le> 4 * K" "\<bar>m 1 5\<bar> \<le> 4 * K" "\<bar>m 2 4\<bar> \<le> 4 * K"
    "\<bar>m 0 1\<bar> \<le> 4 * K" "\<bar>m 2 5\<bar> \<le> 4 * K" "\<bar>m 3 4\<bar> \<le> 4 * K" "\<bar>m 0 2\<bar> \<le> 4 * K" "\<bar>m 3 5\<bar> \<le> 4 * K"
    "\<bar>m 0 3\<bar> \<le> 4 * K" "\<bar>m 1 2\<bar> \<le> 4 * K" "\<bar>m 4 5\<bar> \<le> 4 * K" "\<bar>m 0 4\<bar> \<le> 4 * K" "\<bar>m 1 3\<bar> \<le> 4 * K"
    by (rule m; simp)+
  have wm15: "w64 (x ! 0 - x ! 5) * w64 (y ! 0 - y ! 5) = m 0 5" "w64 (x ! 1 - x ! 4) * w64 (y ! 1 - y ! 4) = m 1 4"
    "w64 (x ! 2 - x ! 3) * w64 (y ! 2 - y ! 3) = m 2 3" "w64 (x ! 1 - x ! 5) * w64 (y ! 1 - y ! 5) = m 1 5"
    "w64 (x ! 2 - x ! 4) * w64 (y ! 2 - y ! 4) = m 2 4" "w64 (x ! 0 - x ! 1) * w64 (y ! 0 - y ! 1) = m 0 1"
    "w64 (x ! 2 - x ! 5) * w64 (y ! 2 - y ! 5) = m 2 5" "w64 (x ! 3 - x ! 4) * w64 (y ! 3 - y ! 4) = m 3 4"
    "w64 (x ! 0 - x ! 2) * w64 (y ! 0 - y ! 2) = m 0 2" "w64 (x ! 3 - x ! 5) * w64 (y ! 3 - y ! 5) = m 3 5"
    "w64 (x ! 0 - x ! 3) * w64 (y ! 0 - y ! 3) = m 0 3" "w64 (x ! 1 - x ! 2) * w64 (y ! 1 - y ! 2) = m 1 2"
    "w64 (x ! 4 - x ! 5) * w64 (y ! 4 - y ! 5) = m 4 5" "w64 (x ! 0 - x ! 4) * w64 (y ! 0 - y ! 4) = m 0 4"
    "w64 (x ! 1 - x ! 3) * w64 (y ! 1 - y ! 3) = m 1 3"
    by (rule wm; simp)+
  note u = A6 [THEN abs_le_D1] A6 [THEN abs_le_D2] m15 [THEN abs_le_D1] m15 [THEN abs_le_D2]
  have K0: "0 \<le> K" and K64: "64 * K = 2 ^ 126" by (simp_all add: K_def)
  have bd: "\<bar>?c5\<bar> \<le> 60 * K" "\<bar>?d0\<bar> \<le> 60 * K" "\<bar>?d1\<bar> \<le> 60 * K" "\<bar>?d2\<bar> \<le> 60 * K" "\<bar>?d3\<bar> \<le> 60 * K" "\<bar>?d4\<bar> \<le> 60 * K"
    by (rule abs_leI; (simp only: distrib_left_numeral right_diff_distrib_numeral)?; use u K0 in linarith)+
  have W: "w128 u = v" if "u = v" "\<bar>v\<bar> \<le> 64 * K" for u v using that by (simp add: w128_abs K64)
  have bs: "\<bar>A 5 + A 4\<bar> \<le> 64 * K" "\<bar>A 5 + A 4 + A 3\<bar> \<le> 64 * K" "\<bar>A 5 + A 4 + A 3 + A 2\<bar> \<le> 64 * K"
    "\<bar>A 5 + A 4 + A 3 + A 2 + A 1\<bar> \<le> 64 * K" "\<bar>A 5 + A 4 + A 3 + A 2 + A 1 + A 0\<bar> \<le> 64 * K"
    "\<bar>A 0 + A 1\<bar> \<le> 64 * K" "\<bar>A 0 + A 1 + A 2\<bar> \<le> 64 * K" "\<bar>A 0 + A 1 + A 2 + A 3\<bar> \<le> 64 * K"
    "\<bar>A 0 + A 1 + A 2 + A 3 + A 4\<bar> \<le> 64 * K"
    by (rule abs_leI; use A6 [THEN abs_le_D1] A6 [THEN abs_le_D2] K0 in linarith)+
  have ws: "w128 (A 5 + A 4) = A 5 + A 4" "w128 (A 5 + A 4 + A 3) = A 5 + A 4 + A 3"
    "w128 (A 5 + A 4 + A 3 + A 2) = A 5 + A 4 + A 3 + A 2"
    "w128 (A 5 + A 4 + A 3 + A 2 + A 1) = A 5 + A 4 + A 3 + A 2 + A 1"
    "w128 (A 5 + A 4 + A 3 + A 2 + A 1 + A 0) = A 5 + A 4 + A 3 + A 2 + A 1 + A 0"
    "w128 (A 0 + A 1) = A 0 + A 1" "w128 (A 0 + A 1 + A 2) = A 0 + A 1 + A 2"
    "w128 (A 0 + A 1 + A 2 + A 3) = A 0 + A 1 + A 2 + A 3"
    "w128 (A 0 + A 1 + A 2 + A 3 + A 4) = A 0 + A 1 + A 2 + A 3 + A 4"
    by (rule W [OF refl], rule bs)+
  have wA6: "w128 (x ! i * y ! i) = A i" if "i < 6" for i
  proof -
    have "\<bar>A i\<bar> \<le> 64 * K" using A [OF that] K0 by linarith
    then show ?thesis unfolding A_def by (rule W [OF refl])
  qed
  have wA: "w128 (x ! 0 * y ! 0) = A 0" "w128 (x ! 1 * y ! 1) = A 1" "w128 (x ! 2 * y ! 2) = A 2"
    "w128 (x ! 3 * y ! 3) = A 3" "w128 (x ! 4 * y ! 4) = A 4" "w128 (x ! 5 * y ! 5) = A 5"
    by (rule wA6; simp)+
  have "gmul x y = chain6 ?d0 ?d1 ?d2 ?d3 ?d4 ?c5"
    unfolding gmul_def chain6_def Let_def wA ws wm15
    by (simp only: distrib_left_numeral right_diff_distrib_numeral add.assoc diff_conv_add_uminus minus_add_distrib)
  then show ?thesis
    by (simp only: chain6_rep [OF bd(2-6,1) [unfolded K_def]])
qed

lemma granger_value:
  fixes b :: int
  shows "(x0 * y0 + 3 * (x5 * y5 + x4 * y4 + x3 * y3 + x2 * y2 + x1 * y1 - (x1 - x5) * (y1 - y5) - (x2 - x4) * (y2 - y4)))
    + b * (x0 * y0 + x1 * y1 - (x0 - x1) * (y0 - y1)
        + 3 * (x5 * y5 + x4 * y4 + x3 * y3 + x2 * y2 - (x2 - x5) * (y2 - y5) - (x3 - x4) * (y3 - y4)))
    + b ^ 2 * (x0 * y0 + x1 * y1 + x2 * y2 - (x0 - x2) * (y0 - y2)
        + 3 * (x5 * y5 + x4 * y4 + x3 * y3 - (x3 - x5) * (y3 - y5)))
    + b ^ 3 * (x0 * y0 + x1 * y1 + x2 * y2 + x3 * y3 - (x0 - x3) * (y0 - y3) - (x1 - x2) * (y1 - y2)
        + 3 * (x5 * y5 + x4 * y4 - (x4 - x5) * (y4 - y5)))
    + b ^ 4 * (x0 * y0 + x1 * y1 + x2 * y2 + x3 * y3 + x4 * y4 - (x0 - x4) * (y0 - y4) - (x1 - x3) * (y1 - y3)
        + 3 * (x5 * y5))
    + b ^ 5 * (x5 * y5 + x4 * y4 + x3 * y3 + x2 * y2 + x1 * y1 + x0 * y0
        - (x0 - x5) * (y0 - y5) - (x1 - x4) * (y1 - y4) - (x2 - x3) * (y2 - y3))
    - (x0 + b * x1 + b ^ 2 * x2 + b ^ 3 * x3 + b ^ 4 * x4 + b ^ 5 * x5)
      * (y0 + b * y1 + b ^ 2 * y2 + b ^ 3 * y3 + b ^ 4 * y4 + b ^ 5 * y5)
    = (b ^ 6 - 3) * - ((x1 * y5 + x5 * y1 + x2 * y4 + x4 * y2 + x3 * y3)
        + b * (x2 * y5 + x5 * y2 + x3 * y4 + x4 * y3) + b ^ 2 * (x3 * y5 + x5 * y3 + x4 * y4)
        + b ^ 3 * (x4 * y5 + x5 * y4) + b ^ 4 * (x5 * y5))"
  by (simp add: algebra_simps power_numeral_reduce)

lemma rep_limbs:
  assumes "rep ed_weights p B x a"
  shows "length x = 6" "i < 6 \<Longrightarrow> \<bar>x ! i\<bar> \<le> B"
  using assms by (simp_all add: rep_def ed_weights_def)

lemma gmul_rep:
  assumes x: "rep ed_weights ed_p (2 ^ 60) x a" and y: "rep ed_weights ed_p (2 ^ 60) y b"
  shows "rep ed_weights ed_p (2 ^ 57) (gmul x y) (a * b)"
proof (rule rep_mult_cong [OF x y gmul_coefficients [OF rep_limbs(2) [OF x] rep_limbs(2) [OF y]]])
  obtain x0 x1 x2 x3 x4 x5 where X: "x = [x0, x1, x2, x3, x4, x5]" by (rule list6_cases [OF rep_limbs(1) [OF x]])
  obtain y0 y1 y2 y3 y4 y5 where Y: "y = [y0, y1, y2, y3, y4, y5]" by (rule list6_cases [OF rep_limbs(1) [OF y]])
  have n: "x ! 0 = x0" "x ! 1 = x1" "x ! 2 = x2" "x ! 3 = x3" "x ! 4 = x4" "x ! 5 = x5"
    "y ! 0 = y0" "y ! 1 = y1" "y ! 2 = y2" "y ! 3 = y3" "y ! 4 = y4" "y ! 5 = y5"
    by (simp_all add: X Y)
  have p: "ed_p = (2 ^ 56) ^ 6 - 3" by (simp add: ed_p_def)
  show "ed_p dvd (x ! 0 * y ! 0 + 3 * (x ! 5 * y ! 5 + x ! 4 * y ! 4 + x ! 3 * y ! 3 + x ! 2 * y ! 2 + x ! 1 * y ! 1
      - (x ! 1 - x ! 5) * (y ! 1 - y ! 5) - (x ! 2 - x ! 4) * (y ! 2 - y ! 4)))
    + 2 ^ 56 * (x ! 0 * y ! 0 + x ! 1 * y ! 1 - (x ! 0 - x ! 1) * (y ! 0 - y ! 1)
        + 3 * (x ! 5 * y ! 5 + x ! 4 * y ! 4 + x ! 3 * y ! 3 + x ! 2 * y ! 2 - (x ! 2 - x ! 5) * (y ! 2 - y ! 5)
          - (x ! 3 - x ! 4) * (y ! 3 - y ! 4)))
    + (2 ^ 56) ^ 2 * (x ! 0 * y ! 0 + x ! 1 * y ! 1 + x ! 2 * y ! 2 - (x ! 0 - x ! 2) * (y ! 0 - y ! 2)
        + 3 * (x ! 5 * y ! 5 + x ! 4 * y ! 4 + x ! 3 * y ! 3 - (x ! 3 - x ! 5) * (y ! 3 - y ! 5)))
    + (2 ^ 56) ^ 3 * (x ! 0 * y ! 0 + x ! 1 * y ! 1 + x ! 2 * y ! 2 + x ! 3 * y ! 3 - (x ! 0 - x ! 3) * (y ! 0 - y ! 3)
        - (x ! 1 - x ! 2) * (y ! 1 - y ! 2) + 3 * (x ! 5 * y ! 5 + x ! 4 * y ! 4 - (x ! 4 - x ! 5) * (y ! 4 - y ! 5)))
    + (2 ^ 56) ^ 4 * (x ! 0 * y ! 0 + x ! 1 * y ! 1 + x ! 2 * y ! 2 + x ! 3 * y ! 3 + x ! 4 * y ! 4
        - (x ! 0 - x ! 4) * (y ! 0 - y ! 4) - (x ! 1 - x ! 3) * (y ! 1 - y ! 3) + 3 * (x ! 5 * y ! 5))
    + (2 ^ 56) ^ 5 * (x ! 5 * y ! 5 + x ! 4 * y ! 4 + x ! 3 * y ! 3 + x ! 2 * y ! 2 + x ! 1 * y ! 1 + x ! 0 * y ! 0
        - (x ! 0 - x ! 5) * (y ! 0 - y ! 5) - (x ! 1 - x ! 4) * (y ! 1 - y ! 4) - (x ! 2 - x ! 3) * (y ! 2 - y ! 3))
    - val ed_weights x * val ed_weights y"
    unfolding n p unfolding X Y val_ed granger_value by (rule dvd_triv_left)
qed

section \<open>Squaring\<close>

lemma sqr_value:
  fixes b :: int
  shows "(x0 * x0 + 3 * (2 * (x1 * x5 + x2 * x4) + x3 * x3)) + b * (2 * (x0 * x1 + 3 * (x2 * x5 + x3 * x4)))
    + b ^ 2 * (x0 * (2 * x2) + x1 * x1 + 3 * (x3 * (2 * x5) + x4 * x4))
    + b ^ 3 * (2 * (x0 * x3 + x1 * x2 + x4 * (3 * x5))) + b ^ 4 * (2 * (x0 * x4 + x1 * x3) + x2 * x2 + x5 * (3 * x5))
    + b ^ 5 * (2 * (x0 * x5 + x1 * x4 + x2 * x3))
    - (x0 + b * x1 + b ^ 2 * x2 + b ^ 3 * x3 + b ^ 4 * x4 + b ^ 5 * x5)
      * (x0 + b * x1 + b ^ 2 * x2 + b ^ 3 * x3 + b ^ 4 * x4 + b ^ 5 * x5)
    = (b ^ 6 - 3) * - ((2 * (x1 * x5 + x2 * x4) + x3 * x3)
        + b * (2 * (x2 * x5 + x3 * x4)) + b ^ 2 * (2 * (x3 * x5) + x4 * x4)
        + b ^ 3 * (2 * (x4 * x5)) + b ^ 4 * (x5 * x5))"
  by (simp add: algebra_simps power_numeral_reduce)

lemma gsqr_rep:
  assumes x: "rep ed_weights ed_p (2 ^ 60) x a"
  shows "rep ed_weights ed_p (2 ^ 57) (gsqr x) (a * a)"
proof -
  obtain x0 x1 x2 x3 x4 x5 where X: "x = [x0, x1, x2, x3, x4, x5]" by (rule list6_cases [OF rep_limbs(1) [OF x]])
  have n: "x ! 0 = x0" "x ! 1 = x1" "x ! 2 = x2" "x ! 3 = x3" "x ! 4 = x4" "x ! 5 = x5"
    by (simp_all add: X)
  have b: "\<bar>x0\<bar> \<le> 2 ^ 60" "\<bar>x1\<bar> \<le> 2 ^ 60" "\<bar>x2\<bar> \<le> 2 ^ 60" "\<bar>x3\<bar> \<le> 2 ^ 60" "\<bar>x4\<bar> \<le> 2 ^ 60" "\<bar>x5\<bar> \<le> 2 ^ 60"
    using rep_limbs(2) [OF x, of 0] rep_limbs(2) [OF x, of 1] rep_limbs(2) [OF x, of 2]
      rep_limbs(2) [OF x, of 3] rep_limbs(2) [OF x, of 4] rep_limbs(2) [OF x, of 5] by (simp_all add: n [unfolded One_nat_def])
  define K :: int where "K = 2 ^ 120"
  have K0: "0 \<le> K" by (simp add: K_def)
  have m: "\<bar>u * v\<bar> \<le> K" if "\<bar>u\<bar> \<le> 2 ^ 60" "\<bar>v\<bar> \<le> 2 ^ 60" for u v :: int
    using abs_prod [OF that] by (simp add: K_def)
  note u1 = m [THEN abs_le_D1] and u2 = m [THEN abs_le_D2]
  have w: "w64 (2 * x2) = 2 * x2" "w64 (2 * x5) = 2 * x5" "w64 (3 * x5) = 3 * x5"
    using b(3,6) by (simp_all add: w64_abs abs_mult)
  let ?d0 = "x0 * x0 + 3 * (2 * (x1 * x5 + x2 * x4) + x3 * x3)"
  let ?d1 = "2 * (x0 * x1 + 3 * (x2 * x5 + x3 * x4))"
  let ?d2 = "x0 * (2 * x2) + x1 * x1 + 3 * (x3 * (2 * x5) + x4 * x4)"
  let ?d3 = "2 * (x0 * x3 + x1 * x2 + x4 * (3 * x5))"
  let ?d4 = "2 * (x0 * x4 + x1 * x3) + x2 * x2 + x5 * (3 * x5)"
  let ?c5 = "2 * (x0 * x5 + x1 * x4 + x2 * x3)"
  have "\<bar>?d0\<bar> \<le> 60 * K" "\<bar>?d1\<bar> \<le> 60 * K" "\<bar>?d2\<bar> \<le> 60 * K" "\<bar>?d3\<bar> \<le> 60 * K" "\<bar>?d4\<bar> \<le> 60 * K" "\<bar>?c5\<bar> \<le> 60 * K"
    unfolding mult.left_commute [of x0 2] mult.left_commute [of x3 2] mult.left_commute [of x4 3]
      mult.left_commute [of x5 3] distrib_left_numeral
    subgoal by (rule abs_leI; use u1 [OF b(1,1)] u2 [OF b(1,1)] u1 [OF b(2,6)] u2 [OF b(2,6)] u1 [OF b(3,5)] u2 [OF b(3,5)] u1 [OF b(4,4)] u2 [OF b(4,4)] K0 in linarith)
    subgoal by (rule abs_leI; use u1 [OF b(1,2)] u2 [OF b(1,2)] u1 [OF b(3,6)] u2 [OF b(3,6)] u1 [OF b(4,5)] u2 [OF b(4,5)] K0 in linarith)
    subgoal by (rule abs_leI; use u1 [OF b(1,3)] u2 [OF b(1,3)] u1 [OF b(2,2)] u2 [OF b(2,2)] u1 [OF b(4,6)] u2 [OF b(4,6)] u1 [OF b(5,5)] u2 [OF b(5,5)] K0 in linarith)
    subgoal by (rule abs_leI; use u1 [OF b(1,4)] u2 [OF b(1,4)] u1 [OF b(2,3)] u2 [OF b(2,3)] u1 [OF b(5,6)] u2 [OF b(5,6)] K0 in linarith)
    subgoal by (rule abs_leI; use u1 [OF b(1,5)] u2 [OF b(1,5)] u1 [OF b(2,4)] u2 [OF b(2,4)] u1 [OF b(3,3)] u2 [OF b(3,3)] u1 [OF b(6,6)] u2 [OF b(6,6)] K0 in linarith)
    subgoal by (rule abs_leI; use u1 [OF b(1,6)] u2 [OF b(1,6)] u1 [OF b(2,5)] u2 [OF b(2,5)] u1 [OF b(3,4)] u2 [OF b(3,4)] K0 in linarith)
    done
  note bd = this [unfolded K_def]
  have e: "gsqr x = chain6 ?d0 ?d1 ?d2 ?d3 ?d4 ?c5"
    unfolding gsqr_def chain6_def Let_def n w
    by (simp only: distrib_left_numeral add.assoc)
  show ?thesis
  proof (rule rep_mult_cong [OF x x])
    show "rep ed_weights ed_p (2 ^ 57) (gsqr x) (?d0 + 2 ^ 56 * ?d1 + (2 ^ 56) ^ 2 * ?d2 + (2 ^ 56) ^ 3 * ?d3
        + (2 ^ 56) ^ 4 * ?d4 + (2 ^ 56) ^ 5 * ?c5)"
      unfolding e by (rule chain6_rep [OF bd])
    have p: "ed_p = (2 ^ 56) ^ 6 - 3" by (simp add: ed_p_def)
    show "ed_p dvd (?d0 + 2 ^ 56 * ?d1 + (2 ^ 56) ^ 2 * ?d2 + (2 ^ 56) ^ 3 * ?d3
        + (2 ^ 56) ^ 4 * ?d4 + (2 ^ 56) ^ 5 * ?c5) - val ed_weights x * val ed_weights x"
      unfolding p X val_ed sqr_value by (rule dvd_triv_left)
  qed
qed

end
