(* ===== verification/Ed3363_Norm.thy ===== *)
theory Ed3363_Norm
  imports Ed3363_Field
begin

unbundle bit_operations_syntax

text \<open>
  The functions of \<open>ed3363_intf.cpp\<close> that are one carry chain (\<open>scr\<close>, \<open>gmuli\<close>) and what rests
  on \<open>scr\<close> (\<open>gnorm\<close>, \<open>geq\<close>).
\<close>

section \<open>One carry chain\<close>

lemma scr_chain:
  assumes "length w = 6" "\<bar>w ! 0\<bar> \<le> 2 ^ 61"
  shows "scr w = wrap_chain w64 ed_widths 3 w"
proof -
  obtain a b c d e f where w: "w = [a, b, c, d, e, f]" by (rule list6_cases [OF assms(1)])
  have a: "w64 a = a" using assms(2) by (simp add: w w64_abs)
  show ?thesis
    unfolding w scr_def mask56 drop_56 wrap_chain_ed
    by (simp only: Let_def a nth_Cons_0 nth_Cons_Suc numeral_nat One_nat_def)
qed

lemma gmuli_chain:
  assumes "length w = 6"
  shows "gmuli w i = wrap_chain w128 ed_widths 3 (map (\<lambda>l. l * i) w)"
proof -
  obtain a b c d e f where w: "w = [a, b, c, d, e, f]" by (rule list6_cases [OF assms])
  show ?thesis
    unfolding w gmuli_def w64_mask56 drop_56 list.map wrap_chain_ed
    by (simp only: Let_def nth_Cons_0 nth_Cons_Suc numeral_nat One_nat_def)
qed

lemma scr_fold:
  assumes "length w = 6" "\<forall>l \<in> set w. \<bar>l\<bar> \<le> 2 ^ 61"
  shows "scr w = fold_digits ed_widths 3 (hval ed_widths w)"
proof -
  have "w64 t = t" if "\<bar>t\<bar> \<le> 2 * 2 ^ 61" for t using that by (intro w64_abs) simp
  moreover have "\<bar>hval ed_widths w div 2 ^ sum_list ed_widths\<bar> \<le> 2 ^ 16"
    by (rule edr.quotient) (use assms in simp_all)
  ultimately show ?thesis
    using edr.chain_fold [of "2 ^ 61" w64 w "2 ^ 16"] assms by (subst scr_chain) simp_all
qed

lemma scr_rep:
  assumes "rep ed_weights ed_p (2 ^ 61) w a"
  shows "rep ed_weights ed_p (2 ^ 57) (scr w) a"
proof -
  have w: "length w = 6" "\<forall>l \<in> set w. \<bar>l\<bar> \<le> 2 ^ 61" "ed_p dvd hval ed_widths w - a"
    using assms rep_limbs(1) [OF assms] by (simp_all add: rep_def val_hval)
  have "\<bar>hval ed_widths w div 2 ^ sum_list ed_widths\<bar> \<le> 2 ^ 16"
    by (rule edr.quotient) (use w in simp_all)
  from edr.fold_rep [OF w(3) this] show ?thesis by (simp add: scr_fold [OF w(1,2)] ed_weights)
qed

lemma gmuli_rep:
  assumes w: "rep ed_weights ed_p (2 ^ 60) w a" and i: "\<bar>i\<bar> \<le> 2 ^ 14"
  shows "rep ed_weights ed_p (2 ^ 57) (gmuli w i) (a * i)"
proof -
  have l: "length w = 6" by (rule rep_limbs [OF w])
  have b: "\<forall>l \<in> set w. \<bar>l\<bar> \<le> 2 ^ 60" and d: "ed_p dvd hval ed_widths w - a" using w by (simp_all add: rep_def val_hval)
  have e: "\<forall>e \<in> set (map (\<lambda>l. l * i) w). \<bar>e\<bar> \<le> 2 ^ 74"
    using b i abs_prod [of _ "2 ^ 60" i "2 ^ 14"] by auto
  have f: "w128 t = t" if "\<bar>t\<bar> \<le> 2 * 2 ^ 74" for t using that by (intro w128_abs) simp
  have "ed_p dvd hval ed_widths (map (\<lambda>l. l * i) w) - a * i"
    using d by (simp add: hval_scale flip: left_diff_distrib)
  from edr.chain_rep [OF f e _ _ _ _ this, of "2 ^ 29"] show ?thesis
    by (simp add: gmuli_chain [OF l] ed_weights l)
qed

section \<open>Normal form and comparison\<close>

lemma gnorm_digits:
  assumes "length x = 6" "\<forall>l \<in> set x. \<bar>l\<bar> \<le> 2 ^ 61"
  shows "gnorm x = digits ed_widths (hval ed_widths x mod ed_p)"
  using edr.normal_form [of scr x] scr_fold assms by (simp add: gnorm_def Let_def)

lemma geq_iff:
  assumes "length x = 6" "length y = 6" "\<forall>l \<in> set x. \<bar>l\<bar> \<le> 2 ^ 60" "\<forall>l \<in> set y. \<bar>l\<bar> \<le> 2 ^ 60"
  shows "geq x y \<longleftrightarrow> ed_p dvd hval ed_widths x - hval ed_widths y"
proof -
  have s: "hval ed_widths (gsub x y) = hval ed_widths x - hval ed_widths y" "length (gsub x y) = 6"
    "\<forall>l \<in> set (gsub x y). \<bar>l\<bar> \<le> 2 ^ 61"
    using edr.gsub_hval [of x y] assms by simp_all
  define m where "m = (hval ed_widths x - hval ed_widths y) mod ed_p"
  have "geq x y \<longleftrightarrow> digits ed_widths m = replicate (length ed_widths) 0"
    unfolding geq_def Let_def gnorm_digits [OF s(2,3)] s(1) m_def [symmetric]
    by (rule list6_cases [of "digits ed_widths m"]) (simp_all add: eval_nat_numeral)
  then show ?thesis unfolding m_def edr.remainder_zero .
qed

lemma geq_rep:
  assumes "rep ed_weights ed_p (2 ^ 60) x a" "rep ed_weights ed_p (2 ^ 60) y b"
  shows "geq x y \<longleftrightarrow> ed_p dvd a - b"
proof -
  have "geq x y \<longleftrightarrow> ed_p dvd hval ed_widths x - hval ed_widths y"
    by (rule geq_iff [OF rep_limbs(1) [OF assms(1)] rep_limbs(1) [OF assms(2)]])
      (use assms in \<open>simp_all add: rep_def\<close>)
  then show ?thesis unfolding val_hval [symmetric] rep_same [OF assms] .
qed

end
