(* ===== verification/Edwards_Spec.thy ===== *)
theory Edwards_Spec
  imports Complex_Main
begin

text \<open>
  Twisted Edwards curves \<open>x\<^sup>2 + y\<^sup>2 = 1 + d x\<^sup>2 y\<^sup>2\<close> modulo \<open>p\<close>: the addition law in affine
  coordinates, and the extended projective formulas \<open>(X, Y, Z, T)\<close> with \<open>x = X / Z\<close>,
  \<open>y = Y / Z\<close>, \<open>x y = T / Z\<close>. The formulas are integer polynomials; all equations hold
  modulo \<open>p\<close>.
\<close>

type_synonym epoint = "int \<times> int \<times> int \<times> int"

fun e_double :: "epoint \<Rightarrow> epoint" where
  "e_double (X, Y, Z, T) =
    (let A = X * X; B = Y * Y; E = (X + Y) * (X + Y) - A - B; G = A + B; F = G - 2 * (Z * Z); H = A - B
     in (E * F, G * H, F * G, E * H))"

text \<open>The second point has its last coordinate multiplied by \<open>d\<close> already.\<close>

fun e_add :: "epoint \<Rightarrow> epoint \<Rightarrow> epoint" where
  "e_add (X1, Y1, Z1, T1) (X2, Y2, Z2, T2) =
    (let A = X1 * X2; B = Y1 * Y2; C = T1 * T2; D = Z1 * Z2; F = D - C; G = D + C; H = B - A;
         E = (X1 + Y1) * (X2 + Y2) - A - B
     in (E * F, G * H, F * G, E * H))"

text \<open>The addition of points given by three coordinates only.\<close>

fun e_add_proj :: "int \<Rightarrow> epoint \<Rightarrow> epoint \<Rightarrow> epoint" where
  "e_add_proj d (X1, Y1, Z1, T1) (X2, Y2, Z2, T2) =
    (let A = Z1 * Z2; B = A * A; C = X1 * X2; D = Y1 * Y2; E = C * D * d; F = B - E; G = B + E;
         S = A * ((X1 + Y1) * (X2 + Y2) - C - D); H = A * (D - C)
     in (S * F, G * H, F * G, S * H))"

fun e_neg :: "epoint \<Rightarrow> epoint" where
  "e_neg (X, Y, Z, T) = (- X, Y, Z, - T)"

fun e_scale :: "int \<Rightarrow> epoint \<Rightarrow> epoint" where
  "e_scale d (X, Y, Z, T) = (X, Y, Z, T * d)"

definition e_zero :: epoint where
  "e_zero = (0, 1, 1, 0)"

definition e_affine :: "int \<Rightarrow> int \<Rightarrow> epoint" where
  "e_affine x y = (x, y, 1, x * y)"

section \<open>Multiples of a point\<close>

text \<open>\<open>multiple d P n A\<close>: the formulas take \<open>P\<close> to \<open>A\<close> by additions, doublings and negations
  that add up to \<open>n\<close>.\<close>

inductive multiple :: "int \<Rightarrow> epoint \<Rightarrow> int \<Rightarrow> epoint \<Rightarrow> bool" for d P where
  zero: "multiple d P 0 e_zero"
| one: "multiple d P 1 P"
| double: "multiple d P n A \<Longrightarrow> multiple d P (2 * n) (e_double A)"
| add: "multiple d P m A \<Longrightarrow> multiple d P n B \<Longrightarrow> multiple d P (m + n) (e_add A (e_scale d B))"
| neg: "multiple d P n A \<Longrightarrow> multiple d P (- n) (e_neg A)"

lemma multiple_cong: "multiple d P m A \<Longrightarrow> m = n \<Longrightarrow> A = B \<Longrightarrow> multiple d P n B"
  by simp

section \<open>Multiplication by a number in signed digits\<close>

definition e_table :: "int \<Rightarrow> epoint \<Rightarrow> epoint list" where
  "e_table d P =
    (let P2 = e_double P; P3 = e_add P2 (e_scale d P); P4 = e_double P2; P5 = e_add P4 (e_scale d P);
         P6 = e_double P3; P7 = e_add P6 (e_scale d P); P8 = e_double P4
     in [e_zero, P, P2, P3, P4, P5, P6, P7, P8])"

definition e_signed :: "epoint list \<Rightarrow> int \<Rightarrow> epoint" where
  "e_signed tab b = (if b < 0 then e_neg (tab ! nat (- b)) else tab ! nat b)"

definition e_step :: "int \<Rightarrow> epoint list \<Rightarrow> epoint \<Rightarrow> int \<Rightarrow> epoint" where
  "e_step d tab A b = e_add (e_double (e_double (e_double (e_double A)))) (e_scale d (e_signed tab b))"

definition e_ladder :: "int \<Rightarrow> epoint \<Rightarrow> int list \<Rightarrow> epoint" where
  "e_ladder d P w =
    (let tab = e_table d P in foldl (e_step d tab) (tab ! nat (last w)) (rev (butlast w)))"

fun digits_value :: "int list \<Rightarrow> int" where
  "digits_value [] = 0"
| "digits_value (b # bs) = b + 16 * digits_value bs"

lemma multiple_table:
  assumes "k < 9"
  shows "multiple d P (int k) (e_table d P ! k)"
proof -
  have 2: "multiple d P 2 (e_double P)" using multiple.double [OF multiple.one] by simp
  have 3: "multiple d P 3 (e_add (e_double P) (e_scale d P))" using multiple.add [OF 2 multiple.one] by simp
  have 4: "multiple d P 4 (e_double (e_double P))" using multiple.double [OF 2] by simp
  have 8: "multiple d P 8 (e_double (e_double (e_double P)))" using multiple.double [OF 4] by simp
  have 6: "multiple d P 6 (e_double (e_add (e_double P) (e_scale d P)))" using multiple.double [OF 3] by simp
  have 5: "multiple d P 5 (e_add (e_double (e_double P)) (e_scale d P))" using multiple.add [OF 4 multiple.one] by simp
  have 7: "multiple d P 7 (e_add (e_double (e_add (e_double P) (e_scale d P))) (e_scale d P))"
    using multiple.add [OF 6 multiple.one] by simp
  have "k \<in> {0, 1, 2, 3, 4, 5, 6, 7, 8}" using assms by auto
  then show ?thesis
    using 2 3 4 5 6 7 8 multiple.zero [of d P] multiple.one [of d P]
    by (elim insertE emptyE) (simp_all add: e_table_def Let_def)
qed

lemma multiple_signed: "\<bar>b\<bar> \<le> 8 \<Longrightarrow> multiple d P b (e_signed (e_table d P) b)"
  using multiple_table [of "nat b" d P] multiple.neg [OF multiple_table, of "nat (- b)" d P]
  by (auto simp: e_signed_def)

lemma multiple_step:
  "multiple d P n A \<Longrightarrow> \<bar>b\<bar> \<le> 8 \<Longrightarrow> multiple d P (16 * n + b) (e_step d (e_table d P) A b)"
  unfolding e_step_def
  using multiple.add [OF multiple.double [OF multiple.double [OF multiple.double [OF multiple.double]]] multiple_signed]
  by (simp add: mult.assoc [symmetric])

lemma multiple_fold:
  "multiple d P n A \<Longrightarrow> \<forall>b \<in> set bs. \<bar>b\<bar> \<le> 8 \<Longrightarrow>
    multiple d P (n * 16 ^ length bs + digits_value bs) (foldl (e_step d (e_table d P)) A (rev bs))"
proof (induction bs arbitrary: n)
  case (Cons b bs)
  then have "multiple d P (n * 16 ^ length bs + digits_value bs) (foldl (e_step d (e_table d P)) A (rev bs))" "\<bar>b\<bar> \<le> 8"
    by simp_all
  from multiple_step [OF this] have "multiple d P (16 * (n * 16 ^ length bs + digits_value bs) + b)
      (foldl (e_step d (e_table d P)) A (rev (b # bs)))" by simp
  then show ?case by (rule multiple_cong) (simp_all add: algebra_simps)
qed simp

lemma digits_value_append: "digits_value (bs @ [b]) = b * 16 ^ length bs + digits_value bs"
  by (induction bs) simp_all

lemma multiple_ladder:
  assumes "w \<noteq> []" "\<forall>b \<in> set w. \<bar>b\<bar> \<le> 8" "0 \<le> last w"
  shows "multiple d P (digits_value w) (e_ladder d P w)"
proof -
  have w: "w = butlast w @ [last w]" using assms(1) by simp
  have l: "\<bar>last w\<bar> \<le> 8" "\<forall>b \<in> set (butlast w). \<bar>b\<bar> \<le> 8"
    using assms(1,2) by (auto dest: in_set_butlastD)
  have "multiple d P (last w) (e_table d P ! nat (last w))"
    using multiple_table [of "nat (last w)" d P] assms(3) l(1) by simp
  from multiple_fold [OF this l(2)] show ?thesis
    unfolding e_ladder_def Let_def
    by (rule multiple_cong) (subst (3) w, simp add: digits_value_append, rule refl)
qed

section \<open>The affine law\<close>

definition on_curve :: "int \<Rightarrow> int \<Rightarrow> int \<times> int \<Rightarrow> bool" where
  "on_curve p d = (\<lambda>(x, y). p dvd x ^ 2 + y ^ 2 - 1 - d * x ^ 2 * y ^ 2)"

text \<open>\<open>ed_sum p d a b c\<close>: \<open>c\<close> is the sum of \<open>a\<close> and \<open>b\<close>, whose denominators are units.\<close>

definition ed_sum :: "int \<Rightarrow> int \<Rightarrow> int \<times> int \<Rightarrow> int \<times> int \<Rightarrow> int \<times> int \<Rightarrow> bool" where
  "ed_sum p d = (\<lambda>(x1, y1) (x2, y2) (x3, y3).
     let \<delta> = d * x1 * x2 * y1 * y2
     in coprime (1 + \<delta>) p \<and> coprime (1 - \<delta>) p \<and>
        p dvd x3 * (1 + \<delta>) - (x1 * y2 + x2 * y1) \<and> p dvd y3 * (1 - \<delta>) - (y1 * y2 - x1 * x2))"

definition represents :: "int \<Rightarrow> epoint \<Rightarrow> int \<times> int \<Rightarrow> bool" where
  "represents p = (\<lambda>(X, Y, Z, T) (x, y).
     coprime Z p \<and> p dvd X - x * Z \<and> p dvd Y - y * Z \<and> p dvd T - x * y * Z)"

lemma dvd_combine2:
  fixes p :: int
  assumes "p dvd a" "p dvd b" "e = u * a + v * b"
  shows "p dvd e"
  using assms by simp

lemma dvd_combine4:
  fixes p :: int
  assumes "p dvd a" "p dvd b" "p dvd c" "p dvd f" "e = u * a + v * b + w * c + z * f"
  shows "p dvd e"
  using assms by simp

lemma dvd_unit: "coprime u p \<Longrightarrow> p dvd u * e \<Longrightarrow> p dvd e" for p :: int
  by (simp add: coprime_commute coprime_dvd_mult_right_iff)

lemma closure_identity:
  fixes d x1 y1 x2 y2 :: int
  defines "\<delta> \<equiv> d * x1 * x2 * y1 * y2"
  shows "(x1 * y2 + x2 * y1) ^ 2 * (1 - \<delta>) ^ 2 + (y1 * y2 - x1 * x2) ^ 2 * (1 + \<delta>) ^ 2
      - ((1 - \<delta>) * (1 + \<delta>)) ^ 2 - d * (x1 * y2 + x2 * y1) ^ 2 * (y1 * y2 - x1 * x2) ^ 2 =
    (d^3*x1^2*y1^2*x2^4*y2^4 + d^2*x1^2*x2^4*y2^4 + d^2*y1^2*x2^4*y2^4 - d^2*x2^4*y2^4 - d*x1^2*x2^4*y2^2
      - d*x1^2*x2^2*y2^4 - d*y1^2*x2^4*y2^2 - d*y1^2*x2^2*y2^4 + 2*d*x2^4*y2^4 - 2*x2^4*y2^2 - 2*x2^2*y2^4
      - 2*d*x2^2*y2^2 + x2^4 + 4*x2^2*y2^2 + y2^4) * (x1 ^ 2 + y1 ^ 2 - 1 - d * x1 ^ 2 * y1 ^ 2)
    + (d*x1^4*x2^2*y2^2 + d*y1^4*x2^2*y2^2 - 2*d*x1^2*x2^2*y2^2 - 2*d*y1^2*x2^2*y2^2 + 2*x1^2*x2^2*y2^2
      + 2*y1^2*x2^2*y2^2 + d*x2^2*y2^2 - x1^2*x2^2 - x1^2*y2^2 - y1^2*x2^2 - y1^2*y2^2 - 2*x2^2*y2^2
      + x2^2 + y2^2 + 1) * (x2 ^ 2 + y2 ^ 2 - 1 - d * x2 ^ 2 * y2 ^ 2)"
  unfolding \<delta>_def by algebra

lemma ed_sum_on_curve:
  assumes "on_curve p d a" "on_curve p d b" "ed_sum p d a b c"
  shows "on_curve p d c"
proof -
  obtain x1 y1 x2 y2 x3 y3 where abc: "a = (x1, y1)" "b = (x2, y2)" "c = (x3, y3)" by (metis prod.exhaust)
  define u v A B where "u = 1 + d * x1 * x2 * y1 * y2" and "v = 1 - d * x1 * x2 * y1 * y2"
    and "A = x1 * y2 + x2 * y1" and "B = y1 * y2 - x1 * x2"
  have c: "coprime u p" "coprime v p" "p dvd x3 * u - A" "p dvd y3 * v - B"
    and ab: "p dvd x1 ^ 2 + y1 ^ 2 - 1 - d * x1 ^ 2 * y1 ^ 2" "p dvd x2 ^ 2 + y2 ^ 2 - 1 - d * x2 ^ 2 * y2 ^ 2"
    using assms by (simp_all add: abc on_curve_def ed_sum_def Let_def u_def v_def A_def B_def)
  have N: "p dvd A ^ 2 * v ^ 2 + B ^ 2 * u ^ 2 - (v * u) ^ 2 - d * A ^ 2 * B ^ 2"
    by (rule dvd_combine2 [OF ab]) (unfold u_def v_def A_def B_def, rule closure_identity)
  have "p dvd (v * u) ^ 2 * (x3 ^ 2 + y3 ^ 2 - 1 - d * x3 ^ 2 * y3 ^ 2)"
  proof (rule dvd_combine4 [OF c(3,4) N N])
    show "(v * u) ^ 2 * (x3 ^ 2 + y3 ^ 2 - 1 - d * x3 ^ 2 * y3 ^ 2) =
      (v ^ 2 - d * B ^ 2) * (x3 * u + A) * (x3 * u - A) + (u ^ 2 - d * (x3 * u) ^ 2) * (y3 * v + B) * (y3 * v - B)
      + 1 * (A ^ 2 * v ^ 2 + B ^ 2 * u ^ 2 - (v * u) ^ 2 - d * A ^ 2 * B ^ 2)
      + 0 * (A ^ 2 * v ^ 2 + B ^ 2 * u ^ 2 - (v * u) ^ 2 - d * A ^ 2 * B ^ 2)"
      by (simp add: power2_eq_square algebra_simps)
  qed
  moreover have "coprime ((v * u) ^ 2) p" using c(1,2) by simp
  ultimately show ?thesis unfolding abc on_curve_def prod.case by (rule dvd_unit [rotated])
qed

section \<open>The formulas follow the law\<close>

lemma coprime_cong:
  fixes p :: int
  assumes "p dvd a - b" "coprime b p"
  shows "coprime a p"
proof (rule coprimeI)
  fix c assume c: "c dvd a" "c dvd p"
  have "c dvd a - (a - b)" by (rule dvd_diff [OF c(1) dvd_trans [OF c(2) assms(1)]])
  then have "c dvd b" by simp
  then show "is_unit c" by (rule coprime_common_divisor [OF assms(2) _ c(2)])
qed

text \<open>A point \<open>(E F, G H, F G, E H)\<close> whose \<open>E / G\<close> and \<open>H / F\<close> are the coordinates.\<close>

lemma represents_quotients:
  assumes "coprime u p" "coprime v p" "coprime k p" "coprime l p"
    and "p dvd x * u - A" "p dvd y * v - B"
    and "p dvd E - k * A" "p dvd G - k * u" "p dvd H - l * B" "p dvd F - l * v"
  shows "represents p (E * F, G * H, F * G, E * H) (x, y)"
proof -
  have "coprime G p" "coprime F p" using assms by (auto intro: coprime_cong)
  moreover have e: "p dvd E - x * G"
    by (rule dvd_combine4 [OF assms(7,8,5,5), where u = 1 and v = "- x" and w = "- k" and z = 0]) algebra
  moreover have h: "p dvd H - y * F"
    by (rule dvd_combine4 [OF assms(9,10,6,6), where u = 1 and v = "- y" and w = "- l" and z = 0]) algebra
  moreover have "p dvd E * F - x * (F * G)" by (rule dvd_combine2 [OF e h, where u = F and v = 0]) algebra
  moreover have "p dvd G * H - y * (F * G)" by (rule dvd_combine2 [OF e h, where u = 0 and v = G]) algebra
  moreover have "p dvd E * H - x * y * (F * G)"
    by (rule dvd_combine2 [OF e h, where u = "y * F" and v = E]) algebra
  ultimately show ?thesis by (simp add: represents_def)
qed

lemma represents_add:
  assumes "represents p P a" "represents p Q b" "ed_sum p d a b c"
  shows "represents p (e_add P (e_scale d Q)) c"
proof -
  obtain x1 y1 x2 y2 x3 y3 where abc: "a = (x1, y1)" "b = (x2, y2)" "c = (x3, y3)" by (metis prod.exhaust)
  obtain X1 Y1 Z1 T1 X2 Y2 Z2 T2 where PQ: "P = (X1, Y1, Z1, T1)" "Q = (X2, Y2, Z2, T2)" by (metis prod.exhaust)
  let ?u = "1 + d * x1 * x2 * y1 * y2" and ?v = "1 - d * x1 * x2 * y1 * y2"
  let ?A = "x1 * y2 + x2 * y1" and ?B = "y1 * y2 - x1 * x2"
  have c: "coprime ?u p" "coprime ?v p" "p dvd x3 * ?u - ?A" "p dvd y3 * ?v - ?B"
    using assms(3) by (simp_all add: abc ed_sum_def Let_def)
  have r: "coprime (Z1 * Z2) p" "p dvd X1 - x1 * Z1" "p dvd Y1 - y1 * Z1" "p dvd T1 - x1 * y1 * Z1"
    "p dvd X2 - x2 * Z2" "p dvd Y2 - y2 * Z2" "p dvd T2 - x2 * y2 * Z2"
    using assms(1,2) by (simp_all add: abc PQ represents_def)
  let ?A' = "X1 * X2" and ?B' = "Y1 * Y2" and ?C = "T1 * (T2 * d)" and ?D = "Z1 * Z2"
  have "p dvd ((X1 + Y1) * (X2 + Y2) - ?A' - ?B') - ?D * ?A"
    by (rule dvd_combine4 [OF r(2,6,3,5), where u = Y2 and v = "x1 * Z1" and w = X2 and z = "y1 * Z1"]) algebra
  moreover have "p dvd (?D + ?C) - ?D * ?u"
    by (rule dvd_combine2 [OF r(4,7), where u = "T2 * d" and v = "x1 * y1 * Z1 * d"]) algebra
  moreover have "p dvd (?B' - ?A') - ?D * ?B"
    by (rule dvd_combine4 [OF r(3,6,2,5), where u = Y2 and v = "y1 * Z1" and w = "- X2" and z = "- x1 * Z1"]) algebra
  moreover have "p dvd (?D - ?C) - ?D * ?v"
    by (rule dvd_combine2 [OF r(4,7), where u = "- T2 * d" and v = "- x1 * y1 * Z1 * d"]) algebra
  ultimately have "represents p (((X1 + Y1) * (X2 + Y2) - ?A' - ?B') * (?D - ?C), (?D + ?C) * (?B' - ?A'),
      (?D - ?C) * (?D + ?C), ((X1 + Y1) * (X2 + Y2) - ?A' - ?B') * (?B' - ?A')) (x3, y3)"
    by (rule represents_quotients [OF c(1,2) r(1) r(1) c(3,4)])
  then show ?thesis by (simp add: abc PQ Let_def)
qed

lemma represents_add_proj:
  assumes "represents p P a" "represents p Q b" "ed_sum p d a b c"
  shows "represents p (e_add_proj d P Q) c"
proof -
  obtain x1 y1 x2 y2 x3 y3 where abc: "a = (x1, y1)" "b = (x2, y2)" "c = (x3, y3)" by (metis prod.exhaust)
  obtain X1 Y1 Z1 T1 X2 Y2 Z2 T2 where PQ: "P = (X1, Y1, Z1, T1)" "Q = (X2, Y2, Z2, T2)" by (metis prod.exhaust)
  let ?u = "1 + d * x1 * x2 * y1 * y2" and ?v = "1 - d * x1 * x2 * y1 * y2"
  let ?A = "x1 * y2 + x2 * y1" and ?B = "y1 * y2 - x1 * x2"
  have c: "coprime ?u p" "coprime ?v p" "p dvd x3 * ?u - ?A" "p dvd y3 * ?v - ?B"
    using assms(3) by (simp_all add: abc ed_sum_def Let_def)
  let ?Z = "Z1 * Z2"
  have r: "coprime (?Z * ?Z) p" "p dvd X1 - x1 * Z1" "p dvd Y1 - y1 * Z1" "p dvd X2 - x2 * Z2" "p dvd Y2 - y2 * Z2"
    using assms(1,2) by (simp_all add: abc PQ represents_def)
  let ?C = "X1 * X2" and ?D = "Y1 * Y2"
  have x: "p dvd ?C - x1 * x2 * ?Z"
    by (rule dvd_combine2 [OF r(2,4), where u = X2 and v = "x1 * Z1"]) algebra
  have y: "p dvd ?D - y1 * y2 * ?Z"
    by (rule dvd_combine2 [OF r(3,5), where u = Y2 and v = "y1 * Z1"]) algebra
  have e: "p dvd ?C * ?D * d - ?Z * ?Z * (d * x1 * x2 * y1 * y2)"
    by (rule dvd_combine2 [OF x y, where u = "?D * d" and v = "x1 * x2 * ?Z * d"]) algebra
  have "p dvd ?Z * ((X1 + Y1) * (X2 + Y2) - ?C - ?D) - ?Z * ?Z * ?A"
    by (rule dvd_combine4 [OF r(2,5,3,4), where u = "?Z * Y2" and v = "?Z * x1 * Z1" and w = "?Z * X2" and z = "?Z * y1 * Z1"]) algebra
  moreover have "p dvd (?Z * ?Z + ?C * ?D * d) - ?Z * ?Z * ?u"
    by (rule dvd_combine2 [OF e e, where u = 1 and v = 0]) algebra
  moreover have "p dvd ?Z * (?D - ?C) - ?Z * ?Z * ?B"
    by (rule dvd_combine2 [OF y x, where u = ?Z and v = "- ?Z"]) algebra
  moreover have "p dvd (?Z * ?Z - ?C * ?D * d) - ?Z * ?Z * ?v"
    by (rule dvd_combine2 [OF e e, where u = "- 1" and v = 0]) algebra
  ultimately have "represents p
      (?Z * ((X1 + Y1) * (X2 + Y2) - ?C - ?D) * (?Z * ?Z - ?C * ?D * d), (?Z * ?Z + ?C * ?D * d) * (?Z * (?D - ?C)),
       (?Z * ?Z - ?C * ?D * d) * (?Z * ?Z + ?C * ?D * d),
       ?Z * ((X1 + Y1) * (X2 + Y2) - ?C - ?D) * (?Z * (?D - ?C))) (x3, y3)"
    by (rule represents_quotients [OF c(1,2) r(1,1) c(3,4)])
  then show ?thesis by (simp add: abc PQ Let_def)
qed

lemma represents_double:
  assumes "represents p P a" "on_curve p d a" "ed_sum p d a a c"
  shows "represents p (e_double P) c"
proof -
  obtain x y x3 y3 where ac: "a = (x, y)" "c = (x3, y3)" by (metis prod.exhaust)
  obtain X Y Z T where P: "P = (X, Y, Z, T)" by (metis prod.exhaust)
  let ?u = "1 + d * x * x * y * y" and ?v = "1 - d * x * x * y * y"
  let ?A = "x * y + x * y" and ?B = "y * y - x * x"
  have c: "coprime ?u p" "coprime ?v p" "p dvd x3 * ?u - ?A" "p dvd y3 * ?v - ?B"
    using assms(3) by (simp_all add: ac ed_sum_def Let_def)
  have r: "coprime (Z * Z) p" "coprime (- (Z * Z)) p" "p dvd X - x * Z" "p dvd Y - y * Z"
    using assms(1) by (simp_all add: ac P represents_def)
  have o: "p dvd x ^ 2 + y ^ 2 - 1 - d * x ^ 2 * y ^ 2" using assms(2) by (simp add: ac on_curve_def)
  let ?E = "(X + Y) * (X + Y) - X * X - Y * Y" and ?G = "X * X + Y * Y" and ?H = "X * X - Y * Y"
  let ?F = "X * X + Y * Y - 2 * (Z * Z)"
  have "p dvd ?E - Z * Z * ?A"
    by (rule dvd_combine2 [OF r(3,4), where u = "2 * Y" and v = "2 * x * Z"]) algebra
  moreover have "p dvd ?G - Z * Z * ?u"
    by (rule dvd_combine4 [OF r(3,4) o o, where u = "X + x * Z" and v = "Y + y * Z" and w = "Z * Z" and z = 0]) algebra
  moreover have "p dvd ?H - - (Z * Z) * ?B"
    by (rule dvd_combine2 [OF r(3,4), where u = "X + x * Z" and v = "- (Y + y * Z)"]) algebra
  moreover have "p dvd ?F - - (Z * Z) * ?v"
    by (rule dvd_combine4 [OF r(3,4) o o, where u = "X + x * Z" and v = "Y + y * Z" and w = "Z * Z" and z = 0]) algebra
  ultimately have "represents p (?E * ?F, ?G * ?H, ?F * ?G, ?E * ?H) (x3, y3)"
    by (rule represents_quotients [OF c(1,2) r(1,2) c(3,4)])
  then show ?thesis by (simp add: ac P Let_def)
qed

lemma represents_neg: "represents p P (x, y) \<Longrightarrow> represents p (e_neg P) (- x, y)"
proof -
  assume a: "represents p P (x, y)"
  obtain X Y Z T where P: "P = (X, Y, Z, T)" by (metis prod.exhaust)
  have "p dvd - (X - x * Z)" "p dvd - (T - x * y * Z)" using a unfolding P represents_def dvd_minus_iff by simp_all
  then show ?thesis using a by (simp add: P represents_def algebra_simps)
qed

end
