(* ===== verification/Edwards_Scalar.thy ===== *)
theory Edwards_Scalar
  imports Edwards Edwards_Spec Mixed_Radix
begin

unbundle bit_operations_syntax

text \<open>
  The scalar: \<open>win4\<close> turns the bytes of a number into signed digits of base 16, and \<open>select\<close>
  looks a digit up in the table of multiples without branching.
\<close>

section \<open>Look-up\<close>

lemma fe_cmov_0: "length f = length g \<Longrightarrow> fe_cmov f g 0 = f"
  unfolding fe_cmov_def by (induction f g rule: list_induct2) (simp_all add: w64_def Let_def)

lemma fe_cmov_1:
  assumes "length f = length g"
  shows "fe_cmov f g 1 = g"
proof -
  have b: "w64 (- 1) = - 1" by (simp add: w64_abs)
  show ?thesis
    using assms unfolding fe_cmov_def Let_def b
    by (induction f g rule: list_induct2) (simp_all add: xor.assoc [symmetric])
qed

definition limbs :: "nat \<Rightarrow> ECp \<Rightarrow> bool" where
  "limbs n P \<longleftrightarrow> length (px P) = n \<and> length (py P) = n \<and> length (pz P) = n \<and> length (pt P) = n"

lemma cmov_0: "limbs n P \<Longrightarrow> limbs n Q \<Longrightarrow> cmov P Q 0 = P"
  and cmov_1: "limbs n P \<Longrightarrow> limbs n Q \<Longrightarrow> cmov P Q 1 = Q"
  by (simp_all add: cmov_def limbs_def fe_cmov_0 fe_cmov_1)

lemma limbs_neg: "limbs n P \<Longrightarrow> limbs n (neg P)"
  by (simp add: limbs_def neg_def gneg_def)

lemma equal_int_if:
  assumes "0 \<le> b" "b < 2 ^ 30" "0 \<le> c" "c < 2 ^ 30"
  shows "equal_int b c = (if b = c then 1 else 0)"
proof (cases "b = c")
  case True
  have "w32 (- 1) = - 1" by (simp add: w32_def)
  then show ?thesis using True by (simp add: equal_int_def)
next
  case False
  define y where "y = b XOR c"
  have "0 \<le> y" using assms by (simp add: y_def)
  moreover have "y < 2 ^ 30" unfolding y_def using assms by (intro XOR_upper)
  moreover have "y \<noteq> 0" using False unfolding y_def by (metis bit.xor_self xor.assoc xor.right_neutral)
  ultimately have y: "0 \<le> y - 1" "y - 1 < 2 ^ 31" by simp_all
  then have "w32 (y - 1) = y - 1" unfolding w32_def by (intro signed_take_bit_int_eq_self) simp_all
  then show ?thesis using False y by (simp add: equal_int_def Let_def drop_bit_eq_div flip: y_def)
qed

lemma select_lookup_fold:
  assumes "limbs n T" "\<forall>P \<in> set W. limbs n P" "length W = 9" "0 \<le> a" "a \<le> 8"
  shows "(let T = cmov T (W ! 0) (equal_int a 0); T = cmov T (W ! 1) (equal_int a 1);
      T = cmov T (W ! 2) (equal_int a 2); T = cmov T (W ! 3) (equal_int a 3); T = cmov T (W ! 4) (equal_int a 4);
      T = cmov T (W ! 5) (equal_int a 5); T = cmov T (W ! 6) (equal_int a 6); T = cmov T (W ! 7) (equal_int a 7);
      T = cmov T (W ! 8) (equal_int a 8) in T) = W ! nat a"
proof -
  have W: "limbs n (W ! k)" if "k < 9" for k using assms(2,3) that by simp
  have "a \<in> {0, 1, 2, 3, 4, 5, 6, 7, 8}" using assms by auto
  then show ?thesis
    using assms(1) W by (elim insertE emptyE) (simp_all add: equal_int_if cmov_0 [of n] cmov_1 [of n] Let_def)
qed

lemma select_lookup:
  assumes "limbs n T" "\<forall>P \<in> set W. limbs n P" "length W = 9" "\<bar>b\<bar> \<le> 8"
  shows "select T W b = (if b < 0 then neg (W ! nat (- b)) else W ! nat b)"
proof -
  define m where "m = drop_bit 31 b"
  have m: "m = (if b < 0 then - 1 else 0)"
    using assms(4) unfolding m_def drop_bit_eq_div
    by (auto intro: int_div_pos_eq [of _ _ _ b] int_div_pos_eq [of _ _ _ "b + 2 ^ 31"])
  have "w32 \<bar>b\<bar> = \<bar>b\<bar>" unfolding w32_def using assms(4) by (intro signed_take_bit_int_eq_self) simp_all
  moreover have "(b XOR m) - m = \<bar>b\<bar>" unfolding m by (auto simp: not_int_def)
  ultimately have a: "w32 ((b XOR m) - m) = \<bar>b\<bar>" by simp
  have W: "limbs n (W ! nat \<bar>b\<bar>)" using assms by simp
  have m1: "m AND 1 = (if b < 0 then 1 else 0)" by (simp add: m)
  show ?thesis
    using select_lookup_fold [OF assms(1-3), of "\<bar>b\<bar>"] assms(4) cmov_0 [OF W limbs_neg [OF W]] cmov_1 [OF W limbs_neg [OF W]]
    unfolding select_def m_def [symmetric] a m1 Let_def by auto
qed

section \<open>Digits\<close>

text \<open>The number in a list of bytes, least significant first.\<close>

definition num_of_bytes :: "byte list \<Rightarrow> int" where
  "num_of_bytes nv = hval (replicate (length nv) 8) (map uint nv)"

lemma num_of_bytes_simps [simp]:
  "num_of_bytes [] = 0" "num_of_bytes (b # bs) = uint b + 256 * num_of_bytes bs"
  by (simp_all add: num_of_bytes_def)

lemma num_of_bytes_snoc: "num_of_bytes (bs @ [b]) = num_of_bytes bs + 256 ^ length bs * uint b"
  by (induction bs) simp_all

text \<open>A digit with its carry, from \<open>0\<close> to \<open>16\<close>, becomes one from \<open>-8\<close> to \<open>7\<close>.\<close>

lemma win_digit:
  assumes "0 \<le> cy" "cy \<le> 1" "0 \<le> n" "n \<le> 15"
  obtains v c where "win_digit cy n = (v, c)" "v + 16 * c = cy + n" "- 8 \<le> v" "v \<le> 7" "0 \<le> c" "c \<le> 1"
proof -
  define s where "s = cy + n"
  define c where "c = (drop_bit 3 s OR drop_bit 1 (drop_bit 3 s)) AND 1"
  have "0 \<le> s" "s \<le> 16" using assms unfolding s_def by simp_all
  then consider "s < 8" "s div 8 = 0" | "8 \<le> s" "s div 8 = 1" | "8 \<le> s" "s div 8 = 2"
    using int_div_pos_eq [of s 8 1 "s - 8"] by (cases "s < 8"; cases "s < 16") auto
  then have "c = (if s < 8 then 0 else 1)"
    unfolding c_def by cases (simp_all add: drop_bit_eq_div)
  moreover have "win_digit cy n = (s - push_bit 4 c, c)"
    by (simp add: win_digit_def Let_def s_def c_def)
  ultimately show ?thesis
    using that [of "s - 16 * c" c] assms by (auto simp: s_def push_bit_eq_mult split: if_splits)
qed

lemma byte_nibbles: "uint b = (uint b AND 15) + 16 * drop_bit 4 (uint b)"
  "0 \<le> uint b AND 15" "uint b AND 15 \<le> 15" "0 \<le> drop_bit 4 (uint b)" "drop_bit 4 (uint b) \<le> 15" for b :: byte
proof -
  have a: "uint b AND 15 = uint b mod 16"
    using take_bit_eq_mask [of 4 "uint b"] by (simp add: take_bit_eq_mod mask_eq_exp_minus_1)
  have d: "drop_bit 4 (uint b) = uint b div 16" by (simp add: drop_bit_eq_div)
  have "uint b < 256" using uint_lt2p [of b] by simp
  then have u255: "uint b \<le> 255" by linarith
  note u = uint_ge_0 [of b] u255
  show "uint b = (uint b AND 15) + 16 * drop_bit 4 (uint b)"
    "0 \<le> uint b AND 15" "uint b AND 15 \<le> 15" "0 \<le> drop_bit 4 (uint b)" "drop_bit 4 (uint b) \<le> 15"
    unfolding a d using u zdiv_mono1 [of "uint b" 255 16] by (simp_all add: pos_imp_zdiv_nonneg_iff)
qed

text \<open>After \<open>j\<close> bytes, \<open>2 * j\<close> digits have replaced the first contents of the array.\<close>

lemma win4_steps:
  assumes "2 * length nv \<le> length w0" "j \<le> length nv"
  obtains ds cy where "foldl (win4_step nv) (w0, 0) [0..<j] = (ds @ drop (2 * j) w0, cy)" "length ds = 2 * j"
    "digits_value ds + 256 ^ j * cy = num_of_bytes (take j nv)" "\<forall>d \<in> set ds. - 8 \<le> d \<and> d \<le> 7" "0 \<le> cy" "cy \<le> 1"
  using assms(2)
proof (induction j arbitrary: thesis)
  case 0
  then show ?case using 0(1) [of "[]" 0] by simp
next
  case (Suc j)
  obtain ds cy where f: "foldl (win4_step nv) (w0, 0) [0..<j] = (ds @ drop (2 * j) w0, cy)" "length ds = 2 * j"
    "digits_value ds + 256 ^ j * cy = num_of_bytes (take j nv)" "\<forall>d \<in> set ds. - 8 \<le> d \<and> d \<le> 7" "0 \<le> cy" "cy \<le> 1"
    using Suc.IH Suc.prems(2) by (metis Suc_leD)
  note b = byte_nibbles [of "nv ! j"]
  obtain v c where v: "win_digit cy (uint (nv ! j) AND 15) = (v, c)" "v + 16 * c = cy + (uint (nv ! j) AND 15)"
    "- 8 \<le> v" "v \<le> 7" "0 \<le> c" "c \<le> 1"
    by (rule win_digit [OF f(5,6) b(2,3)])
  obtain v' c' where v': "win_digit c (drop_bit 4 (uint (nv ! j))) = (v', c')"
    "v' + 16 * c' = c + drop_bit 4 (uint (nv ! j))" "- 8 \<le> v'" "v' \<le> 7" "0 \<le> c'" "c' \<le> 1"
    by (rule win_digit [OF v(5,6) b(4,5)])
  have w: "drop (2 * j) w0 = w0 ! (2 * j) # w0 ! (2 * j + 1) # drop (2 * Suc j) w0"
    using assms(1) Suc.prems(2) by (simp add: Cons_nth_drop_Suc)
  have "foldl (win4_step nv) (w0, 0) [0..<Suc j] = ((ds @ [v, v']) @ drop (2 * Suc j) w0, c')"
    using f(1,2) v(1) v'(1) by (simp add: win4_step_def Let_def w list_update_append)
  moreover have "digits_value (ds @ [v, v']) + 256 ^ Suc j * c' = num_of_bytes (take (Suc j) nv)"
  proof -
    have p: "(16 :: int) ^ length ds = 256 ^ j" using f(2) by (simp add: power_mult)
    have "digits_value (ds @ [v, v']) = digits_value ds + 256 ^ j * (v + 16 * v')"
      using digits_value_append [of "ds @ [v]" v'] digits_value_append [of ds v]
      by (simp add: p algebra_simps)
    moreover have "v + 16 * v' + 256 * c' = cy + uint (nv ! j)" using v(2) v'(2) b(1) by linarith
    moreover have "num_of_bytes (take (Suc j) nv) = num_of_bytes (take j nv) + 256 ^ j * uint (nv ! j)"
      using Suc.prems(2) by (simp add: take_Suc_conv_app_nth num_of_bytes_snoc)
    moreover have "256 ^ j * (v + 16 * v') + 256 ^ Suc j * c' = 256 ^ j * (v + 16 * v' + 256 * c')"
      by (simp add: algebra_simps)
    ultimately show ?thesis using f(3) by (simp add: distrib_left)
  qed
  ultimately show ?case using Suc.prems(1) [of "ds @ [v, v']" c'] f v v' by auto
qed

lemma digits_value_bounds:
  "\<forall>d \<in> set ds. - 8 \<le> d \<and> d \<le> 7 \<Longrightarrow> \<bar>digits_value ds\<bar> < 16 ^ length ds"
proof (induction ds)
  case (Cons d ds)
  then have "\<bar>digits_value ds\<bar> \<le> 16 ^ length ds - 1" by simp
  then have "16 * \<bar>digits_value ds\<bar> \<le> 16 * 16 ^ length ds - 16" by simp
  moreover have "\<bar>d\<bar> \<le> 8" using Cons.prems by auto
  ultimately show ?case using abs_triangle_ineq [of d "16 * digits_value ds"] by (simp add: abs_mult)
qed simp

lemma win4_value:
  assumes "f_panes F = 2 * length nv" "length w0 = f_panes F" "nv \<noteq> []" "num_of_bytes nv < 7 * 16 ^ (f_panes F - 1)"
  shows "length (win4 F nv w0) = f_panes F" "\<forall>d \<in> set (win4 F nv w0). - 8 \<le> d \<and> d \<le> 7"
    "0 \<le> last (win4 F nv w0)" "digits_value (win4 F nv w0) = num_of_bytes nv"
proof -
  obtain ds cy where f: "foldl (win4_step nv) (w0, 0) [0..<length nv] = (ds @ drop (2 * length nv) w0, cy)"
    "length ds = 2 * length nv" "digits_value ds + 256 ^ length nv * cy = num_of_bytes (take (length nv) nv)"
    "\<forall>d \<in> set ds. - 8 \<le> d \<and> d \<le> 7" "0 \<le> cy" "cy \<le> 1"
    by (rule win4_steps [of nv w0 "length nv"]) (simp_all add: assms(1,2))
  have w: "win4 F nv w0 = ds" using f(1) assms(1,2) by (simp add: win4_def)
  obtain es d where ds: "ds = es @ [d]" using f(2) assms(3) by (cases ds rule: rev_exhaust) auto
  define K where "K = (16 :: int) ^ length es"
  have K: "0 < K" "length es = f_panes F - 1" using f(2) assms(1) by (simp_all add: K_def ds)
  have "(256 :: int) ^ length nv = 16 ^ length ds" using f(2) by (simp add: power_mult)
  then have K16: "256 ^ length nv = 16 * K" by (simp add: K_def ds)
  have n: "num_of_bytes nv = digits_value es + K * (d + 16 * cy)"
    using f(3) by (simp add: ds digits_value_append K16 K_def algebra_simps)
  have e: "\<bar>digits_value es\<bar> < K" unfolding K_def using f(4) by (intro digits_value_bounds) (simp add: ds)
  have nn: "0 \<le> num_of_bytes nv" by (induction nv) simp_all
  have lt: "num_of_bytes nv < 7 * K" using assms(4) K(2) by (simp add: K_def)
  have d: "- 8 \<le> d" "d \<le> 7" using f(4) by (simp_all add: ds)
  have "K * (d + 16 * cy) < K * 8" using n lt e by linarith
  then have u: "d + 16 * cy < 8" using K(1) by simp
  have "K * - 1 < K * (d + 16 * cy)" using n nn e by linarith
  then have l: "- 1 < d + 16 * cy" using K(1) by (simp only: mult_less_cancel_left_pos)
  have "cy = 0" using u l d f(5,6) by linarith
  then show "length (win4 F nv w0) = f_panes F" "\<forall>d \<in> set (win4 F nv w0). - 8 \<le> d \<and> d \<le> 7"
    "0 \<le> last (win4 F nv w0)" "digits_value (win4 F nv w0) = num_of_bytes nv"
    using f(2-4) l by (simp_all add: w assms(1) ds)
qed

end
