(* ===== verification/Edwards_Field.thy ===== *)
theory Edwards_Field
  imports Edwards_Scalar
begin

unbundle bit_operations_syntax

text \<open>
  What the point functions rely on, as a locale: the field functions compute modulo \<open>p\<close>, take
  limbs of eight times the size of those they return, and do not overflow. Under these laws
  the point functions compute the projective formulas of \<open>Edwards_Spec\<close>.
\<close>

definition prep3 :: "int list \<Rightarrow> int \<Rightarrow> int \<Rightarrow> ECp \<Rightarrow> epoint \<Rightarrow> bool" where
  "prep3 ws p B P A \<longleftrightarrow> rep ws p B (px P) (fst A) \<and> rep ws p B (py P) (fst (snd A)) \<and>
     rep ws p B (pz P) (fst (snd (snd A)))"

definition prep :: "int list \<Rightarrow> int \<Rightarrow> int \<Rightarrow> ECp \<Rightarrow> epoint \<Rightarrow> bool" where
  "prep ws p B P A \<longleftrightarrow> prep3 ws p B P A \<and> rep ws p B (pt P) (snd (snd (snd A)))"

lemma prep3_iff: "prep3 ws p B P (X, Y, Z, T) \<longleftrightarrow> rep ws p B (px P) X \<and> rep ws p B (py P) Y \<and> rep ws p B (pz P) Z"
  by (simp add: prep3_def)

lemma prep_iff:
  "prep ws p B P (X, Y, Z, T) \<longleftrightarrow>
    rep ws p B (px P) X \<and> rep ws p B (py P) Y \<and> rep ws p B (pz P) Z \<and> rep ws p B (pt P) T"
  by (simp add: prep_def prep3_iff)

lemma prep_prep3: "prep ws p B P A \<Longrightarrow> prep3 ws p B P A"
  by (simp add: prep_def)

lemma prep_copy [simp]: "copy P = P"
  by (simp add: copy_def)

text \<open>\<open>x\<close> stands for the \<open>n\<close>th power of \<open>a\<close>.\<close>

definition pw :: "int list \<Rightarrow> int \<Rightarrow> int \<Rightarrow> int \<Rightarrow> fe \<Rightarrow> nat \<Rightarrow> bool" where
  "pw ws p B a x n \<longleftrightarrow> rep ws p B x (a ^ n)"

lemma pw_copy: "pw ws p B a x n \<Longrightarrow> pw ws p B a (gcopy x) n"
  by (simp add: gcopy_def)

lemma pw_exp: "pw ws p B a x m \<Longrightarrow> m = n \<Longrightarrow> pw ws p B a x n"
  by simp

lemma pw_let: "pw ws p B a t m \<Longrightarrow> (\<And>x. pw ws p B a x m \<Longrightarrow> pw ws p B a (f x) n) \<Longrightarrow> pw ws p B a (let x = t in f x) n"
  by (simp add: Let_def)

locale limb_field =
  fixes F :: field_ops and ws :: "int list" and p R :: int
  assumes radix: "length ws = f_limbs F" "ws ! 0 = 1" "0 < f_limbs F"
    and range: "3 \<le> R" "8 * R < 2 ^ 62"
    and mul: "rep ws p (8 * R) x a \<Longrightarrow> rep ws p (8 * R) y b \<Longrightarrow> rep ws p R (f_mul F x y) (a * b)"
    and sqr: "rep ws p (8 * R) x a \<Longrightarrow> rep ws p R (f_sqr F x) (a * a)"
    and muli: "rep ws p (8 * R) x a \<Longrightarrow> rep ws p R (f_muli F x (kCurveD F)) (a * kCurveD F)"
    and scr: "rep ws p (8 * R) x a \<Longrightarrow> rep ws p R (f_scr F x) a"
begin

lemma mulw: "rep ws p A x a \<Longrightarrow> rep ws p B y b \<Longrightarrow> A \<le> 8 * R \<Longrightarrow> B \<le> 8 * R \<Longrightarrow> rep ws p R (f_mul F x y) (a * b)"
  by (rule mul) (auto intro: rep_weaken)

lemma sqrw: "rep ws p A x a \<Longrightarrow> A \<le> 8 * R \<Longrightarrow> rep ws p R (f_sqr F x) (a * a)"
  by (rule sqr) (auto intro: rep_weaken)

lemma addw: "rep ws p A x a \<Longrightarrow> rep ws p B y b \<Longrightarrow> A \<le> 4 * R \<Longrightarrow> B \<le> 4 * R \<Longrightarrow> rep ws p (A + B) (gadd x y) (a + b)"
  using range by (intro rep_gadd) simp_all

lemma subw: "rep ws p A x a \<Longrightarrow> rep ws p B y b \<Longrightarrow> A \<le> 4 * R \<Longrightarrow> B \<le> 4 * R \<Longrightarrow> rep ws p (A + B) (gsub x y) (a - b)"
  using range by (intro rep_gsub) simp_all

lemma decw: "rep ws p A x a \<Longrightarrow> rep ws p B y b \<Longrightarrow> A \<le> 4 * R \<Longrightarrow> B \<le> 4 * R \<Longrightarrow> rep ws p (A + B) (gdec x y) (b - a)"
  using range by (intro rep_gdec) simp_all

lemma dblw: "rep ws p A x a \<Longrightarrow> A \<le> 4 * R \<Longrightarrow> rep ws p (2 * A) (gmul2 x) (2 * a)"
  using range by (intro rep_gmul2) simp_all

lemma upto: "rep ws p R x a \<Longrightarrow> rep ws p (8 * R) x a"
  using range by (auto elim: rep_weaken)

lemma double_core:
  assumes "prep3 ws p R P (X, Y, Z, T)"
  defines "a \<equiv> f_sqr F (px P)" and "b \<equiv> f_sqr F (py P)"
  defines "e \<equiv> gdec b (gdec a (f_sqr F (gadd (px P) (py P))))" and "g \<equiv> gadd a b"
  defines "f \<equiv> gsub g (gmul2 (f_sqr F (pz P)))" and "h \<equiv> gsub a b"
  shows "rep ws p (3 * R) e ((X + Y) * (X + Y) - X * X - Y * Y)" "rep ws p (2 * R) g (X * X + Y * Y)"
    "rep ws p (4 * R) f (X * X + Y * Y - 2 * (Z * Z))" "rep ws p (2 * R) h (X * X - Y * Y)"
proof -
  have P: "rep ws p R (px P) X" "rep ws p R (py P) Y" "rep ws p R (pz P) Z" using assms(1) by (simp_all add: prep3_iff)
  have R: "R \<le> 8 * R" "R \<le> 4 * R" "R + R \<le> 8 * R" "R + R \<le> 4 * R" "2 * R \<le> 4 * R" using range by simp_all
  have a: "rep ws p R a (X * X)" and b: "rep ws p R b (Y * Y)" and c: "rep ws p R (f_sqr F (pz P)) (Z * Z)"
    unfolding a_def b_def by (rule sqrw [OF P(1) R(1)] sqrw [OF P(2) R(1)] sqrw [OF P(3) R(1)])+
  have g: "rep ws p (R + R) g (X * X + Y * Y)" unfolding g_def by (rule addw [OF a b R(2,2)])
  have "rep ws p (R + (R + R)) e (((X + Y) * (X + Y) - X * X) - Y * Y)"
    unfolding e_def by (rule decw [OF b decw [OF a sqrw [OF addw [OF P(1,2) R(2,2)] R(3)] R(2,2)] R(2,4)])
  then show "rep ws p (3 * R) e ((X + Y) * (X + Y) - X * X - Y * Y)" by (simp add: algebra_simps)
  show "rep ws p (2 * R) g (X * X + Y * Y)" using g by simp
  have "rep ws p ((R + R) + 2 * R) f (X * X + Y * Y - 2 * (Z * Z))"
    unfolding f_def by (rule subw [OF g dblw [OF c R(2)] R(4,5)])
  then show "rep ws p (4 * R) f (X * X + Y * Y - 2 * (Z * Z))" by simp
  have "rep ws p (R + R) h (X * X - Y * Y)" unfolding h_def by (rule subw [OF a b R(2,2)])
  then show "rep ws p (2 * R) h (X * X - Y * Y)" by simp
qed

lemma double_2_rep: "prep3 ws p R P A \<Longrightarrow> prep3 ws p R (double_2 F P) (e_double A)"
  and double_3_rep: "prep3 ws p R P A \<Longrightarrow> prep ws p R (double_3 F P) (e_double A)"
proof -
  obtain X Y Z T where A: "A = (X, Y, Z, T)" by (metis prod.exhaust)
  have R: "2 * R \<le> 8 * R" "3 * R \<le> 8 * R" "4 * R \<le> 8 * R" using range by simp_all
  assume "prep3 ws p R P A"
  note c = double_core [OF this [unfolded A]]
  note m = mulw [OF c(1,3) R(2,3)] mulw [OF c(2,4) R(1,1)] mulw [OF c(3,2) R(3,1)] mulw [OF c(1,4) R(2,1)]
  show "prep3 ws p R (double_2 F P) (e_double A)"
    using m by (simp add: double_2_def A Let_def prep3_iff)
  show "prep ws p R (double_3 F P) (e_double A)"
    using m by (simp add: double_3_def A Let_def prep_iff)
qed

lemma radix_Cons: obtains ws' where "ws = 1 # ws'"
  using radix by (cases ws) auto

lemma sub2w:
  assumes "rep ws p A g a" "A \<le> 4 * R"
  shows "rep ws p (A + 2) (g[0 := w64 (g ! 0 - 2)]) (a - 2)"
proof -
  obtain ws' where ws: "ws = 1 # ws'" by (rule radix_Cons)
  obtain g0 g' where g: "g = g0 # g'" using assms(1) ws by (cases g) (auto simp: rep_def)
  have "\<bar>g0\<bar> \<le> A" using assms(1) by (simp add: rep_def g)
  then have 0: "\<bar>g0 - 2\<bar> \<le> A + 2" by linarith
  then have e: "g[0 := w64 (g ! 0 - 2)] = (g0 - 2) # g'" using assms(2) range by (simp add: g w64_abs)
  have "val ws ((g0 - 2) # g') - (a - 2) = val ws g - a" by (simp add: val_def ws g)
  then have "p dvd val ws ((g0 - 2) # g') - (a - 2)" using assms(1) by (simp only: rep_def)
  then show ?thesis unfolding e rep_def using assms(1) 0 by (auto simp: rep_def g)
qed

lemma double_1_rep:
  assumes "prep ws p R P (e_affine X Y)"
  shows "prep ws p R (double_1 F P) (e_double (e_affine X Y))"
proof -
  have P: "rep ws p R (px P) X" "rep ws p R (py P) Y" "rep ws p R (pt P) (X * Y)"
    using assms by (simp_all add: prep_iff e_affine_def)
  have R: "R \<le> 8 * R" "R \<le> 4 * R" "R + R \<le> 8 * R" "R + R \<le> 4 * R" "2 * R \<le> 8 * R" "R + R + 2 \<le> 8 * R"
    "2 * (R + R) + R < 2 ^ 63" "2 * (R + R) + R \<le> 8 * R" using range by simp_all
  let ?a = "f_sqr F (px P)" and ?b = "f_sqr F (py P)" and ?e = "gmul2 (pt P)"
  let ?g = "gadd ?a ?b" and ?h = "gsub ?a ?b"
  let ?f = "?g[0 := w64 (?g ! 0 - 2)]"
  have a: "rep ws p R ?a (X * X)" and b: "rep ws p R ?b (Y * Y)" by (rule sqrw [OF P(1) R(1)] sqrw [OF P(2) R(1)])+
  have e: "rep ws p (2 * R) ?e (2 * (X * Y))" by (rule dblw [OF P(3) R(2)])
  have g: "rep ws p (R + R) ?g (X * X + Y * Y)" by (rule addw [OF a b R(2,2)])
  have h: "rep ws p (R + R) ?h (X * X - Y * Y)" by (rule subw [OF a b R(2,2)])
  have f: "rep ws p (R + R + 2) ?f (X * X + Y * Y - 2)" by (rule sub2w [OF g R(4)])
  have "rep ws p R (f_scr F (gsb2 ?g (f_sqr F ?g))) ((X * X + Y * Y) * (X * X + Y * Y) - 2 * (X * X + Y * Y))"
    by (rule scr [OF rep_weaken [OF rep_gsb2 [OF g sqrw [OF g R(3)] R(7)] R(8)]])
  moreover have "(X * X + Y * Y) * (X * X + Y * Y) - 2 * (X * X + Y * Y) = (X * X + Y * Y - 2) * (X * X + Y * Y)"
    "2 * (X * Y) = (X + Y) * (X + Y) - X * X - Y * Y" by algebra+
  ultimately show ?thesis
    using mulw [OF e f R(5,6)] mulw [OF g h R(3,3)] mulw [OF e h R(5,3)]
    by (simp add: double_1_def Let_def prep_iff e_affine_def gcopy_def)
qed

lemma add_core:
  assumes "rep ws p R x1 X1" "rep ws p R y1 Y1" "rep ws p R x2 X2" "rep ws p R y2 Y2" "rep ws p R c C" "rep ws p R d D"
  defines "a \<equiv> f_mul F x1 x2" and "b \<equiv> f_mul F y1 y2"
  defines "e \<equiv> gdec b (gdec a (f_mul F (gadd x1 y1) (gadd x2 y2)))"
  shows "rep ws p (3 * R) e ((X1 + Y1) * (X2 + Y2) - X1 * X2 - Y1 * Y2)" "rep ws p (2 * R) (gadd d c) (D + C)"
    "rep ws p (2 * R) (gsub d c) (D - C)" "rep ws p (2 * R) (gsub b a) (Y1 * Y2 - X1 * X2)"
proof -
  have R: "R \<le> 8 * R" "R \<le> 4 * R" "R + R \<le> 8 * R" "R + R \<le> 4 * R" using range by simp_all
  have a: "rep ws p R a (X1 * X2)" and b: "rep ws p R b (Y1 * Y2)"
    unfolding a_def b_def by (rule mulw [OF assms(1,3) R(1,1)] mulw [OF assms(2,4) R(1,1)])+
  have "rep ws p (R + (R + R)) e (((X1 + Y1) * (X2 + Y2) - X1 * X2) - Y1 * Y2)"
    unfolding e_def
    by (rule decw [OF b decw [OF a mulw [OF addw [OF assms(1,2) R(2,2)] addw [OF assms(3,4) R(2,2)] R(3,3)] R(2,2)] R(2,4)])
  then show "rep ws p (3 * R) e ((X1 + Y1) * (X2 + Y2) - X1 * X2 - Y1 * Y2)" by (simp add: algebra_simps)
  show "rep ws p (2 * R) (gadd d c) (D + C)" using addw [OF assms(6,5) R(2,2)] by simp
  show "rep ws p (2 * R) (gsub d c) (D - C)" using subw [OF assms(6,5) R(2,2)] by simp
  show "rep ws p (2 * R) (gsub b a) (Y1 * Y2 - X1 * X2)" using subw [OF b a R(2,2)] by simp
qed

lemma add_2_rep:
  assumes "prep ws p R Q B" "prep ws p R P A"
  shows "prep3 ws p R (add_2 F Q P) (e_add A B)"
proof -
  obtain X1 Y1 Z1 T1 X2 Y2 Z2 T2 where AB: "A = (X1, Y1, Z1, T1)" "B = (X2, Y2, Z2, T2)" by (metis prod.exhaust)
  have R: "R \<le> 8 * R" "2 * R \<le> 8 * R" "3 * R \<le> 8 * R" using range by simp_all
  have P: "rep ws p R (px P) X1" "rep ws p R (py P) Y1" "rep ws p R (pz P) Z1" "rep ws p R (pt P) T1"
    and Q: "rep ws p R (px Q) X2" "rep ws p R (py Q) Y2" "rep ws p R (pz Q) Z2" "rep ws p R (pt Q) T2"
    using assms by (simp_all add: AB prep_iff)
  note c = add_core [OF P(1,2) Q(1,2) mulw [OF P(4) Q(4) R(1,1)] mulw [OF P(3) Q(3) R(1,1)]]
  show ?thesis
    using mulw [OF c(1,3) R(3,2)] mulw [OF c(2,4) R(2,2)] mulw [OF c(3,2) R(2,2)]
    by (simp add: add_2_def AB Let_def prep3_iff)
qed

lemma add_1_rep:
  assumes "prep ws p R Q (X2, Y2, 1, T2)" "prep ws p R P A"
  shows "prep ws p R (add_1 F Q P) (e_add A (X2, Y2, 1, T2))"
proof -
  obtain X1 Y1 Z1 T1 where A: "A = (X1, Y1, Z1, T1)" by (metis prod.exhaust)
  have R: "R \<le> 8 * R" "2 * R \<le> 8 * R" "3 * R \<le> 8 * R" using range by simp_all
  have P: "rep ws p R (px P) X1" "rep ws p R (py P) Y1" "rep ws p R (pz P) Z1" "rep ws p R (pt P) T1"
    and Q: "rep ws p R (px Q) X2" "rep ws p R (py Q) Y2" "rep ws p R (pt Q) T2"
    using assms by (simp_all add: A prep_iff)
  note c = add_core [OF P(1,2) Q(1,2) mulw [OF P(4) Q(3) R(1,1)] P(3)]
  show ?thesis
    using mulw [OF c(1,3) R(3,2)] mulw [OF c(2,4) R(2,2)] mulw [OF c(3,2) R(2,2)] mulw [OF c(1,4) R(3,2)]
    by (simp add: add_1_def A Let_def prep_iff)
qed

section \<open>Powers\<close>

lemma pw_mul: "pw ws p (8 * R) a x m \<Longrightarrow> pw ws p (8 * R) a y n \<Longrightarrow> pw ws p (8 * R) a (f_mul F x y) (m + n)"
  unfolding pw_def power_add by (rule upto [OF mul])

lemma pw_sqr: "pw ws p (8 * R) a x n \<Longrightarrow> pw ws p (8 * R) a (f_sqr F x) (2 * n)"
  unfolding pw_def by (simp only: mult_2 power_add) (rule upto [OF sqr])

lemma pw_pairs: "pw ws p (8 * R) a x n \<Longrightarrow> pw ws p (8 * R) a (sqr_pairs (f_sqr F) k x) (4 ^ k * n)"
proof (induction k)
  case (Suc k)
  then have "pw ws p (8 * R) a (f_sqr F (f_sqr F (sqr_pairs (f_sqr F) k x))) (2 * (2 * (4 ^ k * n)))" by (intro pw_sqr)
  then show ?case by (simp add: sqr_pairs_def Let_def mult.assoc)
qed (simp add: sqr_pairs_def)

section \<open>Multiplication\<close>

lemma rep_zero: "rep ws p R (fe_zero F) 0"
proof -
  have "val us (replicate (length us) 0) = 0" for us by (induction us) (simp_all add: val_def)
  from this [of ws] show ?thesis using radix range by (simp add: rep_def fe_zero_def)
qed

lemma rep_one: "rep ws p R ((fe_zero F)[0 := 1]) 1"
proof -
  obtain ws' where ws: "ws = 1 # ws'" by (rule radix_Cons)
  have z: "val us (replicate (length us) 0) = 0" for us by (induction us) (simp_all add: val_def)
  have "(fe_zero F)[0 := 1] = 1 # replicate (length ws') 0"
    using radix(1) by (simp add: fe_zero_def ws flip: radix(1))
  then show ?thesis using z [of ws'] range by (simp add: rep_def ws val_def)
qed

lemma inf_point_rep: "prep ws p R (inf_point F) e_zero"
  by (simp add: inf_point_def e_zero_def prep_iff rep_zero rep_one)

lemma init_rep:
  assumes "rep ws p R x X" "rep ws p R y Y"
  shows "prep ws p R (init F x y) (e_affine X Y)"
  using assms rep_one mul [OF assms [THEN upto]] by (simp add: init_def e_affine_def prep_iff)

lemma muli_t_rep: "prep ws p R P A \<Longrightarrow> prep ws p R (muli_t F P) (e_scale (kCurveD F) A)"
  by (cases A) (simp add: muli_t_def prep_iff muli upto)

lemma neg_rep: "prep ws p R P A \<Longrightarrow> prep ws p R (neg P) (e_neg A)"
  using range by (cases A) (simp add: neg_def prep_iff rep_gneg)

lemma e_neg_scale: "e_neg (e_scale d A) = e_scale d (e_neg A)"
  by (cases A) simp

lemma precomp_rep:
  assumes "prep ws p R P (e_affine X Y)" "k < 9"
  shows "prep ws p R (precomp F P ! k) (e_scale (kCurveD F) (e_table (kCurveD F) (e_affine X Y) ! k))"
proof -
  let ?d = "kCurveD F" and ?W1 = "muli_t F P"
  have w1: "prep ws p R ?W1 (X, Y, 1, X * Y * ?d)" using muli_t_rep [OF assms(1)] by (simp add: e_affine_def)
  have s: "e_scale ?d (e_affine X Y) = (X, Y, 1, X * Y * ?d)" by (simp add: e_affine_def)
  note W2 = double_1_rep [OF assms(1)]
  note W3 = add_1_rep [OF w1 W2] and W4 = double_3_rep [OF prep_prep3 [OF W2]]
  note W5 = add_1_rep [OF w1 W4] and W6 = double_3_rep [OF prep_prep3 [OF W3]] and W8 = double_3_rep [OF prep_prep3 [OF W4]]
  note W7 = add_1_rep [OF w1 W6]
  have W0: "prep ws p R (inf_point F) (e_scale ?d e_zero)" using inf_point_rep by (simp add: e_zero_def)
  have "k \<in> {0, 1, 2, 3, 4, 5, 6, 7, 8}" using assms(2) by auto
  then show ?thesis
    using W0 muli_t_rep [OF assms(1)] W2 W3 W4 W5 W6 W7 W8
    by (elim insertE emptyE) (simp_all only: precomp_def e_table_def Let_def prep_copy s nth_Cons_0 nth_Cons_Suc numeral_nat
        One_nat_def muli_t_rep)
qed

lemma length_precomp: "length (precomp F P) = 9"
  by (simp add: precomp_def Let_def)

lemma prep_limbs: "prep ws p B P A \<Longrightarrow> limbs (f_limbs F) P"
  using radix(1) by (cases A) (simp add: prep_iff limbs_def rep_def)

lemma select_rep:
  assumes P: "prep ws p R P (e_affine X Y)" and b: "\<bar>b\<bar> \<le> 8" and Q: "limbs (f_limbs F) Q"
  shows "prep ws p R (select Q (precomp F P) b) (e_scale (kCurveD F) (e_signed (e_table (kCurveD F) (e_affine X Y)) b))"
proof -
  have "\<forall>S \<in> set (precomp F P). limbs (f_limbs F) S"
    using prep_limbs [OF precomp_rep [OF P]] by (auto simp: in_set_conv_nth length_precomp)
  note s = select_lookup [OF Q this length_precomp b]
  show ?thesis
    using precomp_rep [OF P, of "nat b"] neg_rep [OF precomp_rep [OF P, of "nat (- b)"]] b
    by (simp add: s e_signed_def e_neg_scale)
qed

lemma window_rep:
  assumes "prep3 ws p R P A" "prep ws p R Q B"
  shows "prep3 ws p R (window F Q P) (e_add (e_double (e_double (e_double (e_double A)))) B)"
  unfolding window_def Let_def by (intro add_2_rep assms(2) double_3_rep double_2_rep assms(1))

lemma mul_steps_rep:
  assumes "prep ws p R P (e_affine X Y)" "\<forall>i \<in> set is. \<bar>w ! i\<bar> \<le> 8"
    and "limbs (f_limbs F) Q" "prep3 ws p R S A"
  shows "prep3 ws p R (snd (foldl (mul_step F (precomp F P) w) (Q, S) is))
    (foldl (e_step (kCurveD F) (e_table (kCurveD F) (e_affine X Y))) A (map ((!) w) is))"
  using assms(2-4)
proof (induction "is" arbitrary: Q S A)
  case (Cons i "is")
  have q: "prep ws p R (select Q (precomp F P) (w ! i))
      (e_scale (kCurveD F) (e_signed (e_table (kCurveD F) (e_affine X Y)) (w ! i)))"
    using select_rep [OF assms(1)] Cons.prems by simp
  show ?case
    using Cons.IH [OF _ prep_limbs [OF q] window_rep [OF Cons.prems(3) q]] Cons.prems(1)
    by (simp add: mul_step_def e_step_def Let_def)
qed simp

lemma mul_to_proj_rep:
  assumes P: "prep ws p R P (e_affine X Y)" and w: "length w = f_panes F" "w \<noteq> []"
    and b: "\<forall>b \<in> set w. \<bar>b\<bar> \<le> 8" "0 \<le> last w" and Q: "limbs (f_limbs F) Q"
  shows "prep3 ws p R (mul_to_proj F Q w P) (e_ladder (kCurveD F) (e_affine X Y) w)"
proof -
  have l: "w ! (f_panes F - 1) = last w" using w by (simp add: last_conv_nth)
  have "last w \<le> 8" using b(1) last_in_set [OF w(2)] by fastforce
  then have S: "prep3 ws p R (precomp F P ! nat (last w)) (e_table (kCurveD F) (e_affine X Y) ! nat (last w))"
    using prep_prep3 [OF precomp_rep [OF P, of "nat (last w)"]]
    by (cases "e_table (kCurveD F) (e_affine X Y) ! nat (last w)") (simp add: prep3_iff)
  have "map ((!) w) [0..<length w - 1] = butlast w" by (rule nth_equalityI) (simp_all add: nth_butlast)
  then have m: "map ((!) w) (rev [0..<f_panes F - 1]) = rev (butlast w)" by (simp add: w(1) flip: rev_map)
  have "\<forall>i \<in> set (rev [0..<f_panes F - 1]). \<bar>w ! i\<bar> \<le> 8" using b(1) w by auto
  from mul_steps_rep [OF P this Q S] show ?thesis
    unfolding m by (simp only: mul_to_proj_def e_ladder_def Let_def l prep_copy)
qed

section \<open>Addition of projective points\<close>

lemma add_proj_rep:
  assumes "prep3 ws p R Q B" "prep3 ws p R P A"
  shows "prep3 ws p R (add_proj F Q P) (e_add_proj (kCurveD F) B A)"
proof -
  obtain X1 Y1 Z1 T1 X2 Y2 Z2 T2 where AB: "B = (X1, Y1, Z1, T1)" "A = (X2, Y2, Z2, T2)" by (metis prod.exhaust)
  have R: "R \<le> 8 * R" "R \<le> 4 * R" "R + R \<le> 8 * R" "R + R \<le> 4 * R" "R + R + R \<le> 8 * R" using range by simp_all
  have Q: "rep ws p R (px Q) X1" "rep ws p R (py Q) Y1" "rep ws p R (pz Q) Z1"
    and P: "rep ws p R (px P) X2" "rep ws p R (py P) Y2" "rep ws p R (pz P) Z2"
    using assms by (simp_all add: AB prep3_iff)
  note a = mulw [OF Q(3) P(3) R(1,1)] and c = mulw [OF Q(1) P(1) R(1,1)] and d = mulw [OF Q(2) P(2) R(1,1)]
  note b = sqrw [OF a R(1)] and e = muli [OF upto [OF mulw [OF c d R(1,1)]]]
  note f = subw [OF b e R(2,2)] and g = addw [OF b e R(2,2)]
  note z = mulw [OF addw [OF Q(1,2) R(2,2)] addw [OF P(1,2) R(2,2)] R(3,3)]
  note x = subw [OF subw [OF z c R(2,2)] d R(4,2)] and y = subw [OF d c R(2,2)]
  note m = mulw [OF a mulw [OF f x R(3,5)] R(1,1)] mulw [OF a mulw [OF g y R(3,3)] R(1,1)] mulw [OF f g R(3,3)]
  show ?thesis
    using m by (simp add: add_proj_def init_proj_def AB Let_def prep3_iff ac_simps)
qed

end

text \<open>A point in memory that stands for an affine point, with and without its last coordinate.\<close>

definition point :: "int list \<Rightarrow> int \<Rightarrow> int \<Rightarrow> ECp \<Rightarrow> int \<times> int \<Rightarrow> bool" where
  "point ws p R P a \<longleftrightarrow> (\<exists>A. prep ws p R P A \<and> represents p A a)"

definition point3 :: "int list \<Rightarrow> int \<Rightarrow> int \<Rightarrow> ECp \<Rightarrow> int \<times> int \<Rightarrow> bool" where
  "point3 ws p R P a \<longleftrightarrow> (\<exists>A. prep3 ws p R P A \<and> represents p A a)"

lemma point_point3: "point ws p R P a \<Longrightarrow> point3 ws p R P a"
  unfolding point_def point3_def by (blast intro: prep_prep3)

context limb_field
begin

lemma add_2_point:
  "point ws p R Q b \<Longrightarrow> point ws p R P a \<Longrightarrow> ed_sum p (kCurveD F) a b c \<Longrightarrow> point3 ws p R (add_2 F (muli_t F Q) P) c"
  unfolding point_def point3_def by (blast intro: add_2_rep muli_t_rep represents_add)

lemma double_point:
  "point3 ws p R P a \<Longrightarrow> on_curve p (kCurveD F) a \<Longrightarrow> ed_sum p (kCurveD F) a a c \<Longrightarrow>
    point3 ws p R (double_2 F P) c \<and> point ws p R (double_3 F P) c"
  unfolding point_def point3_def by (blast intro: double_2_rep double_3_rep represents_double)

lemma add_proj_point:
  "point3 ws p R Q a \<Longrightarrow> point3 ws p R P b \<Longrightarrow> ed_sum p (kCurveD F) a b c \<Longrightarrow> point3 ws p R (add_proj F Q P) c"
  unfolding point3_def by (blast intro: add_proj_rep represents_add_proj)

lemma init_point:
  assumes "rep ws p R x X" "rep ws p R y Y"
  shows "point ws p R (init F x y) (X, Y)"
proof -
  have "represents p (e_affine X Y) (X, Y)" by (simp add: represents_def e_affine_def)
  then show ?thesis using init_rep [OF assms] unfolding point_def by blast
qed

lemma neg_point: "point ws p R P (x, y) \<Longrightarrow> point ws p R (neg P) (- x, y)"
  unfolding point_def by (blast intro: neg_rep represents_neg)

end

end
