(* ===== verification/Ed3363_Inv.thy ===== *)
theory Ed3363_Inv
  imports Ed3363_Norm Edwards_Field
begin

text \<open>
  The field of E-3363 satisfies the laws the point functions rely on; and the addition chain of
  \<open>ginv\<close> computes the power \<open>p - 2\<close>.
\<close>

lemma ed_ops_simps [simp]:
  "f_mul ed_ops = gmul" "f_sqr ed_ops = gsqr" "f_muli ed_ops = gmuli" "f_scr ed_ops = scr" "f_inv ed_ops = ginv"
  "f_limbs ed_ops = 6" "kCurveD ed_ops = 11111" "f_panes ed_ops = 84"
  by (simp_all add: ed_ops_def)

interpretation ed: limb_field ed_ops ed_weights ed_p "2 ^ 57"
proof (unfold_locales, unfold ed_ops_simps)
  show "length ed_weights = 6" "ed_weights ! 0 = 1" by (simp_all add: ed_weights_def)
  have M: "8 * 2 ^ 57 = (2 :: int) ^ 60" by simp
  show "rep ed_weights ed_p (8 * 2 ^ 57) x a \<Longrightarrow> rep ed_weights ed_p (8 * 2 ^ 57) y b \<Longrightarrow>
      rep ed_weights ed_p (2 ^ 57) (gmul x y) (a * b)" for x a y b
    unfolding M by (rule gmul_rep)
  show "rep ed_weights ed_p (8 * 2 ^ 57) x a \<Longrightarrow> rep ed_weights ed_p (2 ^ 57) (gsqr x) (a * a)" for x a
    unfolding M by (rule gsqr_rep)
  show "rep ed_weights ed_p (8 * 2 ^ 57) x a \<Longrightarrow> rep ed_weights ed_p (2 ^ 57) (gmuli x 11111) (a * 11111)" for x a
    unfolding M by (rule gmuli_rep) simp_all
  show "rep ed_weights ed_p (8 * 2 ^ 57) x a \<Longrightarrow> rep ed_weights ed_p (2 ^ 57) (scr x) a" for x a
    unfolding M by (rule scr_rep) (erule rep_weaken, simp)
qed simp_all

lemmas ed_powers = ed.pw_mul [unfolded ed_ops_simps] ed.pw_sqr [unfolded ed_ops_simps] pw_copy
  ed.pw_pairs [unfolded ed_ops_simps]

lemma ginv_pw:
  assumes "pw ed_weights ed_p (8 * 2 ^ 57) a x 1"
  shows "pw ed_weights ed_p (8 * 2 ^ 57) a (ginv x) (2 ^ 336 - 5)"
  unfolding ginv_def using assms
  apply -
  apply (rule pw_exp)
   apply ((rule pw_let, (rule ed_powers; assumption))+)
   apply (rule ed.pw_mul [unfolded ed_ops_simps]; assumption)
  apply simp
  done

lemma ginv_rep:
  assumes "rep ed_weights ed_p (2 ^ 60) x a"
  shows "rep ed_weights ed_p (2 ^ 60) (ginv x) (a ^ (2 ^ 336 - 5))"
proof -
  have M: "8 * 2 ^ 57 = (2 :: int) ^ 60" by simp
  have "pw ed_weights ed_p (8 * 2 ^ 57) a x 1" using assms by (simp only: pw_def power_one_right M)
  from ginv_pw [OF this] show ?thesis by (simp only: pw_def M)
qed

end
