(* ===== verification/Word_Buffers.thy ===== *)
theory Word_Buffers
  imports Mixed_Radix
begin

unbundle bit_operations_syntax

text \<open>
  The buffers shared with Lisp: 64-bit words, little end first, that hold one number; and how
  shifting adjacent words or limbs together moves between words and limbs.
\<close>

definition num_of_words :: "u64 list \<Rightarrow> int" where
  "num_of_words pv = hval (replicate (length pv) 64) (map uint pv)"

definition words_of_num :: "nat \<Rightarrow> int \<Rightarrow> u64 list" where
  "words_of_num k N = map word_of_int (digits (replicate k 64) N)"

lemma num_of_words_simps [simp]:
  "num_of_words [] = 0" "num_of_words (w # ws) = uint w + 2 ^ 64 * num_of_words ws"
  by (simp_all add: num_of_words_def)

lemma length_words_of_num [simp]: "length (words_of_num k N) = k"
  by (simp add: words_of_num_def)

lemma uint_words: "map uint (words_of_num k N) = digits (replicate k 64) N"
proof -
  have "uint (word_of_int d :: u64) = d" if "d \<in> set (digits (replicate k 64) N)" for d
    using in_digits [OF that] by (auto simp: uint_word_of_int)
  then show ?thesis unfolding words_of_num_def map_map by (simp add: map_idI)
qed

lemma fits_words: "fits (replicate (length pv) 64) (map uint pv)" for pv :: "u64 list"
proof (induction pv)
  case (Cons w pv)
  have "uint w < 2 ^ 64" using uint_lt2p [of w] by simp
  then show ?case using Cons by simp
qed simp

lemma words_of_num_of_words: "words_of_num (length pv) (num_of_words pv) = pv"
  unfolding words_of_num_def num_of_words_def digits_hval [OF fits_words] by (simp add: map_idI)

lemma num_of_words_of_num: "num_of_words (words_of_num k N) = N mod 2 ^ (64 * k)"
  using hval_digits [of "replicate k 64" N]
  by (simp add: num_of_words_def uint_words sum_list_replicate mult.commute)

lemma num_of_words_ge_0: "0 \<le> num_of_words pv"
  using hval_bounds [OF fits_words, of pv] by (simp add: num_of_words_def)

section \<open>Bit by bit\<close>

lemma bit_digit: "bit (N div 2 ^ a mod 2 ^ n) i \<longleftrightarrow> i < n \<and> bit N (a + i)" for N :: int
  by (simp add: bit_take_bit_iff bit_drop_bit_eq flip: take_bit_eq_mod drop_bit_eq_div)

text \<open>\<open>n\<close> bits of a number from position \<open>a\<close> on, as a word.\<close>

definition from_bit :: "int \<Rightarrow> nat \<Rightarrow> nat \<Rightarrow> u64" where
  "from_bit N a n = word_of_int (N div 2 ^ a mod 2 ^ n)"

lemma bit_from_bit: "n \<le> 64 \<Longrightarrow> bit (from_bit N a n) i \<longleftrightarrow> i < n \<and> bit N (a + i)"
  by (auto simp: from_bit_def bit_word_of_int_iff bit_digit)

lemma mask_word: "m \<le> 64 \<Longrightarrow> uint (from_bit N a 64 AND mask m) = N div 2 ^ a mod 2 ^ m"
proof (rule bit_eqI)
  fix i
  assume "m \<le> 64"
  then show "bit (uint (from_bit N a 64 AND mask m)) i = bit (N div 2 ^ a mod 2 ^ m) i"
    unfolding bit_digit by (auto simp: bit_uint_iff bit_simps bit_from_bit)
qed

lemma drop_mask_word:
  assumes "s + m \<le> 64" "b = a + s"
  shows "uint (drop_bit s (from_bit N a 64) AND mask m) = N div 2 ^ b mod 2 ^ m"
proof (rule bit_eqI)
  fix i
  show "bit (uint (drop_bit s (from_bit N a 64) AND mask m)) i = bit (N div 2 ^ b mod 2 ^ m) i"
    unfolding bit_digit using assms by (auto simp: bit_uint_iff bit_simps bit_from_bit ac_simps)
qed

lemma join_words:
  assumes "s + r = 64" "m \<le> 64" "b = a + r" "c = a + 64"
  shows "uint ((push_bit s (from_bit N c 64) OR drop_bit r (from_bit N a 64)) AND mask m) = N div 2 ^ b mod 2 ^ m"
proof (rule bit_eqI)
  fix i
  show "bit (uint ((push_bit s (from_bit N c 64) OR drop_bit r (from_bit N a 64)) AND mask m)) i =
      bit (N div 2 ^ b mod 2 ^ m) i"
  proof (cases "i < s")
    case True
    then have "a + (r + i) = b + i" "r + i < 64" using assms by simp_all
    then show ?thesis using True assms unfolding bit_digit by (auto simp: bit_uint_iff bit_simps bit_from_bit add.assoc)
  next
    case False
    then obtain k where k: "i = s + k" by (metis le_iff_add not_less)
    then have "c + k = b + i" "\<not> r + i < 64" using assms by simp_all
    then show ?thesis using k assms(2) unfolding bit_digit by (auto simp: bit_uint_iff bit_simps bit_from_bit add.assoc)
  qed
qed

lemma join_limbs:
  assumes "m + k = n" "64 \<le> k + n'" "n \<le> 64" "n' \<le> 64" "c = a + n" "b = a + m"
  shows "drop_bit m (from_bit N a n) OR push_bit k (from_bit N c n') = from_bit N b 64"
proof (rule bit_word_eqI)
  fix i assume i: "i < LENGTH(64)"
  show "bit (drop_bit m (from_bit N a n) OR push_bit k (from_bit N c n')) i = bit (from_bit N b 64) i"
  proof (cases "i < k")
    case True
    then have "a + (m + i) = b + i" "m + i < n" using assms by simp_all
    then show ?thesis using True i assms(3,4) by (auto simp: bit_simps bit_from_bit add.assoc)
  next
    case False
    then obtain j where j: "i = k + j" by (metis le_iff_add not_less)
    then have "c + j = b + i" "\<not> m + i < n" "j < n'" using assms i by simp_all
    then show ?thesis using j i assms(3,4) by (auto simp: bit_simps bit_from_bit add.assoc)
  qed
qed

lemma bit_beyond:
  fixes N :: int
  assumes "0 \<le> N" "N < 2 ^ n" "n \<le> k"
  shows "\<not> bit N k"
proof -
  have "N < 2 ^ k" by (rule less_le_trans [OF assms(2)]) (simp add: power_increasing assms(3))
  then show ?thesis using assms(1) by (simp add: bit_iff_odd)
qed

lemma from_bit_top:
  assumes "0 \<le> N" "N < 2 ^ (a + n)" "n \<le> 64"
  shows "from_bit N a 64 = from_bit N a n"
proof (rule bit_word_eqI)
  fix i assume i: "i < LENGTH(64)"
  have "i < n" if "bit N (a + i)" using bit_beyond [OF assms(1,2), of "a + i"] that by (cases "i < n") simp_all
  then show "bit (from_bit N a 64) i = bit (from_bit N a n) i" using i assms(3) by (auto simp: bit_from_bit)
qed

lemma from_bit_word: "word_of_int (N div 2 ^ a mod 2 ^ n) = from_bit N a n" "word_of_int (N mod 2 ^ n) = from_bit N 0 n"
  by (simp_all add: from_bit_def)

lemma drop_from_bit:
  assumes "n \<le> 64" "s \<le> n" "b = a + s" "k = n - s"
  shows "drop_bit s (from_bit N a n) = from_bit N b k"
proof (rule bit_word_eqI)
  fix i
  show "bit (drop_bit s (from_bit N a n)) i = bit (from_bit N b k) i"
    using assms by (auto simp: bit_simps bit_from_bit ac_simps)
qed

end
