(* ===== verification/Ed3363_Buffers.thy ===== *)
theory Ed3363_Buffers
  imports Ed3363_Norm Word_Buffers
begin

unbundle bit_operations_syntax

text \<open>
  \<open>gfetch\<close> reads the number in six words modulo \<open>2 ^ 336\<close> as limbs; \<open>gstore\<close> writes limbs in
  normal form back. What it writes for other limbs is the last section.
\<close>

lemma words_6:
  "words_of_num 6 N = [from_bit N 0 64, from_bit N 64 64, from_bit N 128 64, from_bit N 192 64, from_bit N 256 64, from_bit N 320 64]"
  by (simp add: words_of_num_def numeral_eq_Suc from_bit_def zdiv_zmult2_eq [symmetric])

lemma ed_digits:
  "digits ed_widths N = [N mod 2 ^ 56, N div 2 ^ 56 mod 2 ^ 56, N div 2 ^ 112 mod 2 ^ 56, N div 2 ^ 168 mod 2 ^ 56,
    N div 2 ^ 224 mod 2 ^ 56, N div 2 ^ 280 mod 2 ^ 56]"
  by (simp add: ed_widths_def zdiv_zmult2_eq [symmetric])

lemma gfetch_list:
  "gfetch [p0, p1, p2, p3, p4, p5] =
    [uint (p0 AND mask 56), uint ((push_bit 8 p1 OR drop_bit 56 p0) AND mask 56),
     uint ((push_bit 16 p2 OR drop_bit 48 p1) AND mask 56), uint ((push_bit 24 p3 OR drop_bit 40 p2) AND mask 56),
     uint ((push_bit 32 p4 OR drop_bit 32 p3) AND mask 56), uint ((push_bit 40 p5 OR drop_bit 24 p4) AND mask 56)]"
  by (simp add: gfetch_def Let_def)

lemma gfetch_words: "gfetch (words_of_num 6 N) = digits ed_widths N"
proof -
  have 0: "uint (from_bit N 0 64 AND mask 56) = N mod 2 ^ 56" using mask_word [of 56 N 0] by simp
  show ?thesis
    unfolding words_6 ed_digits gfetch_list 0
    by (intro arg_cong2 [where f = Cons] refl; rule join_words; simp)
qed

lemma gstore_list:
  "gstore [w0, w1, w2, w3, w4, w5] =
    [drop_bit 0 (word_of_int w0) OR push_bit 56 (word_of_int w1), drop_bit 8 (word_of_int w1) OR push_bit 48 (word_of_int w2),
     drop_bit 16 (word_of_int w2) OR push_bit 40 (word_of_int w3), drop_bit 24 (word_of_int w3) OR push_bit 32 (word_of_int w4),
     drop_bit 32 (word_of_int w4) OR push_bit 24 (word_of_int w5), drop_bit 40 (word_of_int w5)]"
  by (simp add: gstore_def Let_def)

lemma gstore_digits:
  assumes "0 \<le> N" "N < 2 ^ 336"
  shows "gstore (digits ed_widths N) = words_of_num 6 N"
proof -
  have "N < 2 ^ (320 + 16)" using assms(2) by simp
  note top = from_bit_top [OF assms(1) this]
  have d: "drop_bit 40 (from_bit N 280 56) = from_bit N 320 64"
    by (subst top) (simp, rule drop_from_bit, simp_all)
  show ?thesis
    unfolding words_6 ed_digits gstore_list from_bit_word(1)
    unfolding from_bit_word(2)
    by (intro arg_cong2 [where f = Cons] refl d; rule join_limbs; simp)
qed

section \<open>Limbs in no normal form\<close>

text \<open>
  What \<open>gstore\<close> writes for any six limbs: it masks none of them, so the number in the words is
  the bitwise OR of the limbs, as 64-bit words, at their places.
\<close>

fun or_limbs :: "fe \<Rightarrow> int" where
  "or_limbs [] = 0"
| "or_limbs (l # ls) = take_bit 64 l OR push_bit 56 (or_limbs ls)"

lemma or_limbs_ge_0 [simp]: "0 \<le> or_limbs x"
  by (induction x) simp_all

lemma length_6:
  assumes "length x = 6"
  obtains x0 x1 x2 x3 x4 x5 where "x = [x0, x1, x2, x3, x4, x5]"
  using assms by (auto simp: numeral_eq_Suc length_Suc_conv)

text \<open>Word \<open>k\<close> holds the bits from \<open>8 k\<close> on of limb \<open>k\<close>, and of the next one those that fit above.\<close>

lemma or_limbs_drop: "bit (or_limbs x) (64 * k + i) \<longleftrightarrow> bit (or_limbs (drop k x)) (8 * k + i)"
proof (induction k arbitrary: x i)
  case (Suc k)
  show ?case
  proof (cases x)
    case (Cons l ls)
    have "bit (or_limbs x) (64 * Suc k + i) \<longleftrightarrow> bit (or_limbs ls) (64 * k + (8 + i))"
      by (simp add: Cons bit_simps ac_simps)
    then show ?thesis unfolding Suc.IH by (simp add: Cons ac_simps)
  qed simp
qed simp

lemma or_limbs_two:
  assumes "j < 112"
  shows "bit (or_limbs (x # y # ls)) j \<longleftrightarrow> j < 64 \<and> bit x j \<or> 56 \<le> j \<and> bit y (j - 56)"
proof -
  have "\<not> 56 \<le> j - 56" if "56 \<le> j" using assms that by simp
  then show ?thesis using assms by (cases "56 \<le> j") (simp_all add: bit_simps)
qed

lemma or_limbs_word:
  assumes "drop k x = a # b # ls" "r = 8 * k" "r + s = 56" "8 \<le> s" "c = 64 * k"
  shows "drop_bit r (word_of_int a) OR push_bit s (word_of_int b :: u64) = from_bit (or_limbs x) c 64"
proof (rule bit_word_eqI)
  fix i assume i: "i < LENGTH(64)"
  have "r + i < 112" using i assms(3,4) by simp
  then have "bit (from_bit (or_limbs x) c 64) i \<longleftrightarrow> r + i < 64 \<and> bit a (r + i) \<or> 56 \<le> r + i \<and> bit b (r + i - 56)"
    using i or_limbs_drop [of x k i] or_limbs_two [of "r + i" a b ls] by (simp add: bit_from_bit assms(1,2,5))
  moreover have "r + i - 56 = i - s" "56 \<le> r + i \<longleftrightarrow> s \<le> i" using assms(3) by linarith+
  ultimately show "bit (drop_bit r (word_of_int a) OR push_bit s (word_of_int b :: u64)) i = bit (from_bit (or_limbs x) c 64) i"
    using i by (auto simp: bit_simps)
qed

lemma or_limbs_less: "or_limbs x < 2 ^ (56 * length x + 8)"
proof (induction x)
  case (Cons l ls)
  have "(2 :: int) ^ 64 \<le> 2 ^ (56 * length (l # ls) + 8)" by (rule power_increasing) simp_all
  moreover have "take_bit 64 l < 2 ^ 64" by (rule take_bit_int_less_exp)
  ultimately have "take_bit 64 l < 2 ^ (56 * length (l # ls) + 8)" by linarith
  moreover have "push_bit 56 (or_limbs ls) < 2 ^ (56 * length (l # ls) + 8)"
    using Cons by (simp add: push_bit_eq_mult power_add)
  ultimately show ?case unfolding or_limbs.simps by (intro OR_upper) simp_all
qed simp

lemma gstore_or:
  assumes "length x = 6"
  shows "num_of_words (gstore x) = or_limbs x"
proof -
  obtain x0 x1 x2 x3 x4 x5 where x: "x = [x0, x1, x2, x3, x4, x5]" using assms by (rule length_6)
  have t: "drop_bit 40 (word_of_int x5) = from_bit (or_limbs x) 320 64"
    by (rule bit_word_eqI) (use or_limbs_drop [of x 5] in \<open>auto simp: bit_simps bit_from_bit x\<close>)
  have "gstore x = words_of_num 6 (or_limbs x)"
    unfolding words_6 by (subst (1) x, subst gstore_list, intro arg_cong2 [where f = Cons] refl t; rule or_limbs_word; simp add: x)
  moreover have "or_limbs x < 2 ^ 384" using or_limbs_less [of x] assms by simp
  ultimately show ?thesis by (simp add: num_of_words_of_num mod_pos_pos_trivial)
qed

text \<open>
  The number written is the value of the limbs exactly when none is negative and no limb has a
  bit beyond 56 that the next one has as well.
\<close>

fun plain_limbs :: "fe \<Rightarrow> bool" where
  "plain_limbs [] \<longleftrightarrow> True"
| "plain_limbs [l] \<longleftrightarrow> 0 \<le> l"
| "plain_limbs (l # m # ls) \<longleftrightarrow> 0 \<le> l \<and> l div 2 ^ 56 AND m = 0 \<and> plain_limbs (m # ls)"

text \<open>What is lost between a limb and the next, as a multiple of the weight of the next.\<close>

definition sign_part :: "int \<Rightarrow> int" where
  "sign_part l = (if l < 0 then 256 else 0)"

definition lost :: "int \<Rightarrow> int \<Rightarrow> int" where
  "lost l m = (drop_bit 56 (take_bit 64 l) AND m) - sign_part l"

lemma take_bit_limb:
  assumes "\<bar>l\<bar> < 2 ^ 63"
  shows "take_bit 64 l = l + 2 ^ 56 * sign_part l"
proof (cases "l < 0")
  case True
  then have "take_bit 64 l = take_bit 64 (l + 2 ^ 64)" by (simp add: take_bit_eq_mod)
  also have "\<dots> = l + 2 ^ 64" using True assms by (intro take_bit_int_eq_self) simp_all
  finally show ?thesis using True by (simp add: sign_part_def)
next
  case False
  then show ?thesis using assms by (simp add: sign_part_def take_bit_int_eq_self)
qed

lemma top_byte_and:
  "0 \<le> (drop_bit 56 (take_bit 64 l) AND m)" "(drop_bit 56 (take_bit 64 l) AND m) < 256" for l m :: int
proof -
  have "take_bit 64 l < 2 ^ 64" "0 \<le> take_bit 64 l" by (rule take_bit_int_less_exp) simp
  then have d: "0 \<le> drop_bit 56 (take_bit 64 l)" "drop_bit 56 (take_bit 64 l) < 256"
    by (simp_all add: drop_bit_eq_div pos_imp_zdiv_nonneg_iff del: take_bit_nonnegative)
  then show "0 \<le> (drop_bit 56 (take_bit 64 l) AND m)" by simp
  have "(drop_bit 56 (take_bit 64 l) AND m) \<le> drop_bit 56 (take_bit 64 l)" using d(1) by (rule AND_upper1)
  then show "(drop_bit 56 (take_bit 64 l) AND m) < 256" using d(2) by simp
qed

lemma lost_bounds: "- 256 \<le> lost l m" "lost l m \<le> 255"
proof -
  have "0 \<le> sign_part l" "sign_part l \<le> 256" by (simp_all add: sign_part_def)
  then show "- 256 \<le> lost l m" "lost l m \<le> 255" unfolding lost_def using top_byte_and [of l m] by linarith+
qed

lemma lost_eq_0:
  assumes "\<bar>l\<bar> < 2 ^ 63"
  shows "lost l m = 0 \<longleftrightarrow> 0 \<le> l \<and> l div 2 ^ 56 AND m = 0"
proof (cases "l < 0")
  case True
  then show ?thesis using top_byte_and [of l m] by (simp add: lost_def sign_part_def)
next
  case False
  then show ?thesis using take_bit_limb [OF assms] by (simp add: lost_def sign_part_def drop_bit_eq_div)
qed

lemma or_limbs_Cons:
  assumes "\<bar>l\<bar> < 2 ^ 63"
  shows "l + 2 ^ 56 * or_limbs (m # ls) = or_limbs (l # m # ls) + 2 ^ 56 * lost l m"
proof -
  let ?t = "take_bit 64 l" and ?O = "or_limbs (m # ls)"
  have "?t AND push_bit 56 ?O = push_bit 56 (drop_bit 56 ?t AND m)"
    by (rule bit_eqI) (auto simp: bit_simps)
  moreover have "?t + 2 ^ 56 * ?O = (?t AND push_bit 56 ?O) + (?t OR push_bit 56 ?O)"
    unfolding plus_and_or by (simp add: push_bit_eq_mult)
  ultimately show ?thesis
    using take_bit_limb [OF assms] by (simp add: lost_def push_bit_eq_mult algebra_simps)
qed

lemma base_digit_0:
  assumes "a + 2 ^ 56 * k = (0 :: int)" "\<bar>a\<bar> < 2 ^ 56"
  shows "a = 0" "k = 0"
proof -
  have "a = 2 ^ 56 * (- k)" using assms(1) by simp
  then have "2 ^ 56 dvd a" by (metis dvd_triv_left)
  then show "a = 0" using assms(2) zdvd_not_zless [of "\<bar>a\<bar>" "2 ^ 56"] by auto
  then show "k = 0" using assms(1) by simp
qed

lemma gstore_value:
  assumes "length x = 6" "\<forall>l \<in> set x. \<bar>l\<bar> < 2 ^ 63"
  shows "ed_p dvd num_of_words (gstore x) - val ed_weights x \<longleftrightarrow> plain_limbs x"
proof -
  obtain x0 x1 x2 x3 x4 x5 where x: "x = [x0, x1, x2, x3, x4, x5]" using assms(1) by (rule length_6)
  define a b c d e f where "a = lost x0 x1" and "b = lost x1 x2" and "c = lost x2 x3" and "d = lost x3 x4"
    and "e = lost x4 x5" and "f = sign_part x5"
  have l: "\<bar>x0\<bar> < 2 ^ 63" "\<bar>x1\<bar> < 2 ^ 63" "\<bar>x2\<bar> < 2 ^ 63" "\<bar>x3\<bar> < 2 ^ 63" "\<bar>x4\<bar> < 2 ^ 63" "\<bar>x5\<bar> < 2 ^ 63"
    using assms(2) by (simp_all add: x)
  have v: "val ed_weights x = x0 + 2 ^ 56 * (x1 + 2 ^ 56 * (x2 + 2 ^ 56 * (x3 + 2 ^ 56 * (x4 + 2 ^ 56 * x5))))"
    by (simp add: x val_def ed_weights_def)
  have o5: "x5 = or_limbs [x5] - 2 ^ 56 * f" using take_bit_limb [OF l(6)] by (simp add: f_def)
  define G where "G = a + 2 ^ 56 * (b + 2 ^ 56 * (c + 2 ^ 56 * (d + 2 ^ 56 * (e + 2 ^ 56 * (- f)))))"
  have "val ed_weights x = or_limbs x + 2 ^ 56 * G"
    using or_limbs_Cons [OF l(1), of x1 "[x2, x3, x4, x5]"] or_limbs_Cons [OF l(2), of x2 "[x3, x4, x5]"]
      or_limbs_Cons [OF l(3), of x3 "[x4, x5]"] or_limbs_Cons [OF l(4), of x4 "[x5]"]
      or_limbs_Cons [OF l(5), of x5 "[]"] o5
    unfolding v G_def a_def [symmetric] b_def [symmetric] c_def [symmetric] d_def [symmetric] e_def [symmetric]
    by (simp only: x) (simp add: algebra_simps)
  moreover define H where "H = - 3 * f + 2 ^ 56 * (a + 2 ^ 56 * (b + 2 ^ 56 * (c + 2 ^ 56 * (d + 2 ^ 56 * e))))"
  have "2 ^ 56 * G = H - ed_p * f" by (simp add: G_def H_def ed_p_def algebra_simps)
  ultimately have diff: "num_of_words (gstore x) - val ed_weights x = ed_p * f - H"
    by (simp add: gstore_or [OF assms(1)])
  have dv: "ed_p dvd num_of_words (gstore x) - val ed_weights x \<longleftrightarrow> ed_p dvd H"
    unfolding diff by (metis dvd_diff_right_iff dvd_triv_left)
  have bd: "\<bar>a\<bar> \<le> 256" "\<bar>b\<bar> \<le> 256" "\<bar>c\<bar> \<le> 256" "\<bar>d\<bar> \<le> 256" "\<bar>e\<bar> \<le> 256" "0 \<le> f" "f \<le> 256"
    unfolding a_def b_def c_def d_def e_def f_def abs_le_iff
    using lost_bounds [of x0 x1] lost_bounds [of x1 x2] lost_bounds [of x2 x3] lost_bounds [of x3 x4] lost_bounds [of x4 x5]
    by (simp_all add: sign_part_def)
  have "\<bar>H\<bar> < ed_p" using bd by (simp add: H_def ed_p_def)
  then have "ed_p dvd H \<longleftrightarrow> H = 0" using zdvd_not_zless [of "\<bar>H\<bar>" ed_p] by auto
  also have "H = 0 \<longleftrightarrow> a = 0 \<and> b = 0 \<and> c = 0 \<and> d = 0 \<and> e = 0 \<and> f = 0"
  proof
    assume H: "H = 0"
    have s: "\<bar>y\<bar> \<le> 256 \<Longrightarrow> \<bar>y\<bar> < 2 ^ 56" for y :: int by simp
    have f0: "\<bar>- 3 * f\<bar> < 2 ^ 56" using bd by simp
    note 1 = base_digit_0 [OF H [unfolded H_def] f0]
    note 2 = base_digit_0 [OF 1(2) s [OF bd(1)]]
    note 3 = base_digit_0 [OF 2(2) s [OF bd(2)]]
    note 4 = base_digit_0 [OF 3(2) s [OF bd(3)]]
    note 5 = base_digit_0 [OF 4(2) s [OF bd(4)]]
    show "a = 0 \<and> b = 0 \<and> c = 0 \<and> d = 0 \<and> e = 0 \<and> f = 0" using 1(1) 2(1) 3(1) 4(1) 5 by simp
  qed (simp add: H_def)
  also have "\<dots> \<longleftrightarrow> plain_limbs x"
    unfolding a_def b_def c_def d_def e_def lost_eq_0 [OF l(1)] lost_eq_0 [OF l(2)] lost_eq_0 [OF l(3)]
      lost_eq_0 [OF l(4)] lost_eq_0 [OF l(5)]
    by (auto simp: x f_def sign_part_def)
  finally show ?thesis unfolding dv .
qed

end
