(* ===== verification/Ed3363_Props.thy ===== *)
theory Ed3363_Props
  imports Ed3363_Inv Ed3363_Buffers
begin

unbundle bit_operations_syntax

text \<open>The properties of the curve E-3363: the field, the buffers, the scalar, the points.\<close>

lemma rep_val: "length x = 6 \<Longrightarrow> \<forall>l \<in> set x. \<bar>l\<bar> \<le> B \<Longrightarrow> rep ed_weights ed_p B x (val ed_weights x)"
  by (simp add: rep_def ed_weights_def)

text \<open>C25. The field functions of E-3363 compute modulo \<open>2 ^ 336 - 3\<close>: for six limbs of up to
  \<open>2 ^ 60\<close> in absolute value machine overflow never affects the results, \<open>gmul\<close>, \<open>gsqr\<close>, \<open>gmuli\<close> (with a
  factor up to \<open>2 ^ 14\<close>) and \<open>scr\<close> return limbs of at most \<open>2 ^ 57\<close>, \<open>gadd\<close> and \<open>gsub\<close>
  exact sums and differences, \<open>ginv\<close> the power \<open>p - 2\<close>, and \<open>geq\<close> decides equality modulo \<open>p\<close>.\<close>

theorem ed3363_field:
  assumes "rep ed_weights ed_p (2 ^ 60) x a" "rep ed_weights ed_p (2 ^ 60) y b" "\<bar>i\<bar> \<le> 2 ^ 14"
  shows "rep ed_weights ed_p (2 ^ 57) (gmul x y) (a * b) \<and> rep ed_weights ed_p (2 ^ 57) (gsqr x) (a * a)
    \<and> rep ed_weights ed_p (2 ^ 57) (gmuli x i) (a * i) \<and> rep ed_weights ed_p (2 ^ 57) (scr x) a
    \<and> rep ed_weights ed_p (2 ^ 61) (gadd x y) (a + b) \<and> rep ed_weights ed_p (2 ^ 61) (gsub x y) (a - b)
    \<and> rep ed_weights ed_p (2 ^ 60) (ginv x) (a ^ (2 ^ 336 - 5)) \<and> (geq x y \<longleftrightarrow> a mod ed_p = b mod ed_p)"
proof -
  have s: "rep ed_weights ed_p (2 ^ 61) x a" by (rule rep_weaken [OF assms(1)]) simp
  have "rep ed_weights ed_p (2 ^ 61) (gadd x y) (a + b)" "rep ed_weights ed_p (2 ^ 61) (gsub x y) (a - b)"
    using rep_gadd [OF assms(1,2)] rep_gsub [OF assms(1,2)] by simp_all
  then show ?thesis
    using gmul_rep [OF assms(1,2)] gsqr_rep [OF assms(1)] gmuli_rep [OF assms(1,3)] scr_rep [OF s]
      ginv_rep [OF assms(1)] geq_rep [OF assms(1,2)] by (simp only: mod_eq_dvd_iff HOL.simp_thms)
qed

theorem ed3363_field_witness:
  "rep ed_weights ed_p (2 ^ 57) (gmul [2 ^ 60, - 1, 0, 5, 0, - (2 ^ 60)] [1, 2, 3, 4, 5, 2 ^ 59])
    (val ed_weights [2 ^ 60, - 1, 0, 5, 0, - (2 ^ 60)] * val ed_weights [1, 2, 3, 4, 5, 2 ^ 59])"
  by (rule ed3363_field [where i = 1, THEN conjunct1]) (rule rep_val | simp)+

lemma ed3363_inv_facts:
  assumes "rep ed_weights ed_p (2 ^ 60) x a" "ed_p dvd a ^ (2 ^ 336 - 4) - 1"
  shows "rep ed_weights ed_p (2 ^ 60) (ginv x) (a ^ (2 ^ 336 - 5))" "rep ed_weights ed_p (2 ^ 57) (gmul (ginv x) x) 1"
proof -
  show g: "rep ed_weights ed_p (2 ^ 60) (ginv x) (a ^ (2 ^ 336 - 5))"
    by (rule ginv_rep [OF assms(1)])
  have "(2 :: nat) ^ 336 - 4 = Suc (2 ^ 336 - 5)" by simp
  then have "a ^ (2 ^ 336 - 5) * a = a ^ (2 ^ 336 - 4)" by (simp only: power_Suc mult.commute)
  then have "rep ed_weights ed_p (2 ^ 57) (gmul (ginv x) x) (a ^ (2 ^ 336 - 4))" using gmul_rep [OF g assms(1)] by argo
  then show "rep ed_weights ed_p (2 ^ 57) (gmul (ginv x) x) 1" by (rule rep_cong [OF _ assms(2)])
qed

text \<open>\<open>ginv\<close> raises to the power \<open>p - 2\<close>. So it returns the inverse of every number whose
  power \<open>p - 1\<close> is \<open>1\<close> modulo \<open>p\<close>.\<close>

theorem ed3363_inverse:
  assumes "rep ed_weights ed_p (2 ^ 60) x a" "ed_p dvd a ^ (2 ^ 336 - 4) - 1"
  shows "rep ed_weights ed_p (2 ^ 60) (ginv x) (a ^ (2 ^ 336 - 5))
    \<and> rep ed_weights ed_p (2 ^ 57) (gmul (ginv x) x) 1"
  using ed3363_inv_facts [OF assms] by (rule conjI)

theorem ed3363_inverse_witness:
  "rep ed_weights ed_p (2 ^ 57) (gmul (ginv [- 1, 0, 0, 0, 0, 0]) [- 1, 0, 0, 0, 0, 0]) 1"
proof (rule ed3363_inverse [where a = "- 1", THEN conjunct2])
  show "rep ed_weights ed_p (2 ^ 60) [- 1, 0, 0, 0, 0, 0] (- 1)" by (simp add: rep_def ed_weights_def val_def)
  have "even ((2 :: nat) ^ 336 - 4)" by simp
  then show "ed_p dvd (- 1) ^ (2 ^ 336 - 4) - 1" by (simp only: minus_one_power_iff if_True diff_self dvd_0_right)
qed

lemma gnorm_val:
  assumes "length x = 6" "\<forall>l \<in> set x. \<bar>l\<bar> \<le> 2 ^ 60"
  shows "gnorm x = digits ed_widths (val ed_weights x mod ed_p)"
proof -
  have "\<forall>l \<in> set x. \<bar>l\<bar> \<le> 2 ^ 61" using assms(2) by auto
  then show ?thesis using gnorm_digits [OF assms(1)] by (simp add: val_hval)
qed

text \<open>\<open>gnorm\<close> returns the normal form: the base \<open>2 ^ 56\<close> digits of the remainder modulo
  \<open>p\<close>, for negative limbs too. \<open>geq\<close> decides whether two lists of limbs stand for the same
  number modulo \<open>p\<close>.\<close>

theorem ed3363_normal_form:
  assumes "length x = 6" "length y = 6" "\<forall>l \<in> set x. \<bar>l\<bar> \<le> 2 ^ 60" "\<forall>l \<in> set y. \<bar>l\<bar> \<le> 2 ^ 60"
  shows "gnorm x = digits ed_widths (val ed_weights x mod ed_p)
    \<and> (geq x y \<longleftrightarrow> val ed_weights x mod ed_p = val ed_weights y mod ed_p)"
  using gnorm_val [OF assms(1,3)] geq_iff [OF assms] assms(1,2) by (simp add: val_hval mod_eq_dvd_iff)

theorem ed3363_normal_form_witness:
  "gnorm [- 3, 0, 0, 0, 0, 2 ^ 56] = digits ed_widths (val ed_weights [- 3, 0, 0, 0, 0, 2 ^ 56] mod ed_p)
    \<and> (geq [- 3, 0, 0, 0, 0, 2 ^ 56] [0, 0, 0, 0, 0, 0] \<longleftrightarrow>
       val ed_weights [- 3, 0, 0, 0, 0, 2 ^ 56] mod ed_p = val ed_weights [0, 0, 0, 0, 0, 0] mod ed_p)"
  by (rule ed3363_normal_form) simp_all

lemma gfetch_rep:
  assumes "length pv = 6" "num_of_words pv < 2 ^ 336"
  shows "rep ed_weights ed_p (2 ^ 57) (gfetch pv) (num_of_words pv)" "gstore (gfetch pv) = pv"
proof -
  define N where "N = num_of_words pv"
  have pv: "pv = words_of_num 6 N" using words_of_num_of_words [of pv] assms(1) by (simp add: N_def)
  have N: "0 \<le> N" "N < 2 ^ 336" using num_of_words_ge_0 [of pv] assms(2) by (simp_all add: N_def)
  have "rep ed_weights ed_p (2 ^ 57) (digits ed_widths N) N"
    using edr.fold_rep [of N N 0] N by (simp add: fold_digits_def add_first_def ed_weights)
  then show "rep ed_weights ed_p (2 ^ 57) (gfetch pv) (num_of_words pv)" "gstore (gfetch pv) = pv"
    using gstore_digits [OF N] num_of_words_of_num [of 6 N] N by (simp_all add: pv gfetch_words)
qed

lemma gstore_gnorm:
  assumes "length x = 6" "\<forall>l \<in> set x. \<bar>l\<bar> \<le> 2 ^ 60"
  shows "num_of_words (gstore (gnorm x)) = val ed_weights x mod ed_p"
proof -
  define m where "m = val ed_weights x mod ed_p"
  have m: "0 \<le> m" "m < 2 ^ 336" using pos_mod_bound [of ed_p "val ed_weights x"] by (simp_all add: m_def ed_p_def)
  have "gnorm x = digits ed_widths m" using gnorm_val [OF assms] by (simp add: m_def)
  then show ?thesis using gstore_digits [OF m] m num_of_words_of_num [of 6 m] by (simp add: m_def)
qed

text \<open>Buffers of six words: \<open>gfetch\<close> reads a number below \<open>2 ^ 336\<close> as its digits, and \<open>gstore\<close>
  writes the digits of such a number back to the same words; so a number in normal form
  survives the passage to Lisp and back.\<close>

theorem ed3363_buffers:
  assumes "length pv = 6" "num_of_words pv < 2 ^ 336" "length x = 6" "\<forall>l \<in> set x. \<bar>l\<bar> \<le> 2 ^ 60"
  shows "gstore (gfetch pv) = pv \<and> rep ed_weights ed_p (2 ^ 57) (gfetch pv) (num_of_words pv)
    \<and> num_of_words (gstore (gnorm x)) = val ed_weights x mod ed_p"
  using gfetch_rep [OF assms(1,2)] gstore_gnorm [OF assms(3,4)] by blast

theorem ed3363_buffers_witness:
  "gstore (gfetch [1, 2, 3, 4, 5, 6]) = [1, 2, 3, 4, 5, 6]
    \<and> rep ed_weights ed_p (2 ^ 57) (gfetch [1, 2, 3, 4, 5, 6]) (num_of_words [1, 2, 3, 4, 5, 6])
    \<and> num_of_words (gstore (gnorm [- 1, 0, 0, 0, 0, 0])) = val ed_weights [- 1, 0, 0, 0, 0, 0] mod ed_p"
  by (rule ed3363_buffers) simp_all

definition carry_x :: fe where
  "carry_x = [2 ^ 56 - 10, 1, 0, 2 ^ 56 - 1, 2 ^ 56 - 1, 1]"

definition carry_y :: fe where
  "carry_y = [1, 2, 0, 0, 0, 0]"

lemma carry_facts:
  "fits ed_widths carry_x" "fits ed_widths carry_y" "\<not> plain_limbs (gmul carry_x carry_y)"
proof -
  show "fits ed_widths carry_x" "fits ed_widths carry_y" by (simp_all add: carry_x_def carry_y_def ed_widths_def)
  show "\<not> plain_limbs (gmul carry_x carry_y)" by code_simp
qed

text \<open>C26. \<open>gstore\<close> computes the normal form but writes the limbs it was given. For any six limbs of up
  to \<open>2 ^ 60\<close> in absolute value the words hold the OR of the limbs at their places; that is the
  number modulo \<open>p\<close> exactly when no limb is negative and none has a bit beyond 56 which the
  next limb has too. Storing the normal form would always be right, and the product of two
  numbers in normal form need not have such limbs.\<close>

theorem ed3363_gstore:
  assumes "length x = 6" "\<forall>l \<in> set x. \<bar>l\<bar> \<le> 2 ^ 60"
  shows "num_of_words (gstore x) = or_limbs x
    \<and> (ed_p dvd num_of_words (gstore x) - val ed_weights x \<longleftrightarrow> plain_limbs x)
    \<and> num_of_words (gstore (gnorm x)) = val ed_weights x mod ed_p
    \<and> (\<exists>a b. fits ed_widths a \<and> fits ed_widths b \<and> \<not> plain_limbs (gmul a b))"
proof -
  have "\<forall>l \<in> set x. \<bar>l\<bar> < 2 ^ 63" using assms(2) by auto
  then show ?thesis
    using gstore_or [OF assms(1)] gstore_value [OF assms(1)] gstore_gnorm [OF assms] carry_facts by blast
qed

theorem ed3363_gstore_witness:
  "\<not> ed_p dvd num_of_words (gstore (gmul carry_x carry_y)) - val ed_weights (gmul carry_x carry_y)"
proof -
  have "length (gmul carry_x carry_y) = 6" "\<forall>l \<in> set (gmul carry_x carry_y). \<bar>l\<bar> \<le> 2 ^ 60" by code_simp+
  from ed3363_gstore [OF this] show ?thesis using carry_facts(3) by blast
qed

section \<open>Points\<close>

lemma ed3363_digits:
  assumes "length nv = 42" "length w0 = 84" "num_of_bytes nv < 7 * 2 ^ 332"
  shows "length (win4 ed_ops nv w0) = 84" "digits_value (win4 ed_ops nv w0) = num_of_bytes nv"
    "\<forall>d \<in> set (win4 ed_ops nv w0). - 8 \<le> d \<and> d \<le> 7" "0 \<le> last (win4 ed_ops nv w0)" "win4 ed_ops nv w0 \<noteq> []"
proof -
  have n: "nv \<noteq> []" using assms(1) by auto
  have "(16 :: int) ^ (84 - 1) = 2 ^ 332" by simp
  then have "num_of_bytes nv < 7 * 16 ^ (f_panes ed_ops - 1)" using assms(3) by (simp only: ed_ops_simps)
  note w = win4_value [of ed_ops, OF _ _ n this, of w0]
  show "length (win4 ed_ops nv w0) = 84" "digits_value (win4 ed_ops nv w0) = num_of_bytes nv"
    "\<forall>d \<in> set (win4 ed_ops nv w0). - 8 \<le> d \<and> d \<le> 7" "0 \<le> last (win4 ed_ops nv w0)"
    using w assms(1,2) by simp_all
  then show "win4 ed_ops nv w0 \<noteq> []" by auto
qed

text \<open>C27. The scalar: \<open>win4\<close> turns the 42 bytes of a number below \<open>7 * 2 ^ 332\<close> into 84 digits from
  \<open>-8\<close> to \<open>7\<close> of base 16 that add up to it. The last digit is not negative, so that it can
  index the table; digits from \<open>-8\<close> to \<open>8\<close> select the entry or its negation, whatever \<open>T\<close> held.\<close>

theorem ed3363_scalar_digits:
  assumes "length nv = 42" "length w0 = 84" "num_of_bytes nv < 7 * 2 ^ 332"
    and "limbs n T" "\<forall>P \<in> set W. limbs n P" "length W = 9" "\<bar>b\<bar> \<le> 8"
  shows "length (win4 ed_ops nv w0) = 84 \<and> digits_value (win4 ed_ops nv w0) = num_of_bytes nv
    \<and> (\<forall>d \<in> set (win4 ed_ops nv w0). - 8 \<le> d \<and> d \<le> 7) \<and> 0 \<le> win4 ed_ops nv w0 ! 83
    \<and> select T W b = (if b < 0 then neg (W ! nat (- b)) else W ! nat b)"
proof -
  note d = ed3363_digits [OF assms(1-3)]
  have "win4 ed_ops nv w0 ! 83 = last (win4 ed_ops nv w0)" using d(1,5) by (simp add: last_conv_nth)
  then show ?thesis using d select_lookup [OF assms(4-7)] by simp
qed

theorem ed3363_scalar_digits_witness:
  "digits_value (win4 ed_ops (255 # replicate 41 0) (replicate 84 0)) = num_of_bytes (255 # replicate 41 0)"
proof (rule ed3363_scalar_digits [where T = "inf_point ed_ops" and W = "replicate 9 (inf_point ed_ops)" and b = 0 and n = 6,
      THEN conjunct2, THEN conjunct1])
  show "num_of_bytes (255 # replicate 41 0) < 7 * 2 ^ 332" by code_simp
qed (simp_all add: limbs_def inf_point_def fe_zero_def)

text \<open>C28. The point functions follow the addition law of \<open>x\<^sup>2 + y\<^sup>2 = 1 + 11111 x\<^sup>2 y\<^sup>2\<close> modulo
  \<open>p\<close>: for points in memory that stand for points of the curve and a sum with invertible
  denominators, \<open>add_2\<close> (with the last coordinate multiplied by the constant as \<open>precomp\<close> does)
  and \<open>add_proj\<close> return a point that stands for the sum, \<open>double_2\<close> and \<open>double_3\<close> one that stands
  for the double; the sums are points of the curve again.\<close>

theorem ed3363_point_law:
  assumes "point ed_weights ed_p (2 ^ 57) P a" "point ed_weights ed_p (2 ^ 57) Q b"
    and "on_curve ed_p 11111 a" "on_curve ed_p 11111 b" "ed_sum ed_p 11111 a b c" "ed_sum ed_p 11111 a a d"
  shows "point3 ed_weights ed_p (2 ^ 57) (add_2 ed_ops (muli_t ed_ops Q) P) c
    \<and> point3 ed_weights ed_p (2 ^ 57) (add_proj ed_ops P Q) c
    \<and> point3 ed_weights ed_p (2 ^ 57) (double_2 ed_ops P) d
    \<and> point ed_weights ed_p (2 ^ 57) (double_3 ed_ops P) d
    \<and> on_curve ed_p 11111 c \<and> on_curve ed_p 11111 d"
  using ed.add_2_point [OF assms(2,1)] ed.add_proj_point [OF assms(1,2) [THEN point_point3]]
    ed.double_point [OF point_point3 [OF assms(1)]] ed_sum_on_curve [OF assms(3,4,5)] ed_sum_on_curve [OF assms(3,3,6)] assms
  by simp

theorem ed3363_point_law_witness:
  "point3 ed_weights ed_p (2 ^ 57)
    (add_2 ed_ops (muli_t ed_ops (init ed_ops [0, 0, 0, 0, 0, 0] [- 1, 0, 0, 0, 0, 0]))
      (init ed_ops [1, 0, 0, 0, 0, 0] [0, 0, 0, 0, 0, 0])) (- 1, 0)"
proof (rule ed3363_point_law [where a = "(1, 0)" and b = "(0, - 1)" and d = "(0, - 1)", THEN conjunct1])
  show "point ed_weights ed_p (2 ^ 57) (init ed_ops [1, 0, 0, 0, 0, 0] [0, 0, 0, 0, 0, 0]) (1, 0)"
    "point ed_weights ed_p (2 ^ 57) (init ed_ops [0, 0, 0, 0, 0, 0] [- 1, 0, 0, 0, 0, 0]) (0, - 1)"
    by (rule ed.init_point; simp add: rep_def val_def ed_weights_def)+
qed (simp_all add: on_curve_def ed_sum_def)

lemma ed_mul_to_proj:
  assumes nv: "length nv = 42" "length W = 84" "num_of_bytes nv < 7 * 2 ^ 332" "limbs 6 Q"
    and x: "rep ed_weights ed_p (2 ^ 57) x X" and y: "rep ed_weights ed_p (2 ^ 57) y Y"
  shows "\<exists>A. prep3 ed_weights ed_p (2 ^ 57) (mul_to_proj ed_ops Q (win4 ed_ops nv W) (init ed_ops x y)) A
    \<and> multiple 11111 (e_affine X Y) (num_of_bytes nv) A"
proof -
  let ?w = "win4 ed_ops nv W"
  note d = ed3363_digits [OF nv(1-3)]
  have b: "\<forall>b \<in> set ?w. \<bar>b\<bar> \<le> 8" using d(3) by fastforce
  have "prep3 ed_weights ed_p (2 ^ 57) (mul_to_proj ed_ops Q ?w (init ed_ops x y)) (e_ladder 11111 (e_affine X Y) ?w)"
    using ed.mul_to_proj_rep [OF ed.init_rep [OF x y] _ _ b d(4)] d(1,5) nv(4) by simp
  moreover have "multiple 11111 (e_affine X Y) (num_of_bytes nv) (e_ladder 11111 (e_affine X Y) ?w)"
    using multiple_ladder [OF d(5) b d(4)] d(2) by simp
  ultimately show ?thesis by blast
qed

lemma stored_coordinate:
  assumes "rep ed_weights ed_p (2 ^ 57) x a"
  shows "num_of_words (gstore x) = or_limbs x" "ed_p dvd num_of_words (gstore x) - a \<longleftrightarrow> plain_limbs x"
proof -
  have x: "length x = 6" "\<forall>l \<in> set x. \<bar>l\<bar> < 2 ^ 63" and d: "ed_p dvd val ed_weights x - a"
    using assms by (auto simp: rep_def ed_weights_def)
  show "num_of_words (gstore x) = or_limbs x" by (rule gstore_or [OF x(1)])
  have "num_of_words (gstore x) - a = (num_of_words (gstore x) - val ed_weights x) + (val ed_weights x - a)" by simp
  then show "ed_p dvd num_of_words (gstore x) - a \<longleftrightarrow> plain_limbs x"
    using gstore_value [OF x] d by (metis dvd_add_left_iff)
qed

text \<open>C29. \<open>Ed3363_affine_mul\<close>: for a number below \<open>7 * 2 ^ 332\<close> in 42 bytes, whatever the automatic
  arrays held, the ladder ends with limbs \<open>S\<close> that stand for the coordinates of a point which
  the projective formulas reach from the given one by additions, doublings and negations that
  add up to the number. The words stored for a coordinate are the OR of its limbs, and they
  are the coordinate modulo \<open>p\<close> exactly when its limbs are not negative and do not overlap.\<close>

theorem ed3363_affine_mul:
  assumes "length nv = 42" "length W = 84" "num_of_bytes nv < 7 * 2 ^ 332" "limbs 6 Q"
    and "length ptx = 6" "length pty = 6" "num_of_words ptx < 2 ^ 336" "num_of_words pty < 2 ^ 336"
  shows "let S = mul_to_proj ed_ops Q (win4 ed_ops nv W) (init ed_ops (gfetch ptx) (gfetch pty));
      (sx, sy, sz) = Ed3363_affine_mul W Q ptx pty nv
    in \<exists>X Y Z T. multiple 11111 (e_affine (num_of_words ptx) (num_of_words pty)) (num_of_bytes nv) (X, Y, Z, T)
      \<and> prep3 ed_weights ed_p (2 ^ 57) S (X, Y, Z, T)
      \<and> num_of_words sx = or_limbs (px S) \<and> num_of_words sy = or_limbs (py S) \<and> num_of_words sz = or_limbs (pz S)
      \<and> (ed_p dvd num_of_words sx - X \<longleftrightarrow> plain_limbs (px S))
      \<and> (ed_p dvd num_of_words sy - Y \<longleftrightarrow> plain_limbs (py S))
      \<and> (ed_p dvd num_of_words sz - Z \<longleftrightarrow> plain_limbs (pz S))"
proof -
  define S where "S = mul_to_proj ed_ops Q (win4 ed_ops nv W) (init ed_ops (gfetch ptx) (gfetch pty))"
  obtain X Y Z T where m: "prep3 ed_weights ed_p (2 ^ 57) S (X, Y, Z, T)"
    "multiple 11111 (e_affine (num_of_words ptx) (num_of_words pty)) (num_of_bytes nv) (X, Y, Z, T)"
    using ed_mul_to_proj [OF assms(1-4) gfetch_rep(1) [OF assms(5,7)] gfetch_rep(1) [OF assms(6,8)]]
    unfolding S_def by (metis prod_cases4)
  have "Ed3363_affine_mul W Q ptx pty nv = (gstore (px S), gstore (py S), gstore (pz S))"
    by (simp add: Ed3363_affine_mul_def Let_def S_def)
  moreover note stored_coordinate [OF m(1) [unfolded prep3_iff, THEN conjunct1]]
    stored_coordinate [OF m(1) [unfolded prep3_iff, THEN conjunct2, THEN conjunct1]]
    stored_coordinate [OF m(1) [unfolded prep3_iff, THEN conjunct2, THEN conjunct2]]
  ultimately show ?thesis using m unfolding S_def [symmetric] Let_def by auto
qed

theorem ed3363_affine_mul_witness:
  "let S = mul_to_proj ed_ops (inf_point ed_ops) (win4 ed_ops (9 # replicate 41 0) (replicate 84 0))
        (init ed_ops (gfetch [0, 0, 0, 0, 0, 0]) (gfetch [1, 0, 0, 0, 0, 0]));
      (sx, sy, sz) = Ed3363_affine_mul (replicate 84 0) (inf_point ed_ops) [0, 0, 0, 0, 0, 0] [1, 0, 0, 0, 0, 0]
        (9 # replicate 41 0)
    in \<exists>X Y Z T. multiple 11111 (e_affine (num_of_words [0, 0, 0, 0, 0, 0]) (num_of_words [1, 0, 0, 0, 0, 0]))
          (num_of_bytes (9 # replicate 41 0)) (X, Y, Z, T)
      \<and> prep3 ed_weights ed_p (2 ^ 57) S (X, Y, Z, T)
      \<and> num_of_words sx = or_limbs (px S) \<and> num_of_words sy = or_limbs (py S) \<and> num_of_words sz = or_limbs (pz S)
      \<and> (ed_p dvd num_of_words sx - X \<longleftrightarrow> plain_limbs (px S))
      \<and> (ed_p dvd num_of_words sy - Y \<longleftrightarrow> plain_limbs (py S))
      \<and> (ed_p dvd num_of_words sz - Z \<longleftrightarrow> plain_limbs (pz S))"
proof (rule ed3363_affine_mul)
  show "num_of_bytes (9 # replicate 41 0) < 7 * 2 ^ 332" by code_simp
qed (simp_all add: limbs_def inf_point_def fe_zero_def)

text \<open>\<open>Ed3363_projective_add\<close> stores the coordinates of a point that stands for the sum of the
  points the two triples of buffers stand for.\<close>

theorem ed3363_projective_add:
  assumes "\<forall>b \<in> {x1, y1, z1, x2, y2, z2}. length b = 6 \<and> num_of_words b < 2 ^ 336"
    and "represents ed_p (num_of_words x1, num_of_words y1, num_of_words z1, ta) a"
    and "represents ed_p (num_of_words x2, num_of_words y2, num_of_words z2, tb) b"
    and "ed_sum ed_p 11111 b a c"
  shows "\<exists>S. Ed3363_projective_add x1 y1 z1 x2 y2 z2 = (gstore (px S), gstore (py S), gstore (pz S))
    \<and> point3 ed_weights ed_p (2 ^ 57) S c"
proof -
  have r: "rep ed_weights ed_p (2 ^ 57) (gfetch v) (num_of_words v)" if "v \<in> {x1, y1, z1, x2, y2, z2}" for v
    using assms(1) that by (intro gfetch_rep) blast+
  have "prep3 ed_weights ed_p (2 ^ 57) (init_proj ed_ops (gfetch x1) (gfetch y1) (gfetch z1))
      (num_of_words x1, num_of_words y1, num_of_words z1, ta)"
    "prep3 ed_weights ed_p (2 ^ 57) (init_proj ed_ops (gfetch x2) (gfetch y2) (gfetch z2))
      (num_of_words x2, num_of_words y2, num_of_words z2, tb)"
    unfolding prep3_iff init_proj_def ECp.simps by (intro conjI r; simp)+
  then have "point3 ed_weights ed_p (2 ^ 57) (init_proj ed_ops (gfetch x1) (gfetch y1) (gfetch z1)) a"
    "point3 ed_weights ed_p (2 ^ 57) (init_proj ed_ops (gfetch x2) (gfetch y2) (gfetch z2)) b"
    using assms(2,3) unfolding point3_def by blast+
  then have "point3 ed_weights ed_p (2 ^ 57) (add_proj ed_ops (init_proj ed_ops (gfetch x2) (gfetch y2) (gfetch z2))
      (init_proj ed_ops (gfetch x1) (gfetch y1) (gfetch z1))) c"
    using ed.add_proj_point assms(4) by simp
  then show ?thesis unfolding Ed3363_projective_add_def Let_def by blast
qed

theorem ed3363_projective_add_witness:
  "\<exists>S. Ed3363_projective_add [1, 0, 0, 0, 0, 0] [0, 0, 0, 0, 0, 0] [1, 0, 0, 0, 0, 0]
      [2, 0, 0, 0, 0, 0] [0, 0, 0, 0, 0, 0] [2, 0, 0, 0, 0, 0] = (gstore (px S), gstore (py S), gstore (pz S))
    \<and> point3 ed_weights ed_p (2 ^ 57) S (0, - 1)"
proof (rule ed3363_projective_add [where a = "(1, 0)" and b = "(1, 0)" and ta = 0 and tb = 0])
  have "coprime 2 ed_p" by (simp add: ed_p_def)
  then show "represents ed_p (num_of_words [2, 0, 0, 0, 0, 0], num_of_words [0, 0, 0, 0, 0, 0], num_of_words [2, 0, 0, 0, 0, 0], 0) (1, 0)"
    by (simp add: represents_def )
qed (simp_all add: represents_def ed_sum_def)

text \<open>From projective coordinates whose third one has the power \<open>p - 1\<close> equal to \<open>1\<close>:
  \<open>Ed3363_to_affine\<close> stores the affine coordinates and the inverse, and
  \<open>Ed3363_projective_mul\<close> the coordinates of a multiple of the affine point.\<close>

theorem ed3363_from_projective:
  assumes "\<forall>b \<in> {vx, vy, vz}. length b = 6 \<and> num_of_words b < 2 ^ 336"
    and "represents ed_p (num_of_words vx, num_of_words vy, num_of_words vz, t) (u, v)"
    and "ed_p dvd num_of_words vz ^ (2 ^ 336 - 4) - 1"
    and "length nv = 42" "length W = 84" "num_of_bytes nv < 7 * 2 ^ 332" "limbs 6 Q"
  shows "\<exists>x y z. Ed3363_to_affine vx vy vz = (gstore x, gstore y, gstore z)
    \<and> rep ed_weights ed_p (2 ^ 57) x u \<and> rep ed_weights ed_p (2 ^ 57) y v
    \<and> rep ed_weights ed_p (2 ^ 57) (gmul z (gfetch vz)) 1
    \<and> (\<exists>S A. Ed3363_projective_mul W Q vx vy vz nv = (gstore (px S), gstore (py S), gstore (pz S))
        \<and> prep3 ed_weights ed_p (2 ^ 57) S A \<and> multiple 11111 (e_affine u v) (num_of_bytes nv) A)"
proof -
  define X Y Z where "X = num_of_words vx" and "Y = num_of_words vy" and "Z = num_of_words vz"
  have r: "rep ed_weights ed_p (2 ^ 60) (gfetch vx) X" "rep ed_weights ed_p (2 ^ 60) (gfetch vy) Y"
    "rep ed_weights ed_p (2 ^ 60) (gfetch vz) Z"
    unfolding X_def Y_def Z_def using assms(1) by (auto intro!: rep_weaken [OF gfetch_rep(1)])
  define I where "I = Z ^ (2 ^ 336 - 5)"
  have z: "rep ed_weights ed_p (2 ^ 60) (ginv (gfetch vz)) I"
    and z1: "rep ed_weights ed_p (2 ^ 57) (gmul (ginv (gfetch vz)) (gfetch vz)) 1"
    using ed3363_inv_facts [OF r(3)] assms(3) by (simp_all only: I_def Z_def)
  have "(2 :: nat) ^ 336 - 4 = Suc (2 ^ 336 - 5)" by simp
  then have I: "ed_p dvd I * Z - 1" using assms(3) by (simp only: power_Suc mult.commute I_def Z_def)
  have p: "ed_p dvd X - u * Z" "ed_p dvd Y - v * Z" using assms(2) by (simp_all add: represents_def X_def Y_def Z_def)
  have u: "ed_p dvd I * X - u" by (rule dvd_combine2 [OF p(1) I, where u = I and v = u]) algebra
  have v: "ed_p dvd I * Y - v" by (rule dvd_combine2 [OF p(2) I, where u = I and v = v]) algebra
  note x = rep_cong [OF gmul_rep [OF z r(1)] u] and y = rep_cong [OF gmul_rep [OF z r(2)] v]
  have u': "ed_p dvd X * I - u" and v': "ed_p dvd Y * I - v" using u v by (simp_all only: mult.commute)
  have w: "(2 :: int) ^ 57 \<le> 2 ^ 61" by simp
  note s = scr_rep [OF rep_weaken [OF rep_cong [OF gmul_rep [OF r(1) z] u'] w]]
    scr_rep [OF rep_weaken [OF rep_cong [OF gmul_rep [OF r(2) z] v'] w]]
  note m = ed_mul_to_proj [OF assms(4-7) s]
  show ?thesis
    unfolding Ed3363_to_affine_def Ed3363_projective_mul_def normz_def Let_def prod.case ed_ops_simps gcopy_def
    using x y z1 m by blast
qed

theorem ed3363_from_projective_witness:
  "\<exists>x y z. Ed3363_to_affine [0, 0, 0, 0, 0, 0] [1, 0, 0, 0, 0, 0] [1, 0, 0, 0, 0, 0] = (gstore x, gstore y, gstore z)
    \<and> rep ed_weights ed_p (2 ^ 57) x 0 \<and> rep ed_weights ed_p (2 ^ 57) y 1
    \<and> rep ed_weights ed_p (2 ^ 57) (gmul z (gfetch [1, 0, 0, 0, 0, 0])) 1
    \<and> (\<exists>S A. Ed3363_projective_mul (replicate 84 0) (inf_point ed_ops) [0, 0, 0, 0, 0, 0] [1, 0, 0, 0, 0, 0] [1, 0, 0, 0, 0, 0]
          (9 # replicate 41 0) = (gstore (px S), gstore (py S), gstore (pz S))
        \<and> prep3 ed_weights ed_p (2 ^ 57) S A \<and> multiple 11111 (e_affine 0 1) (num_of_bytes (9 # replicate 41 0)) A)"
proof (rule ed3363_from_projective [where t = 0])
  show "num_of_bytes (9 # replicate 41 0) < 7 * 2 ^ 332" by code_simp
  have "num_of_words [1, 0, 0, 0, 0, 0] = 1" by simp
  then show "ed_p dvd num_of_words [1, 0, 0, 0, 0, 0] ^ (2 ^ 336 - 4) - 1"
    by (simp only: power_one diff_self dvd_0_right)
qed (simp_all add: represents_def limbs_def inf_point_def fe_zero_def)

end
