(* ===== verification/Curve1174.thy ===== *)
theory Curve1174
  imports Edwards
begin

unbundle bit_operations_syntax

text \<open>
  The field functions of \<open>curve1174_intf.cpp\<close>, for the prime \<open>2 ^ 251 - 9\<close> on five limbs of 51,
  51, 51, 51 and 47 bits, the square root, and the functions exported to Lisp. The names carry
  the curve, as \<open>ed3363_intf.cpp\<close> uses the same ones. The second \<open>gmul\<close> of the file is
  compiled out.
\<close>

definition bot51bits :: int where
  "bot51bits = mask 51"

definition bot47bits :: int where
  "bot47bits = mask 47"

definition scr_1174 :: "fe \<Rightarrow> fe" where
  "scr_1174 w =
    (let t0 = w ! 0 AND bot51bits;
         t1 = w64 (w ! 1 + drop_bit 51 (w ! 0)); w1 = t1 AND bot51bits;
         t2 = w64 (w ! 2 + drop_bit 51 t1); w2 = t2 AND bot51bits;
         t1 = w64 (w ! 3 + drop_bit 51 t2); w3 = t1 AND bot51bits;
         t2 = w64 (w ! 4 + drop_bit 51 t1); w4 = t2 AND bot47bits;
         w0 = w64 (t0 + 9 * drop_bit 47 t2)
     in [w0, w1, w2, w3, w4])"

definition gmuli_1174 :: "fe \<Rightarrow> int \<Rightarrow> fe" where
  "gmuli_1174 w i =
    (let t = w128 (w ! 0 * i); w0 = w64 t AND bot51bits;
         t = w128 (w ! 1 * i + drop_bit 51 t); w1 = w64 t AND bot51bits;
         t = w128 (w ! 2 * i + drop_bit 51 t); w2 = w64 t AND bot51bits;
         t = w128 (w ! 3 * i + drop_bit 51 t); w3 = w64 t AND bot51bits;
         t = w128 (w ! 4 * i + drop_bit 51 t); w4 = w64 t AND bot47bits;
         w0 = w64 (w0 + 9 * drop_bit 47 t)
     in [w0, w1, w2, w3, w4])"

definition gsqr_1174 :: "fe \<Rightarrow> fe" where
  "gsqr_1174 x =
    (let t0 = w128 (2 * (x ! 0 * x ! 4 + x ! 1 * x ! 3) + x ! 2 * x ! 2);
         z4 = w64 t0 AND bot47bits;
         t1 = w128 (x ! 0 * x ! 0 + 288 * (x ! 1 * x ! 4 + x ! 2 * x ! 3) + 9 * drop_bit 47 t0);
         z0 = w64 t1 AND bot51bits;
         t0 = w128 (2 * x ! 0 * x ! 1 + 288 * x ! 2 * x ! 4 + 144 * x ! 3 * x ! 3 + drop_bit 51 t1);
         z1 = w64 t0 AND bot51bits;
         t1 = w128 (x ! 1 * x ! 1 + 2 * x ! 0 * x ! 2 + 288 * x ! 3 * x ! 4 + drop_bit 51 t0);
         z2 = w64 t1 AND bot51bits;
         t0 = w128 (144 * x ! 4 * x ! 4 + 2 * (x ! 0 * x ! 3 + x ! 1 * x ! 2) + drop_bit 51 t1);
         z3 = w64 t0 AND bot51bits;
         t1 = w128 (z4 + drop_bit 51 t0);
         z4 = w64 t1 AND bot47bits;
         z0 = w64 (z0 + 9 * drop_bit 47 t1)
     in [z0, z1, z2, z3, z4])"

definition gmul_1174 :: "fe \<Rightarrow> fe \<Rightarrow> fe" where
  "gmul_1174 x y =
    (let t0 = w128 (x ! 0 * y ! 4 + x ! 4 * y ! 0 + x ! 1 * y ! 3 + x ! 3 * y ! 1 + x ! 2 * y ! 2);
         z4 = w64 t0 AND bot47bits;
         t1 = w128 (x ! 0 * y ! 0 + 144 * (x ! 1 * y ! 4 + x ! 4 * y ! 1 + x ! 2 * y ! 3 + x ! 3 * y ! 2) + 9 * drop_bit 47 t0);
         z0 = w64 t1 AND bot51bits;
         t0 = w128 (x ! 0 * y ! 1 + x ! 1 * y ! 0 + 144 * (x ! 3 * y ! 3 + x ! 2 * y ! 4 + x ! 4 * y ! 2) + drop_bit 51 t1);
         z1 = w64 t0 AND bot51bits;
         t1 = w128 (x ! 1 * y ! 1 + x ! 0 * y ! 2 + x ! 2 * y ! 0 + 144 * (x ! 3 * y ! 4 + x ! 4 * y ! 3) + drop_bit 51 t0);
         z2 = w64 t1 AND bot51bits;
         t0 = w128 (144 * x ! 4 * y ! 4 + x ! 0 * y ! 3 + x ! 3 * y ! 0 + x ! 1 * y ! 2 + x ! 2 * y ! 1 + drop_bit 51 t1);
         z3 = w64 t0 AND bot51bits;
         t1 = w128 (z4 + drop_bit 51 t0);
         z4 = w64 t1 AND bot47bits;
         z0 = w64 (z0 + 9 * drop_bit 47 t1)
     in [z0, z1, z2, z3, z4])"

section \<open>Inverse and square root\<close>

definition ginv_1174 :: "fe \<Rightarrow> fe" where
  "ginv_1174 x =
    (let w = gsqr_1174 x;
         x3 = gmul_1174 x w;
         x5 = gmul_1174 w x3;
         w = gsqr_1174 x3;
         t1 = gsqr_1174 w;
         w = gmul_1174 x3 t1;
         t1 = gsqr_1174 w;
         w = gsqr_1174 t1;
         t1 = gmul_1174 x3 w;
         t2 = gcopy t1;
         t1 = sqr_pairs gsqr_1174 3 t1;
         w = gmul_1174 t1 t2;
         t1 = gsqr_1174 w;
         w = gsqr_1174 t1;
         t1 = gmul_1174 x3 w;
         t2 = gcopy t1;
         t1 = sqr_pairs gsqr_1174 7 t1;
         w = gmul_1174 t1 t2;
         t1 = gsqr_1174 w;
         w = gsqr_1174 t1;
         t1 = gmul_1174 x3 w;
         t2 = gcopy t1;
         t1 = sqr_pairs gsqr_1174 15 t1;
         w = gmul_1174 t1 t2;
         t2 = gcopy w;
         w = sqr_pairs gsqr_1174 30 w;
         t1 = gmul_1174 w t2;
         w = gsqr_1174 t1;
         t1 = gsqr_1174 w;
         w = gmul_1174 x3 t1;
         t2 = gcopy w;
         w = sqr_pairs gsqr_1174 61 w;
         t1 = gmul_1174 w t2;
         w = gsqr_1174 t1;
         t1 = gmul_1174 x w;
         w = gsqr_1174 t1;
         t1 = gsqr_1174 w;
         w = gmul_1174 x3 t1;
         t1 = gsqr_1174 w;
         w = gsqr_1174 t1;
         t1 = gsqr_1174 w;
         w = gsqr_1174 t1
     in gmul_1174 x5 w)"

definition gnorm_1174 :: "fe \<Rightarrow> fe" where
  "gnorm_1174 x =
    (let tmp = gneg x;
         tmp = scr_1174 tmp;
         y = gneg tmp;
         y = scr_1174 y;
         y = scr_1174 y
     in y)"

definition geq_1174 :: "fe \<Rightarrow> fe \<Rightarrow> bool" where
  "geq_1174 x y =
    (let z1 = gsub x y;
         z2 = gnorm_1174 z1
     in z2 ! 0 = 0 \<and> z2 ! 1 = 0 \<and> z2 ! 2 = 0 \<and> z2 ! 3 = 0 \<and> z2 ! 4 = 0)"

definition gsqrt :: "fe \<Rightarrow> fe \<times> bool" where
  "gsqrt x =
    (let tmp1 = gsqr_1174 x;
         bits_2 = gmul_1174 x tmp1;
         tmp1 = gcopy bits_2;
         tmp2 = gsqr_1174 tmp1;
         tmp1 = gsqr_1174 tmp2;
         bits_4 = gmul_1174 bits_2 tmp1;
         tmp1 = gcopy bits_4;
         tmp1 = sqr_pairs gsqr_1174 2 tmp1;
         bits_8 = gmul_1174 bits_4 tmp1;
         tmp1 = gcopy bits_8;
         tmp1 = sqr_pairs gsqr_1174 4 tmp1;
         bits_16 = gmul_1174 bits_8 tmp1;
         tmp1 = gcopy bits_16;
         tmp1 = sqr_pairs gsqr_1174 8 tmp1;
         bits_32 = gmul_1174 bits_16 tmp1;
         tmp1 = gcopy bits_32;
         tmp1 = sqr_pairs gsqr_1174 16 tmp1;
         bits_64 = gmul_1174 bits_32 tmp1;
         tmp1 = gcopy bits_64;
         tmp1 = sqr_pairs gsqr_1174 32 tmp1;
         bits_128 = gmul_1174 bits_64 tmp1;
         tmp1 = gcopy bits_128;
         tmp1 = sqr_pairs gsqr_1174 32 tmp1;
         ans = gmul_1174 bits_64 tmp1;
         tmp1 = gcopy ans;
         tmp1 = sqr_pairs gsqr_1174 16 tmp1;
         ans = gmul_1174 bits_32 tmp1;
         tmp1 = gcopy ans;
         tmp1 = sqr_pairs gsqr_1174 8 tmp1;
         ans = gmul_1174 bits_16 tmp1;
         tmp1 = gcopy ans;
         tmp1 = sqr_pairs gsqr_1174 4 tmp1;
         ans = gmul_1174 bits_8 tmp1;
         tmp1 = gsqr_1174 ans;
         ans = gcopy tmp1;
         y = gcopy ans;
         tmp1 = gsqr_1174 y
     in (y, geq_1174 tmp1 x))"

definition c1174_ops :: field_ops where
  "c1174_ops = \<lparr>f_mul = gmul_1174, f_sqr = gsqr_1174, f_muli = gmuli_1174, f_scr = scr_1174, f_inv = ginv_1174,
     f_limbs = 5, kCurveD = - 1174, f_panes = 64\<rparr>"

section \<open>Buffers\<close>

definition gfetch_1174 :: "u64 list \<Rightarrow> fe" where
  "gfetch_1174 pv =
    (let t1 = pv ! 0; w0 = uint (t1 AND mask 51);
         t2 = pv ! 1; w1 = uint ((push_bit 13 t2 OR drop_bit 51 t1) AND mask 51);
         t1 = pv ! 2; w2 = uint ((push_bit 26 t1 OR drop_bit 38 t2) AND mask 51);
         t2 = pv ! 3; w3 = uint ((push_bit 39 t2 OR drop_bit 25 t1) AND mask 51);
         w4 = uint (drop_bit 12 t2 AND mask 47)
     in [w0, w1, w2, w3, w4])"

definition gstore_1174 :: "fe \<Rightarrow> u64 list" where
  "gstore_1174 w =
    (let wn = gnorm_1174 w;
         t1 = word_of_int (wn ! 0); t2 = word_of_int (wn ! 1);
         v0 = t1 OR push_bit 51 t2;
         t1 = word_of_int (wn ! 2);
         v1 = drop_bit 13 t2 OR push_bit 38 t1;
         t2 = word_of_int (wn ! 3);
         v2 = drop_bit 26 t1 OR push_bit 25 t2;
         t1 = word_of_int (wn ! 4);
         v3 = drop_bit 39 t2 OR push_bit 12 t1
     in [v0, v1, v2, v3])"

section \<open>Functions for Lisp\<close>

definition Curve1174_affine_mul :: "int list \<Rightarrow> ECp \<Rightarrow> u64 list \<Rightarrow> u64 list \<Rightarrow> byte list \<Rightarrow>
    u64 list \<times> u64 list \<times> u64 list" where
  "Curve1174_affine_mul W Q ptx pty nv =
    (let w = win4 c1174_ops nv W;
         x = gfetch_1174 ptx;
         y = gfetch_1174 pty;
         P = init c1174_ops x y;
         P = mul_to_proj c1174_ops Q w P
     in (gstore_1174 (px P), gstore_1174 (py P), gstore_1174 (pz P)))"

definition Curve1174_projective_mul :: "int list \<Rightarrow> ECp \<Rightarrow> u64 list \<Rightarrow> u64 list \<Rightarrow> u64 list \<Rightarrow> byte list \<Rightarrow>
    u64 list \<times> u64 list \<times> u64 list" where
  "Curve1174_projective_mul W Q ptx pty ptz nv =
    (let w = win4 c1174_ops nv W;
         x = gfetch_1174 ptx;
         y = gfetch_1174 pty;
         z = gfetch_1174 ptz;
         (x, y, z) = normz c1174_ops x y z;
         P = init c1174_ops x y;
         P = mul_to_proj c1174_ops Q w P
     in (gstore_1174 (px P), gstore_1174 (py P), gstore_1174 (pz P)))"

definition Curve1174_projective_add :: "u64 list \<Rightarrow> u64 list \<Rightarrow> u64 list \<Rightarrow> u64 list \<Rightarrow> u64 list \<Rightarrow> u64 list \<Rightarrow>
    u64 list \<times> u64 list \<times> u64 list" where
  "Curve1174_projective_add lp1x lp1y lp1z lp2x lp2y lp2z =
    (let P = init_proj c1174_ops (gfetch_1174 lp1x) (gfetch_1174 lp1y) (gfetch_1174 lp1z);
         Q = init_proj c1174_ops (gfetch_1174 lp2x) (gfetch_1174 lp2y) (gfetch_1174 lp2z);
         P = add_proj c1174_ops Q P
     in (gstore_1174 (px P), gstore_1174 (py P), gstore_1174 (pz P)))"

definition Curve1174_to_affine :: "u64 list \<Rightarrow> u64 list \<Rightarrow> u64 list \<Rightarrow> u64 list \<times> u64 list \<times> u64 list" where
  "Curve1174_to_affine lpx lpy lpz =
    (let x = gfetch_1174 lpx;
         y = gfetch_1174 lpy;
         z = ginv_1174 (gfetch_1174 lpz)
     in (gstore_1174 (gmul_1174 z x), gstore_1174 (gmul_1174 z y), gstore_1174 z))"

definition g1173_sqrt :: "u64 list \<Rightarrow> u64 list \<times> bool" where
  "g1173_sqrt lpsrc =
    (let src = gfetch_1174 lpsrc;
         (dst, ok) = gsqrt src
     in (gstore_1174 dst, ok))"

end
