(* ===== verification/Curve1174_Field.thy ===== *)
theory Curve1174_Field
  imports Curve1174 Radix_Field
begin

unbundle bit_operations_syntax

text \<open>
  The field functions of \<open>curve1174_intf.cpp\<close> compute modulo \<open>2 ^ 251 - 9\<close> and overflow never affects their results,
  for limbs up to \<open>2 ^ 55\<close> in absolute value; their results have limbs up to \<open>2 ^ 52\<close>.
\<close>

definition c1174_p :: int where
  "c1174_p = 2 ^ 251 - 9"

definition c1174_widths :: "nat list" where
  "c1174_widths = [51, 51, 51, 51, 47]"

definition c1174_weights :: "int list" where
  "c1174_weights = [1, 2 ^ 51, 2 ^ 102, 2 ^ 153, 2 ^ 204]"

lemma c1174_widths_props [simp]: "length c1174_widths = 5" "sum_list c1174_widths = 251" "hd c1174_widths = 51"
  by (simp_all add: c1174_widths_def)

lemma c1174_weights: "weights c1174_widths = c1174_weights"
  by (simp add: c1174_widths_def c1174_weights_def)

interpretation c1174r: radix_field c1174_widths 9 c1174_p
  by unfold_locales (auto simp: c1174_widths_def c1174_p_def)

lemma val_hval_1174: "val c1174_weights x = hval c1174_widths x"
  by (simp add: c1174_weights [symmetric] val_weights)

lemma list5_cases:
  assumes "length l = 5"
  obtains a b c d e where "l = [a, b, c, d, e]"
proof -
  have "length l = Suc (Suc (Suc (Suc (Suc 0))))" using assms by simp
  then show ?thesis using that by (auto simp: length_Suc_conv)
qed

lemma rep_limbs_1174:
  assumes "rep c1174_weights p B x a"
  shows "length x = 5" "i < 5 \<Longrightarrow> \<bar>x ! i\<bar> \<le> B"
  using assms by (simp_all add: rep_def c1174_weights_def)

section \<open>The carry chain\<close>

lemma w64_mask51: "w64 t AND bot51bits = t mod 2 ^ 51"
  unfolding bot51bits_def by (rule w64_and_mask) simp

lemma w64_mask47: "w64 t AND bot47bits = t mod 2 ^ 47"
  unfolding bot47bits_def by (rule w64_and_mask) simp

lemma mask51: "t AND bot51bits = t mod 2 ^ 51"
  by (simp add: bot51bits_def take_bit_eq_mod flip: take_bit_eq_mask)

lemma mask47: "t AND bot47bits = t mod 2 ^ 47"
  by (simp add: bot47bits_def take_bit_eq_mod flip: take_bit_eq_mask)

lemma drop_5147: "drop_bit 51 t = t div 2 ^ 51" "drop_bit 47 t = t div 2 ^ 47" for t :: int
  by (simp_all add: drop_bit_eq_div)

lemma val_1174:
  "val c1174_weights [x0, x1, x2, x3, x4] =
    x0 + 2 ^ 51 * x1 + (2 ^ 51) ^ 2 * x2 + (2 ^ 51) ^ 3 * x3 + (2 ^ 51) ^ 4 * x4"
  by (simp add: val_def c1174_weights_def)

lemma wrap_chain_1174:
  "wrap_chain f c1174_widths 9 [a, b, c, d, e] =
    (let t0 = f a; t1 = f (b + t0 div 2 ^ 51); t2 = f (c + t1 div 2 ^ 51); t3 = f (d + t2 div 2 ^ 51);
         t4 = f (e + t3 div 2 ^ 51)
     in [w64 (t0 mod 2 ^ 51 + 9 * (t4 div 2 ^ 47)), t1 mod 2 ^ 51, t2 mod 2 ^ 51, t3 mod 2 ^ 51, t4 mod 2 ^ 47])"
  by (simp only: wrap_chain_def c1174_widths_def wripple.simps Let_def prod.case add_0_right list_update.simps nat.case nth_Cons_0)

text \<open>The chain of \<open>gmul\<close> and \<open>gsqr\<close>, which carry the last coefficient first.\<close>

definition chain5 :: "int \<Rightarrow> int \<Rightarrow> int \<Rightarrow> int \<Rightarrow> int \<Rightarrow> fe" where
  "chain5 d0 d1 d2 d3 c4 =
    (let t0 = w128 c4; z4 = w64 t0 AND bot47bits;
         t1 = w128 (d0 + 9 * drop_bit 47 t0); z0 = w64 t1 AND bot51bits;
         t0 = w128 (d1 + drop_bit 51 t1); z1 = w64 t0 AND bot51bits;
         t1 = w128 (d2 + drop_bit 51 t0); z2 = w64 t1 AND bot51bits;
         t0 = w128 (d3 + drop_bit 51 t1); z3 = w64 t0 AND bot51bits;
         t1 = w128 (z4 + drop_bit 51 t0); z4 = w64 t1 AND bot47bits;
         z0 = w64 (z0 + 9 * drop_bit 47 t1)
     in [z0, z1, z2, z3, z4])"

lemma chain5_rep:
  assumes "\<bar>d0\<bar> \<le> 600 * 2 ^ 110" "\<bar>d1\<bar> \<le> 600 * 2 ^ 110" "\<bar>d2\<bar> \<le> 600 * 2 ^ 110" "\<bar>d3\<bar> \<le> 600 * 2 ^ 110"
    "\<bar>c4\<bar> \<le> 600 * 2 ^ 110"
  shows "rep c1174_weights c1174_p (2 ^ 52) (chain5 d0 d1 d2 d3 c4)
    (d0 + 2 ^ 51 * d1 + (2 ^ 51) ^ 2 * d2 + (2 ^ 51) ^ 3 * d3 + (2 ^ 51) ^ 4 * c4)"
proof -
  let ?q = "c4 div 2 ^ last c1174_widths" and ?ds = "[d0, d1, d2, d3]"
  have l: "last c1174_widths = 47" by (simp add: c1174_widths_def)
  have c: "w128 c4 = c4" using assms(5) by (intro w128_abs) simp
  have u: "?ds[0 := ?ds ! 0 + 9 * ?q] @ [c4 mod 2 ^ last c1174_widths] = [d0 + 9 * (c4 div 2 ^ 47), d1, d2, d3, c4 mod 2 ^ 47]"
    by (simp add: l)
  have "chain5 d0 d1 d2 d3 c4 = wrap_chain w128 c1174_widths 9 (?ds[0 := ?ds ! 0 + 9 * ?q] @ [c4 mod 2 ^ last c1174_widths])"
    unfolding u wrap_chain_1174 chain5_def Let_def w64_mask51 w64_mask47 drop_5147 c by (rule refl)
  moreover have "rep (weights c1174_widths) c1174_p (2 ^ (hd c1174_widths + 1))
      (wrap_chain w128 c1174_widths 9 (?ds[0 := ?ds ! 0 + 9 * ?q] @ [c4 mod 2 ^ last c1174_widths])) (hval c1174_widths (?ds @ [c4]))"
  proof (rule c1174r.top_rep [where B = "700 * 2 ^ 110"])
    show "w128 t = t" if "\<bar>t\<bar> \<le> 2 * (700 * 2 ^ 110)" for t using that by (intro w128_abs) simp
    have "\<bar>c4 div 2 ^ 47\<bar> \<le> 2 ^ 110"
      using zdiv_mono1 [of c4 "600 * 2 ^ 110" "2 ^ 47"] zdiv_mono1 [of "- (600 * 2 ^ 110)" c4 "2 ^ 47"] assms(5)
      by (simp add: abs_le_iff minus_le_iff)
    then have h: "\<bar>d0 + 9 * (c4 div 2 ^ 47)\<bar> \<le> 700 * 2 ^ 110" using assms(1) by linarith
    have m: "600 * 2 ^ 110 \<le> (700 * 2 ^ 110 :: int)" by simp
    show "\<forall>e \<in> set (?ds[0 := ?ds ! 0 + 9 * ?q]). \<bar>e\<bar> \<le> 700 * 2 ^ 110"
      using h order_trans [OF assms(2) m] order_trans [OF assms(3) m] order_trans [OF assms(4) m]
      by (simp only: l list_update.simps nat.case nth_Cons_0 list.set ball_simps HOL.simp_thms)
  qed simp_all
  ultimately show ?thesis by (simp add: c1174_weights val_hval_1174 [symmetric] val_1174)
qed

section \<open>Multiplication and squaring\<close>

lemma school_value:
  fixes b W :: int
  assumes "b ^ 5 = 16 * W"
  shows "(x0 * y0 + 144 * (x1 * y4 + x4 * y1 + x2 * y3 + x3 * y2))
    + b * (x0 * y1 + x1 * y0 + 144 * (x3 * y3 + x2 * y4 + x4 * y2))
    + b ^ 2 * (x1 * y1 + x0 * y2 + x2 * y0 + 144 * (x3 * y4 + x4 * y3))
    + b ^ 3 * (144 * x4 * y4 + x0 * y3 + x3 * y0 + x1 * y2 + x2 * y1)
    + b ^ 4 * (x0 * y4 + x4 * y0 + x1 * y3 + x3 * y1 + x2 * y2)
    - (x0 + b * x1 + b ^ 2 * x2 + b ^ 3 * x3 + b ^ 4 * x4) * (y0 + b * y1 + b ^ 2 * y2 + b ^ 3 * y3 + b ^ 4 * y4)
    = (W - 9) * (- 16 * ((x1 * y4 + x4 * y1 + x2 * y3 + x3 * y2) + b * (x3 * y3 + x2 * y4 + x4 * y2)
        + b ^ 2 * (x3 * y4 + x4 * y3) + b ^ 3 * (x4 * y4)))"
  using assms by algebra

lemma gmul_1174_rep:
  assumes x: "rep c1174_weights c1174_p (2 ^ 55) x a" and y: "rep c1174_weights c1174_p (2 ^ 55) y b"
  shows "rep c1174_weights c1174_p (2 ^ 52) (gmul_1174 x y) (a * b)"
proof -
  obtain x0 x1 x2 x3 x4 where X: "x = [x0, x1, x2, x3, x4]" by (rule list5_cases [OF rep_limbs_1174(1) [OF x]])
  obtain y0 y1 y2 y3 y4 where Y: "y = [y0, y1, y2, y3, y4]" by (rule list5_cases [OF rep_limbs_1174(1) [OF y]])
  have u: "\<bar>x0\<bar> \<le> 2 ^ 55" "\<bar>x1\<bar> \<le> 2 ^ 55" "\<bar>x2\<bar> \<le> 2 ^ 55" "\<bar>x3\<bar> \<le> 2 ^ 55" "\<bar>x4\<bar> \<le> 2 ^ 55"
    and v: "\<bar>y0\<bar> \<le> 2 ^ 55" "\<bar>y1\<bar> \<le> 2 ^ 55" "\<bar>y2\<bar> \<le> 2 ^ 55" "\<bar>y3\<bar> \<le> 2 ^ 55" "\<bar>y4\<bar> \<le> 2 ^ 55"
    using x y by (simp_all add: rep_def X Y)
  define K :: int where "K = 2 ^ 110"
  have K0: "0 \<le> K" by (simp add: K_def)
  have m: "\<bar>s * t\<bar> \<le> K" if "\<bar>s\<bar> \<le> 2 ^ 55" "\<bar>t\<bar> \<le> 2 ^ 55" for s t :: int
    using abs_product [OF that] by (simp add: K_def)
  note u1 = m [THEN abs_le_D1] and u2 = m [THEN abs_le_D2]
  let ?d0 = "x0 * y0 + 144 * (x1 * y4 + x4 * y1 + x2 * y3 + x3 * y2)"
  let ?d1 = "x0 * y1 + x1 * y0 + 144 * (x3 * y3 + x2 * y4 + x4 * y2)"
  let ?d2 = "x1 * y1 + x0 * y2 + x2 * y0 + 144 * (x3 * y4 + x4 * y3)"
  let ?d3 = "144 * x4 * y4 + x0 * y3 + x3 * y0 + x1 * y2 + x2 * y1"
  let ?c4 = "x0 * y4 + x4 * y0 + x1 * y3 + x3 * y1 + x2 * y2"
  have "\<bar>?d0\<bar> \<le> 600 * K" "\<bar>?d1\<bar> \<le> 600 * K" "\<bar>?d2\<bar> \<le> 600 * K" "\<bar>?d3\<bar> \<le> 600 * K" "\<bar>?c4\<bar> \<le> 600 * K"
    unfolding mult.assoc distrib_left_numeral
    subgoal by (rule abs_leI; use u1 [OF u(1) v(1)] u2 [OF u(1) v(1)] u1 [OF u(2) v(5)] u2 [OF u(2) v(5)] u1 [OF u(5) v(2)] u2 [OF u(5) v(2)] u1 [OF u(3) v(4)] u2 [OF u(3) v(4)] u1 [OF u(4) v(3)] u2 [OF u(4) v(3)] K0 in linarith)
    subgoal by (rule abs_leI; use u1 [OF u(1) v(2)] u2 [OF u(1) v(2)] u1 [OF u(2) v(1)] u2 [OF u(2) v(1)] u1 [OF u(4) v(4)] u2 [OF u(4) v(4)] u1 [OF u(3) v(5)] u2 [OF u(3) v(5)] u1 [OF u(5) v(3)] u2 [OF u(5) v(3)] K0 in linarith)
    subgoal by (rule abs_leI; use u1 [OF u(2) v(2)] u2 [OF u(2) v(2)] u1 [OF u(1) v(3)] u2 [OF u(1) v(3)] u1 [OF u(3) v(1)] u2 [OF u(3) v(1)] u1 [OF u(4) v(5)] u2 [OF u(4) v(5)] u1 [OF u(5) v(4)] u2 [OF u(5) v(4)] K0 in linarith)
    subgoal by (rule abs_leI; use u1 [OF u(5) v(5)] u2 [OF u(5) v(5)] u1 [OF u(1) v(4)] u2 [OF u(1) v(4)] u1 [OF u(4) v(1)] u2 [OF u(4) v(1)] u1 [OF u(2) v(3)] u2 [OF u(2) v(3)] u1 [OF u(3) v(2)] u2 [OF u(3) v(2)] K0 in linarith)
    subgoal by (rule abs_leI; use u1 [OF u(1) v(5)] u2 [OF u(1) v(5)] u1 [OF u(5) v(1)] u2 [OF u(5) v(1)] u1 [OF u(2) v(4)] u2 [OF u(2) v(4)] u1 [OF u(4) v(2)] u2 [OF u(4) v(2)] u1 [OF u(3) v(3)] u2 [OF u(3) v(3)] K0 in linarith)
    done
  note bd = this [unfolded K_def]
  have e: "gmul_1174 x y = chain5 ?d0 ?d1 ?d2 ?d3 ?c4"
    unfolding X Y gmul_1174_def chain5_def
    by (simp only: Let_def nth_Cons_0 nth_Cons_Suc numeral_nat One_nat_def)
  have p: "c1174_p = 2 ^ 251 - 9" by (simp add: c1174_p_def)
  show ?thesis
  proof (rule rep_mult_cong [OF x y chain5_rep [OF bd, folded e]])
    have "(2 ^ 51) ^ 5 = 16 * (2 ^ 251 :: int)" by simp
    from school_value [OF this] show "c1174_p dvd ?d0 + 2 ^ 51 * ?d1 + (2 ^ 51) ^ 2 * ?d2 + (2 ^ 51) ^ 3 * ?d3
        + (2 ^ 51) ^ 4 * ?c4 - val c1174_weights x * val c1174_weights y"
      unfolding p X Y val_1174 by (simp only: dvd_triv_left)
  qed
qed

lemma gsqr_1174_rep:
  assumes x: "rep c1174_weights c1174_p (2 ^ 55) x a"
  shows "rep c1174_weights c1174_p (2 ^ 52) (gsqr_1174 x) (a * a)"
proof -
  obtain x0 x1 x2 x3 x4 where X: "x = [x0, x1, x2, x3, x4]" by (rule list5_cases [OF rep_limbs_1174(1) [OF x]])
  have u: "\<bar>x0\<bar> \<le> 2 ^ 55" "\<bar>x1\<bar> \<le> 2 ^ 55" "\<bar>x2\<bar> \<le> 2 ^ 55" "\<bar>x3\<bar> \<le> 2 ^ 55" "\<bar>x4\<bar> \<le> 2 ^ 55"
    using x by (simp_all add: rep_def X)
  define K :: int where "K = 2 ^ 110"
  have K0: "0 \<le> K" by (simp add: K_def)
  have m: "\<bar>s * t\<bar> \<le> K" if "\<bar>s\<bar> \<le> 2 ^ 55" "\<bar>t\<bar> \<le> 2 ^ 55" for s t :: int
    using abs_product [OF that] by (simp add: K_def)
  note u1 = m [THEN abs_le_D1] and u2 = m [THEN abs_le_D2]
  let ?d0 = "x0 * x0 + 288 * (x1 * x4 + x2 * x3)"
  let ?d1 = "2 * x0 * x1 + 288 * x2 * x4 + 144 * x3 * x3"
  let ?d2 = "x1 * x1 + 2 * x0 * x2 + 288 * x3 * x4"
  let ?d3 = "144 * x4 * x4 + 2 * (x0 * x3 + x1 * x2)"
  let ?c4 = "2 * (x0 * x4 + x1 * x3) + x2 * x2"
  have "\<bar>?d0\<bar> \<le> 600 * K" "\<bar>?d1\<bar> \<le> 600 * K" "\<bar>?d2\<bar> \<le> 600 * K" "\<bar>?d3\<bar> \<le> 600 * K" "\<bar>?c4\<bar> \<le> 600 * K"
    unfolding mult.assoc distrib_left_numeral
    subgoal by (rule abs_leI; use u1 [OF u(1,1)] u2 [OF u(1,1)] u1 [OF u(2) u(5)] u2 [OF u(2) u(5)] u1 [OF u(3) u(4)] u2 [OF u(3) u(4)] K0 in linarith)
    subgoal by (rule abs_leI; use u1 [OF u(1) u(2)] u2 [OF u(1) u(2)] u1 [OF u(3) u(5)] u2 [OF u(3) u(5)] u1 [OF u(4,4)] u2 [OF u(4,4)] K0 in linarith)
    subgoal by (rule abs_leI; use u1 [OF u(2,2)] u2 [OF u(2,2)] u1 [OF u(1) u(3)] u2 [OF u(1) u(3)] u1 [OF u(4) u(5)] u2 [OF u(4) u(5)] K0 in linarith)
    subgoal by (rule abs_leI; use u1 [OF u(5,5)] u2 [OF u(5,5)] u1 [OF u(1) u(4)] u2 [OF u(1) u(4)] u1 [OF u(2) u(3)] u2 [OF u(2) u(3)] K0 in linarith)
    subgoal by (rule abs_leI; use u1 [OF u(1) u(5)] u2 [OF u(1) u(5)] u1 [OF u(2) u(4)] u2 [OF u(2) u(4)] u1 [OF u(3,3)] u2 [OF u(3,3)] K0 in linarith)
    done
  note bd = this [unfolded K_def]
  have e: "gsqr_1174 x = chain5 ?d0 ?d1 ?d2 ?d3 ?c4"
    unfolding X gsqr_1174_def chain5_def
    by (simp only: Let_def nth_Cons_0 nth_Cons_Suc numeral_nat One_nat_def)
  have p: "c1174_p = 2 ^ 251 - 9" by (simp add: c1174_p_def)
  show ?thesis
  proof (rule rep_mult_cong [OF x x chain5_rep [OF bd, folded e]])
    have "(2 ^ 51) ^ 5 = 16 * (2 ^ 251 :: int)" by simp
    from school_value [OF this, of x0 x0 x1 x4 x4 x1 x2 x3 x3 x2]
    have "c1174_p dvd (x0 * x0 + 144 * (x1 * x4 + x4 * x1 + x2 * x3 + x3 * x2))
      + 2 ^ 51 * (x0 * x1 + x1 * x0 + 144 * (x3 * x3 + x2 * x4 + x4 * x2))
      + (2 ^ 51) ^ 2 * (x1 * x1 + x0 * x2 + x2 * x0 + 144 * (x3 * x4 + x4 * x3))
      + (2 ^ 51) ^ 3 * (144 * x4 * x4 + x0 * x3 + x3 * x0 + x1 * x2 + x2 * x1)
      + (2 ^ 51) ^ 4 * (x0 * x4 + x4 * x0 + x1 * x3 + x3 * x1 + x2 * x2)
      - val c1174_weights x * val c1174_weights x"
      unfolding p X val_1174 by (simp only: dvd_triv_left)
    moreover have "x0 * x0 + 144 * (x1 * x4 + x4 * x1 + x2 * x3 + x3 * x2) = ?d0"
      "x0 * x1 + x1 * x0 + 144 * (x3 * x3 + x2 * x4 + x4 * x2) = ?d1"
      "x1 * x1 + x0 * x2 + x2 * x0 + 144 * (x3 * x4 + x4 * x3) = ?d2"
      "144 * x4 * x4 + x0 * x3 + x3 * x0 + x1 * x2 + x2 * x1 = ?d3"
      "x0 * x4 + x4 * x0 + x1 * x3 + x3 * x1 + x2 * x2 = ?c4" by simp_all
    ultimately show "c1174_p dvd ?d0 + 2 ^ 51 * ?d1 + (2 ^ 51) ^ 2 * ?d2 + (2 ^ 51) ^ 3 * ?d3
        + (2 ^ 51) ^ 4 * ?c4 - val c1174_weights x * val c1174_weights x" by (simp only:)
  qed
qed

section \<open>One carry chain\<close>

lemma scr_1174_chain:
  assumes "length w = 5" "\<bar>w ! 0\<bar> \<le> 2 ^ 61"
  shows "scr_1174 w = wrap_chain w64 c1174_widths 9 w"
proof -
  obtain a b c d e where w: "w = [a, b, c, d, e]" by (rule list5_cases [OF assms(1)])
  have a: "w64 a = a" using assms(2) by (simp add: w w64_abs)
  show ?thesis
    unfolding w scr_1174_def mask51 mask47 drop_5147 wrap_chain_1174
    by (simp only: Let_def a nth_Cons_0 nth_Cons_Suc numeral_nat One_nat_def)
qed

lemma gmuli_1174_chain:
  assumes "length w = 5"
  shows "gmuli_1174 w i = wrap_chain w128 c1174_widths 9 (map (\<lambda>l. l * i) w)"
proof -
  obtain a b c d e where w: "w = [a, b, c, d, e]" by (rule list5_cases [OF assms])
  show ?thesis
    unfolding w gmuli_1174_def w64_mask51 w64_mask47 drop_5147 list.map wrap_chain_1174
    by (simp only: Let_def nth_Cons_0 nth_Cons_Suc numeral_nat One_nat_def)
qed

lemma scr_1174_fold:
  assumes "length w = 5" "\<forall>l \<in> set w. \<bar>l\<bar> \<le> 2 ^ 61"
  shows "scr_1174 w = fold_digits c1174_widths 9 (hval c1174_widths w)"
proof -
  have "w64 t = t" if "\<bar>t\<bar> \<le> 2 * 2 ^ 61" for t using that by (intro w64_abs) simp
  moreover have "\<bar>hval c1174_widths w div 2 ^ sum_list c1174_widths\<bar> \<le> 2 ^ 16"
    by (rule c1174r.quotient) (use assms in simp_all)
  ultimately show ?thesis
    using c1174r.chain_fold [of "2 ^ 61" w64 w "2 ^ 16"] assms by (subst scr_1174_chain) simp_all
qed

lemma scr_1174_rep:
  assumes "rep c1174_weights c1174_p (2 ^ 61) w a"
  shows "rep c1174_weights c1174_p (2 ^ 52) (scr_1174 w) a"
proof -
  have w: "length w = 5" "\<forall>l \<in> set w. \<bar>l\<bar> \<le> 2 ^ 61" "c1174_p dvd hval c1174_widths w - a"
    using assms rep_limbs_1174(1) [OF assms] by (simp_all add: rep_def val_hval_1174)
  have "\<bar>hval c1174_widths w div 2 ^ sum_list c1174_widths\<bar> \<le> 2 ^ 16"
    by (rule c1174r.quotient) (use w in simp_all)
  from c1174r.fold_rep [OF w(3) this] show ?thesis by (simp add: scr_1174_fold [OF w(1,2)] c1174_weights)
qed

lemma gmuli_1174_rep:
  assumes w: "rep c1174_weights c1174_p (2 ^ 60) w a" and i: "\<bar>i\<bar> \<le> 2 ^ 14"
  shows "rep c1174_weights c1174_p (2 ^ 52) (gmuli_1174 w i) (a * i)"
proof -
  have l: "length w = 5" by (rule rep_limbs_1174 [OF w])
  have b: "\<forall>l \<in> set w. \<bar>l\<bar> \<le> 2 ^ 60" and d: "c1174_p dvd hval c1174_widths w - a"
    using w by (simp_all add: rep_def val_hval_1174)
  have e: "\<forall>e \<in> set (map (\<lambda>l. l * i) w). \<bar>e\<bar> \<le> 2 ^ 74"
    using b i abs_product [of _ "2 ^ 60" i "2 ^ 14"] by auto
  have f: "w128 t = t" if "\<bar>t\<bar> \<le> 2 * 2 ^ 74" for t using that by (intro w128_abs) simp
  have "c1174_p dvd hval c1174_widths (map (\<lambda>l. l * i) w) - a * i"
    using d by (simp add: hval_scale flip: left_diff_distrib)
  from c1174r.chain_rep [OF f e _ _ _ _ this, of "2 ^ 29"] show ?thesis
    by (simp add: gmuli_1174_chain [OF l] c1174_weights l)
qed

section \<open>Normal form and comparison\<close>

lemma gnorm_1174_digits:
  assumes "length x = 5" "\<forall>l \<in> set x. \<bar>l\<bar> \<le> 2 ^ 61"
  shows "gnorm_1174 x = digits c1174_widths (hval c1174_widths x mod c1174_p)"
  using c1174r.normal_form [of scr_1174 x] scr_1174_fold assms by (simp add: gnorm_1174_def Let_def)

lemma geq_1174_iff:
  assumes "length x = 5" "length y = 5" "\<forall>l \<in> set x. \<bar>l\<bar> \<le> 2 ^ 60" "\<forall>l \<in> set y. \<bar>l\<bar> \<le> 2 ^ 60"
  shows "geq_1174 x y \<longleftrightarrow> c1174_p dvd hval c1174_widths x - hval c1174_widths y"
proof -
  have s: "hval c1174_widths (gsub x y) = hval c1174_widths x - hval c1174_widths y" "length (gsub x y) = 5"
    "\<forall>l \<in> set (gsub x y). \<bar>l\<bar> \<le> 2 ^ 61"
    using c1174r.gsub_hval [of x y] assms by simp_all
  define m where "m = (hval c1174_widths x - hval c1174_widths y) mod c1174_p"
  have "geq_1174 x y \<longleftrightarrow> digits c1174_widths m = replicate (length c1174_widths) 0"
    unfolding geq_1174_def Let_def gnorm_1174_digits [OF s(2,3)] s(1) m_def [symmetric]
    by (rule list5_cases [of "digits c1174_widths m"]) (simp_all add: eval_nat_numeral)
  then show ?thesis unfolding m_def c1174r.remainder_zero .
qed

lemma geq_1174_rep:
  assumes "rep c1174_weights c1174_p (2 ^ 60) x a" "rep c1174_weights c1174_p (2 ^ 60) y b"
  shows "geq_1174 x y \<longleftrightarrow> c1174_p dvd a - b"
proof -
  have "geq_1174 x y \<longleftrightarrow> c1174_p dvd hval c1174_widths x - hval c1174_widths y"
    by (rule geq_1174_iff [OF rep_limbs_1174(1) [OF assms(1)] rep_limbs_1174(1) [OF assms(2)]])
      (use assms in \<open>simp_all add: rep_def\<close>)
  then show ?thesis unfolding val_hval_1174 [symmetric] rep_same [OF assms] .
qed

end
