(* ===== verification/Curve1174_Inv.thy ===== *)
theory Curve1174_Inv
  imports Curve1174_Field Edwards_Field Word_Buffers
begin

unbundle bit_operations_syntax

text \<open>
  The field of Curve1174 satisfies the laws the point functions rely on; the powers computed by
  \<open>ginv\<close> and \<open>gsqrt\<close>; the buffers.
\<close>

lemma c1174_ops_simps [simp]:
  "f_mul c1174_ops = gmul_1174" "f_sqr c1174_ops = gsqr_1174" "f_muli c1174_ops = gmuli_1174"
  "f_scr c1174_ops = scr_1174" "f_inv c1174_ops = ginv_1174"
  "f_limbs c1174_ops = 5" "kCurveD c1174_ops = - 1174" "f_panes c1174_ops = 64"
  by (simp_all add: c1174_ops_def)

interpretation c1174: limb_field c1174_ops c1174_weights c1174_p "2 ^ 52"
proof (unfold_locales, unfold c1174_ops_simps)
  show "length c1174_weights = 5" "c1174_weights ! 0 = 1" by (simp_all add: c1174_weights_def)
  have M: "8 * 2 ^ 52 = (2 :: int) ^ 55" by simp
  show "rep c1174_weights c1174_p (8 * 2 ^ 52) x a \<Longrightarrow> rep c1174_weights c1174_p (8 * 2 ^ 52) y b \<Longrightarrow>
      rep c1174_weights c1174_p (2 ^ 52) (gmul_1174 x y) (a * b)" for x a y b
    unfolding M by (rule gmul_1174_rep)
  show "rep c1174_weights c1174_p (8 * 2 ^ 52) x a \<Longrightarrow> rep c1174_weights c1174_p (2 ^ 52) (gsqr_1174 x) (a * a)" for x a
    unfolding M by (rule gsqr_1174_rep)
  show "rep c1174_weights c1174_p (8 * 2 ^ 52) x a \<Longrightarrow>
      rep c1174_weights c1174_p (2 ^ 52) (gmuli_1174 x (- 1174)) (a * - 1174)" for x a
    unfolding M by (rule gmuli_1174_rep [OF rep_weaken], assumption) simp_all
  show "rep c1174_weights c1174_p (8 * 2 ^ 52) x a \<Longrightarrow> rep c1174_weights c1174_p (2 ^ 52) (scr_1174 x) a" for x a
    unfolding M by (rule scr_1174_rep) (erule rep_weaken, simp)
qed simp_all

section \<open>Powers\<close>

lemmas c1174_powers = c1174.pw_mul [unfolded c1174_ops_simps] c1174.pw_sqr [unfolded c1174_ops_simps] pw_copy
  c1174.pw_pairs [unfolded c1174_ops_simps]

lemma ginv_1174_pw:
  assumes "pw c1174_weights c1174_p (8 * 2 ^ 52) a x 1"
  shows "pw c1174_weights c1174_p (8 * 2 ^ 52) a (ginv_1174 x) (2 ^ 251 - 11)"
  unfolding ginv_1174_def using assms
  apply -
  apply (rule pw_exp)
   apply ((rule pw_let, (rule c1174_powers; assumption))+)
   apply (rule c1174.pw_mul [unfolded c1174_ops_simps]; assumption)
  apply simp
  done

text \<open>\<open>gsqrt\<close> compares the square of the power \<open>2 ^ 249 - 2\<close> with its argument.\<close>

lemma let_fst: "fst (let x = t in f x) = (let x = t in fst (f x))"
  by (simp add: Let_def)

lemma gsqrt_pw:
  assumes "pw c1174_weights c1174_p (8 * 2 ^ 52) a x 1"
  shows "pw c1174_weights c1174_p (8 * 2 ^ 52) a (fst (gsqrt x)) (2 ^ 249 - 2)"
  unfolding gsqrt_def let_fst fst_conv using assms
  apply -
  apply (rule pw_exp)
   apply ((rule pw_let, (rule c1174_powers; assumption))+)
   apply assumption
  apply simp
  done

lemma gsqrt_snd: "snd (gsqrt x) = geq_1174 (gsqr_1174 (fst (gsqrt x))) x"
  unfolding gsqrt_def by (simp only: Let_def fst_conv snd_conv)

lemma c1174_pw_rep: "pw c1174_weights c1174_p (8 * 2 ^ 52) a x n \<longleftrightarrow> rep c1174_weights c1174_p (2 ^ 55) x (a ^ n)"
proof -
  have M: "8 * 2 ^ 52 = (2 :: int) ^ 55" by simp
  show ?thesis unfolding pw_def M ..
qed

lemma ginv_1174_rep:
  assumes "rep c1174_weights c1174_p (2 ^ 55) x a"
  shows "rep c1174_weights c1174_p (2 ^ 55) (ginv_1174 x) (a ^ (2 ^ 251 - 11))"
  using ginv_1174_pw [of a x] assms unfolding c1174_pw_rep power_one_right by (rule meta_mp)

section \<open>Buffers\<close>

lemma words_4: "words_of_num 4 N = [from_bit N 0 64, from_bit N 64 64, from_bit N 128 64, from_bit N 192 64]"
  by (simp add: words_of_num_def numeral_eq_Suc from_bit_def zdiv_zmult2_eq [symmetric])

lemma c1174_digits:
  "digits c1174_widths N = [N mod 2 ^ 51, N div 2 ^ 51 mod 2 ^ 51, N div 2 ^ 102 mod 2 ^ 51, N div 2 ^ 153 mod 2 ^ 51,
    N div 2 ^ 204 mod 2 ^ 47]"
  by (simp add: c1174_widths_def zdiv_zmult2_eq [symmetric])

lemma gfetch_1174_list:
  "gfetch_1174 [p0, p1, p2, p3] =
    [uint (p0 AND mask 51), uint ((push_bit 13 p1 OR drop_bit 51 p0) AND mask 51),
     uint ((push_bit 26 p2 OR drop_bit 38 p1) AND mask 51), uint ((push_bit 39 p3 OR drop_bit 25 p2) AND mask 51),
     uint (drop_bit 12 p3 AND mask 47)]"
  by (simp add: gfetch_1174_def Let_def)

lemma gfetch_1174_words: "gfetch_1174 (words_of_num 4 N) = digits c1174_widths N"
proof -
  have 0: "uint (from_bit N 0 64 AND mask 51) = N mod 2 ^ 51" using mask_word [of 51 N 0] by simp
  have 4: "uint (drop_bit 12 (from_bit N 192 64) AND mask 47) = N div 2 ^ 204 mod 2 ^ 47" by (rule drop_mask_word) simp_all
  show ?thesis
    unfolding words_4 c1174_digits gfetch_1174_list 0 4
    by (intro arg_cong2 [where f = Cons] refl; rule join_words; simp)
qed

lemma gstore_1174_list:
  assumes "gnorm_1174 w = [w0, w1, w2, w3, w4]"
  shows "gstore_1174 w =
    [drop_bit 0 (word_of_int w0) OR push_bit 51 (word_of_int w1), drop_bit 13 (word_of_int w1) OR push_bit 38 (word_of_int w2),
     drop_bit 26 (word_of_int w2) OR push_bit 25 (word_of_int w3), drop_bit 39 (word_of_int w3) OR push_bit 12 (word_of_int w4)]"
  by (simp add: gstore_1174_def assms Let_def)

lemma gstore_1174_digits:
  assumes "gnorm_1174 w = digits c1174_widths N" "0 \<le> N" "N < 2 ^ 251"
  shows "gstore_1174 w = words_of_num 4 N"
proof -
  have "N < 2 ^ (204 + 47)" using assms(3) by simp
  note t = from_bit_top [OF assms(2) this]
  have "drop_bit 39 (from_bit N 153 51) OR push_bit 12 (from_bit N 204 64) = from_bit N 192 64"
    by (rule join_limbs) simp_all
  then have top: "drop_bit 39 (from_bit N 153 51) OR push_bit 12 (from_bit N 204 47) = from_bit N 192 64" by (simp add: t)
  note l = gstore_1174_list [OF assms(1) [unfolded c1174_digits]]
  show ?thesis
    unfolding words_4 l from_bit_word(1)
    unfolding from_bit_word(2)
    by (intro arg_cong2 [where f = Cons] refl top; rule join_limbs; simp)
qed

lemma gstore_1174_rep:
  assumes "rep c1174_weights c1174_p (2 ^ 60) x a"
  shows "gstore_1174 x = words_of_num 4 (a mod c1174_p)"
proof -
  have x: "length x = 5" "\<forall>l \<in> set x. \<bar>l\<bar> \<le> 2 ^ 61" "c1174_p dvd hval c1174_widths x - a"
    using assms rep_limbs_1174(1) [OF assms] by (force simp: rep_def val_hval_1174)+
  have m: "hval c1174_widths x mod c1174_p = a mod c1174_p" using x(3) by (simp add: mod_eq_dvd_iff)
  have "0 \<le> a mod c1174_p" "a mod c1174_p < 2 ^ 251" using pos_mod_bound [of c1174_p a] by (simp_all add: c1174_p_def)
  then show ?thesis using gstore_1174_digits gnorm_1174_digits [OF x(1,2)] by (simp add: m)
qed

lemma gfetch_1174_rep:
  assumes "length pv = 4" "num_of_words pv < 2 ^ 251"
  shows "rep c1174_weights c1174_p (2 ^ 52) (gfetch_1174 pv) (num_of_words pv)"
proof -
  define N where "N = num_of_words pv"
  have pv: "pv = words_of_num 4 N" using words_of_num_of_words [of pv] assms(1) by (simp add: N_def)
  have N: "0 \<le> N" "N < 2 ^ 251" using num_of_words_ge_0 [of pv] assms(2) by (simp_all add: N_def)
  have "rep c1174_weights c1174_p (2 ^ 52) (digits c1174_widths N) N"
    using c1174r.fold_rep [of N N 0] N by (simp add: fold_digits_def add_first_def c1174_weights)
  then show ?thesis using num_of_words_of_num [of 4 N] N by (simp add: pv gfetch_1174_words)
qed

end
