(* ===== verification/Curve1174_Props.thy ===== *)
theory Curve1174_Props
  imports Curve1174_Inv
begin

unbundle bit_operations_syntax

text \<open>The properties of Curve1174: the field and its square roots, the buffers, the points.\<close>

lemma rep_val_1174: "length x = 5 \<Longrightarrow> \<forall>l \<in> set x. \<bar>l\<bar> \<le> B \<Longrightarrow> rep c1174_weights c1174_p B x (val c1174_weights x)"
  by (simp add: rep_def c1174_weights_def)

text \<open>C30. The field functions of Curve1174 compute modulo \<open>2 ^ 251 - 9\<close>: for five limbs of up to
  \<open>2 ^ 55\<close> in absolute value machine overflow never affects the results, \<open>gmul\<close>, \<open>gsqr\<close>, \<open>gmuli\<close> (with a
  factor up to \<open>2 ^ 14\<close>) and \<open>scr\<close> return limbs of at most \<open>2 ^ 52\<close>, \<open>ginv\<close> computes the power
  \<open>p - 2\<close>, and \<open>geq\<close> decides equality modulo \<open>p\<close>.\<close>

theorem c1174_field:
  assumes "rep c1174_weights c1174_p (2 ^ 55) x a" "rep c1174_weights c1174_p (2 ^ 55) y b" "\<bar>i\<bar> \<le> 2 ^ 14"
  shows "rep c1174_weights c1174_p (2 ^ 52) (gmul_1174 x y) (a * b)
    \<and> rep c1174_weights c1174_p (2 ^ 52) (gsqr_1174 x) (a * a)
    \<and> rep c1174_weights c1174_p (2 ^ 52) (gmuli_1174 x i) (a * i) \<and> rep c1174_weights c1174_p (2 ^ 52) (scr_1174 x) a
    \<and> rep c1174_weights c1174_p (2 ^ 55) (ginv_1174 x) (a ^ (2 ^ 251 - 11))
    \<and> (geq_1174 x y \<longleftrightarrow> a mod c1174_p = b mod c1174_p)"
proof -
  have x: "rep c1174_weights c1174_p (2 ^ 60) x a" "rep c1174_weights c1174_p (2 ^ 61) x a"
    and y: "rep c1174_weights c1174_p (2 ^ 60) y b"
    by (rule rep_weaken [OF assms(1)] rep_weaken [OF assms(2)]; simp)+
  show ?thesis
    using gmul_1174_rep [OF assms(1,2)] gsqr_1174_rep [OF assms(1)] gmuli_1174_rep [OF x(1) assms(3)]
      scr_1174_rep [OF x(2)] ginv_1174_rep [OF assms(1)] geq_1174_rep [OF x(1) y]
    by (simp only: mod_eq_dvd_iff HOL.simp_thms)
qed

theorem c1174_field_witness:
  "rep c1174_weights c1174_p (2 ^ 52) (gmul_1174 [2 ^ 55, - 1, 0, 5, - (2 ^ 55)] [1, 2, 3, 4, 2 ^ 54])
    (val c1174_weights [2 ^ 55, - 1, 0, 5, - (2 ^ 55)] * val c1174_weights [1, 2, 3, 4, 2 ^ 54])"
  by (rule c1174_field [where i = 1, THEN conjunct1]) (rule rep_val_1174 | simp)+

lemma power_mod_eq: "a mod n = b mod n \<Longrightarrow> a ^ k mod n = b ^ k mod n" for a b n :: int
  by (metis power_mod)

text \<open>C31. \<open>gsqrt\<close> returns the power \<open>(p + 1) / 4\<close> and whether its square is the argument modulo \<open>p\<close>. For
  the square of a number whose power \<open>p - 1\<close> is \<open>1\<close> it returns a square root and true.\<close>

theorem c1174_sqrt:
  assumes "rep c1174_weights c1174_p (2 ^ 55) x a" "c1174_p dvd b * b - c" "c1174_p dvd b ^ (2 ^ 251 - 10) - 1"
    and "rep c1174_weights c1174_p (2 ^ 55) z c"
  shows "rep c1174_weights c1174_p (2 ^ 55) (fst (gsqrt x)) (a ^ (2 ^ 249 - 2))
    \<and> snd (gsqrt x) = (a ^ (2 ^ 250 - 4) mod c1174_p = a mod c1174_p)
    \<and> snd (gsqrt z) \<and> rep c1174_weights c1174_p (2 ^ 52) (gsqr_1174 (fst (gsqrt z))) c"
proof -
  have w: "rep c1174_weights c1174_p (2 ^ 60) v e" if "rep c1174_weights c1174_p (2 ^ 55) v e" for v e
    using that by (rule rep_weaken) simp
  have w': "rep c1174_weights c1174_p (2 ^ 60) v e" if "rep c1174_weights c1174_p (2 ^ 52) v e" for v e
    using that by (rule rep_weaken) simp
  have r: "rep c1174_weights c1174_p (2 ^ 55) (fst (gsqrt v)) (e ^ (2 ^ 249 - 2))"
    if "rep c1174_weights c1174_p (2 ^ 55) v e" for v e
    using gsqrt_pw [of e v] that unfolding c1174_pw_rep power_one_right by (rule meta_mp)
  have n: "(2 :: nat) ^ 249 - 2 + (2 ^ 249 - 2) = 2 ^ 250 - 4" "(2 :: nat) * (2 ^ 250 - 4) = 2 + (2 ^ 251 - 10)" by simp_all
  have s: "rep c1174_weights c1174_p (2 ^ 52) (gsqr_1174 (fst (gsqrt v))) (e ^ (2 ^ 250 - 4))"
    if "rep c1174_weights c1174_p (2 ^ 55) v e" for v e
    using gsqr_1174_rep [OF r [OF that]] by (simp only: power_add [symmetric] n)
  have q: "snd (gsqrt v) \<longleftrightarrow> c1174_p dvd e ^ (2 ^ 250 - 4) - e" if "rep c1174_weights c1174_p (2 ^ 55) v e" for v e
    unfolding gsqrt_snd by (rule geq_1174_rep [OF w' [OF s [OF that]] w [OF that]])
  have "(b * b) ^ (2 ^ 250 - 4) = b ^ 2 * b ^ (2 ^ 251 - 10)"
    by (simp only: power_add [symmetric] power_mult [symmetric] power2_eq_square [symmetric] n)
  then have "(b * b) ^ (2 ^ 250 - 4) - b * b = b * b * (b ^ (2 ^ 251 - 10) - 1)"
    by (simp only: power2_eq_square right_diff_distrib mult_1_right)
  then have bb: "c1174_p dvd (b * b) ^ (2 ^ 250 - 4) - b * b" using assms(3) by (simp only: dvd_mult)
  have "(b * b) ^ (2 ^ 250 - 4) mod c1174_p = c ^ (2 ^ 250 - 4) mod c1174_p"
    using assms(2) by (intro power_mod_eq) (simp only: mod_eq_dvd_iff)
  then have "c ^ (2 ^ 250 - 4) mod c1174_p = c mod c1174_p"
    using bb assms(2) by (simp only: mod_eq_dvd_iff [symmetric])
  then have c: "c1174_p dvd c ^ (2 ^ 250 - 4) - c" by (simp only: mod_eq_dvd_iff)
  have "rep c1174_weights c1174_p (2 ^ 52) (gsqr_1174 (fst (gsqrt z))) c" by (rule rep_cong [OF s [OF assms(4)] c])
  then show ?thesis using r [OF assms(1)] q [OF assms(1)] q [OF assms(4)] c by (simp only: mod_eq_dvd_iff HOL.simp_thms)
qed

theorem c1174_sqrt_witness:
  "snd (gsqrt [1, 0, 0, 0, 0]) \<and> rep c1174_weights c1174_p (2 ^ 52) (gsqr_1174 (fst (gsqrt [1, 0, 0, 0, 0]))) 1"
proof (rule c1174_sqrt [where x = "[1, 0, 0, 0, 0]" and a = 1 and b = 1, THEN conjunct2, THEN conjunct2])
  show "rep c1174_weights c1174_p (2 ^ 55) [1, 0, 0, 0, 0] 1" "rep c1174_weights c1174_p (2 ^ 55) [1, 0, 0, 0, 0] 1"
    by (simp_all add: rep_def c1174_weights_def val_def)
  show "c1174_p dvd 1 ^ (2 ^ 251 - 10) - 1" by (simp only: power_one diff_self dvd_0_right)
qed simp

text \<open>Buffers of four words: \<open>gfetch\<close> reads a number below \<open>2 ^ 251\<close> as its digits; \<open>gstore\<close> writes
  the remainder modulo \<open>p\<close> of any number the field functions return, so that a number below
  \<open>p\<close> survives the passage to Lisp and back.\<close>

theorem c1174_buffers:
  assumes "length pv = 4" "num_of_words pv < c1174_p" "rep c1174_weights c1174_p (2 ^ 60) x a"
  shows "gfetch_1174 pv = digits c1174_widths (num_of_words pv) \<and> gstore_1174 (gfetch_1174 pv) = pv
    \<and> num_of_words (gstore_1174 x) = a mod c1174_p"
proof -
  define N where "N = num_of_words pv"
  have pv: "pv = words_of_num 4 N" using words_of_num_of_words [of pv] assms(1) by (simp add: N_def)
  have N: "0 \<le> N" "N < c1174_p" using num_of_words_ge_0 [of pv] assms(2) by (simp_all add: N_def)
  have "rep c1174_weights c1174_p (2 ^ 52) (gfetch_1174 pv) N"
    unfolding N_def using assms(1,2) by (intro gfetch_1174_rep) (simp_all add: c1174_p_def)
  then have "rep c1174_weights c1174_p (2 ^ 60) (gfetch_1174 pv) N" by (rule rep_weaken) simp
  from gstore_1174_rep [OF this] have "gstore_1174 (gfetch_1174 pv) = pv" using N by (simp add: pv)
  moreover have "a mod c1174_p < 2 ^ 256" "0 \<le> a mod c1174_p"
    using pos_mod_bound [of c1174_p a] by (simp_all add: c1174_p_def)
  then have "num_of_words (gstore_1174 x) = a mod c1174_p"
    using gstore_1174_rep [OF assms(3)] num_of_words_of_num [of 4 "a mod c1174_p"] by simp
  moreover have "gfetch_1174 pv = digits c1174_widths N" unfolding pv by (rule gfetch_1174_words)
  ultimately show ?thesis by (simp add: N_def)
qed

theorem c1174_buffers_witness:
  "gfetch_1174 [1, 2, 3, 4] = digits c1174_widths (num_of_words [1, 2, 3, 4]) \<and> gstore_1174 (gfetch_1174 [1, 2, 3, 4]) = [1, 2, 3, 4]
    \<and> num_of_words (gstore_1174 [- 1, 0, 0, 0, 0]) = - 1 mod c1174_p"
  by (rule c1174_buffers) (simp_all add: c1174_p_def rep_def c1174_weights_def val_def)

section \<open>Points\<close>

lemma c1174_store:
  assumes "prep3 c1174_weights c1174_p (2 ^ 52) S (X, Y, Z, T)"
  shows "gstore_1174 (px S) = words_of_num 4 (X mod c1174_p)" "gstore_1174 (py S) = words_of_num 4 (Y mod c1174_p)"
    "gstore_1174 (pz S) = words_of_num 4 (Z mod c1174_p)"
  using assms by (auto simp: prep3_iff intro!: gstore_1174_rep elim!: rep_weaken)

lemma c1174_mul_to_proj:
  assumes nv: "length nv = 32" "length W = 64" "num_of_bytes nv < 7 * 2 ^ 252" "limbs 5 Q"
    and x: "rep c1174_weights c1174_p (2 ^ 52) x X" and y: "rep c1174_weights c1174_p (2 ^ 52) y Y"
  shows "\<exists>A. prep3 c1174_weights c1174_p (2 ^ 52) (mul_to_proj c1174_ops Q (win4 c1174_ops nv W) (init c1174_ops x y)) A
    \<and> multiple (- 1174) (e_affine X Y) (num_of_bytes nv) A"
proof -
  let ?w = "win4 c1174_ops nv W"
  have n: "nv \<noteq> []" using nv(1) by auto
  have "(16 :: int) ^ (64 - 1) = 2 ^ 252" by simp
  then have "num_of_bytes nv < 7 * 16 ^ (f_panes c1174_ops - 1)" using nv(3) by (simp only: c1174_ops_simps)
  note w = win4_value [of c1174_ops, OF _ _ n this, of W]
  have d: "length ?w = 64" "digits_value ?w = num_of_bytes nv" "\<forall>d \<in> set ?w. - 8 \<le> d \<and> d \<le> 7" "0 \<le> last ?w"
    using w nv(1,2) by simp_all
  have b: "\<forall>b \<in> set ?w. \<bar>b\<bar> \<le> 8" using d(3) by fastforce
  have e: "?w \<noteq> []" using d(1) by auto
  have "prep3 c1174_weights c1174_p (2 ^ 52) (mul_to_proj c1174_ops Q ?w (init c1174_ops x y))
      (e_ladder (- 1174) (e_affine X Y) ?w)"
    using c1174.mul_to_proj_rep [OF c1174.init_rep [OF x y] _ e b d(4)] d(1) nv(4) by simp
  moreover have "multiple (- 1174) (e_affine X Y) (num_of_bytes nv) (e_ladder (- 1174) (e_affine X Y) ?w)"
    using multiple_ladder [OF e b d(4)] d(2) by simp
  ultimately show ?thesis by blast
qed

text \<open>C32. \<open>Curve1174_affine_mul\<close>: for a number below \<open>7 * 2 ^ 252\<close> in 32 bytes, whatever the automatic
  arrays held, it stores the coordinates modulo \<open>p\<close> of a point that the projective formulas
  reach from the given one by additions, doublings and negations that add up to the number.\<close>

theorem c1174_affine_mul:
  assumes "length nv = 32" "length W = 64" "num_of_bytes nv < 7 * 2 ^ 252" "limbs 5 Q"
    and "length ptx = 4" "length pty = 4" "num_of_words ptx < 2 ^ 251" "num_of_words pty < 2 ^ 251"
  shows "\<exists>X Y Z T. Curve1174_affine_mul W Q ptx pty nv =
      (words_of_num 4 (X mod c1174_p), words_of_num 4 (Y mod c1174_p), words_of_num 4 (Z mod c1174_p))
    \<and> multiple (- 1174) (e_affine (num_of_words ptx) (num_of_words pty)) (num_of_bytes nv) (X, Y, Z, T)"
proof -
  obtain X Y Z T where m: "multiple (- 1174) (e_affine (num_of_words ptx) (num_of_words pty)) (num_of_bytes nv) (X, Y, Z, T)"
    and p: "prep3 c1174_weights c1174_p (2 ^ 52)
      (mul_to_proj c1174_ops Q (win4 c1174_ops nv W) (init c1174_ops (gfetch_1174 ptx) (gfetch_1174 pty))) (X, Y, Z, T)"
    using c1174_mul_to_proj [OF assms(1-4) gfetch_1174_rep [OF assms(5,7)] gfetch_1174_rep [OF assms(6,8)]]
    by (metis prod.exhaust)
  show ?thesis using m unfolding Curve1174_affine_mul_def Let_def c1174_store [OF p] by blast
qed

theorem c1174_affine_mul_witness:
  "\<exists>X Y Z T. Curve1174_affine_mul (replicate 64 0) (inf_point c1174_ops) [0, 0, 0, 0] [1, 0, 0, 0] (9 # replicate 31 0) =
      (words_of_num 4 (X mod c1174_p), words_of_num 4 (Y mod c1174_p), words_of_num 4 (Z mod c1174_p))
    \<and> multiple (- 1174) (e_affine (num_of_words [0, 0, 0, 0]) (num_of_words [1, 0, 0, 0]))
        (num_of_bytes (9 # replicate 31 0)) (X, Y, Z, T)"
proof (rule c1174_affine_mul)
  show "num_of_bytes (9 # replicate 31 0) < 7 * 2 ^ 252" by code_simp
qed (simp_all add: limbs_def inf_point_def fe_zero_def)

text \<open>\<open>Curve1174_projective_add\<close> stores the coordinates modulo \<open>p\<close> of a point that stands for the
  sum, in the group law of \<open>x\<^sup>2 + y\<^sup>2 = 1 - 1174 x\<^sup>2 y\<^sup>2\<close>, of the points the two triples of buffers
  stand for; the sum of points of the curve is one.\<close>

theorem c1174_projective_add:
  assumes "\<forall>b \<in> {x1, y1, z1, x2, y2, z2}. length b = 4 \<and> num_of_words b < 2 ^ 251"
    and "represents c1174_p (num_of_words x1, num_of_words y1, num_of_words z1, ta) a"
    and "represents c1174_p (num_of_words x2, num_of_words y2, num_of_words z2, tb) b"
    and "ed_sum c1174_p (- 1174) b a c" "on_curve c1174_p (- 1174) a" "on_curve c1174_p (- 1174) b"
  shows "\<exists>X Y Z T. Curve1174_projective_add x1 y1 z1 x2 y2 z2 =
      (words_of_num 4 (X mod c1174_p), words_of_num 4 (Y mod c1174_p), words_of_num 4 (Z mod c1174_p))
    \<and> represents c1174_p (X, Y, Z, T) c \<and> on_curve c1174_p (- 1174) c"
proof -
  have r: "rep c1174_weights c1174_p (2 ^ 52) (gfetch_1174 v) (num_of_words v)" if "v \<in> {x1, y1, z1, x2, y2, z2}" for v
    using assms(1) that by (intro gfetch_1174_rep) blast+
  have "prep3 c1174_weights c1174_p (2 ^ 52) (init_proj c1174_ops (gfetch_1174 x1) (gfetch_1174 y1) (gfetch_1174 z1))
      (num_of_words x1, num_of_words y1, num_of_words z1, ta)"
    "prep3 c1174_weights c1174_p (2 ^ 52) (init_proj c1174_ops (gfetch_1174 x2) (gfetch_1174 y2) (gfetch_1174 z2))
      (num_of_words x2, num_of_words y2, num_of_words z2, tb)"
    unfolding prep3_iff init_proj_def ECp.simps by (intro conjI r; simp)+
  then have "point3 c1174_weights c1174_p (2 ^ 52) (init_proj c1174_ops (gfetch_1174 x1) (gfetch_1174 y1) (gfetch_1174 z1)) a"
    "point3 c1174_weights c1174_p (2 ^ 52) (init_proj c1174_ops (gfetch_1174 x2) (gfetch_1174 y2) (gfetch_1174 z2)) b"
    using assms(2,3) unfolding point3_def by blast+
  then have "point3 c1174_weights c1174_p (2 ^ 52) (add_proj c1174_ops (init_proj c1174_ops (gfetch_1174 x2) (gfetch_1174 y2)
      (gfetch_1174 z2)) (init_proj c1174_ops (gfetch_1174 x1) (gfetch_1174 y1) (gfetch_1174 z1))) c"
    using c1174.add_proj_point assms(4) by simp
  then obtain X Y Z T where p: "prep3 c1174_weights c1174_p (2 ^ 52) (add_proj c1174_ops (init_proj c1174_ops (gfetch_1174 x2)
      (gfetch_1174 y2) (gfetch_1174 z2)) (init_proj c1174_ops (gfetch_1174 x1) (gfetch_1174 y1) (gfetch_1174 z1))) (X, Y, Z, T)"
    and c: "represents c1174_p (X, Y, Z, T) c"
    unfolding point3_def by (metis prod.exhaust)
  show ?thesis
    using c ed_sum_on_curve [OF assms(6,5,4)] unfolding Curve1174_projective_add_def Let_def c1174_store [OF p] by blast
qed

theorem c1174_projective_add_witness:
  "\<exists>X Y Z T. Curve1174_projective_add [1, 0, 0, 0] [0, 0, 0, 0] [1, 0, 0, 0] [2, 0, 0, 0] [0, 0, 0, 0] [2, 0, 0, 0] =
      (words_of_num 4 (X mod c1174_p), words_of_num 4 (Y mod c1174_p), words_of_num 4 (Z mod c1174_p))
    \<and> represents c1174_p (X, Y, Z, T) (0, - 1) \<and> on_curve c1174_p (- 1174) (0, - 1)"
proof (rule c1174_projective_add [where a = "(1, 0)" and b = "(1, 0)" and ta = 0 and tb = 0])
  have "coprime 2 c1174_p" by (simp add: c1174_p_def)
  then show "represents c1174_p (num_of_words [2, 0, 0, 0], num_of_words [0, 0, 0, 0], num_of_words [2, 0, 0, 0], 0) (1, 0)"
    by (simp add: represents_def)
qed (simp_all add: represents_def ed_sum_def on_curve_def)

text \<open>From projective coordinates whose third one has the power \<open>p - 1\<close> equal to \<open>1\<close>:
  \<open>Curve1174_to_affine\<close> stores the affine coordinates modulo \<open>p\<close> and the inverse of the third one, and
  \<open>Curve1174_projective_mul\<close> the coordinates of a multiple of the affine point.\<close>

theorem c1174_from_projective:
  assumes "\<forall>b \<in> {vx, vy, vz}. length b = 4 \<and> num_of_words b < 2 ^ 251"
    and "represents c1174_p (num_of_words vx, num_of_words vy, num_of_words vz, t) (u, v)"
    and "c1174_p dvd num_of_words vz ^ (2 ^ 251 - 10) - 1"
    and "length nv = 32" "length W = 64" "num_of_bytes nv < 7 * 2 ^ 252" "limbs 5 Q"
  shows "(\<exists>i. Curve1174_to_affine vx vy vz =
        (words_of_num 4 (u mod c1174_p), words_of_num 4 (v mod c1174_p), words_of_num 4 (i mod c1174_p))
      \<and> c1174_p dvd i * num_of_words vz - 1)
    \<and> (\<exists>X Y Z T. Curve1174_projective_mul W Q vx vy vz nv =
        (words_of_num 4 (X mod c1174_p), words_of_num 4 (Y mod c1174_p), words_of_num 4 (Z mod c1174_p))
      \<and> multiple (- 1174) (e_affine u v) (num_of_bytes nv) (X, Y, Z, T))"
proof -
  define X Y Z where "X = num_of_words vx" and "Y = num_of_words vy" and "Z = num_of_words vz"
  have r: "rep c1174_weights c1174_p (2 ^ 55) (gfetch_1174 vx) X" "rep c1174_weights c1174_p (2 ^ 55) (gfetch_1174 vy) Y"
    "rep c1174_weights c1174_p (2 ^ 55) (gfetch_1174 vz) Z"
    unfolding X_def Y_def Z_def using assms(1) by (auto intro!: rep_weaken [OF gfetch_1174_rep])
  define I where "I = Z ^ (2 ^ 251 - 11)"
  have z: "rep c1174_weights c1174_p (2 ^ 55) (ginv_1174 (gfetch_1174 vz)) I"
    unfolding I_def by (rule ginv_1174_rep [OF r(3)])
  have "(2 :: nat) ^ 251 - 10 = Suc (2 ^ 251 - 11)" by simp
  then have I: "c1174_p dvd I * Z - 1" using assms(3) by (simp only: power_Suc mult.commute I_def Z_def)
  have p: "c1174_p dvd X - u * Z" "c1174_p dvd Y - v * Z" using assms(2) by (simp_all add: represents_def X_def Y_def Z_def)
  have u: "c1174_p dvd I * X - u" by (rule dvd_combine2 [OF p(1) I, where u = I and v = u]) algebra
  have v: "c1174_p dvd I * Y - v" by (rule dvd_combine2 [OF p(2) I, where u = I and v = v]) algebra
  have g: "gstore_1174 y = words_of_num 4 (b mod c1174_p)" if "rep c1174_weights c1174_p (2 ^ 52) y b" for y b
    by (rule gstore_1174_rep [OF rep_weaken [OF that]]) simp
  have gi: "gstore_1174 (ginv_1174 (gfetch_1174 vz)) = words_of_num 4 (I mod c1174_p)"
    by (rule gstore_1174_rep [OF rep_weaken [OF z]]) simp
  have "Curve1174_to_affine vx vy vz =
      (words_of_num 4 (u mod c1174_p), words_of_num 4 (v mod c1174_p), words_of_num 4 (I mod c1174_p))"
    unfolding Curve1174_to_affine_def Let_def gi
    by (simp only: g [OF rep_cong [OF gmul_1174_rep [OF z r(1)] u]] g [OF rep_cong [OF gmul_1174_rep [OF z r(2)] v]])
  moreover have "\<exists>X Y Z T. Curve1174_projective_mul W Q vx vy vz nv =
        (words_of_num 4 (X mod c1174_p), words_of_num 4 (Y mod c1174_p), words_of_num 4 (Z mod c1174_p))
      \<and> multiple (- 1174) (e_affine u v) (num_of_bytes nv) (X, Y, Z, T)"
  proof -
    have u': "c1174_p dvd X * I - u" and v': "c1174_p dvd Y * I - v" using u v by (simp_all only: mult.commute)
    have w: "(2 :: int) ^ 52 \<le> 2 ^ 61" by simp
    note s = scr_1174_rep [OF rep_weaken [OF rep_cong [OF gmul_1174_rep [OF r(1) z] u'] w]]
      scr_1174_rep [OF rep_weaken [OF rep_cong [OF gmul_1174_rep [OF r(2) z] v'] w]]
    obtain X' Y' Z' T' where m: "multiple (- 1174) (e_affine u v) (num_of_bytes nv) (X', Y', Z', T')"
      and q: "prep3 c1174_weights c1174_p (2 ^ 52) (mul_to_proj c1174_ops Q (win4 c1174_ops nv W)
        (init c1174_ops (scr_1174 (gmul_1174 (gfetch_1174 vx) (ginv_1174 (gfetch_1174 vz))))
          (scr_1174 (gmul_1174 (gfetch_1174 vy) (ginv_1174 (gfetch_1174 vz)))))) (X', Y', Z', T')"
      using c1174_mul_to_proj [OF assms(4-7) s] by (metis prod.exhaust)
    show ?thesis
      using m unfolding Curve1174_projective_mul_def normz_def Let_def prod.case c1174_ops_simps gcopy_def c1174_store [OF q]
      by blast
  qed
  ultimately show ?thesis using I unfolding Z_def by blast
qed

theorem c1174_from_projective_witness:
  "\<exists>i. Curve1174_to_affine [0, 0, 0, 0] [1, 0, 0, 0] [1, 0, 0, 0] =
        (words_of_num 4 (0 mod c1174_p), words_of_num 4 (1 mod c1174_p), words_of_num 4 (i mod c1174_p))
      \<and> c1174_p dvd i * num_of_words [1, 0, 0, 0] - 1"
proof (rule c1174_from_projective [where t = 0 and nv = "9 # replicate 31 0" and W = "replicate 64 0" and Q = "inf_point c1174_ops",
      THEN conjunct1])
  show "num_of_bytes (9 # replicate 31 0) < 7 * 2 ^ 252" by code_simp
  have "num_of_words [1, 0, 0, 0] = 1" by simp
  then show "c1174_p dvd num_of_words [1, 0, 0, 0] ^ (2 ^ 251 - 10) - 1"
    by (simp only: power_one diff_self dvd_0_right)
qed (simp_all add: represents_def limbs_def inf_point_def fe_zero_def)

end
