(* ===== verification/Gf2_Poly.thy ===== *)
theory Gf2_Poly
  imports Prelude
begin

unbundle bit_operations_syntax

text \<open>
  Polynomials over the field of two elements. A number stands for the polynomial whose
  coefficients are its bits, so that addition is \<open>XOR\<close>, multiplication by a power of the
  variable is \<open>push_bit\<close>, and the product is \<open>clmul\<close>. The type \<open>bpoly\<close> makes them a
  commutative ring.
\<close>

section \<open>The length of a number\<close>

fun blen :: "nat \<Rightarrow> nat" where
  "blen n = (if n = 0 then 0 else Suc (blen (n div 2)))"

declare blen.simps [simp del]

lemma blen_0 [simp]: "blen 0 = 0"
  by (simp add: blen.simps)

lemma blen_le_iff: "blen n \<le> k \<longleftrightarrow> n < 2 ^ k"
proof (induction n arbitrary: k rule: blen.induct)
  case (1 n)
  show ?case
  proof (cases "n = 0")
    case False
    have n: "blen n = Suc (blen (n div 2))" using False by (subst blen.simps) simp
    show ?thesis
    proof (cases k)
      case (Suc m)
      have "blen (n div 2) \<le> m \<longleftrightarrow> n div 2 < 2 ^ m" by (rule 1 [OF False])
      also have "\<dots> \<longleftrightarrow> n < 2 ^ m * 2" by (rule div_less_iff_less_mult) simp
      finally show ?thesis unfolding n Suc by (simp add: mult.commute)
    qed (use False n in simp)
  qed simp
qed

lemma blen_eq_0_iff [simp]: "blen n = 0 \<longleftrightarrow> n = 0"
  using blen_le_iff [of n 0] by simp

lemma blen_1 [simp]: "blen (Suc 0) = Suc 0"
  by (simp add: blen.simps [of "Suc 0"])

lemma blen_2 [simp]: "blen 2 = 2"
  by (simp add: blen.simps [of 2])

lemma less_exp_blen: "n < 2 ^ blen n"
  using blen_le_iff [of n "blen n"] by simp

lemma exp_blen_le: "n \<noteq> 0 \<Longrightarrow> 2 ^ (blen n - 1) \<le> n"
  using blen_le_iff [of n "blen n - 1"] by (cases "blen n") auto

lemma blen_eqI: "2 ^ k \<le> n \<Longrightarrow> n < 2 ^ Suc k \<Longrightarrow> blen n = Suc k"
  using blen_le_iff [of n k] blen_le_iff [of n "Suc k"] by simp

lemma blen_mono: "a \<le> b \<Longrightarrow> blen a \<le> blen b"
  by (meson blen_le_iff le_less_trans less_exp_blen)

lemma blen_ge_2: "n \<noteq> 0 \<Longrightarrow> n \<noteq> 1 \<Longrightarrow> 2 \<le> blen n"
  using blen_mono [of 2 n] by simp

lemma blen_eq_1_iff: "blen n = 1 \<longleftrightarrow> n = 1"
  using blen_ge_2 [of n] by force

lemma less_exp_iff_bits: "n < 2 ^ k \<longleftrightarrow> (\<forall>i \<ge> k. \<not> bit n i)" for n :: nat
proof -
  have "n < 2 ^ k \<longleftrightarrow> take_bit k n = n" by (rule take_bit_nat_eq_self_iff [symmetric])
  also have "\<dots> \<longleftrightarrow> (\<forall>i. (i < k \<and> bit n i) = bit n i)" by (simp add: bit_eq_iff [of "take_bit k n" n] bit_take_bit_iff)
  also have "\<dots> \<longleftrightarrow> (\<forall>i \<ge> k. \<not> bit n i)" by (meson not_le)
  finally show ?thesis .
qed

lemma bit_blen: "n \<noteq> 0 \<Longrightarrow> bit n (blen n - 1)"
proof (rule ccontr)
  assume "n \<noteq> 0" and no: "\<not> bit n (blen n - 1)"
  have "\<not> bit n i" if "i \<ge> blen n - 1" for i
    using that no less_exp_blen [of n] unfolding less_exp_iff_bits by (cases "i = blen n - 1") auto
  then have "n < 2 ^ (blen n - 1)" unfolding less_exp_iff_bits by blast
  with exp_blen_le [OF \<open>n \<noteq> 0\<close>] show False by simp
qed

lemma not_bit_blen: "blen n \<le> i \<Longrightarrow> \<not> bit n i"
  using less_exp_blen [of n] unfolding less_exp_iff_bits by blast

lemma blen_xor_le: "blen (a XOR b) \<le> max (blen a) (blen b)"
  unfolding blen_le_iff less_exp_iff_bits using not_bit_blen [of a] not_bit_blen [of b] by (simp add: bit_xor_iff)

lemma blen_xor_less:
  assumes "blen a = blen b" "a \<noteq> 0"
  shows "blen (a XOR b) < blen a"
proof -
  have "b \<noteq> 0" using assms by (metis blen_eq_0_iff)
  have "\<not> bit (a XOR b) i" if "i \<ge> blen a - 1" for i
  proof (cases "i = blen a - 1")
    case True
    then show ?thesis using bit_blen [OF assms(2)] bit_blen [OF \<open>b \<noteq> 0\<close>] assms(1) by (simp add: bit_xor_iff)
  next
    case False
    then show ?thesis using that assms(1) not_bit_blen [of a i] not_bit_blen [of b i] by (simp add: bit_xor_iff)
  qed
  then have "blen (a XOR b) \<le> blen a - 1" unfolding blen_le_iff less_exp_iff_bits by blast
  then show ?thesis using assms(2) blen_eq_0_iff [of a] by linarith
qed

lemma blen_xor_greater: "blen b < blen a \<Longrightarrow> blen (a XOR b) = blen a"
proof (rule antisym)
  assume "blen b < blen a"
  then show "blen (a XOR b) \<le> blen a" using blen_xor_le [of a b] by simp
  have "blen a \<le> max (blen (a XOR b)) (blen b)" using blen_xor_le [of "a XOR b" b] by (simp add: xor.assoc)
  then show "blen a \<le> blen (a XOR b)" using \<open>blen b < blen a\<close> by simp
qed

lemma blen_push_bit: "n \<noteq> 0 \<Longrightarrow> blen (push_bit k n) = blen n + k"
proof -
  assume "n \<noteq> 0"
  then obtain m where m: "blen n = Suc m" by (cases "blen n") auto
  have "2 ^ m \<le> n" "n < 2 ^ Suc m" using exp_blen_le [OF \<open>n \<noteq> 0\<close>] less_exp_blen [of n] m by simp_all
  then have "2 ^ m * 2 ^ k \<le> n * 2 ^ k" "n * 2 ^ k < 2 ^ Suc m * 2 ^ k" by simp_all
  then have "blen (push_bit k n) = Suc (m + k)"
    by (intro blen_eqI) (simp_all add: push_bit_eq_mult power_add)
  then show ?thesis using m by simp
qed

section \<open>Products\<close>

fun clmul :: "nat \<Rightarrow> nat \<Rightarrow> nat" where
  "clmul a b = (if b = 0 then 0 else (if odd b then a else 0) XOR 2 * clmul a (b div 2))"

declare clmul.simps [simp del]

lemma double_xor: "2 * (a XOR b) = 2 * a XOR 2 * b" for a b :: nat
  using push_bit_xor [of 1 a b] by (simp add: push_bit_eq_mult mult.commute)

lemma clmul_0_right [simp]: "clmul a 0 = 0"
  by (simp add: clmul.simps)

lemma clmul_double: "clmul a (2 * b) = 2 * clmul a b"
  by (cases "b = 0") (simp_all add: clmul.simps [of a "2 * b"])

lemma clmul_odd: "clmul a (Suc (2 * b)) = a XOR 2 * clmul a b"
  by (simp add: clmul.simps [of a "Suc (2 * b)"])

lemma odd_xor_1: "Suc (2 * b) = Suc 0 XOR 2 * b" for b :: nat
  using even_bit_succ_iff [of "2 * b"] by (intro bit_eqI) (auto simp: bit_simps bit_Suc_0_iff)

lemma clmul_0_left [simp]: "clmul 0 b = 0"
  by (induction b rule: nat_bit_induct) (simp_all add: clmul_double clmul_odd)

lemma clmul_1_right [simp]: "clmul a (Suc 0) = a"
  using clmul_odd [of a 0] by simp

lemma clmul_1_left [simp]: "clmul (Suc 0) b = b"
  by (induction b rule: nat_bit_induct) (simp_all add: clmul_double clmul_odd flip: odd_xor_1)

lemma clmul_xor_left: "clmul (a XOR b) c = clmul a c XOR clmul b c"
  by (induction c rule: nat_bit_induct) (simp_all add: clmul_double clmul_odd double_xor xor.assoc xor.left_commute)

lemma clmul_double_left: "clmul (2 * a) b = 2 * clmul a b"
  by (induction b rule: nat_bit_induct) (simp_all add: clmul_double clmul_odd double_xor)

lemma clmul_odd_left: "clmul (Suc (2 * a)) b = b XOR 2 * clmul a b"
  unfolding odd_xor_1 by (simp add: clmul_xor_left clmul_double_left)

lemma clmul_commute: "clmul a b = clmul b a"
  by (induction a rule: nat_bit_induct)
    (simp_all add: clmul_double clmul_double_left clmul_odd clmul_odd_left)

lemma clmul_xor_right: "clmul a (b XOR c) = clmul a b XOR clmul a c"
  using clmul_xor_left [of b c a] by (simp add: clmul_commute)

lemma clmul_assoc: "clmul (clmul a b) c = clmul a (clmul b c)"
  by (induction c rule: nat_bit_induct) (simp_all add: clmul_double clmul_odd clmul_xor_right)

lemma clmul_exp: "clmul a (2 ^ k) = push_bit k a"
proof (induction k)
  case (Suc k)
  then show ?case using clmul_double [of a "2 ^ k"] by (simp add: push_bit_eq_mult)
qed simp

lemma double_blen: "n \<noteq> 0 \<Longrightarrow> blen (2 * n) = Suc (blen n)"
  using blen_push_bit [of n 1] by (simp add: push_bit_eq_mult mult.commute)

lemma blen_clmul_Suc: "a \<noteq> 0 \<Longrightarrow> b \<noteq> 0 \<Longrightarrow> clmul a b \<noteq> 0 \<and> Suc (blen (clmul a b)) = blen a + blen b"
proof (induction b rule: nat_bit_induct)
  case (even b)
  then show ?case by (simp add: clmul_double double_blen)
next
  case (odd b)
  show ?case
  proof (cases "b = 0")
    case False
    then have "clmul a b \<noteq> 0" "Suc (blen (clmul a b)) = blen a + blen b" using odd.IH odd.prems(1) by blast+
    then have d: "blen (2 * clmul a b) = blen a + blen b" by (metis double_blen)
    have "blen a < blen (2 * clmul a b)" using False blen_eq_0_iff [of b] d by linarith
    then have "blen (a XOR 2 * clmul a b) = blen a + blen b"
      using blen_xor_greater [of a "2 * clmul a b"] d by (simp add: xor.commute)
    moreover have "blen (Suc (2 * b)) = Suc (blen b)" by (subst blen.simps) simp
    moreover have "blen a + blen b \<noteq> 0" using odd.prems by simp
    ultimately show ?thesis unfolding clmul_odd by (metis add_Suc_right blen_eq_0_iff)
  qed (use odd in \<open>simp add: clmul_odd\<close>)
qed simp

lemmas clmul_neq_0 = blen_clmul_Suc [THEN conjunct1]
lemmas blen_clmul = blen_clmul_Suc [THEN conjunct2]

section \<open>The ring\<close>

typedef bpoly = "UNIV :: nat set" morphisms bits_of poly_of ..

setup_lifting type_definition_bpoly

instantiation bpoly :: comm_ring_1
begin

lift_definition zero_bpoly :: bpoly is 0 .
lift_definition one_bpoly :: bpoly is 1 .
lift_definition plus_bpoly :: "bpoly \<Rightarrow> bpoly \<Rightarrow> bpoly" is "(XOR)" .
lift_definition minus_bpoly :: "bpoly \<Rightarrow> bpoly \<Rightarrow> bpoly" is "(XOR)" .
lift_definition uminus_bpoly :: "bpoly \<Rightarrow> bpoly" is "\<lambda>a. a" .
lift_definition times_bpoly :: "bpoly \<Rightarrow> bpoly \<Rightarrow> bpoly" is clmul .

instance
proof
  fix a b c :: bpoly
  show "a * b * c = a * (b * c)" by transfer (rule clmul_assoc)
  show "a * b = b * a" by transfer (rule clmul_commute)
  show "1 * a = a" by transfer simp
  show "a + b + c = a + (b + c)" by transfer (rule xor.assoc)
  show "a + b = b + a" by transfer (rule xor.commute)
  show "0 + a = a" by transfer simp
  show "- a + a = 0" by transfer simp
  show "a - b = a + - b" by transfer simp
  show "(a + b) * c = a * c + b * c" by transfer (rule clmul_xor_left)
  show "(0 :: bpoly) \<noteq> 1" by transfer simp
qed

end

lemma poly_of_inject [simp]: "poly_of a = poly_of b \<longleftrightarrow> a = b"
  by (simp add: poly_of_inject)

lemma poly_of_0 [simp]: "poly_of 0 = 0"
  by (simp add: zero_bpoly_def)

lemma poly_of_1 [simp]: "poly_of (Suc 0) = 1"
  by (simp add: one_bpoly_def)

lemma poly_of_eq_0_iff [simp]: "poly_of a = 0 \<longleftrightarrow> a = 0"
  using poly_of_inject [of a 0] by simp

lemma poly_of_xor: "poly_of (a XOR b) = poly_of a + poly_of b"
  by (simp add: plus_bpoly.abs_eq eq_onp_same_args)

lemma poly_of_clmul: "poly_of (clmul a b) = poly_of a * poly_of b"
  by (simp add: times_bpoly.abs_eq eq_onp_same_args)

lemma poly_of_cases: obtains n where "a = poly_of n"
  by (metis bits_of_inverse)

lemma bpoly_add_self [simp]: "a + a = (0 :: bpoly)"
  by transfer simp

lemma bpoly_minus [simp]: "- a = (a :: bpoly)"
  by transfer simp

lemma bpoly_diff [simp]: "a - b = (a + b :: bpoly)"
  by transfer simp

lemma bpoly_two [simp]: "(2 :: bpoly) = 0"
  using bpoly_add_self [of 1] by (simp only: one_add_one)

lemma bpoly_add_cancel [simp]: "a + (a + b) = (b :: bpoly)"
  by (simp flip: add.assoc)

text \<open>The variable, and a product by one of its powers.\<close>

definition X :: bpoly where
  "X = poly_of 2"

lemma poly_of_double: "poly_of (2 * a) = X * poly_of a"
  using poly_of_clmul [of a 2] clmul_double [of a 1] by (simp add: X_def mult.commute)

lemma poly_of_push_bit: "poly_of (push_bit k a) = X ^ k * poly_of a"
proof (induction k)
  case (Suc k)
  have "push_bit (Suc k) a = 2 * push_bit k a" by (simp add: push_bit_eq_mult)
  then show ?case using Suc by (simp add: poly_of_double mult.assoc)
qed simp

lemma poly_of_exp: "poly_of (2 ^ k) = X ^ k"
  using poly_of_push_bit [of k 1] by (simp add: push_bit_eq_mult)

section \<open>Residues\<close>

lemma dvd_poly_of_less:
  assumes "poly_of f dvd poly_of n" "blen n < blen f"
  shows "n = 0"
proof (rule ccontr)
  assume "n \<noteq> 0"
  obtain q where "poly_of n = poly_of f * poly_of q" using assms(1) by (metis dvdE poly_of_cases)
  then have n: "n = clmul f q" by (simp flip: poly_of_clmul)
  then have "f \<noteq> 0" "q \<noteq> 0" using \<open>n \<noteq> 0\<close> by (metis clmul_0_left, metis clmul_0_right)
  then have "Suc (blen n) = blen f + blen q" unfolding n by (rule blen_clmul)
  moreover have "1 \<le> blen q" using \<open>q \<noteq> 0\<close> blen_eq_0_iff [of q] by linarith
  ultimately show False using assms(2) by simp
qed

lemma residue_unique:
  assumes "poly_of f dvd poly_of a - poly_of b" "blen a < blen f" "blen b < blen f"
  shows "a = b"
proof -
  have "poly_of f dvd poly_of (a XOR b)" using assms(1) by (simp add: poly_of_xor)
  moreover have "blen (a XOR b) < blen f" using blen_xor_le [of a b] assms by simp
  ultimately have "a XOR b = 0" by (rule dvd_poly_of_less)
  then show ?thesis by (metis xor.right_neutral xor_self_eq xor.assoc)
qed

text \<open>Congruence modulo a polynomial.\<close>

definition pcong :: "bpoly \<Rightarrow> bpoly \<Rightarrow> bpoly \<Rightarrow> bool" where
  "pcong f a b \<longleftrightarrow> f dvd a - b"

lemma pcong_refl [simp]: "pcong f a a"
  by (simp add: pcong_def)

lemma pcong_sym: "pcong f a b \<Longrightarrow> pcong f b a"
  by (simp add: pcong_def add.commute)

lemma pcong_trans: "pcong f a b \<Longrightarrow> pcong f b c \<Longrightarrow> pcong f a c"
  using dvd_add [of f "a - b" "b - c"] by (simp add: pcong_def add.assoc)

lemma pcong_add: "pcong f a b \<Longrightarrow> pcong f c d \<Longrightarrow> pcong f (a + c) (b + d)"
  using dvd_add [of f "a - b" "c - d"] by (simp add: pcong_def ac_simps)

lemma pcong_mult: "pcong f a b \<Longrightarrow> pcong f c d \<Longrightarrow> pcong f (a * c) (b * d)"
proof -
  assume "pcong f a b" "pcong f c d"
  then have "f dvd (a - b) * c + b * (c - d)" unfolding pcong_def by (meson dvd_add dvd_mult dvd_mult2)
  also have "(a - b) * c + b * (c - d) = a * c - b * d" by (simp add: algebra_simps)
  finally show ?thesis by (simp add: pcong_def)
qed

lemma pcong_unique: "pcong (poly_of f) (poly_of a) (poly_of b) \<Longrightarrow> blen a < blen f \<Longrightarrow> blen b < blen f \<Longrightarrow> a = b"
  unfolding pcong_def by (rule residue_unique)

lemma poly_of_bit: "poly_of (2 * t + of_bool b) = X * poly_of t + (if b then 1 else 0)"
  using odd_xor_1 [of t] poly_of_xor [of "Suc 0" "2 * t"] by (simp add: poly_of_double add.commute)

text \<open>Two polynomials generate the whole ring.\<close>

definition coprime_polys :: "bpoly \<Rightarrow> bpoly \<Rightarrow> bool" where
  "coprime_polys a b \<longleftrightarrow> (\<exists>s t. s * a + t * b = 1)"

lemma coprime_polys_commute: "coprime_polys a b \<longleftrightarrow> coprime_polys b a"
  unfolding coprime_polys_def by (metis add.commute)

lemma coprime_polys_step: "coprime_polys (a + c * b) b \<longleftrightarrow> coprime_polys a b"
proof
  assume "coprime_polys (a + c * b) b"
  then obtain s t where "s * (a + c * b) + t * b = 1" unfolding coprime_polys_def by blast
  then have "s * a + (s * c + t) * b = 1" by (simp add: algebra_simps)
  then show "coprime_polys a b" unfolding coprime_polys_def by blast
next
  assume "coprime_polys a b"
  then obtain s t where "s * a + t * b = 1" unfolding coprime_polys_def by blast
  then have "s * (a + c * b) + (s * c + t) * b = 1" by (simp add: algebra_simps)
  then show "coprime_polys (a + c * b) b" unfolding coprime_polys_def by blast
qed

lemma coprime_polys_inverse: "coprime_polys a f \<longleftrightarrow> (\<exists>b. f dvd a * b - 1)"
proof
  assume "coprime_polys a f"
  then obtain s t where "s * a + t * f = 1" unfolding coprime_polys_def by blast
  then have "a * s - 1 = f * t" by (metis add.commute bpoly_add_cancel bpoly_diff mult.commute)
  then show "\<exists>b. f dvd a * b - 1" by (metis dvd_triv_left)
next
  assume "\<exists>b. f dvd a * b - 1"
  then obtain b q where "a * b + 1 = f * q" by (metis bpoly_diff dvdE)
  then have "b * a + q * f = 1" by (metis mult.commute bpoly_add_cancel add.commute)
  then show "coprime_polys a f" unfolding coprime_polys_def by blast
qed

lemma coprime_polys_1 [simp]: "coprime_polys 1 b"
  unfolding coprime_polys_def by (metis add_0_right mult_1 mult_zero_left)

lemma product_is_1: "poly_of a * poly_of b = 1 \<Longrightarrow> a = 1"
proof -
  assume "poly_of a * poly_of b = 1"
  then have ab: "clmul a b = 1" by (simp flip: poly_of_clmul poly_of_1)
  then have "a \<noteq> 0" "b \<noteq> 0" by (metis clmul_0_left zero_neq_one, metis clmul_0_right zero_neq_one)
  then have "2 = blen a + blen b" using blen_clmul [of a b] ab by simp
  moreover have "1 \<le> blen b" "1 \<le> blen a" using \<open>a \<noteq> 0\<close> \<open>b \<noteq> 0\<close> blen_eq_0_iff [of a] blen_eq_0_iff [of b] by linarith+
  ultimately have "blen a = 1" by linarith
  then show "a = 1" by (simp only: blen_eq_1_iff)
qed

lemma coprime_polys_0: "coprime_polys 0 (poly_of b) \<longleftrightarrow> b = 1"
proof
  assume "coprime_polys 0 (poly_of b)"
  then obtain t where "t * poly_of b = 1" unfolding coprime_polys_def by auto
  then show "b = 1" by (metis mult.commute poly_of_cases product_is_1)
next
  assume "b = 1"
  then show "coprime_polys 0 (poly_of b)" unfolding coprime_polys_def by (metis One_nat_def add_0 mult_1 mult_zero_left poly_of_1)
qed

end
