(* ===== verification/Gf_Buffers.thy ===== *)
theory Gf_Buffers
  imports Keytext Gf2_Poly "HOL-Library.While_Combinator"
begin

unbundle bit_operations_syntax

text \<open>
  What the two fields of \<open>ECC/eccl_le.cpp\<close> share. An operand is a buffer that the code reads
  both as 64-bit words (\<open>ulong *\<close>) and as bytes (\<open>opnd[i]\<close>) on a little-endian machine: the
  list of its words. The member functions of the two classes have the same text but for the
  number of words; the loops that text contains are stated here once.
\<close>

type_synonym opnd = "u64 list"

definition opnd_byte :: "opnd \<Rightarrow> nat \<Rightarrow> byte" where
  "opnd_byte p i = ucast (drop_bit (8 * (i mod 8)) (p ! (i div 8)))"

definition opnd_update :: "opnd \<Rightarrow> nat \<Rightarrow> byte \<Rightarrow> opnd" where
  "opnd_update p i b =
    p[i div 8 := (p ! (i div 8) AND NOT (push_bit (8 * (i mod 8)) (mask 8))) OR push_bit (8 * (i mod 8)) (ucast b)]"

text \<open>A buffer filled by \<open>memmove\<close> from bytes.\<close>

fun opnd_of_bytes :: "byte list \<Rightarrow> opnd" where
  "opnd_of_bytes (b0 # b1 # b2 # b3 # b4 # b5 # b6 # b7 # bs) =
     (ucast b0 OR push_bit 8 (ucast b1) OR push_bit 16 (ucast b2) OR push_bit 24 (ucast b3)
      OR push_bit 32 (ucast b4) OR push_bit 40 (ucast b5) OR push_bit 48 (ucast b6) OR push_bit 56 (ucast b7))
     # opnd_of_bytes bs"
| "opnd_of_bytes _ = []"

section \<open>Hexadecimal constants\<close>

text \<open>
  \<open>sscanf\<close> with \<open>%02x\<close> and \<open>%01x\<close>. Where it fails, \<open>x\<close> is not assigned and the byte stored is
  indeterminate: \<open>None\<close>.
\<close>

definition scan_1x :: "byte list \<Rightarrow> byte option" where
  "scan_1x p = (case dropWhile isspace (c_string p) of [] \<Rightarrow> None | c # s \<Rightarrow> hexval c)"

function from_string_loop :: "byte list \<Rightarrow> nat \<Rightarrow> opnd \<Rightarrow> nat \<Rightarrow> int \<Rightarrow> (opnd \<times> nat \<times> int) option" where
  "from_string_loop str maxbytes p jx ix =
    (let ix = ix - 2
     in if jx < maxbytes \<and> ix \<ge> 0
        then case scan_2X (drop (nat ix) str) of
               None \<Rightarrow> None
             | Some x \<Rightarrow> from_string_loop str maxbytes (opnd_update p jx x) (jx + 1) ix
        else Some (p, jx, ix))"
  by pat_completeness auto
termination by (relation "measure (\<lambda>(s, m, p, jx, ix). m - jx)") auto

declare from_string_loop.simps [simp del]

definition init_from_string_for_nbytes :: "byte list \<Rightarrow> opnd \<Rightarrow> nat \<Rightarrow> opnd option" where
  "init_from_string_for_nbytes str p maxbytes =
    (case from_string_loop str maxbytes p 0 (int (length (c_string str))) of
       None \<Rightarrow> None
     | Some (p, jx, ix) \<Rightarrow>
         if jx < maxbytes \<and> ix = - 1 then map_option (opnd_update p jx) (scan_1x str) else Some p)"

section \<open>The highest bit\<close>

lemma halved_less: "m \<noteq> 0 \<Longrightarrow> unat (drop_bit 1 m) < unat m" for m :: u32
proof -
  assume "m \<noteq> 0"
  then have "0 < unat m" by (simp add: unat_gt_0)
  moreover have "unat (drop_bit 1 m) = unat m div 2" by (simp add: drop_bit_eq_div unat_div)
  ultimately show ?thesis by linarith
qed

text \<open>\<open>first_bit\<close>: the highest word that is not zero, its highest byte, the msk of the bit.\<close>

fun top_word :: "opnd \<Rightarrow> nat \<Rightarrow> nat option" where
  "top_word p 0 = None"
| "top_word p (Suc ix) = (if p ! ix \<noteq> 0 then Some ix else top_word p ix)"

fun top_byte :: "opnd \<Rightarrow> nat \<Rightarrow> nat" where
  "top_byte p 0 = 0"
| "top_byte p (Suc ix) = (if opnd_byte p ix \<noteq> 0 then ix else top_byte p ix)"

text \<open>The loop \<open>for(mask = 0x080; 0 == (mask & b); mask >>= 1)\<close>, entered with a byte \<open>b\<close> that is not zero.\<close>

function top_mask :: "byte \<Rightarrow> u32 \<Rightarrow> u32" where
  "top_mask b msk = (if msk AND ucast b = 0 \<and> msk \<noteq> 0 then top_mask b (drop_bit 1 msk) else msk)"
  by pat_completeness auto
termination by (relation "measure (\<lambda>(b, msk). unat msk)") (use halved_less in simp_all)

declare top_mask.simps [simp del]

definition first_bit :: "nat \<Rightarrow> opnd \<Rightarrow> (nat \<times> u32) option" where
  "first_bit nw p =
    (case top_word p nw of
       None \<Rightarrow> None
     | Some ix \<Rightarrow> let ix = top_byte p ((ix + 1) * 8) in Some (ix, top_mask (opnd_byte p ix) 0x80))"

text \<open>
  \<open>integer_length\<close>: the loop \<open>for(; --ix, (msk <<= 1);)\<close> shifts the 32-bit msk until no bit is
  left in it.
\<close>

function count_up :: "int \<Rightarrow> u32 \<Rightarrow> int" where
  "count_up ix msk =
    (let ix = ix - 1; msk = push_bit 1 msk in if msk \<noteq> 0 then count_up ix msk else ix)"
  by pat_completeness auto
termination
proof (relation "measure (\<lambda>(ix, msk). LEAST k. push_bit k msk = 0)")
  fix ix i :: int and msk m :: u32
  assume m: "m = push_bit 1 msk" "m \<noteq> 0"
  let ?k = "LEAST k. push_bit k msk = 0"
  have "push_bit 32 msk = 0" by (simp add: push_bit_word_beyond)
  then have k: "push_bit ?k msk = 0" by (rule LeastI)
  then obtain j where j: "?k = Suc j" using m by (cases ?k) auto
  then have "push_bit j m = 0" using k m by (simp add: add.commute)
  then show "((i, m), (ix, msk)) \<in> measure (\<lambda>(ix, msk). LEAST k. push_bit k msk = 0)"
    using j by (simp add: Least_le less_Suc_eq_le)
qed simp

declare count_up.simps [simp del]

definition integer_length :: "nat \<Rightarrow> opnd \<Rightarrow> int" where
  "integer_length nw p =
    (case first_bit nw p of
       None \<Rightarrow> 0
     | Some (ix, msk) \<Rightarrow> 1 + count_up (8 * (int ix + 1)) msk)"

section \<open>Loops over the bits below the highest\<close>

text \<open>
  The loops \<open>for(; ix >= 0; --ix, mask = 0x100) { ubyte b = n.opnd[ix]; for(; mask >>= 1; ) ... }\<close>
  of the products and of the multiples of a point, with body \<open>f\<close>.
\<close>

function bit_loop :: "('a \<Rightarrow> bool \<Rightarrow> 'a) \<Rightarrow> byte \<Rightarrow> u32 \<Rightarrow> 'a \<Rightarrow> 'a" where
  "bit_loop f b msk a =
    (let msk = drop_bit 1 msk
     in if msk \<noteq> 0 then bit_loop f b msk (f a (msk AND ucast b \<noteq> 0)) else a)"
  by pat_completeness auto
termination
proof (relation "measure (\<lambda>(f, b, msk, a). unat msk)")
  fix f :: "'a \<Rightarrow> bool \<Rightarrow> 'a" and b :: byte and msk x :: u32 and a
  assume x: "x = drop_bit 1 msk" "x \<noteq> 0"
  then have "msk \<noteq> 0" by auto
  then show "((f, b, x, f a (x AND ucast b \<noteq> 0)), (f, b, msk, a)) \<in> measure (\<lambda>(f, b, msk, a). unat msk)"
    unfolding x(1) using halved_less by simp
qed simp

declare bit_loop.simps [simp del]

fun byte_loop :: "('a \<Rightarrow> bool \<Rightarrow> 'a) \<Rightarrow> opnd \<Rightarrow> nat \<Rightarrow> u32 \<Rightarrow> 'a \<Rightarrow> 'a" where
  "byte_loop f p 0 msk a = bit_loop f (opnd_byte p 0) msk a"
| "byte_loop f p (Suc ix) msk a = byte_loop f p ix 0x100 (bit_loop f (opnd_byte p (Suc ix)) msk a)"

end
