(* ===== verification/Gf571.thy ===== *)
theory Gf571
  imports Gf_Buffers
begin

unbundle bit_operations_syntax

text \<open>
  The fields of \<open>ECC/eccl_le.cpp\<close>: \<open>gf571_opnd\<close>, polynomials modulo
  \<open>x^571 + x^10 + x^5 + x^2 + 1\<close> in nine words, and \<open>gf128_opnd\<close>, polynomials modulo
  \<open>x^128 + x^7 + x^2 + x + 1\<close> in two. Every function writes its result in the end or word by word
  from the highest, so that the result may be one of the operands.
\<close>

section \<open>The field of 2^571 elements\<close>

definition static_gf571_opnd :: "byte list \<Rightarrow> nat \<Rightarrow> opnd" where
  "static_gf571_opnd pnum nb =
    (let nb = (if nb > 72 then 72 else nb);
         p = opnd_of_bytes (take nb pnum @ replicate (72 - nb) 0)
     in opnd_update p 71 (opnd_byte p 71 AND 0x07))"

definition gf571_add :: "opnd \<Rightarrow> opnd \<Rightarrow> opnd" where
  "gf571_add p1 p2 =
    [p1 ! 0 XOR p2 ! 0, p1 ! 1 XOR p2 ! 1, p1 ! 2 XOR p2 ! 2, p1 ! 3 XOR p2 ! 3, p1 ! 4 XOR p2 ! 4,
     p1 ! 5 XOR p2 ! 5, p1 ! 6 XOR p2 ! 6, p1 ! 7 XOR p2 ! 7, p1 ! 8 XOR p2 ! 8]"

definition gf571_zero :: opnd where
  "gf571_zero = [0, 0, 0, 0, 0, 0, 0, 0, 0]"

definition gf571_one :: opnd where
  "gf571_one = opnd_update gf571_zero 0 1"

definition gf571_two :: opnd where
  "gf571_two = opnd_update gf571_zero 0 2"

definition gf571_prim :: opnd where
  "gf571_prim = opnd_update (opnd_update (opnd_update gf571_zero 71 0x08) 1 0x04) 0 0x25"

definition gf571_init_from_string :: "byte list \<Rightarrow> opnd option" where
  "gf571_init_from_string str =
    map_option (\<lambda>p. opnd_update p 71 (opnd_byte p 71 AND 0x07)) (init_from_string_for_nbytes str gf571_zero 72)"

definition gf571_is_one :: "opnd \<Rightarrow> bool" where
  "gf571_is_one p \<longleftrightarrow>
    0 = p ! 8 \<and> 0 = p ! 7 \<and> 0 = p ! 6 \<and> 0 = p ! 5 \<and> 0 = p ! 4 \<and> 0 = p ! 3 \<and> 0 = p ! 2 \<and> 0 = p ! 1 \<and> 1 = p ! 0"

definition gf571_is_zero :: "opnd \<Rightarrow> bool" where
  "gf571_is_zero p \<longleftrightarrow>
    \<not> (p ! 8 \<noteq> 0 \<or> p ! 7 \<noteq> 0 \<or> p ! 6 \<noteq> 0 \<or> p ! 5 \<noteq> 0 \<or> p ! 4 \<noteq> 0 \<or> p ! 3 \<noteq> 0 \<or> p ! 2 \<noteq> 0 \<or> p ! 1 \<noteq> 0 \<or> p ! 0 \<noteq> 0)"

definition gf571_eq :: "opnd \<Rightarrow> opnd \<Rightarrow> bool" where
  "gf571_eq p1 p2 \<longleftrightarrow>
    p1 ! 0 = p2 ! 0 \<and> p1 ! 1 = p2 ! 1 \<and> p1 ! 2 = p2 ! 2 \<and> p1 ! 3 = p2 ! 3 \<and> p1 ! 4 = p2 ! 4 \<and>
    p1 ! 5 = p2 ! 5 \<and> p1 ! 6 = p2 ! 6 \<and> p1 ! 7 = p2 ! 7 \<and> p1 ! 8 = p2 ! 8"

definition gf571_oneplus :: "opnd \<Rightarrow> opnd" where
  "gf571_oneplus p = opnd_update p 0 (opnd_byte p 0 XOR 1)"

definition gf571_step :: "opnd \<Rightarrow> opnd" where
  "gf571_step p =
    (let hibit = opnd_byte p 71 AND 0xFC;
         p = [push_bit 1 (p ! 0),
              push_bit 1 (p ! 1) OR drop_bit 63 (p ! 0),
              push_bit 1 (p ! 2) OR drop_bit 63 (p ! 1),
              push_bit 1 (p ! 3) OR drop_bit 63 (p ! 2),
              push_bit 1 (p ! 4) OR drop_bit 63 (p ! 3),
              push_bit 1 (p ! 5) OR drop_bit 63 (p ! 4),
              push_bit 1 (p ! 6) OR drop_bit 63 (p ! 5),
              push_bit 1 (p ! 7) OR drop_bit 63 (p ! 6),
              push_bit 1 (p ! 8) OR drop_bit 63 (p ! 7)];
         p = opnd_update p 71 (opnd_byte p 71 AND 0x07)
     in if hibit \<noteq> 0
        then let p = opnd_update p 1 (opnd_byte p 1 XOR 0x04) in opnd_update p 0 (opnd_byte p 0 XOR 0x25)
        else p)"

definition gf571_first_bit :: "opnd \<Rightarrow> (nat \<times> u32) option" where
  "gf571_first_bit = first_bit 9"

definition gf571_integer_length :: "opnd \<Rightarrow> int" where
  "gf571_integer_length = integer_length 9"

definition gf571_mul :: "opnd \<Rightarrow> opnd \<Rightarrow> opnd" where
  "gf571_mul op1 op2 =
    (case gf571_first_bit op2 of
       None \<Rightarrow> gf571_zero
     | Some (ix, msk) \<Rightarrow>
         byte_loop (\<lambda>ans b. let ans = gf571_step ans in if b then gf571_add ans op1 else ans) op2 ix msk op1)"

definition gf571_shiftl :: "opnd \<Rightarrow> nat \<Rightarrow> opnd" where
  "gf571_shiftl s nsh =
    (let q = nsh div 64; nl = nsh mod 64; nr = 64 - nl
     in
       if q = 8 then
         (if nl \<noteq> 0
          then [0, 0, 0, 0, 0, 0, 0, 0, push_bit nl (s ! 0)]
          else [0, 0, 0, 0, 0, 0, 0, 0, s ! 0])
       else if q = 7 then
         (if nl \<noteq> 0
          then [0, 0, 0, 0, 0, 0, 0, push_bit nl (s ! 0), push_bit nl (s ! 1) OR drop_bit nr (s ! 0)]
          else [0, 0, 0, 0, 0, 0, 0, s ! 0, s ! 1])
       else if q = 6 then
         (if nl \<noteq> 0
          then [0, 0, 0, 0, 0, 0, push_bit nl (s ! 0), push_bit nl (s ! 1) OR drop_bit nr (s ! 0),
                push_bit nl (s ! 2) OR drop_bit nr (s ! 1)]
          else [0, 0, 0, 0, 0, 0, s ! 0, s ! 1, s ! 2])
       else if q = 5 then
         (if nl \<noteq> 0
          then [0, 0, 0, 0, 0, push_bit nl (s ! 0), push_bit nl (s ! 1) OR drop_bit nr (s ! 0),
                push_bit nl (s ! 2) OR drop_bit nr (s ! 1), push_bit nl (s ! 3) OR drop_bit nr (s ! 2)]
          else [0, 0, 0, 0, 0, s ! 0, s ! 1, s ! 2, s ! 3])
       else if q = 4 then
         (if nl \<noteq> 0
          then [0, 0, 0, 0, push_bit nl (s ! 0), push_bit nl (s ! 1) OR drop_bit nr (s ! 0),
                push_bit nl (s ! 2) OR drop_bit nr (s ! 1), push_bit nl (s ! 3) OR drop_bit nr (s ! 2),
                push_bit nl (s ! 4) OR drop_bit nr (s ! 3)]
          else [0, 0, 0, 0, s ! 0, s ! 1, s ! 2, s ! 3, s ! 4])
       else if q = 3 then
         (if nl \<noteq> 0
          then [0, 0, 0, push_bit nl (s ! 0), push_bit nl (s ! 1) OR drop_bit nr (s ! 0),
                push_bit nl (s ! 2) OR drop_bit nr (s ! 1), push_bit nl (s ! 3) OR drop_bit nr (s ! 2),
                push_bit nl (s ! 4) OR drop_bit nr (s ! 3), push_bit nl (s ! 5) OR drop_bit nr (s ! 4)]
          else [0, 0, 0, s ! 0, s ! 1, s ! 2, s ! 3, s ! 4, s ! 5])
       else if q = 2 then
         (if nl \<noteq> 0
          then [0, 0, push_bit nl (s ! 0), push_bit nl (s ! 1) OR drop_bit nr (s ! 0),
                push_bit nl (s ! 2) OR drop_bit nr (s ! 1), push_bit nl (s ! 3) OR drop_bit nr (s ! 2),
                push_bit nl (s ! 4) OR drop_bit nr (s ! 3), push_bit nl (s ! 5) OR drop_bit nr (s ! 4),
                push_bit nl (s ! 6) OR drop_bit nr (s ! 5)]
          else [0, 0, s ! 0, s ! 1, s ! 2, s ! 3, s ! 4, s ! 5, s ! 6])
       else if q = 1 then
         (if nl \<noteq> 0
          then [0, push_bit nl (s ! 0), push_bit nl (s ! 1) OR drop_bit nr (s ! 0),
                push_bit nl (s ! 2) OR drop_bit nr (s ! 1), push_bit nl (s ! 3) OR drop_bit nr (s ! 2),
                push_bit nl (s ! 4) OR drop_bit nr (s ! 3), push_bit nl (s ! 5) OR drop_bit nr (s ! 4),
                push_bit nl (s ! 6) OR drop_bit nr (s ! 5), push_bit nl (s ! 7) OR drop_bit nr (s ! 6)]
          else [0, s ! 0, s ! 1, s ! 2, s ! 3, s ! 4, s ! 5, s ! 6, s ! 7])
       else if q = 0 then
         (if nl \<noteq> 0
          then [push_bit nl (s ! 0), push_bit nl (s ! 1) OR drop_bit nr (s ! 0),
                push_bit nl (s ! 2) OR drop_bit nr (s ! 1), push_bit nl (s ! 3) OR drop_bit nr (s ! 2),
                push_bit nl (s ! 4) OR drop_bit nr (s ! 3), push_bit nl (s ! 5) OR drop_bit nr (s ! 4),
                push_bit nl (s ! 6) OR drop_bit nr (s ! 5), push_bit nl (s ! 7) OR drop_bit nr (s ! 6),
                push_bit nl (s ! 8) OR drop_bit nr (s ! 7)]
          else s)
       else gf571_zero)"

definition gf571_inv_body :: "opnd \<times> opnd \<times> opnd \<times> opnd \<Rightarrow> opnd \<times> opnd \<times> opnd \<times> opnd" where
  "gf571_inv_body = (\<lambda>(u, v, g1, g2).
    let j = gf571_integer_length u - gf571_integer_length v;
        (u, v, g1, g2, j) = (if j < 0 then (v, u, g2, g1, - j) else (u, v, g1, g2, j));
        tmp = gf571_shiftl v (nat j);
        u = gf571_add u tmp;
        tmp = gf571_shiftl g2 (nat j);
        g1 = gf571_add g1 tmp
    in (u, v, g1, g2))"

text \<open>\<open>None\<close>: the loop does not end.\<close>

definition gf571_inv :: "opnd \<Rightarrow> opnd option" where
  "gf571_inv p =
    map_option (\<lambda>(u, v, g1, g2). g1)
      (while_option (\<lambda>(u, v, g1, g2). \<not> gf571_is_one u) gf571_inv_body (p, gf571_prim, gf571_one, gf571_zero))"

definition gf571_div :: "opnd \<Rightarrow> opnd \<Rightarrow> opnd option" where
  "gf571_div op1 op2 = map_option (gf571_mul op1) (gf571_inv op2)"

section \<open>The field of 2^128 elements\<close>

definition static_gf128_opnd :: "byte list \<Rightarrow> nat \<Rightarrow> opnd" where
  "static_gf128_opnd pnum nb =
    (let nb = (if nb > 16 then 16 else nb) in opnd_of_bytes (take nb pnum @ replicate (16 - nb) 0))"

definition gf128_add :: "opnd \<Rightarrow> opnd \<Rightarrow> opnd" where
  "gf128_add p1 p2 = [p1 ! 0 XOR p2 ! 0, p1 ! 1 XOR p2 ! 1]"

definition gf128_zero :: opnd where
  "gf128_zero = [0, 0]"

definition gf128_one :: opnd where
  "gf128_one = [1, 0]"

definition gf128_two :: opnd where
  "gf128_two = [2, 0]"

definition gf128_prim :: opnd where
  "gf128_prim = [0x87, 0]"

definition gf128_init_from_string :: "byte list \<Rightarrow> opnd option" where
  "gf128_init_from_string str = init_from_string_for_nbytes str gf128_zero 16"

definition gf128_is_one :: "opnd \<Rightarrow> bool" where
  "gf128_is_one p \<longleftrightarrow> 0 = p ! 1 \<and> 1 = p ! 0"

definition gf128_is_zero :: "opnd \<Rightarrow> bool" where
  "gf128_is_zero p \<longleftrightarrow> 0 = p ! 0 \<and> 0 = p ! 1"

definition gf128_eq :: "opnd \<Rightarrow> opnd \<Rightarrow> bool" where
  "gf128_eq p1 p2 \<longleftrightarrow> p1 ! 0 = p2 ! 0 \<and> p1 ! 1 = p2 ! 1"

definition gf128_oneplus :: "opnd \<Rightarrow> opnd" where
  "gf128_oneplus p = [p ! 0 XOR 1, p ! 1]"

definition gf128_step :: "opnd \<Rightarrow> opnd" where
  "gf128_step p =
    (let hibit = opnd_byte p 15 AND 0x80;
         p = [push_bit 1 (p ! 0), push_bit 1 (p ! 1) OR drop_bit 7 (ucast (opnd_byte p 7))]
     in if hibit \<noteq> 0 then opnd_update p 0 (opnd_byte p 0 XOR 0x87) else p)"

definition gf128_first_bit :: "opnd \<Rightarrow> (nat \<times> u32) option" where
  "gf128_first_bit = first_bit 2"

definition gf128_integer_length :: "opnd \<Rightarrow> int" where
  "gf128_integer_length = integer_length 2"

definition gf128_mul :: "opnd \<Rightarrow> opnd \<Rightarrow> opnd" where
  "gf128_mul op1 op2 =
    (case gf128_first_bit op2 of
       None \<Rightarrow> gf128_zero
     | Some (ix, msk) \<Rightarrow>
         byte_loop (\<lambda>ans b. let ans = gf128_step ans in if b then gf128_add ans op1 else ans) op2 ix msk op1)"

text \<open>The default branch writes a third word, behind the buffer: no value.\<close>

definition gf128_shiftl :: "opnd \<Rightarrow> nat \<Rightarrow> opnd option" where
  "gf128_shiftl s nsh =
    (let nl = nsh mod 64; nr = 64 - nl
     in if nsh div 64 = 1 then Some (if nl \<noteq> 0 then [0, push_bit nl (s ! 0)] else [0, s ! 0])
        else if nsh div 64 = 0
        then Some (if nl \<noteq> 0 then [push_bit nl (s ! 0), push_bit nl (s ! 1) OR drop_bit nr (s ! 0)] else [s ! 0, s ! 1])
        else None)"

text \<open>\<open>g1 = (g1 XOR g2 << j)\<close> and the same of \<open>u\<close> and \<open>v\<close>, after a swap.\<close>

definition gf128_inv_body :: "opnd \<times> opnd \<times> opnd \<times> opnd \<Rightarrow> (opnd \<times> opnd \<times> opnd \<times> opnd) option" where
  "gf128_inv_body = (\<lambda>(u, v, g1, g2).
    let j = gf128_integer_length u - gf128_integer_length v;
        (u, v, g1, g2, j) = (if j < 0 then (v, u, g2, g1, - j) else (u, v, g1, g2, j))
    in Option.bind (gf128_shiftl v (nat j)) (\<lambda>tmp.
         let u = gf128_add u tmp
         in Option.bind (gf128_shiftl g2 (nat j)) (\<lambda>tmp.
              let g1 = gf128_add g1 tmp in Some (u, v, g1, g2))))"

text \<open>\<open>None\<close>: the loop does not end, or a shift writes behind its buffer.\<close>

definition gf128_inv :: "opnd \<Rightarrow> opnd option" where
  "gf128_inv p =
    (if gf128_is_one p then Some gf128_one
     else
       let v = p; g2 = gf128_one; j = nat (129 - gf128_integer_length v)
       in Option.bind (gf128_shiftl v j) (\<lambda>u.
            let u = opnd_update u 0 (opnd_byte u 0 XOR 0x87)
            in Option.bind (gf128_shiftl g2 j) (\<lambda>g1.
                 Option.bind
                   (while_option (\<lambda>st. case st of None \<Rightarrow> False | Some (u, v, g1, g2) \<Rightarrow> \<not> gf128_is_one u)
                     (\<lambda>st. Option.bind st gf128_inv_body) (Some (u, v, g1, g2)))
                   (map_option (\<lambda>(u, v, g1, g2). g1)))))"

definition gf128_div :: "opnd \<Rightarrow> opnd \<Rightarrow> opnd option" where
  "gf128_div op1 op2 = map_option (gf128_mul op1) (gf128_inv op2)"

end
