(* ===== verification/Ecc571.thy ===== *)
theory Ecc571
  imports Gf571
begin

unbundle bit_operations_syntax

text \<open>
  The curve of \<open>ECC/eccl_le.cpp\<close>: points of \<open>y^2 + x y = x^3 + a x^2 + b\<close> over \<open>gf571_opnd\<close> in affine
  and in Jacobian coordinates, multiples of a point, and the functions for Lisp. A division
  that does not return makes the result \<open>None\<close>.
\<close>

record ecc571_affine_pt =
  ax :: opnd
  ay :: opnd

record ecc571_projective_pt =
  jx :: opnd
  jy :: opnd
  jz :: opnd

text \<open>The static variables \<open>gEcc571_a\<close> and \<open>gEcc571_b\<close>.\<close>

record ecc571_curve =
  curve_a :: opnd
  curve_b :: opnd

section \<open>Constants\<close>

definition gEcc571 :: "ecc571_curve option" where
  "gEcc571 =
    Option.bind (gf571_init_from_string (ascii ''1'')) (\<lambda>a.
    Option.bind (gf571_init_from_string (ascii
      ''2f40e7e2221f295de297117b7f3d62f5c6a97ffcb8ceff1cd6ba8ce4a9a18ad84ffabbd8efa59332be7ad6756a66e294afd185a78ff12aa520e4de739baca0c7ffeff7f2955727a''))
      (\<lambda>b. Some \<lparr>curve_a = a, curve_b = b\<rparr>))"

definition static_ecc571_affine_pt :: "byte list \<Rightarrow> byte list \<Rightarrow> ecc571_affine_pt option" where
  "static_ecc571_affine_pt s0 s1 =
    Option.bind (gf571_init_from_string s0) (\<lambda>x.
    Option.bind (gf571_init_from_string s1) (\<lambda>y. Some \<lparr>ax = x, ay = y\<rparr>))"

definition gGen :: "ecc571_affine_pt option" where
  "gGen =
    static_ecc571_affine_pt
      (ascii ''303001d34b856296c16c0d40d3cd7750a93d1d2955fa80aa5f40fc8db7b2abdbde53950f4c0d293cdd711a35b67fb1499ae60038614f1394abfa3b4c850d927e1e7769c8eec2d19'')
      (ascii ''37bf27342da639b6dccfffeb73d69d78c6c27a6009cbbca1980f8533921e8a684423e43bab08a576291af8f461bb2a8b3531d2f0485c19b16e2f1516e23dd3c1a4827af1b8ac15b'')"

section \<open>Affine points\<close>

definition infinite :: ecc571_affine_pt where
  "infinite = \<lparr>ax = gf571_zero, ay = gf571_zero\<rparr>"

definition infinite_p :: "ecc571_affine_pt \<Rightarrow> bool" where
  "infinite_p pt \<longleftrightarrow> gf571_is_zero (ax pt) \<and> gf571_is_zero (ay pt)"

definition ecc571_neg :: "ecc571_affine_pt \<Rightarrow> ecc571_affine_pt" where
  "ecc571_neg pt = \<lparr>ax = ax pt, ay = gf571_add (ax pt) (ay pt)\<rparr>"

definition ecc571_double :: "ecc571_curve \<Rightarrow> ecc571_affine_pt \<Rightarrow> ecc571_affine_pt option" where
  "ecc571_double E pt =
    (if gf571_is_zero (ax pt) then Some infinite
     else
       Option.bind (gf571_div (ay pt) (ax pt)) (\<lambda>ans_x.
         let tmp1 = gf571_add (ax pt) ans_x;
             ans_x = gf571_mul tmp1 tmp1;
             tmp2 = gf571_add tmp1 (curve_a E);
             ans_x = gf571_add ans_x tmp2;
             ans_y = gf571_oneplus tmp1;
             ans_y = gf571_mul ans_y ans_x;
             tmp1 = gf571_mul (ax pt) (ax pt);
             ans_y = gf571_add ans_y tmp1
         in Some \<lparr>ax = ans_x, ay = ans_y\<rparr>))"

definition ecc571_add :: "ecc571_curve \<Rightarrow> ecc571_affine_pt \<Rightarrow> ecc571_affine_pt \<Rightarrow> ecc571_affine_pt option" where
  "ecc571_add E pt1 pt2 =
    (if infinite_p pt1 then Some pt2
     else if infinite_p pt2 then Some pt1
     else if gf571_eq (ax pt1) (ax pt2)
     then if gf571_is_zero (ax pt1) \<or> \<not> gf571_eq (ay pt1) (ay pt2) then Some infinite
          else ecc571_double E pt1
     else
       let ans_x = gf571_add (ay pt1) (ay pt2);
           tmp1 = gf571_add (ax pt2) (ax pt1)
       in Option.bind (gf571_div ans_x tmp1) (\<lambda>tmp2.
         let ans_x = gf571_mul tmp2 tmp2;
             ans_x = gf571_add ans_x tmp2;
             ans_y = gf571_add tmp1 (curve_a E);
             ans_x = gf571_add ans_x ans_y;
             ans_y = gf571_add (ax pt1) ans_x;
             ans_y = gf571_mul tmp2 ans_y;
             ans_y = gf571_add ans_x ans_y;
             ans_y = gf571_add (ay pt1) ans_y
         in Some \<lparr>ax = ans_x, ay = ans_y\<rparr>))"

definition ecc571_sub :: "ecc571_curve \<Rightarrow> ecc571_affine_pt \<Rightarrow> ecc571_affine_pt \<Rightarrow> ecc571_affine_pt option" where
  "ecc571_sub E pt1 pt2 = ecc571_add E pt1 (ecc571_neg pt2)"

section \<open>Jacobian coordinates\<close>

definition proj_infinite :: ecc571_projective_pt where
  "proj_infinite = \<lparr>jx = gf571_one, jy = gf571_one, jz = gf571_zero\<rparr>"

definition proj_infinite_p :: "ecc571_projective_pt \<Rightarrow> bool" where
  "proj_infinite_p pt \<longleftrightarrow> gf571_is_zero (jz pt)"

definition static_ecc571_projective_pt :: "ecc571_affine_pt \<Rightarrow> opnd \<Rightarrow> ecc571_projective_pt" where
  "static_ecc571_projective_pt pt rnd =
    (let tmp1 = gf571_mul rnd rnd;
         tmp2 = gf571_mul rnd tmp1;
         tmp1 = gf571_mul tmp1 (ax pt);
         tmp2 = gf571_mul tmp2 (ay pt)
     in \<lparr>jx = tmp1, jy = tmp2, jz = rnd\<rparr>)"

definition convert_to_affine :: "ecc571_projective_pt \<Rightarrow> ecc571_affine_pt option" where
  "convert_to_affine pt =
    (if proj_infinite_p pt then Some infinite
     else
       Option.bind (gf571_inv (jz pt)) (\<lambda>tmp1.
         let tmp2 = gf571_mul tmp1 tmp1;
             tmp1 = gf571_mul tmp2 tmp1
         in Some \<lparr>ax = gf571_mul (jx pt) tmp2, ay = gf571_mul (jy pt) tmp1\<rparr>))"

definition proj_double :: "ecc571_curve \<Rightarrow> ecc571_projective_pt \<Rightarrow> ecc571_projective_pt" where
  "proj_double E pt =
    (if proj_infinite_p pt then proj_infinite
     else
       let ans_z = gf571_mul (jz pt) (jz pt);
           ans_z = gf571_mul (jx pt) ans_z;
           ans_y = gf571_mul (jy pt) (jz pt);
           tmp1 = gf571_mul (jx pt) (jx pt);
           tmp2 = gf571_add ans_y tmp1;
           ans_y = gf571_mul tmp2 tmp2;
           ans_x = gf571_mul (curve_a E) ans_z;
           ans_x = gf571_add ans_x tmp2;
           ans_x = gf571_mul ans_z ans_x;
           ans_x = gf571_add ans_y ans_x;
           tmp1 = gf571_mul (jx pt) tmp1;
           tmp1 = gf571_mul (jx pt) tmp1;
           ans_y = gf571_add ans_x tmp1;
           ans_y = gf571_mul ans_z ans_y;
           tmp1 = gf571_mul tmp2 ans_x;
           ans_y = gf571_add ans_y tmp1
       in \<lparr>jx = ans_x, jy = ans_y, jz = ans_z\<rparr>)"

definition proj_add :: "ecc571_curve \<Rightarrow> ecc571_projective_pt \<Rightarrow> ecc571_projective_pt \<Rightarrow> ecc571_projective_pt" where
  "proj_add E pt1 pt2 =
    (if proj_infinite_p pt1 then pt2
     else if proj_infinite_p pt2 then pt1
     else
       let tmp1 = gf571_mul (jz pt2) (jz pt2);
           ans_z = gf571_mul (jx pt1) tmp1;
           tmp2 = gf571_mul (jz pt1) (jz pt1);
           ans_y = gf571_mul (jx pt2) tmp2;
           tmp3 = gf571_add ans_z ans_y;
           tmp4 = gf571_mul (jz pt2) tmp3;
           ans_z = gf571_mul (jz pt1) tmp4;
           ans_y = gf571_mul tmp3 tmp3;
           ans_y = gf571_mul tmp3 ans_y;
           tmp3 = gf571_mul ans_z ans_z;
           tmp3 = gf571_mul (curve_a E) tmp3;
           ans_x = gf571_mul (jz pt2) tmp1;
           ans_x = gf571_mul (jy pt1) ans_x;
           tmp1 = gf571_mul (jz pt1) tmp2;
           tmp1 = gf571_mul (jy pt2) tmp1;
           tmp1 = gf571_add ans_x tmp1
       in if gf571_is_zero ans_y
          then if gf571_is_zero tmp1 then proj_double E pt2 else proj_infinite
          else
            let ans_x = gf571_mul tmp1 ans_z;
                tmp2 = gf571_mul tmp1 tmp1;
                ans_x = gf571_add ans_x tmp2;
                ans_x = gf571_add tmp3 ans_x;
                ans_x = gf571_add ans_y ans_x;
                ans_y = gf571_mul (jz pt1) ans_x;
                tmp2 = gf571_mul tmp4 tmp4;
                tmp3 = gf571_mul (jy pt1) tmp2;
                ans_y = gf571_add ans_y tmp3;
                ans_y = gf571_mul tmp4 ans_y;
                tmp2 = gf571_mul (jx pt1) tmp2;
                tmp2 = gf571_add ans_x tmp2;
                tmp1 = gf571_mul tmp1 tmp2;
                ans_y = gf571_add ans_y tmp1
            in \<lparr>jx = ans_x, jy = ans_y, jz = ans_z\<rparr>)"

text \<open>The sum is always computed, into the result or into a scratch point.\<close>

definition proj_mul_body :: "ecc571_curve \<Rightarrow> ecc571_projective_pt \<Rightarrow> ecc571_projective_pt \<Rightarrow> bool \<Rightarrow> ecc571_projective_pt" where
  "proj_mul_body E pt = (\<lambda>ans b.
    let ans = proj_double E ans;
        s = proj_add E ans pt
    in if b then s else ans)"

definition proj_mul :: "ecc571_curve \<Rightarrow> ecc571_projective_pt \<Rightarrow> opnd \<Rightarrow> ecc571_projective_pt" where
  "proj_mul E pt n =
    (if gf571_is_zero n then proj_infinite
     else if proj_infinite_p pt then proj_infinite
     else
       case gf571_first_bit n of
         None \<Rightarrow> pt
       | Some (ix, msk) \<Rightarrow> byte_loop (proj_mul_body E pt) n ix msk pt)"

definition ecc571_mul :: "ecc571_curve \<Rightarrow> ecc571_affine_pt \<Rightarrow> opnd \<Rightarrow> opnd \<Rightarrow> ecc571_affine_pt option" where
  "ecc571_mul E pt n rnd = convert_to_affine (proj_mul E (static_ecc571_projective_pt pt rnd) n)"

definition ecc571_mulGen :: "ecc571_curve \<Rightarrow> opnd \<Rightarrow> ecc571_affine_pt option" where
  "ecc571_mulGen E n = Option.bind gGen (\<lambda>g. ecc571_mul E g n gf571_one)"

section \<open>Functions for Lisp\<close>

definition c_ecc571_add :: "ecc571_curve \<Rightarrow> opnd \<Rightarrow> opnd \<Rightarrow> opnd \<Rightarrow> opnd \<Rightarrow> (opnd \<times> opnd) option" where
  "c_ecc571_add E op1x op1y op2x op2y =
    map_option (\<lambda>p. (ax p, ay p)) (ecc571_add E \<lparr>ax = op1x, ay = op1y\<rparr> \<lparr>ax = op2x, ay = op2y\<rparr>)"

definition c_ecc571_sub :: "ecc571_curve \<Rightarrow> opnd \<Rightarrow> opnd \<Rightarrow> opnd \<Rightarrow> opnd \<Rightarrow> (opnd \<times> opnd) option" where
  "c_ecc571_sub E op1x op1y op2x op2y =
    map_option (\<lambda>p. (ax p, ay p)) (ecc571_sub E \<lparr>ax = op1x, ay = op1y\<rparr> \<lparr>ax = op2x, ay = op2y\<rparr>)"

definition c_ecc571_mul :: "ecc571_curve \<Rightarrow> opnd \<Rightarrow> opnd \<Rightarrow> opnd \<Rightarrow> opnd \<Rightarrow> (opnd \<times> opnd) option" where
  "c_ecc571_mul E op1x op1y op2 noise =
    map_option (\<lambda>p. (ax p, ay p)) (ecc571_mul E \<lparr>ax = op1x, ay = op1y\<rparr> op2 noise)"

text \<open>A null pointer leaves the coefficient alone.\<close>

definition c_ecc571_setCurve :: "opnd option \<Rightarrow> opnd option \<Rightarrow> ecc571_curve \<Rightarrow> ecc571_curve" where
  "c_ecc571_setCurve a b E =
    (let E = (case a of None \<Rightarrow> E | Some pa \<Rightarrow> E\<lparr>curve_a := pa\<rparr>)
     in case b of None \<Rightarrow> E | Some pb \<Rightarrow> E\<lparr>curve_b := pb\<rparr>)"

end
