(* ===== verification/Gf_Bits.thy ===== *)
theory Gf_Bits
  imports Gf_Buffers
begin

unbundle bit_operations_syntax

text \<open>
  The number in a buffer, bit by bit: what the accesses by byte, the search for the highest
  bit, the loops over the bits and shifts of whole words do to it.
\<close>

section \<open>The number in a buffer\<close>

fun num :: "opnd \<Rightarrow> nat" where
  "num [] = 0"
| "num (w # ws) = unat w OR push_bit 64 (num ws)"

lemma bit_num: "bit (num p) i \<longleftrightarrow> i < 64 * length p \<and> bit (p ! (i div 64)) (i mod 64)"
proof (induction p arbitrary: i)
  case (Cons w p)
  have w: "bit (num (w # p)) i \<longleftrightarrow> bit w i \<or> 64 \<le> i \<and> bit (num p) (i - 64)"
    by (auto simp: bit_simps bit_unsigned_iff)
  show ?case
  proof (cases "i < 64")
    case False
    then have "\<not> bit w i" using bit_imp_le_length [of w i] by auto
    moreover have "i div 64 = Suc ((i - 64) div 64)" "i mod 64 = (i - 64) mod 64"
      using False by (simp_all add: le_div_geq le_mod_geq)
    ultimately show ?thesis unfolding w Cons.IH using False by auto
  qed (simp add: w del: num.simps)
qed simp

lemma num_less: "num p < 2 ^ (64 * length p)"
  unfolding less_exp_iff_bits by (simp add: bit_num)

lemma num_eqI:
  assumes "length p = length q" "num p = num q"
  shows "p = q"
proof (rule nth_equalityI [OF assms(1)])
  fix k
  assume k: "k < length p"
  show "p ! k = q ! k"
  proof (rule bit_word_eqI)
    fix i
    assume "i < LENGTH(64)"
    then have i: "i < 64" by simp
    have "bit (num p) (64 * k + i) = bit (num q) (64 * k + i)" by (simp only: assms)
    moreover have "64 * k + i < 64 * length p" using i k by auto
    ultimately show "bit (p ! k) i = bit (q ! k) i" using i assms(1) by (simp add: bit_num)
  qed
qed

lemma num_eq_0_iff: "num p = 0 \<longleftrightarrow> (\<forall>k < length p. p ! k = 0)"
proof
  assume "num p = 0"
  have "num (replicate (length p) 0) = 0" by (rule bit_eqI) (simp add: bit_num)
  then have "p = replicate (length p) 0" using \<open>num p = 0\<close> by (intro num_eqI) simp_all
  then show "\<forall>k < length p. p ! k = 0" by (metis nth_replicate)
next
  assume "\<forall>k < length p. p ! k = 0"
  then show "num p = 0" by (intro bit_eqI) (auto simp: bit_num)
qed

lemma num_xor: "length p = length q \<Longrightarrow> num (map2 (XOR) p q) = num p XOR num q"
  by (rule bit_eqI) (auto simp: bit_num bit_xor_iff)

section \<open>Bytes\<close>

lemma length_opnd_update [simp]: "length (opnd_update p i b) = length p"
  by (simp add: opnd_update_def)

lemma byte_position: "k < 8 \<Longrightarrow> (8 * i + k) div 64 = i div 8 \<and> (8 * i + k) mod 64 = 8 * (i mod 8) + k" for i k :: nat
proof -
  assume k: "k < 8"
  let ?r = "8 * (i mod 8) + k"
  have e: "8 * i + k = ?r + 64 * (i div 8)" using mult_div_mod_eq [of 8 i] by linarith
  have "?r < 64" using k mod_less_divisor [of 8 i] by linarith
  then show ?thesis unfolding e by simp
qed

lemma bit_opnd_byte: "i < 8 * length p \<Longrightarrow> bit (opnd_byte p i) k \<longleftrightarrow> k < 8 \<and> bit (num p) (8 * i + k)"
  using byte_position [of k i] by (auto simp: opnd_byte_def bit_simps bit_num dest: bit_imp_le_length)

lemma bit_num_update:
  assumes "i < 8 * length p"
  shows "bit (num (opnd_update p i b)) k \<longleftrightarrow> (if k div 8 = i then bit b (k mod 8) else bit (num p) k)"
proof (cases "k < 64 * length p")
  case True
  have ilen: "i div 8 < length p" using assms by (simp add: div_less_iff_less_mult mult.commute)
  have kk: "k = 8 * (k div 8) + k mod 8" by simp
  note pos = byte_position [of "k mod 8" "k div 8", simplified]
  have off: "8 * (i mod 8) \<le> k mod 64 \<and> k mod 64 - 8 * (i mod 8) < 8 \<longleftrightarrow> k div 8 = i" if "k div 64 = i div 8"
  proof -
    have m: "k mod 64 = 8 * (k div 8 mod 8) + k mod 8" and "k div 64 = k div 8 div 8" using pos by simp_all
    then have "k div 8 = i \<longleftrightarrow> k div 8 mod 8 = i mod 8" using that by (metis div_mult_mod_eq)
    moreover have "8 * (i mod 8) \<le> k mod 64 \<and> k mod 64 - 8 * (i mod 8) < 8 \<longleftrightarrow> k div 8 mod 8 = i mod 8"
      unfolding m using mod_less_divisor [of 8 k] by linarith
    ultimately show ?thesis by blast
  qed
  show ?thesis
  proof (cases "k div 64 = i div 8")
    case word: True
    show ?thesis
    proof (cases "k div 8 = i")
      case eq: True
      then have "8 * (i mod 8) \<le> k mod 64" "k mod 64 - 8 * (i mod 8) = k mod 8" using pos by auto
      moreover have "k mod 8 < 64" using mod_less_divisor [of 8 k] by linarith
      ultimately show ?thesis using True ilen word eq
        by (simp add: bit_num opnd_update_def bit_simps)
    next
      case False
      show ?thesis using True ilen word False off [OF word]
        by (auto simp: bit_num opnd_update_def bit_simps dest: bit_imp_le_length)
    qed
  next
    case False
    then show ?thesis using True pos by (auto simp: bit_num opnd_update_def)
  qed
next
  case False
  then have "k div 8 \<noteq> i" using assms by (auto simp: div_less_iff_less_mult)
  then show ?thesis using False by (simp add: bit_num)
qed

lemma num_update_xor:
  assumes "i < 8 * length p"
  shows "num (opnd_update p i (opnd_byte p i XOR b)) = num p XOR push_bit (8 * i) (unat b)"
proof (rule bit_eqI)
  fix k
  have pb: "bit (push_bit (8 * i) (unat b)) k \<longleftrightarrow> k div 8 = i \<and> bit b (k mod 8)"
  proof -
    have "k div 8 = i \<and> bit b (k mod 8) \<longleftrightarrow> 8 * i \<le> k \<and> bit b (k - 8 * i)"
    proof
      assume "8 * i \<le> k \<and> bit b (k - 8 * i)"
      then have "k - 8 * i < 8" "8 * i \<le> k" "bit b (k - 8 * i)" using bit_imp_le_length [of b] by auto
      moreover from this have "k div 8 = i" "k mod 8 = k - 8 * i" by (metis (no_types) add_diff_inverse_nat div_mult_self4 div_less add_0_right not_less mult.commute zero_neq_numeral, metis (no_types) add_diff_inverse_nat mod_less mod_mult_self4 not_less mult.commute)
      ultimately show "k div 8 = i \<and> bit b (k mod 8)" by simp
    qed (auto simp: minus_mult_div_eq_mod)
    then show ?thesis by (simp add: bit_push_bit_iff bit_unsigned_iff)
  qed
  have "k div 8 = i \<Longrightarrow> bit (opnd_byte p i) (k mod 8) \<longleftrightarrow> bit (num p) k"
    using bit_opnd_byte [OF assms, of "k mod 8"] mult_div_mod_eq [of 8 k] by auto
  then show "bit (num (opnd_update p i (opnd_byte p i XOR b))) k = bit (num p XOR push_bit (8 * i) (unat b)) k"
    using pb by (auto simp: bit_num_update [OF assms] bit_xor_iff)
qed

text \<open>Masking the highest byte.\<close>

lemma num_update_mask:
  assumes "length p = Suc n" "m \<le> 8"
  shows "num (opnd_update p (8 * n + 7) (opnd_byte p (8 * n + 7) AND mask m)) = take_bit (64 * n + 56 + m) (num p)"
proof (rule bit_eqI)
  fix k
  have i: "8 * n + 7 < 8 * length p" using assms by simp
  have high: "bit (num p) k \<Longrightarrow> k < 64 * n + 64" using assms(1) by (auto simp: bit_num)
  show "bit (num (opnd_update p (8 * n + 7) (opnd_byte p (8 * n + 7) AND mask m))) k =
    bit (take_bit (64 * n + 56 + m) (num p)) k"
  proof (cases "k div 8 = 8 * n + 7")
    case True
    then have k: "k = 8 * (8 * n + 7) + k mod 8" using mult_div_mod_eq [of 8 k] by simp
    have "8 * (8 * n + 7) + r < 64 * n + 56 + m \<longleftrightarrow> r < m" for r by simp
    then have "k < 64 * n + 56 + m \<longleftrightarrow> k mod 8 < m" using k by metis
    moreover have "bit (num p) (8 * (8 * n + 7) + k mod 8) = bit (num p) k" using k by simp
    ultimately show ?thesis using True
      by (auto simp: bit_num_update [OF i] bit_and_iff bit_mask_iff bit_take_bit_iff bit_opnd_byte [OF i])
  next
    case False
    then have "k < 64 * n + 64 \<Longrightarrow> k < 64 * n + 56" by auto
    then show ?thesis using False high by (auto simp: bit_num_update [OF i] bit_take_bit_iff)
  qed
qed

section \<open>The highest bit\<close>

lemma blen_eq_SucI: "bit n t \<Longrightarrow> (\<And>i. t < i \<Longrightarrow> \<not> bit n i) \<Longrightarrow> blen n = Suc t"
proof (rule antisym)
  assume t: "bit n t" and no: "\<And>i. t < i \<Longrightarrow> \<not> bit n i"
  show "blen n \<le> Suc t" unfolding blen_le_iff less_exp_iff_bits using no by auto
  show "Suc t \<le> blen n" using t not_bit_blen [of n t] by (meson not_less_eq_eq)
qed

lemma top_word:
  "top_word p n = None \<longleftrightarrow> (\<forall>k < n. p ! k = 0)"
  "top_word p n = Some ix \<Longrightarrow> ix < n \<and> p ! ix \<noteq> 0 \<and> (\<forall>k. ix < k \<longrightarrow> k < n \<longrightarrow> p ! k = 0)"
  by (induction p n rule: top_word.induct) (auto simp: less_Suc_eq split: if_splits)

lemma top_byte:
  "\<exists>j < n. opnd_byte p j \<noteq> 0 \<Longrightarrow>
    opnd_byte p (top_byte p n) \<noteq> 0 \<and> top_byte p n < n \<and> (\<forall>j. top_byte p n < j \<longrightarrow> j < n \<longrightarrow> opnd_byte p j = 0)"
proof (induction n)
  case (Suc n)
  show ?case
  proof (cases "opnd_byte p n = 0")
    case True
    then have "\<exists>j < n. opnd_byte p j \<noteq> 0" using Suc.prems less_Suc_eq by metis
    then show ?thesis using Suc.IH True by (simp add: less_Suc_eq)
  qed simp
qed simp

lemma and_exp_eq_0_iff: "(2 ^ k AND a = 0) \<longleftrightarrow> \<not> bit a k" if "k < LENGTH('a)" for a :: "'a :: len word"
proof
  assume "2 ^ k AND a = 0"
  then have "bit (2 ^ k AND a) k = bit 0 k" by simp
  then show "\<not> bit a k" using that by (simp add: bit_and_iff bit_exp_iff)
next
  assume "\<not> bit a k"
  then show "2 ^ k AND a = 0" by (intro bit_word_eqI) (auto simp: bit_and_iff bit_exp_iff)
qed

lemma drop_bit_exp: "drop_bit 1 (2 ^ Suc k :: u32) = 2 ^ k" if "k < 31"
proof -
  have "(2 ^ Suc k :: u32) = push_bit 1 (2 ^ k)" by (simp add: push_bit_eq_mult mult.commute)
  then show ?thesis using that by (intro bit_word_eqI) (auto simp: bit_simps)
qed

lemma exp_32_neq_0: "k < 32 \<Longrightarrow> (2 ^ k :: u32) \<noteq> 0"
  by (simp add: exp_eq_zero_iff)

lemma top_mask:
  "j < 8 \<Longrightarrow> bit b j \<Longrightarrow> (\<And>i. j < i \<Longrightarrow> \<not> bit b i) \<Longrightarrow> j \<le> k \<Longrightarrow> k < 8 \<Longrightarrow> top_mask b (2 ^ k) = 2 ^ j"
proof (induction k)
  case 0
  then show ?case using and_exp_eq_0_iff [of 0 "ucast b :: u32"] by (subst top_mask.simps) (simp add: bit_simps)
next
  case (Suc k)
  have z: "(2 ^ Suc k AND ucast b :: u32) = 0 \<longleftrightarrow> \<not> bit b (Suc k)"
    using Suc.prems and_exp_eq_0_iff [of "Suc k" "ucast b :: u32"] by (simp add: bit_unsigned_iff)
  show ?case
  proof (cases "j = Suc k")
    case True
    then show ?thesis using z Suc.prems by (subst top_mask.simps) simp
  next
    case False
    then have "\<not> bit b (Suc k)" "j \<le> k" using Suc.prems by auto
    then have "top_mask b (2 ^ Suc k) = top_mask b (drop_bit 1 (2 ^ Suc k))"
      using z exp_32_neq_0 [of "Suc k"] Suc.prems by (subst top_mask.simps) simp
    then show ?thesis using Suc.IH Suc.prems \<open>j \<le> k\<close> drop_bit_exp [of k] by simp
  qed
qed

lemma first_bit_None: "length p = n \<Longrightarrow> first_bit n p = None \<longleftrightarrow> num p = 0"
  by (auto simp: first_bit_def num_eq_0_iff Let_def top_word(1) split: option.splits) (metis top_word(1) option.distinct(1))

lemma nonzero_bit: "n \<noteq> 0 \<Longrightarrow> \<exists>i. bit n i" for n :: "'a :: semiring_bits"
  by (metis bit_0_eq bit_eqI bot_apply bot_bool_def)

lemma first_bit_Some:
  assumes "length p = n" "num p \<noteq> 0"
  obtains ix k where "first_bit n p = Some (ix, 2 ^ k)" "k < 8" "ix < 8 * n" "blen (num p) = Suc (8 * ix + k)"
proof -
  obtain w where w: "top_word p n = Some w"
    using assms by (metis num_eq_0_iff top_word(1) not_Some_eq)
  note W = top_word(2) [OF w]
  define t where "t = blen (num p) - 1"
  have t: "bit (num p) t" "\<And>i. t < i \<Longrightarrow> \<not> bit (num p) i"
    using bit_blen [OF assms(2)] not_bit_blen [of "num p"] unfolding t_def by auto
  have T: "t < 64 * n" "t div 64 < n" using t(1) assms(1) by (auto simp: bit_num)
  obtain i where i: "bit (p ! w) i" using W nonzero_bit by blast
  then have "i < 64" using bit_imp_le_length [of "p ! w" i] by simp
  then have "bit (num p) (64 * w + i)" using i W assms(1) by (simp add: bit_num)
  then have "64 * w + i \<le> t" using t(2) not_less by blast
  moreover have "t div 64 \<le> w"
  proof (rule ccontr)
    assume "\<not> t div 64 \<le> w"
    then have "p ! (t div 64) = 0" using W T by simp
    then show False using t(1) by (simp add: bit_num)
  qed
  moreover have "w \<le> t div 64 \<longleftrightarrow> w * 64 \<le> t" by (rule less_eq_div_iff_mult_less_eq) simp
  ultimately have tw: "t div 64 = w" by simp
  define j k where "j = t div 8" and "k = t mod 8"
  have jw: "j div 8 = w" unfolding j_def tw [symmetric] by (simp flip: div_mult2_eq)
  have jk: "8 * j + k = t" "k < 8" "j < (w + 1) * 8"
    using jw div_less_iff_less_mult [of 8 j "w + 1"] unfolding j_def k_def by simp_all
  then have j: "j < 8 * length p" using T assms(1) by linarith
  have bj: "bit (opnd_byte p j) k" using jk t(1) by (simp add: bit_opnd_byte [OF j])
  have hi: "opnd_byte p i = 0" if "j < i" "i < (w + 1) * 8" for i
  proof (rule ccontr)
    assume "opnd_byte p i \<noteq> 0"
    then obtain l where l: "bit (opnd_byte p i) l" using nonzero_bit by blast
    have "w + 1 \<le> length p" using W [THEN conjunct1] assms(1) by linarith
    then have "i < 8 * length p" using mult_le_mono2 [of "w + 1" "length p" 8] that(2) by simp
    then have "bit (num p) (8 * i + l)" using l by (simp add: bit_opnd_byte)
    then have "8 * i + l \<le> t" using t(2) not_less by blast
    then show False using that(1) jk by linarith
  qed
  have "top_byte p ((w + 1) * 8) = j"
    using top_byte [of "(w + 1) * 8" p] hi jk(3) bj by (metis bit_0_eq bot_apply bot_bool_def linorder_neqE_nat)
  moreover have "top_mask (opnd_byte p j) (2 ^ 7) = 2 ^ k"
  proof (rule top_mask [OF jk(2) bj])
    show "\<not> bit (opnd_byte p j) i" if "k < i" for i
      using t(2) [of "8 * j + i"] that jk(1) by (simp add: bit_opnd_byte [OF j])
  qed (use jk in simp_all)
  ultimately have "first_bit n p = Some (j, 2 ^ k)" using w by (simp add: first_bit_def)
  moreover have "blen (num p) = Suc t" by (rule blen_eq_SucI [OF t])
  ultimately show thesis using that [of j k] jk j assms(1) by simp
qed

section \<open>The length\<close>

lemma push_bit_exp: "push_bit 1 (2 ^ k :: u32) = 2 ^ Suc k"
  by (simp add: push_bit_eq_mult mult.commute)

lemma count_up: "k < 32 \<Longrightarrow> count_up ix (2 ^ k) = ix - 32 + int k"
proof (induction "31 - k" arbitrary: k ix)
  case 0
  then have "Suc k = 32" by linarith
  then have "(2 ^ Suc k :: u32) = 0" by (simp only: exp_eq_zero_iff) simp
  then show ?case using 0 push_bit_exp [of k] by (subst count_up.simps) (simp add: Let_def)
next
  case (Suc d)
  then have "(2 ^ Suc k :: u32) \<noteq> 0" by (intro exp_32_neq_0) linarith
  then have "count_up ix (2 ^ k) = count_up (ix - 1) (2 ^ Suc k)"
    using push_bit_exp [of k] by (subst count_up.simps) (simp add: Let_def del: power_Suc)
  also have "\<dots> = ix - 1 - 32 + int (Suc k)" using Suc.hyps by (intro Suc.hyps(1)) linarith+
  finally show ?case by simp
qed

text \<open>The mask has 32 bits and not eight, so every length comes out 24 too small.\<close>

lemma integer_length:
  "length p = n \<Longrightarrow> integer_length n p = (if num p = 0 then 0 else int (blen (num p)) - 24)"
proof -
  assume n: "length p = n"
  show ?thesis
  proof (cases "num p = 0")
    case True
    then show ?thesis using first_bit_None [OF n] by (simp add: integer_length_def)
  next
    case False
    obtain ix k where f: "first_bit n p = Some (ix, 2 ^ k)" "k < 8" "blen (num p) = Suc (8 * ix + k)"
      using first_bit_Some [OF n False] by metis
    then show ?thesis using False by (simp add: integer_length_def count_up)
  qed
qed

section \<open>Loops over the bits\<close>

lemma bit_loop: "k \<le> 8 \<Longrightarrow> bit_loop f b (2 ^ k) a = foldl f a (map (bit b) (rev [0..<k]))"
proof (induction k arbitrary: a)
  case 0
  have "drop_bit 1 (1 :: u32) = 0" by (simp add: drop_bit_eq_div)
  then show ?case by (subst bit_loop.simps) (simp add: Let_def)
next
  case (Suc k)
  have "bit_loop f b (2 ^ Suc k) a = bit_loop f b (2 ^ k) (f a (2 ^ k AND ucast b \<noteq> (0 :: u32)))"
    using exp_32_neq_0 [of k] drop_bit_exp [of k] Suc.prems by (subst bit_loop.simps) (simp add: Let_def del: power_Suc)
  also have "(2 ^ k AND ucast b \<noteq> (0 :: u32)) = bit b k"
    using and_exp_eq_0_iff [of k "ucast b :: u32"] Suc.prems by (simp add: bit_unsigned_iff)
  finally show ?case using Suc by simp
qed

lemma byte_loop:
  "ix < 8 * length p \<Longrightarrow> k \<le> 8 \<Longrightarrow> byte_loop f p ix (2 ^ k) a = foldl f a (map (bit (num p)) (rev [0..<8 * ix + k]))"
proof (induction ix arbitrary: k a)
  case 0
  have "map (bit (opnd_byte p 0)) (rev [0..<k]) = map (bit (num p)) (rev [0..<k])"
    using 0 by (simp add: bit_opnd_byte)
  then show ?case using 0 by (simp only: byte_loop.simps bit_loop mult_0_right add_0)
next
  case (Suc ix)
  have "map (bit (opnd_byte p (Suc ix))) [0..<k] = map (bit (num p)) (map (\<lambda>i. i + 8 * Suc ix) [0..<k])"
    using Suc.prems by (simp add: bit_opnd_byte add.commute)
  also have "map (\<lambda>i. i + 8 * Suc ix) [0..<k] = [8 * Suc ix..<8 * Suc ix + k]"
    unfolding map_add_upt by (simp only: add.commute)
  finally have b: "map (bit (opnd_byte p (Suc ix))) (rev [0..<k]) = map (bit (num p)) (rev [8 * Suc ix..<8 * Suc ix + k])"
    by (simp only: rev_map [symmetric])
  have split: "[0..<8 * Suc ix + k] = [0..<8 * ix + 8] @ [8 * Suc ix..<8 * Suc ix + k]"
    by (simp only: mult_Suc_right add.commute [of 8]) (rule upt_add_eq_append, simp)
  have "byte_loop f p (Suc ix) (2 ^ k) a = byte_loop f p ix (2 ^ 8) (foldl f a (map (bit (num p)) (rev [8 * Suc ix..<8 * Suc ix + k])))"
    unfolding byte_loop.simps(2) bit_loop [OF Suc.prems(2)] b by simp
  also have "\<dots> = foldl f a (map (bit (num p)) (rev [8 * Suc ix..<8 * Suc ix + k] @ rev [0..<8 * ix + 8]))"
    using Suc.IH [of 8] Suc.prems by (simp only: map_append foldl_append)
  finally show ?case unfolding split rev_append .
qed

text \<open>A loop that starts with the highest bit done goes through the leading parts of the number.\<close>

lemma horner:
  fixes n :: nat
  assumes "R a (drop_bit m n)" "\<And>a t b. R a t \<Longrightarrow> R (f a b) (2 * t + of_bool b)"
  shows "R (foldl f a (map (bit n) (rev [0..<m]))) n"
  using assms(1)
proof (induction m arbitrary: a)
  case (Suc m)
  have "drop_bit m n = 2 * (drop_bit m n div 2) + of_bool (odd (drop_bit m n))" by (simp add: mod2_eq_if)
  then have "drop_bit m n = 2 * drop_bit (Suc m) n + of_bool (bit n m)"
    by (simp only: bit_iff_odd_drop_bit drop_bit_Suc drop_bit_half)
  then have "R (f a (bit n m)) (drop_bit m n)" using assms(2) [OF Suc.prems] by metis
  then show ?case using Suc.IH by simp
qed simp

lemma first_bit_loop:
  assumes "length p = n" "num p \<noteq> 0" "R a 1" "\<And>a t b. R a t \<Longrightarrow> R (f a b) (2 * t + of_bool b)"
    "first_bit n p = Some (ix, msk)"
  shows "R (byte_loop f p ix msk a) (num p)"
proof -
  obtain k where k: "k < 8" "ix < 8 * n" "blen (num p) = Suc (8 * ix + k)" "msk = 2 ^ k"
    using first_bit_Some [OF assms(1,2)] assms(5) by (metis option.inject prod.inject)
  have "2 ^ (8 * ix + k) \<le> num p" "num p < 2 ^ Suc (8 * ix + k)"
    using exp_blen_le [OF assms(2)] less_exp_blen [of "num p"] k(3) by simp_all
  then have "drop_bit (8 * ix + k) (num p) = 1" by (simp add: drop_bit_eq_div div_nat_eqI)
  then have "R (foldl f a (map (bit (num p)) (rev [0..<8 * ix + k]))) (num p)"
    using horner [of R a "8 * ix + k" "num p" f] assms(3,4) by simp
  then show ?thesis using k assms(1) by (simp add: byte_loop)
qed

lemma take_bit_top: "blen d \<le> Suc n \<Longrightarrow> take_bit n d = (if bit d n then d XOR 2 ^ n else d)"
proof (rule bit_eqI)
  fix i
  assume "blen d \<le> Suc n"
  then have "bit d i \<Longrightarrow> i \<le> n" using not_bit_blen [of d i] by linarith
  then show "bit (take_bit n d) i = bit (if bit d n then d XOR 2 ^ n else d) i"
    by (cases "i = n") (auto simp: bit_take_bit_iff bit_xor_iff bit_exp_iff)
qed

section \<open>Shifts\<close>

definition shifted :: "opnd \<Rightarrow> nat \<Rightarrow> nat \<Rightarrow> nat \<Rightarrow> u64" where
  "shifted s q nl k =
    (if k < q then 0 else push_bit nl (s ! (k - q)) OR (if k = q then 0 else drop_bit (64 - nl) (s ! (k - q - 1))))"

lemma bit_shifted:
  assumes "length s = n" "nl < 64" "r < 64" "q + j < n"
  shows "bit (shifted s q nl (q + j)) r \<longleftrightarrow> nl \<le> 64 * j + r \<and> bit (num s) (64 * j + r - nl)"
proof -
  consider "nl \<le> r" | "r < nl" "j = 0" | l where "r < nl" "j = Suc l" using not0_implies_Suc not_less by blast
  then show ?thesis
  proof cases
    case 1
    then have e: "64 * j + r - nl = (r - nl) + 64 * j" by simp
    have "(r - nl + 64 * j) div 64 = j" "(r - nl + 64 * j) mod 64 = r - nl" using assms(3) by simp_all
    moreover have "\<not> bit (s ! (j - 1)) (64 - nl + r)" using 1 assms(2) bit_imp_le_length [of "s ! (j - 1)" "64 - nl + r"] by auto
    moreover have "r - nl + 64 * j < 64 * n" using assms by linarith
    ultimately show ?thesis using 1 assms unfolding e
      by (simp add: shifted_def bit_num bit_or_iff bit_push_bit_iff bit_drop_bit_eq)
  next
    case 2
    then show ?thesis using assms by (simp add: shifted_def bit_push_bit_iff)
  next
    case 3
    then have e: "64 * j + r - nl = (64 - nl + r) + 64 * l" using assms by simp
    have "64 - nl + r < 64" using 3 assms(2) by linarith
    then have "(64 - nl + r + 64 * l) div 64 = l" "(64 - nl + r + 64 * l) mod 64 = 64 - nl + r" by simp_all
    moreover have "64 - nl + r + 64 * l < 64 * n" using \<open>64 - nl + r < 64\<close> 3 assms(4) by linarith
    ultimately show ?thesis using 3 assms unfolding e
      by (simp add: shifted_def bit_num bit_or_iff bit_push_bit_iff bit_drop_bit_eq)
  qed
qed

lemma num_shifted:
  assumes "length s = n" "nl < 64"
  shows "num (map (shifted s q nl) [0..<n]) = take_bit (64 * n) (push_bit (64 * q + nl) (num s))"
proof (rule bit_eqI)
  fix i
  define k r :: nat where "k = i div 64" and "r = i mod 64"
  have i: "i = 64 * k + r" "r < 64" unfolding k_def r_def by simp_all
  have l: "bit (num (map (shifted s q nl) [0..<n])) i \<longleftrightarrow> k < n \<and> bit (shifted s q nl k) r"
    using i unfolding bit_num by (auto simp flip: k_def r_def)
  have "i < 64 * n \<longleftrightarrow> k < n" using i by linarith
  then have r: "bit (take_bit (64 * n) (push_bit (64 * q + nl) (num s))) i \<longleftrightarrow>
      k < n \<and> 64 * q + nl \<le> i \<and> bit (num s) (i - (64 * q + nl))"
    by (simp add: bit_take_bit_iff bit_push_bit_iff)
  show "bit (num (map (shifted s q nl) [0..<n])) i = bit (take_bit (64 * n) (push_bit (64 * q + nl) (num s))) i"
  proof (cases "q \<le> k")
    case True
    then obtain j where "k = q + j" using le_Suc_ex by blast
    then show ?thesis unfolding l r using bit_shifted [OF assms i(2)] i(1) by (auto simp: distrib_left add.assoc)
  next
    case False
    then have "\<not> 64 * q + nl \<le> i" using i by linarith
    then show ?thesis unfolding l r using False by (simp add: shifted_def)
  qed
qed

end
