(* ===== verification/Gf_Product.thy ===== *)
theory Gf_Product
  imports Gf_Bits
begin

text \<open>
  The products of the two fields are one loop over their own \<open>step\<close> and \<open>add\<close>: what the loop
  relies on and what it computes.
\<close>

locale gf_product =
  fixes nw :: nat
    and f :: bpoly
    and ok :: "opnd \<Rightarrow> bool"
    and stp :: "opnd \<Rightarrow> opnd"
    and add :: "opnd \<Rightarrow> opnd \<Rightarrow> opnd"
  assumes step_ok: "ok p \<Longrightarrow> ok (stp p)"
    and step_poly: "ok p \<Longrightarrow> pcong f (poly_of (num (stp p))) (X * poly_of (num p))"
    and add_ok: "ok p \<Longrightarrow> ok q \<Longrightarrow> ok (add p q)"
    and add_num: "ok p \<Longrightarrow> ok q \<Longrightarrow> num (add p q) = num p XOR num q"
begin

lemma product:
  assumes p: "ok p" and q: "length q = nw" "num q \<noteq> 0" and fb: "first_bit nw q = Some (ix, msk)"
  defines "r \<equiv> byte_loop (\<lambda>ans b. let ans = stp ans in if b then add ans p else ans) q ix msk p"
  shows "ok r \<and> pcong f (poly_of (num r)) (poly_of (num p) * poly_of (num q))"
  unfolding r_def
proof (rule first_bit_loop [OF q _ _ fb])
  show "ok p \<and> pcong f (poly_of (num p)) (poly_of (num p) * poly_of 1)" using p by simp
next
  fix a t b
  assume a: "ok a \<and> pcong f (poly_of (num a)) (poly_of (num p) * poly_of t)"
  then have s: "ok (stp a)" "pcong f (poly_of (num (stp a))) (X * poly_of (num a))"
    by (simp_all add: step_ok step_poly)
  have "pcong f (X * poly_of (num a)) (X * (poly_of (num p) * poly_of t))"
    by (rule pcong_mult [OF pcong_refl conjunct2 [OF a]])
  then have "pcong f (poly_of (num (stp a))) (X * (poly_of (num p) * poly_of t))"
    by (rule pcong_trans [OF s(2)])
  from pcong_add [OF this pcong_refl]
  have "pcong f (poly_of (num (stp a)) + (if b then poly_of (num p) else 0))
    (X * (poly_of (num p) * poly_of t) + (if b then poly_of (num p) else 0))" .
  moreover have "X * (poly_of (num p) * poly_of t) + (if b then poly_of (num p) else 0) = poly_of (num p) * poly_of (2 * t + of_bool b)"
    unfolding poly_of_bit by (simp add: algebra_simps)
  ultimately show "ok (let ans = stp a in if b then add ans p else ans) \<and>
      pcong f (poly_of (num (let ans = stp a in if b then add ans p else ans))) (poly_of (num p) * poly_of (2 * t + of_bool b))"
    using s(1) p by (cases b) (simp_all add: add_ok add_num poly_of_xor)
qed

end

end
