(* ===== verification/Gf571_Field.thy ===== *)
theory Gf571_Field
  imports Gf571 Gf_Product
begin

unbundle bit_operations_syntax

text \<open>
  The operations of \<open>gf571_opnd\<close> as operations on polynomials over the field of two elements.
\<close>

section \<open>Operands of nine words\<close>

lemma map9: "map f [0..<9] = [f 0, f 1, f 2, f 3, f 4, f 5, f 6, f 7, f (8 :: nat)]"
  by (simp add: upt_rec eval_nat_numeral)

lemma all9: "(\<forall>k < 9. P k) \<longleftrightarrow> P 0 \<and> P 1 \<and> P 2 \<and> P 3 \<and> P 4 \<and> P 5 \<and> P 6 \<and> P 7 \<and> P (8 :: nat)"
proof -
  have "(\<forall>k < 9. P k) \<longleftrightarrow> list_all id (map P [0..<9])" by (auto simp: list_all_iff)
  then show ?thesis unfolding map9 by simp
qed

lemma less9: "q < 9 \<Longrightarrow> q = 0 \<or> q = 1 \<or> q = 2 \<or> q = 3 \<or> q = 4 \<or> q = 5 \<or> q = 6 \<or> q = 7 \<or> q = (8 :: nat)"
  using all9 [of "\<lambda>q. q = 0 \<or> q = 1 \<or> q = 2 \<or> q = 3 \<or> q = 4 \<or> q = 5 \<or> q = 6 \<or> q = 7 \<or> q = 8"] by simp

lemma list9: "length p = 9 \<Longrightarrow> p = [p ! 0, p ! 1, p ! 2, p ! 3, p ! 4, p ! 5, p ! 6, p ! 7, p ! 8]"
  by (metis map9 map_nth)

lemma gf571_add_map2: "length p = 9 \<Longrightarrow> length q = 9 \<Longrightarrow> gf571_add p q = map2 (XOR) p q"
  by (subst (3) list9, assumption, subst (4) list9, assumption) (simp add: gf571_add_def)

lemma length_gf571_add [simp]: "length (gf571_add p q) = 9"
  by (simp add: gf571_add_def)

lemma num_gf571_add: "length p = 9 \<Longrightarrow> length q = 9 \<Longrightarrow> num (gf571_add p q) = num p XOR num q"
  by (simp add: gf571_add_map2 num_xor)

lemma num_gf571_constants:
  "num gf571_zero = 0" "num gf571_one = 1" "num gf571_two = 2" "num gf571_prim = 2 ^ 571 XOR 0x425"
proof -
  show "num gf571_zero = 0" by (simp add: gf571_zero_def)
  have one: "gf571_one = [1, 0, 0, 0, 0, 0, 0, 0, 0]" by code_simp
  show "num gf571_one = 1" unfolding one by simp
  have two: "gf571_two = [2, 0, 0, 0, 0, 0, 0, 0, 0]" by code_simp
  show "num gf571_two = 2" unfolding two by simp
  have prim: "gf571_prim = [0x425, 0, 0, 0, 0, 0, 0, 0, 0x800000000000000]" by code_simp
  have "num gf571_prim = 0x425 OR push_bit 512 0x800000000000000" unfolding prim by simp
  then show "num gf571_prim = 2 ^ 571 XOR 0x425" by (simp add: push_bit_eq_mult)
qed

lemma length_gf571_constants [simp]:
  "length gf571_zero = 9" "length gf571_one = 9" "length gf571_two = 9" "length gf571_prim = 9"
  by (simp_all add: gf571_zero_def gf571_one_def gf571_two_def gf571_prim_def)

lemma gf571_is_zero: "length p = 9 \<Longrightarrow> gf571_is_zero p \<longleftrightarrow> num p = 0"
  by (simp add: num_eq_0_iff all9 gf571_is_zero_def) blast

lemma gf571_eq: "length p = 9 \<Longrightarrow> length q = 9 \<Longrightarrow> gf571_eq p q \<longleftrightarrow> p = q"
  by (simp add: list_eq_iff_nth_eq all9 gf571_eq_def)

lemma gf571_is_one: "length p = 9 \<Longrightarrow> gf571_is_one p \<longleftrightarrow> num p = 1"
proof -
  assume p: "length p = 9"
  have "gf571_is_one p \<longleftrightarrow> gf571_eq p gf571_one"
    by (auto simp: gf571_is_one_def gf571_eq_def gf571_one_def gf571_zero_def opnd_update_def)
  also have "\<dots> \<longleftrightarrow> num p = num gf571_one" using p num_eqI [of p gf571_one] by (auto simp: gf571_eq)
  finally show ?thesis by (simp only: num_gf571_constants)
qed

lemma num_gf571_oneplus: "length p = 9 \<Longrightarrow> num (gf571_oneplus p) = num p XOR 1"
  using num_update_xor [of 0 p 1] by (simp add: gf571_oneplus_def)

lemma length_gf571_oneplus [simp]: "length (gf571_oneplus p) = length p"
  by (simp add: gf571_oneplus_def)

section \<open>Shifts\<close>

lemma gf571_shiftl:
  assumes "length s = 9"
  shows "num (gf571_shiftl s j) = take_bit 576 (push_bit j (num s))" "length (gf571_shiftl s j) = 9"
proof -
  have z: "drop_bit 64 w = 0" for w :: u64 by (rule drop_bit_word_beyond) simp
  show "length (gf571_shiftl s j) = 9" using assms by (simp add: gf571_shiftl_def Let_def gf571_zero_def)
  show "num (gf571_shiftl s j) = take_bit 576 (push_bit j (num s))"
  proof (cases "j div 64 < 9")
    case True
    define q where "q = j div 64"
    have "q = 0 \<or> q = 1 \<or> q = 2 \<or> q = 3 \<or> q = 4 \<or> q = 5 \<or> q = 6 \<or> q = 7 \<or> q = 8" using less9 [OF True] unfolding q_def .
    then have "gf571_shiftl s j = map (shifted s q (j mod 64)) [0..<9]"
      unfolding map9 using list9 [OF assms]
      by (elim disjE) (simp_all add: gf571_shiftl_def shifted_def Let_def z flip: q_def)
    also have "num \<dots> = take_bit (64 * 9) (push_bit (64 * q + j mod 64) (num s))" by (rule num_shifted) (simp_all add: assms)
    also have "64 * q + j mod 64 = j" unfolding q_def by simp
    finally show ?thesis by simp
  next
    case False
    then have "gf571_shiftl s j = gf571_zero" by (auto simp: gf571_shiftl_def Let_def)
    moreover have "take_bit 576 (push_bit j (num s)) = 0"
      using False by (intro bit_eqI) (auto simp: bit_take_bit_iff bit_push_bit_iff)
    ultimately show ?thesis by (simp only: num_gf571_constants)
  qed
qed

section \<open>Multiplication by the variable\<close>

definition n571 :: nat where
  "n571 = 2 ^ 571 XOR 0x425"

definition f571 :: bpoly where
  "f571 = poly_of n571"

lemma num_gf571_prim: "num gf571_prim = n571"
  by (simp only: num_gf571_constants n571_def)

lemma blen_n571: "blen n571 = 572"
  by (rule blen_eqI [of 571, simplified]) (simp_all add: n571_def)

text \<open>A reduced operand.\<close>

definition gf571_ok :: "opnd \<Rightarrow> bool" where
  "gf571_ok p \<longleftrightarrow> length p = 9 \<and> num p < 2 ^ 571"

lemma top_bits: "take_bit 3 b = b \<Longrightarrow> b AND 0xFC \<noteq> 0 \<longleftrightarrow> bit b 2" for b :: byte
proof -
  have "list_all (\<lambda>b. take_bit 3 b = b \<longrightarrow> (b AND 0xFC \<noteq> 0) = bit b 2) all_bytes" by code_simp
  from byte_exhaust [OF this] show "take_bit 3 b = b \<Longrightarrow> b AND 0xFC \<noteq> 0 \<longleftrightarrow> bit b 2" by blast
qed

lemma gf571_step_num:
  assumes "gf571_ok p"
  shows "num (gf571_step p) = (if bit (num p) 570 then 2 * num p XOR n571 else 2 * num p)"
    "length (gf571_step p) = 9"
proof -
  have p: "length p = 9" "num p < 2 ^ 571" using assms by (simp_all add: gf571_ok_def)
  define s where "s = map (shifted p 0 1) [0..<9]"
  define m where "m = opnd_update s 71 (opnd_byte s 71 AND 0x07)"
  have [simp]: "length s = 9" "length m = 9" by (simp_all add: s_def m_def)
  have step: "gf571_step p =
      (if opnd_byte p 71 AND 0xFC \<noteq> 0
       then let m = opnd_update m 1 (opnd_byte m 1 XOR 0x04) in opnd_update m 0 (opnd_byte m 0 XOR 0x25) else m)"
    unfolding gf571_step_def m_def s_def map9 Let_def by (simp add: shifted_def)
  show "length (gf571_step p) = 9" unfolding step by (simp add: Let_def)
  have "num s = take_bit (64 * 9) (push_bit (64 * 0 + 1) (num p))"
    unfolding s_def by (rule num_shifted) (simp_all add: p)
  then have s: "num s = take_bit 576 (2 * num p)" by (simp add: push_bit_eq_mult mult.commute)
  have "mask 3 = (0x07 :: byte)" by (simp add: mask_eq_exp_minus_1)
  then have "num m = take_bit (64 * 8 + 56 + 3) (num s)"
    using num_update_mask [of s 8 3] by (simp add: m_def)
  then have m: "num m = take_bit 571 (2 * num p)" unfolding s by simp
  have b: "bit (opnd_byte p 71) k \<longleftrightarrow> k < 8 \<and> bit (num p) (568 + k)" for k
    using p bit_opnd_byte [of 71 p k] by simp
  have "take_bit 3 (opnd_byte p 71) = opnd_byte p 71"
  proof (rule bit_word_eqI)
    fix k
    have "3 \<le> k \<Longrightarrow> \<not> bit (num p) (568 + k)" using p(2) unfolding less_exp_iff_bits by simp
    then show "bit (take_bit 3 (opnd_byte p 71)) k = bit (opnd_byte p 71) k"
      by (cases "k < 3") (simp_all add: bit_take_bit_iff b)
  qed
  then have hi: "opnd_byte p 71 AND 0xFC \<noteq> 0 \<longleftrightarrow> bit (num p) 570"
    using b [of 2] by (simp add: top_bits)
  have x: "num (let m = opnd_update m 1 (opnd_byte m 1 XOR 0x04) in opnd_update m 0 (opnd_byte m 0 XOR 0x25)) = num m XOR 0x425"
    using num_update_xor [of 1 m 4] num_update_xor [of 0 "opnd_update m 1 (opnd_byte m 1 XOR 0x04)" "0x25"]
    by (simp add: Let_def push_bit_eq_mult xor.assoc)
  show "num (gf571_step p) = (if bit (num p) 570 then 2 * num p XOR n571 else 2 * num p)"
  proof -
    have "blen (2 * num p) \<le> Suc 571" unfolding blen_le_iff using p(2) by simp
    then have mm: "num m = (if bit (num p) 570 then 2 * num p XOR 2 ^ 571 else 2 * num p)"
      unfolding m by (subst take_bit_top) (simp_all add: bit_double_iff)
    show ?thesis
      by (cases "bit (num p) 570") (simp_all only: step hi if_True if_False x mm xor.assoc n571_def)
  qed
qed

lemma gf571_ok_blen: "gf571_ok p \<longleftrightarrow> length p = 9 \<and> blen (num p) < blen n571"
  unfolding gf571_ok_def blen_n571 blen_le_iff [symmetric] by auto

lemma gf571_step_ok: "gf571_ok p \<Longrightarrow> gf571_ok (gf571_step p)"
proof -
  assume p: "gf571_ok p"
  then have le: "blen (num p) \<le> 571" by (simp add: gf571_ok_def blen_le_iff)
  have "blen (num (gf571_step p)) < blen n571"
  proof (cases "bit (num p) 570")
    case True
    then have "571 \<le> blen (num p)" using not_bit_blen [of "num p" 570] by linarith
    then have e: "blen (num p) = 571" using le by simp
    then have "num p \<noteq> 0" by (metis blen_0 zero_neq_numeral)
    then have "blen (2 * num p) = 572" "2 * num p \<noteq> 0" using e by (simp_all add: double_blen)
    then have "blen (2 * num p XOR n571) < 572" using blen_xor_less [of "2 * num p" n571] blen_n571 by simp
    then show ?thesis using p True by (simp add: gf571_step_num blen_n571)
  next
    case False
    then have "blen (num p) \<noteq> 571" using bit_blen [of "num p"] by force
    then have "blen (2 * num p) \<le> 571" using le by (cases "num p = 0") (simp_all add: double_blen)
    then show ?thesis using p False by (simp add: gf571_step_num blen_n571)
  qed
  then show ?thesis using p by (simp add: gf571_ok_blen gf571_step_num)
qed

lemma gf571_step_poly: "gf571_ok p \<Longrightarrow> pcong f571 (poly_of (num (gf571_step p))) (X * poly_of (num p))"
  by (simp add: pcong_def gf571_step_num f571_def poly_of_xor poly_of_double)

section \<open>Products\<close>

lemma gf571_ok_add: "gf571_ok p \<Longrightarrow> gf571_ok q \<Longrightarrow> gf571_ok (gf571_add p q)"
  unfolding gf571_ok_blen using le_less_trans [OF blen_xor_le [of "num p" "num q"]] by (simp add: num_gf571_add)

lemma gf571_ok_zero [simp]: "gf571_ok gf571_zero"
  by (simp add: gf571_ok_def num_gf571_constants)

interpretation g571: gf_product 9 f571 gf571_ok gf571_step gf571_add
  by unfold_locales
    (simp_all add: gf571_step_ok gf571_step_poly gf571_ok_add num_gf571_add gf571_ok_def [THEN iffD1, THEN conjunct1])

lemma gf571_mul_poly:
  assumes "gf571_ok p" "length q = 9"
  shows "gf571_ok (gf571_mul p q) \<and> pcong f571 (poly_of (num (gf571_mul p q))) (poly_of (num p) * poly_of (num q))"
proof (cases "num q = 0")
  case True
  then show ?thesis using first_bit_None [OF assms(2)]
    by (simp add: gf571_mul_def gf571_first_bit_def num_gf571_constants)
next
  case False
  obtain ix msk where f: "first_bit 9 q = Some (ix, msk)"
    using first_bit_Some [OF assms(2) False] by metis
  show ?thesis using g571.product [OF assms False f] by (simp add: gf571_mul_def gf571_first_bit_def f)
qed

end
