(* ===== verification/Gf571_Inverse.thy ===== *)
theory Gf571_Inverse
  imports Gf571_Field
begin

unbundle bit_operations_syntax

text \<open>
  \<open>gf571_inv\<close>: the binary extended Euclidean algorithm returns exactly when the operand has an
  inverse modulo the polynomial of the field, and then with the reduced inverse. The degrees of
  the two cofactors are bounded so that no shift loses bits behind the 576 of a buffer.
\<close>

section \<open>One subtraction\<close>

text \<open>The loop body after the swap.\<close>

definition inv_reduce :: "opnd \<times> opnd \<times> opnd \<times> opnd \<Rightarrow> opnd \<times> opnd \<times> opnd \<times> opnd" where
  "inv_reduce = (\<lambda>(u, v, g1, g2).
    let j = nat (gf571_integer_length u - gf571_integer_length v)
    in (gf571_add u (gf571_shiftl v j), v, gf571_add g1 (gf571_shiftl g2 j), g2))"

lemma gf571_inv_body_eq:
  "gf571_inv_body (u, v, g1, g2) =
    (if gf571_integer_length u < gf571_integer_length v then inv_reduce (v, u, g2, g1) else inv_reduce (u, v, g1, g2))"
  by (simp add: gf571_inv_body_def inv_reduce_def Let_def)

lemma gf571_integer_length:
  "length p = 9 \<Longrightarrow> gf571_integer_length p = (if num p = 0 then 0 else int (blen (num p)) - 24)"
  unfolding gf571_integer_length_def by (rule integer_length)

lemma shiftl_exact:
  assumes "length v = 9" "num v = 0 \<or> blen (num v) + j \<le> 576"
  shows "num (gf571_shiftl v j) = push_bit j (num v)"
proof (cases "num v = 0")
  case False
  then have "blen (push_bit j (num v)) \<le> 576" using assms(2) by (simp add: blen_push_bit)
  then have "push_bit j (num v) < 2 ^ 576" by (simp only: blen_le_iff)
  then show ?thesis unfolding gf571_shiftl(1) [OF assms(1)] by (rule take_bit_nat_eq_self)
qed (simp add: gf571_shiftl assms)

lemma add_shiftl:
  assumes "length u = 9" "length v = 9" "num v = 0 \<or> blen (num v) + j \<le> 576"
  shows "num (gf571_add u (gf571_shiftl v j)) = num u XOR push_bit j (num v)"
  using num_gf571_add [OF assms(1) gf571_shiftl(2) [OF assms(2)]] shiftl_exact [OF assms(2,3)] by simp

lemma coprime_xor_shift:
  "coprime_polys (poly_of (a XOR push_bit j b)) (poly_of b) \<longleftrightarrow> coprime_polys (poly_of a) (poly_of b)"
  unfolding poly_of_xor poly_of_push_bit by (rule coprime_polys_step)

section \<open>Operands with an inverse\<close>

fun inv_ok :: "opnd \<Rightarrow> opnd \<times> opnd \<times> opnd \<times> opnd \<Rightarrow> bool" where
  "inv_ok p (u, v, g1, g2) \<longleftrightarrow>
    length u = 9 \<and> length v = 9 \<and> length g1 = 9 \<and> length g2 = 9 \<and>
    coprime_polys (poly_of (num u)) (poly_of (num v)) \<and> 2 \<le> blen (num v) \<and>
    blen (num u) \<le> 572 \<and> blen (num v) \<le> 572 \<and>
    blen (num g1) + blen (num v) \<le> 573 \<and> blen (num g2) + blen (num u) \<le> 573 \<and>
    pcong f571 (poly_of (num g1) * poly_of (num p)) (poly_of (num u)) \<and>
    pcong f571 (poly_of (num g2) * poly_of (num p)) (poly_of (num v))"

fun inv_measure :: "opnd \<times> opnd \<times> opnd \<times> opnd \<Rightarrow> nat" where
  "inv_measure (u, v, g1, g2) = blen (num u) + blen (num v)"

lemma inv_ok_u:
  assumes "inv_ok p (u, v, g1, g2)"
  shows "num u \<noteq> 0" "num v \<noteq> 0" "num u \<noteq> 1 \<Longrightarrow> 2 \<le> blen (num u)"
proof -
  have v: "2 \<le> blen (num v)" "coprime_polys (poly_of (num u)) (poly_of (num v))" using assms by simp_all
  then have "blen (num v) \<noteq> 1" by linarith
  then have "num v \<noteq> 1" by (simp only: blen_eq_1_iff not_False_eq_True)
  then show u: "num u \<noteq> 0" using v(2) coprime_polys_0 [of "num v"] by (metis poly_of_0)
  show "num v \<noteq> 0" using v(1) by (metis blen_0 not_numeral_le_zero)
  show "num u \<noteq> 1 \<Longrightarrow> 2 \<le> blen (num u)" using u by (rule blen_ge_2)
qed

lemma inv_ok_swap:
  assumes "inv_ok p (u, v, g1, g2)" "num u \<noteq> 1"
  shows "inv_ok p (v, u, g2, g1)"
  using assms inv_ok_u [OF assms(1)] by (simp add: coprime_polys_commute)

lemma inv_ok_reduce:
  assumes "inv_ok p (u, v, g1, g2)" "blen (num v) \<le> blen (num u)"
  shows "inv_ok p (inv_reduce (u, v, g1, g2)) \<and> inv_measure (inv_reduce (u, v, g1, g2)) < inv_measure (u, v, g1, g2)"
proof -
  note I = assms(1) [simplified]
  note nz = inv_ok_u [OF assms(1)]
  define j where "j = blen (num u) - blen (num v)"
  have j: "nat (gf571_integer_length u - gf571_integer_length v) = j"
    using I nz assms(2) by (simp add: gf571_integer_length j_def nat_diff_distrib)
  have u: "num (gf571_add u (gf571_shiftl v j)) = num u XOR push_bit j (num v)"
    using I assms(2) by (intro add_shiftl) (simp_all add: j_def)
  have "num g2 = 0 \<or> blen (num g2) + j \<le> 576" using I assms(2) unfolding j_def by linarith
  then have g: "num (gf571_add g1 (gf571_shiftl g2 j)) = num g1 XOR push_bit j (num g2)"
    using I by (intro add_shiftl) simp_all
  have less: "blen (num u XOR push_bit j (num v)) < blen (num u)"
    using nz assms(2) by (intro blen_xor_less) (simp_all add: blen_push_bit j_def)
  have "blen (push_bit j (num g2)) + blen (num v) \<le> 573"
    using I assms(2) by (cases "num g2 = 0") (auto simp: blen_push_bit j_def)
  then have deg: "blen (num g1 XOR push_bit j (num g2)) + blen (num v) \<le> 573"
    using I blen_xor_le [of "num g1" "push_bit j (num g2)"] by linarith
  have c: "coprime_polys (poly_of (num u XOR push_bit j (num v))) (poly_of (num v))"
    using I by (simp only: coprime_xor_shift)
  have "pcong f571 (X ^ j * (poly_of (num g2) * poly_of (num p))) (X ^ j * poly_of (num v))"
    using I pcong_mult [OF pcong_refl] by blast
  then have "pcong f571 (poly_of (num g1) * poly_of (num p) + X ^ j * (poly_of (num g2) * poly_of (num p)))
      (poly_of (num u) + X ^ j * poly_of (num v))"
    using I pcong_add by blast
  then have "pcong f571 (poly_of (num g1 XOR push_bit j (num g2)) * poly_of (num p)) (poly_of (num u XOR push_bit j (num v)))"
    by (simp add: poly_of_xor poly_of_push_bit distrib_right mult.assoc)
  then show ?thesis using I c deg less by (simp add: inv_reduce_def j u g)
qed

lemma inv_ok_body:
  assumes "inv_ok p s" "\<not> gf571_is_one (fst s)"
  shows "inv_ok p (gf571_inv_body s) \<and> inv_measure (gf571_inv_body s) < inv_measure s"
proof -
  obtain u v g1 g2 where s: "s = (u, v, g1, g2)" by (cases s)
  note I = assms(1) [unfolded s]
  have one: "num u \<noteq> 1" using assms(2) I by (simp add: s gf571_is_one)
  have len: "gf571_integer_length u < gf571_integer_length v \<longleftrightarrow> blen (num u) < blen (num v)"
    using I inv_ok_u [OF I] by (simp add: gf571_integer_length)
  show ?thesis
  proof (cases "blen (num u) < blen (num v)")
    case True
    then show ?thesis using inv_ok_reduce [OF inv_ok_swap [OF I one]] len by (simp add: s gf571_inv_body_eq add.commute)
  next
    case False
    then show ?thesis using inv_ok_reduce [OF I] len by (simp add: s gf571_inv_body_eq)
  qed
qed

lemma inv_ok_init:
  assumes "gf571_ok p" "coprime_polys (poly_of (num p)) f571"
  shows "inv_ok p (p, gf571_prim, gf571_one, gf571_zero)"
proof -
  have "blen (num p) \<le> 571" using assms(1) by (simp add: gf571_ok_def blen_le_iff)
  moreover have "pcong f571 0 f571" by (simp add: pcong_def)
  ultimately show ?thesis
    using assms by (simp add: gf571_ok_def num_gf571_prim blen_n571 f571_def num_gf571_constants(1,2))
qed

lemma gf571_inv_returns:
  assumes "gf571_ok p" "coprime_polys (poly_of (num p)) f571"
  obtains r where "gf571_inv p = Some r" "gf571_ok r" "pcong f571 (poly_of (num r) * poly_of (num p)) 1"
proof -
  let ?b = "\<lambda>(u, v, g1, g2). \<not> gf571_is_one u"
  have b: "?b s \<longleftrightarrow> \<not> gf571_is_one (fst s)" for s by (cases s) simp
  note init = inv_ok_init [OF assms]
  have "\<exists>t. while_option ?b gf571_inv_body (p, gf571_prim, gf571_one, gf571_zero) = Some t"
  proof (rule measure_while_option_Some [where P = "inv_ok p" and f = inv_measure, OF _ init])
    fix s
    assume "inv_ok p s" "?b s"
    then have "\<not> gf571_is_one (fst s)" by (cases s) simp
    then show "inv_ok p (gf571_inv_body s) \<and> inv_measure (gf571_inv_body s) < inv_measure s"
      by (rule inv_ok_body [OF \<open>inv_ok p s\<close>])
  qed
  then obtain t where t: "while_option ?b gf571_inv_body (p, gf571_prim, gf571_one, gf571_zero) = Some t" ..
  have "inv_ok p t"
  proof (rule while_option_rule [where P = "inv_ok p", OF _ t init])
    fix s
    assume "inv_ok p s" "?b s"
    then have "\<not> gf571_is_one (fst s)" by (cases s) simp
    then show "inv_ok p (gf571_inv_body s)" using inv_ok_body \<open>inv_ok p s\<close> by blast
  qed
  moreover have "gf571_is_one (fst t)" using while_option_stop [OF t] unfolding b by simp
  ultimately obtain u v g1 g2 where "t = (u, v, g1, g2)" and I: "inv_ok p (u, v, g1, g2)" and "num u = 1"
    by (cases t) (auto simp: gf571_is_one)
  then have "gf571_inv p = Some g1" using t by (simp add: gf571_inv_def)
  moreover have "gf571_ok g1" using I by (simp add: gf571_ok_blen blen_n571)
  moreover have "pcong f571 (poly_of (num g1) * poly_of (num p)) 1" using I \<open>num u = 1\<close> by simp
  ultimately show thesis by (rule that)
qed

section \<open>Operands without\<close>

fun stuck :: "opnd \<times> opnd \<times> opnd \<times> opnd \<Rightarrow> bool" where
  "stuck (u, v, g1, g2) \<longleftrightarrow>
    length u = 9 \<and> length v = 9 \<and> blen (num u) \<le> 572 \<and> blen (num v) \<le> 572 \<and>
    \<not> coprime_polys (poly_of (num u)) (poly_of (num v))"

lemma stuck_reduce:
  assumes "stuck (u, v, g1, g2)" "gf571_integer_length v \<le> gf571_integer_length u"
  shows "stuck (inv_reduce (u, v, g1, g2))"
proof -
  note I = assms(1) [simplified]
  define j where "j = nat (gf571_integer_length u - gf571_integer_length v)"
  have fits: "num v = 0 \<or> blen (num v) + j \<le> 572"
    using I assms(2) by (cases "num u = 0") (auto simp: j_def gf571_integer_length split: if_splits)
  then have u: "num (gf571_add u (gf571_shiftl v j)) = num u XOR push_bit j (num v)"
    using I by (intro add_shiftl) auto
  have "blen (push_bit j (num v)) \<le> 572" using fits by (cases "num v = 0") (simp_all add: blen_push_bit)
  then have "blen (num u XOR push_bit j (num v)) \<le> 572"
    using I blen_xor_le [of "num u" "push_bit j (num v)"] by linarith
  then show ?thesis using I u by (simp add: inv_reduce_def coprime_xor_shift flip: j_def)
qed

lemma stuck_body: "stuck s \<Longrightarrow> stuck (gf571_inv_body s)"
proof -
  assume s: "stuck s"
  obtain u v g1 g2 where [simp]: "s = (u, v, g1, g2)" by (cases s)
  have "stuck (v, u, g2, g1)" using s by (simp add: coprime_polys_commute)
  then show ?thesis using s stuck_reduce [of u v g1 g2] stuck_reduce [of v u g2 g1] by (simp add: gf571_inv_body_eq)
qed

lemma gf571_inv_diverges:
  assumes "gf571_ok p" "\<not> coprime_polys (poly_of (num p)) f571"
  shows "gf571_inv p = None"
proof (rule ccontr)
  let ?b = "\<lambda>(u, v, g1, g2). \<not> gf571_is_one u"
  assume "gf571_inv p \<noteq> None"
  then obtain t where t: "while_option ?b gf571_inv_body (p, gf571_prim, gf571_one, gf571_zero) = Some t"
    by (auto simp: gf571_inv_def)
  have "blen (num p) \<le> 571" using assms(1) by (simp add: gf571_ok_def blen_le_iff)
  then have "stuck (p, gf571_prim, gf571_one, gf571_zero)"
    using assms by (simp add: gf571_ok_def num_gf571_prim blen_n571 f571_def)
  from while_option_rule [where P = stuck, OF _ t this] have "stuck t" using stuck_body by blast
  moreover have "\<not> ?b t" using while_option_stop [OF t] .
  ultimately show False by (cases t) (auto simp: gf571_is_one)
qed

end
