(* ===== verification/Gf2_Irreducible.thy ===== *)
theory Gf2_Irreducible
  imports Gf2_Poly
begin

unbundle bit_operations_syntax

text \<open>
  Rabin's test over the field of two elements: a polynomial \<open>f\<close> of prime degree \<open>m\<close> with
  \<open>X ^ 2 ^ m = X\<close> modulo \<open>f\<close> and no root is irreducible, so that every smaller number but zero
  has an inverse modulo \<open>f\<close>.
\<close>

section \<open>Greatest common divisors\<close>

lemma xor_shift_cancel: "poly_of m = poly_of (m XOR push_bit j n) + X ^ j * poly_of n"
  by (simp add: poly_of_xor poly_of_push_bit add.assoc)

lemma blen_xor_align:
  assumes "m \<noteq> 0" "n \<noteq> 0" "blen n \<le> blen m"
  shows "blen (m XOR push_bit (blen m - blen n) n) < blen m"
  using assms by (intro blen_xor_less) (simp_all add: blen_push_bit)

lemma bezout_step:
  assumes "h dvd poly_of (m XOR push_bit j n)" "h dvd poly_of n" "h = s * poly_of (m XOR push_bit j n) + t * poly_of n"
  shows "h dvd poly_of m \<and> h = s * poly_of m + (s * X ^ j + t) * poly_of n"
proof
  show "h dvd poly_of m" using assms(1,2) unfolding xor_shift_cancel [of m j n] by simp
  have "s * poly_of m + (s * X ^ j + t) * poly_of n = s * poly_of (m XOR push_bit j n) + t * poly_of n"
    unfolding xor_shift_cancel [of m j n] by (simp add: algebra_simps)
  then show "h = s * poly_of m + (s * X ^ j + t) * poly_of n" using assms(3) by simp
qed

lemma bezout_polys: "\<exists>h s t. h dvd poly_of m \<and> h dvd poly_of n \<and> h = s * poly_of m + t * poly_of n"
proof (induction "blen m + blen n" arbitrary: m n rule: less_induct)
  case less
  consider "m = 0" | "n = 0" | "m \<noteq> 0" "n \<noteq> 0" "blen n \<le> blen m" | "m \<noteq> 0" "n \<noteq> 0" "blen m \<le> blen n" by linarith
  then show ?case
  proof cases
    case 1
    then have "poly_of n = 0 * poly_of m + 1 * poly_of n" by simp
    then show ?thesis using 1 by (metis dvd_0_right dvd_refl poly_of_0)
  next
    case 2
    then have "poly_of m = 1 * poly_of m + 0 * poly_of n" by simp
    then show ?thesis using 2 by (metis dvd_0_right dvd_refl poly_of_0)
  next
    case 3
    let ?j = "blen m - blen n"
    from blen_xor_align [OF 3] have "blen (m XOR push_bit ?j n) + blen n < blen m + blen n" by simp
    from less [OF this] show ?thesis using bezout_step [of _ m ?j n] by metis
  next
    case 4
    let ?j = "blen n - blen m"
    from blen_xor_align [of n m] 4 have "blen (n XOR push_bit ?j m) + blen m < blen m + blen n" by simp
    from less [OF this] obtain h s t where "h dvd poly_of (n XOR push_bit ?j m)" "h dvd poly_of m"
      "h = s * poly_of (n XOR push_bit ?j m) + t * poly_of m" by blast
    then show ?thesis using bezout_step [of h n ?j m s t] by (metis add.commute)
  qed
qed

lemma dvd_blen:
  assumes "poly_of a dvd poly_of b" "b \<noteq> 0"
  shows "blen a \<le> blen b" "blen a = blen b \<Longrightarrow> a = b"
proof -
  obtain q where "poly_of b = poly_of a * poly_of q" using assms(1) by (metis dvdE poly_of_cases)
  then have b: "b = clmul a q" by (simp flip: poly_of_clmul)
  then have nz: "a \<noteq> 0" "q \<noteq> 0" using assms(2) by (metis clmul_0_left, metis clmul_0_right)
  then have len: "Suc (blen b) = blen a + blen q" unfolding b by (rule blen_clmul)
  have "1 \<le> blen q" using nz(2) blen_eq_0_iff [of q] by linarith
  then show "blen a \<le> blen b" using len by linarith
  assume "blen a = blen b"
  then have "blen q = 1" using len by linarith
  then show "a = b" unfolding b by (simp add: blen_eq_1_iff [unfolded One_nat_def])
qed

section \<open>Irreducible factors\<close>

definition atom :: "nat \<Rightarrow> bool" where
  "atom g \<longleftrightarrow> 2 \<le> blen g \<and> (\<forall>a. poly_of g dvd a \<or> coprime_polys a (poly_of g))"

lemma ex_atom: "2 \<le> blen h \<Longrightarrow> \<exists>g. atom g \<and> poly_of g dvd poly_of h"
proof (induction "blen h" arbitrary: h rule: less_induct)
  case less
  show ?case
  proof (cases "atom h")
    case False
    then obtain a where a: "\<not> poly_of h dvd a" "\<not> coprime_polys a (poly_of h)" using less.prems by (auto simp: atom_def)
    obtain m where m: "a = poly_of m" by (rule poly_of_cases)
    obtain e s t where e: "e dvd a" "e dvd poly_of h" "e = s * a + t * poly_of h"
      using bezout_polys [of m h] unfolding m by blast
    obtain k where k: "e = poly_of k" by (rule poly_of_cases)
    have "h \<noteq> 0" using less.prems by (metis blen_0 not_numeral_le_zero)
    have "k \<noteq> 0" using e(2) \<open>h \<noteq> 0\<close> unfolding k by (metis dvd_0_left poly_of_0 poly_of_eq_0_iff)
    moreover have "k \<noteq> 1" using a(2) e(3) unfolding k coprime_polys_def by (metis One_nat_def poly_of_1)
    ultimately have "2 \<le> blen k" by (rule blen_ge_2)
    moreover have "blen k < blen h"
      using dvd_blen [OF e(2) [unfolded k] \<open>h \<noteq> 0\<close>] a(1) e(1) unfolding k by (metis le_neq_implies_less)
    ultimately obtain g where "atom g" "poly_of g dvd poly_of k" using less.hyps by blast
    then show ?thesis using e(2) unfolding k using dvd_trans by blast
  qed auto
qed

section \<open>Fermat's theorem\<close>

lemma residue_exists: "f \<noteq> 0 \<Longrightarrow> \<exists>r. blen r < blen f \<and> pcong (poly_of f) (poly_of n) (poly_of r)"
proof (induction "blen n" arbitrary: n rule: less_induct)
  case less
  show ?case
  proof (cases "blen n < blen f")
    case False
    then have n: "blen f \<le> blen n" by simp
    then have "n \<noteq> 0" using less.prems blen_eq_0_iff [of f] by (metis blen_0 le_zero_eq)
    let ?j = "blen n - blen f"
    obtain r where r: "blen r < blen f" "pcong (poly_of f) (poly_of (n XOR push_bit ?j f)) (poly_of r)"
      using less.hyps [OF blen_xor_align [OF \<open>n \<noteq> 0\<close> less.prems n] less.prems] by blast
    have "pcong (poly_of f) (poly_of n) (poly_of (n XOR push_bit ?j f))"
      by (simp add: pcong_def poly_of_xor poly_of_push_bit)
    then show ?thesis using r pcong_trans by blast
  qed (use pcong_refl in blast)
qed

lemma coprime_cancel: "coprime_polys x g \<Longrightarrow> g dvd x * y \<Longrightarrow> g dvd y"
proof -
  assume "coprime_polys x g" "g dvd x * y"
  then obtain s t where st: "s * x + t * g = 1" unfolding coprime_polys_def by blast
  have "s * (x * y) + t * y * g = (s * x + t * g) * y" by (simp add: algebra_simps)
  then have "y = s * (x * y) + t * y * g" using st by simp
  then show "g dvd y" using \<open>g dvd x * y\<close> by (metis dvd_add dvd_mult dvd_triv_right)
qed

lemma coprime_polys_mult: "coprime_polys a g \<Longrightarrow> coprime_polys b g \<Longrightarrow> coprime_polys (a * b) g"
proof -
  assume "coprime_polys a g" "coprime_polys b g"
  then obtain s t u v where "s * a + t * g = 1" "u * b + v * g = 1" unfolding coprime_polys_def by blast
  then have "(s * a + t * g) * (u * b + v * g) = 1" by simp
  then have "(s * u) * (a * b) + (s * a * v + t * u * b + t * v * g) * g = 1" by (simp add: algebra_simps)
  then show "coprime_polys (a * b) g" unfolding coprime_polys_def by blast
qed

lemma coprime_polys_prod: "finite S \<Longrightarrow> (\<And>a. a \<in> S \<Longrightarrow> coprime_polys (f a) g) \<Longrightarrow> coprime_polys (prod f S) g"
  by (induction S rule: finite_induct) (simp_all add: coprime_polys_mult)

lemma pcong_prod: "finite S \<Longrightarrow> (\<And>a. a \<in> S \<Longrightarrow> pcong g (f a) (h a)) \<Longrightarrow> pcong g (prod f S) (prod h S)"
  by (induction S rule: finite_induct) (simp_all add: pcong_mult)

lemma pcong_power: "pcong f a b \<Longrightarrow> pcong f (a ^ n) (b ^ n)"
  by (induction n) (simp_all add: pcong_mult)

lemma fermat:
  assumes "atom g" "blen g = Suc d"
  shows "pcong (poly_of g) (X ^ 2 ^ d) X"
proof (cases "poly_of g dvd X")
  case True
  then have "poly_of g dvd X ^ 2 ^ d" by (simp add: dvd_power_le power_not_zero dvd_trans [OF _ dvd_power])
  then show ?thesis using True by (simp add: pcong_def)
next
  case False
  let ?G = "poly_of g"
  have X: "coprime_polys X ?G" using assms(1) False by (auto simp: atom_def)
  have "g \<noteq> 0" using assms(2) by (metis blen_0 nat.distinct(1))
  then obtain r where r: "\<And>n. blen (r n) < blen g" "\<And>n. pcong ?G (poly_of n) (poly_of (r n))"
    using residue_exists [of g] by metis
  define S where "S = {a. a \<noteq> 0 \<and> blen a < blen g}"
  have S: "S = {1..<2 ^ d}" unfolding S_def assms(2) less_Suc_eq_le blen_le_iff by auto
  have fin: "finite S" and card: "card S = 2 ^ d - 1" unfolding S by simp_all
  define p where "p a = r (2 * a)" for a
  have p: "pcong ?G (X * poly_of a) (poly_of (p a))" "blen (p a) < blen g" for a
    using r [of "2 * a"] by (simp_all add: p_def poly_of_double)
  have coprime: "coprime_polys (poly_of a) ?G" if "a \<in> S" for a
  proof -
    have "\<not> ?G dvd poly_of a" using that dvd_poly_of_less unfolding S_def by blast
    then show ?thesis using assms(1) by (auto simp: atom_def)
  qed
  have into: "p a \<in> S" if a: "a \<in> S" for a
  proof -
    have "p a \<noteq> 0"
    proof
      assume "p a = 0"
      then have "?G dvd X * poly_of a" using p(1) [of a] by (simp add: pcong_def)
      then have "?G dvd poly_of a" by (rule coprime_cancel [OF X])
      then show False using a dvd_poly_of_less unfolding S_def by blast
    qed
    then show ?thesis unfolding S_def using p(2) by blast
  qed
  have inj: "inj_on p S"
  proof (rule inj_onI)
    fix a b
    assume ab: "a \<in> S" "b \<in> S" "p a = p b"
    have "pcong ?G (X * poly_of a) (X * poly_of b)"
      by (rule pcong_trans [OF p(1) [of a, unfolded ab(3)] pcong_sym [OF p(1) [of b]]])
    then have "?G dvd X * (poly_of a - poly_of b)" by (simp add: pcong_def distrib_left)
    then have "?G dvd poly_of a - poly_of b" by (rule coprime_cancel [OF X])
    then show "a = b" using ab(1,2) residue_unique unfolding S_def by blast
  qed
  let ?P = "prod poly_of S"
  have "p ` S = S" using endo_inj_surj [OF fin _ inj] into by blast
  then have "?P = prod (\<lambda>a. poly_of (p a)) S" using prod.reindex [OF inj, of poly_of] by (simp add: comp_def)
  moreover have "pcong ?G (prod (\<lambda>a. X * poly_of a) S) (prod (\<lambda>a. poly_of (p a)) S)" using p(1) by (intro pcong_prod fin)
  moreover have "prod (\<lambda>a. X * poly_of a) S = X ^ card S * ?P" by (simp add: prod.distrib)
  ultimately have "?G dvd ?P * (X ^ card S - 1)" by (simp add: pcong_def algebra_simps)
  moreover have "coprime_polys ?P ?G" using fin coprime by (rule coprime_polys_prod)
  ultimately have "?G dvd X ^ card S - 1" using coprime_cancel by blast
  then have "pcong ?G (X ^ card S) 1" by (simp add: pcong_def)
  then have "pcong ?G (X * X ^ card S) (X * 1)" by (intro pcong_mult pcong_refl)
  then show ?thesis unfolding card by (simp flip: power_Suc)
qed

section \<open>The test\<close>

lemma frobenius_power:
  assumes "pcong f (X ^ 2 ^ d) X"
  shows "pcong f (X ^ 2 ^ (d * k)) X"
proof (induction k)
  case (Suc k)
  have "X ^ 2 ^ (d * Suc k) = (X ^ 2 ^ (d * k)) ^ 2 ^ d" by (simp add: power_add mult.commute flip: power_mult)
  moreover have "pcong f ((X ^ 2 ^ (d * k)) ^ 2 ^ d) (X ^ 2 ^ d)" using Suc by (rule pcong_power)
  ultimately show ?case using assms pcong_trans by metis
qed simp

theorem rabin:
  assumes f: "blen f = Suc m" "pcong (poly_of f) (X ^ 2 ^ m) X" "coprime_polys (X ^ 2 + X) (poly_of f)"
    and m: "\<And>d. 0 < d \<Longrightarrow> d < m \<Longrightarrow> gcd d m = 1"
    and n: "n \<noteq> 0" "blen n < blen f"
  shows "coprime_polys (poly_of n) (poly_of f)"
proof (rule ccontr)
  assume no: "\<not> coprime_polys (poly_of n) (poly_of f)"
  obtain h s t where h: "h dvd poly_of n" "h dvd poly_of f" "h = s * poly_of n + t * poly_of f"
    using bezout_polys by blast
  obtain k where k: "h = poly_of k" by (rule poly_of_cases)
  have "k \<noteq> 0" using h(1) n(1) unfolding k by (metis dvd_0_left poly_of_0 poly_of_eq_0_iff)
  moreover have "k \<noteq> 1" using no h(3) unfolding k coprime_polys_def by (metis One_nat_def poly_of_1)
  ultimately have "2 \<le> blen k" by (rule blen_ge_2)
  then obtain g where g: "atom g" "poly_of g dvd poly_of k" using ex_atom by blast
  have "blen g \<le> blen n" using dvd_blen(1) n(1) dvd_trans [OF g(2)] h(1) unfolding k by blast
  moreover have "2 \<le> blen g" using g(1) by (simp add: atom_def)
  ultimately obtain d where d: "blen g = Suc d" "0 < d" "d < m" using n(2) f(1) by (cases "blen g") auto
  obtain x y where xy: "d * x = m * y + 1" using bezout_nat [of d m] m d by auto
  let ?G = "poly_of g"
  have gf: "?G dvd poly_of f" using g(2) h(2) unfolding k by (rule dvd_trans)
  then have "pcong ?G (X ^ 2 ^ m) X" using f(2) unfolding pcong_def by (rule dvd_trans)
  then have "pcong ?G (X ^ 2 ^ (m * y)) X" by (rule frobenius_power)
  then have "pcong ?G ((X ^ 2 ^ (m * y)) ^ 2) (X ^ 2)" by (rule pcong_power)
  moreover have "(X ^ 2 ^ (m * y)) ^ 2 = X ^ 2 ^ (d * x)" unfolding xy by (simp add: mult.commute flip: power_mult)
  ultimately have "pcong ?G (X ^ 2 ^ (d * x)) (X ^ 2)" by simp
  moreover have "pcong ?G (X ^ 2 ^ (d * x)) X" by (rule frobenius_power [OF fermat [OF g(1) d(1)]])
  ultimately have "pcong ?G (X ^ 2) X" using pcong_sym pcong_trans by blast
  then have "?G dvd X ^ 2 + X" by (simp add: pcong_def)
  moreover obtain s t where "s * (X ^ 2 + X) + t * poly_of f = 1" using f(3) unfolding coprime_polys_def by blast
  ultimately have "?G dvd 1" using gf by (metis dvd_add dvd_mult)
  then have "poly_of g dvd poly_of 1" by simp
  then have "blen g \<le> 1" using dvd_blen(1) [of g 1] by simp
  then show False using d(1,2) by simp
qed

end
