(* ===== verification/Gf571_Prime.thy ===== *)
theory Gf571_Prime
  imports Gf571_Inverse Gf2_Irreducible
begin

text \<open>
  The polynomial of \<open>gf571_opnd\<close> is irreducible: the variable squared 571 times is itself. The
  squarings are evaluated on lists of coefficients, lowest first; a square is the list with its
  upper half folded down, odd and even powers apart.
\<close>

section \<open>Squares of lists of coefficients\<close>

fun pol :: "bool list \<Rightarrow> bpoly" where
  "pol [] = 0"
| "pol (b # bs) = (if b then 1 else 0) + X * pol bs"

text \<open>The polynomial with the same coefficients at the even powers.\<close>

fun pol2 :: "bool list \<Rightarrow> bpoly" where
  "pol2 [] = 0"
| "pol2 (b # bs) = (if b then 1 else 0) + X ^ 2 * pol2 bs"

fun sxor :: "bool list \<Rightarrow> bool list \<Rightarrow> bool list" where
  "sxor [] ys = ys"
| "sxor (x # xs) [] = x # xs"
| "sxor (x # xs) (y # ys) = (x \<noteq> y) # sxor xs ys"

text \<open>The first coefficients, as many as the first list is long, and the others.\<close>

fun front :: "bool list \<Rightarrow> bool list \<Rightarrow> bool list" where
  "front [] ys = []"
| "front (m # ms) [] = []"
| "front (m # ms) (y # ys) = y # front ms ys"

fun rest :: "bool list \<Rightarrow> bool list \<Rightarrow> bool list" where
  "rest [] ys = ys"
| "rest (m # ms) [] = []"
| "rest (m # ms) (y # ys) = rest ms ys"

fun merge :: "bool list \<Rightarrow> bool list \<Rightarrow> bool list" where
  "merge [] [] = []"
| "merge (e # es) [] = e # False # merge es []"
| "merge [] (o1 # os) = False # o1 # merge [] os"
| "merge (e # es) (o1 # os) = e # o1 # merge es os"

text \<open>A square from the coefficients below and from 286 on; a square with its excess folded.\<close>

definition sq_half :: "bool list \<Rightarrow> bool list \<Rightarrow> bool list" where
  "sq_half lo hi =
    merge (sxor lo (False # False # False # hi)) (sxor hi (False # sxor hi (False # False # False # False # hi)))"

definition sq_red :: "bool list \<Rightarrow> bool list \<Rightarrow> bool list" where
  "sq_red l t =
    sxor l (sxor t (False # False # sxor t (False # False # False # sxor t
      (False # False # False # False # False # t))))"

definition sq_red2 :: "bool list \<Rightarrow> bool list \<Rightarrow> bool list" where
  "sq_red2 ms l = sq_red (front ms l) (rest ms l)"

definition sq :: "bool list \<Rightarrow> bool list \<Rightarrow> bool list \<Rightarrow> bool list" where
  "sq hs ms a = sq_red2 ms (sq_half (front hs a) (rest hs a))"

fun sq_iter :: "bool list \<Rightarrow> bool list \<Rightarrow> bool list \<Rightarrow> bool list \<Rightarrow> bool list" where
  "sq_iter hs ms [] a = a"
| "sq_iter hs ms (c # cs) a = sq_iter hs ms cs (sq hs ms a)"

lemma pol_square: "pol a ^ 2 = pol2 a"
  by (induction a) (simp_all add: power2_eq_square algebra_simps)

lemma pol_sxor: "pol (sxor a b) = pol a + pol b"
  by (induction a b rule: sxor.induct) (auto simp: algebra_simps)

lemma pol2_sxor: "pol2 (sxor a b) = pol2 a + pol2 b"
  by (induction a b rule: sxor.induct) (auto simp: algebra_simps)

lemma pol_front_rest: "pol a = pol (front ms a) + X ^ length ms * pol (rest ms a)"
  by (induction ms a rule: front.induct) (simp_all add: algebra_simps)

lemma pol2_front_rest: "pol2 a = pol2 (front ms a) + X ^ (2 * length ms) * pol2 (rest ms a)"
  by (induction ms a rule: front.induct) (simp_all add: algebra_simps power2_eq_square)

lemma pol_merge: "pol (merge e d) = pol2 e + X * pol2 d"
  by (induction e d rule: merge.induct) (simp_all add: algebra_simps power2_eq_square)

section \<open>Reduction\<close>

lemma f571_poly: "f571 = X ^ 571 + (X ^ 10 + (X ^ 5 + (X ^ 2 + 1)))"
proof -
  have "(0x425 :: nat) = 2 ^ 10 XOR (2 ^ 5 XOR (2 ^ 2 XOR Suc 0))" by simp
  then show ?thesis unfolding f571_def n571_def by (simp only: poly_of_xor poly_of_exp poly_of_1)
qed

lemma X_571: "pcong f571 (X ^ 571) (1 + X ^ 2 * (1 + X ^ 3 * (1 + X ^ 5)))"
  by (simp add: pcong_def f571_poly algebra_simps flip: power_add)

lemma sq_half_pol:
  assumes "length hs = 286"
  shows "pcong f571 (pol2 a) (pol (sq_half (front hs a) (rest hs a)))"
proof -
  let ?l = "pol2 (front hs a)" and ?h = "pol2 (rest hs a)"
  have "pol (sq_half (front hs a) (rest hs a)) = ?l + (X * (1 + X ^ 2 * (1 + X ^ 3 * (1 + X ^ 5)))) * ?h"
    by (simp add: sq_half_def pol_merge pol2_sxor algebra_simps eval_nat_numeral)
  moreover have "pcong f571 (?l + (X * X ^ 571) * ?h) (?l + (X * (1 + X ^ 2 * (1 + X ^ 3 * (1 + X ^ 5)))) * ?h)"
    by (intro pcong_add pcong_mult pcong_refl X_571)
  moreover have "pol2 a = ?l + (X * X ^ 571) * ?h"
    using pol2_front_rest [of a hs] assms by (simp flip: power_Suc)
  ultimately show ?thesis by simp
qed

lemma sq_red2_pol:
  assumes "length ms = 571"
  shows "pcong f571 (pol l) (pol (sq_red2 ms l))"
proof -
  let ?l = "pol (front ms l)" and ?t = "pol (rest ms l)"
  have "pol (sq_red2 ms l) = ?l + (1 + X ^ 2 * (1 + X ^ 3 * (1 + X ^ 5))) * ?t"
    by (simp add: sq_red2_def sq_red_def pol_sxor algebra_simps eval_nat_numeral)
  moreover have "pcong f571 (?l + X ^ 571 * ?t) (?l + (1 + X ^ 2 * (1 + X ^ 3 * (1 + X ^ 5))) * ?t)"
    by (intro pcong_add pcong_mult pcong_refl X_571)
  ultimately show ?thesis using pol_front_rest [of l ms] assms by simp
qed

lemma sq_iter_pol:
  assumes "length hs = 286" "length ms = 571"
  shows "pcong f571 (pol a ^ 2 ^ length cs) (pol (sq_iter hs ms cs a))"
proof (induction cs arbitrary: a)
  case (Cons c cs)
  have "pcong f571 (pol a ^ 2) (pol (sq hs ms a))"
    unfolding pol_square sq_def using sq_half_pol [OF assms(1)] sq_red2_pol [OF assms(2)] pcong_trans by blast
  then have "pcong f571 ((pol a ^ 2) ^ 2 ^ length cs) (pol (sq hs ms a) ^ 2 ^ length cs)" by (rule pcong_power)
  moreover have "(pol a ^ 2) ^ 2 ^ length cs = pol a ^ 2 ^ length (c # cs)" by (simp flip: power_mult)
  ultimately show ?case using Cons pcong_trans by simp
qed simp

lemma squares_571:
  "sq_iter (replicate 286 True) (replicate 571 True) (replicate 571 True) [False, True] = False # True # replicate 569 False"
  by (simp only: eval_nat_numeral replicate.simps sxor.simps front.simps rest.simps merge.simps sq_half_def
      sq_red_def sq_red2_def sq_def sq_iter.simps simp_thms not_True_eq_False not_False_eq_True BitM.simps)

lemma frobenius_571: "pcong f571 (X ^ 2 ^ 571) X"
proof -
  have "pol (replicate n False) = 0" for n by (induction n) simp_all
  then have "pol (False # True # replicate 569 False) = X" "pol [False, True] = X" by simp_all
  then show ?thesis using sq_iter_pol [of "replicate 286 True" "replicate 571 True" "[False, True]" "replicate 571 True"]
    unfolding squares_571 by simp
qed

section \<open>Irreducibility\<close>

lemma no_root_571: "coprime_polys (X ^ 2 + X) f571"
proof -
  have Suc: "pcong (X ^ 2 + X) (X ^ Suc k) X" for k
  proof (induction k)
    case (Suc k)
    have "pcong (X ^ 2 + X) (X * X ^ Suc k) (X * X)" using Suc by (intro pcong_mult pcong_refl)
    moreover have "pcong (X ^ 2 + X) (X * X) X" by (simp add: pcong_def power2_eq_square)
    ultimately show ?case using pcong_trans by (metis power_Suc)
  qed simp
  have p: "pcong (X ^ 2 + X) (X ^ k) X" if "0 < k" for k using Suc [of "k - 1"] that by simp
  have "pcong (X ^ 2 + X) f571 (X + (X + (X + (X + 1))))" unfolding f571_poly
    by (intro pcong_add pcong_refl p zero_less_numeral)
  also have "X + (X + (X + (X + 1))) = 1" by (simp only: bpoly_add_cancel)
  finally have "X ^ 2 + X dvd f571 * 1 - 1" unfolding pcong_def mult_1_right .
  then have "coprime_polys f571 (X ^ 2 + X)" unfolding coprime_polys_inverse by (rule exI)
  then show ?thesis by (simp only: coprime_polys_commute)
qed

lemma gcd_571: "0 < d \<Longrightarrow> d < 571 \<Longrightarrow> gcd d 571 = (1 :: nat)"
proof (rule ccontr)
  assume d: "0 < d" "d < 571" and "gcd d 571 \<noteq> 1"
  define g where "g = gcd d 571"
  obtain h where h: "571 = g * h" unfolding g_def by (metis gcd_dvd2 dvdE)
  have "g \<noteq> 1" "g \<noteq> 0" using \<open>gcd d 571 \<noteq> 1\<close> d by (simp_all add: g_def)
  moreover have "g < 571" using dvd_imp_le [OF gcd_dvd1 d(1), of 571] d(2) unfolding g_def by linarith
  moreover from this have "h \<noteq> 1" "h \<noteq> 0" using h by auto
  ultimately have "g dvd 571" "h dvd 571" "2 \<le> g" "2 \<le> h" using h by (auto simp: dvd_def mult.commute)
  have small: "\<not> k dvd 571" if "2 \<le> k" "k < 24" for k :: nat
  proof -
    have "list_all (\<lambda>k. 571 mod k \<noteq> (0 :: nat)) [2..<24]" by code_simp
    then have "571 mod k \<noteq> 0" using that unfolding list_all_iff by (metis atLeastLessThan_iff atLeastLessThan_upt)
    then show ?thesis by (simp add: dvd_eq_mod_eq_0)
  qed
  then have "24 \<le> g" "24 \<le> h" using \<open>g dvd 571\<close> \<open>h dvd 571\<close> \<open>2 \<le> g\<close> \<open>2 \<le> h\<close> not_less by blast+
  then have "24 * 24 \<le> g * h" by (rule mult_le_mono)
  then show False using h by simp
qed

theorem f571_field:
  assumes "n \<noteq> 0" "n < 2 ^ 571"
  shows "coprime_polys (poly_of n) f571"
proof -
  have "blen n < blen n571" using assms(2) unfolding blen_le_iff [symmetric] blen_n571 by simp
  moreover have "blen n571 = Suc 571" unfolding blen_n571 by simp
  ultimately show ?thesis
    using rabin [of n571 571 n] frobenius_571 no_root_571 gcd_571 assms(1) unfolding f571_def by blast
qed

end
