(* ===== verification/Gf571_Ring.thy ===== *)
theory Gf571_Ring
  imports Gf571_Prime
begin

unbundle bit_operations_syntax

text \<open>
  The field of 2^571 elements as a type of the class \<open>field\<close>, and the operations of \<open>gf571_opnd\<close>
  as its operations: on reduced operands \<open>el\<close> is an isomorphism.
\<close>

section \<open>The field\<close>

function reduct :: "nat \<Rightarrow> nat" where
  "reduct n = (if blen n < 572 then n else reduct (n XOR push_bit (blen n - 572) n571))"
  by pat_completeness auto
termination
proof (relation "measure blen")
  fix n
  assume n: "\<not> blen n < 572"
  then have "n \<noteq> 0" by (metis blen_0 zero_less_numeral)
  moreover have "n571 \<noteq> 0" using blen_n571 by (metis blen_0 zero_neq_numeral)
  ultimately show "(n XOR push_bit (blen n - 572) n571, n) \<in> measure blen"
    using blen_xor_align [of n n571] n by (simp add: blen_n571)
qed simp

declare reduct.simps [simp del]

lemma reduct: "blen (reduct n) < 572 \<and> pcong f571 (poly_of n) (poly_of (reduct n))"
proof (induction n rule: reduct.induct)
  case (1 n)
  show ?case
  proof (cases "blen n < 572")
    case True
    then have "reduct n = n" by (subst reduct.simps) simp
    then show ?thesis using True by simp
  next
    case False
    let ?m = "n XOR push_bit (blen n - 572) n571"
    have "reduct n = reduct ?m" using False by (subst reduct.simps) simp
    moreover have "pcong f571 (poly_of n) (poly_of ?m)" by (simp add: pcong_def poly_of_xor poly_of_push_bit f571_def)
    ultimately show ?thesis using 1 [OF False] pcong_trans by metis
  qed
qed

lemma reduct_cong: "pcong f571 (poly_of a) (poly_of b) \<longleftrightarrow> reduct a = reduct b"
proof
  assume "pcong f571 (poly_of a) (poly_of b)"
  then have "pcong f571 (poly_of (reduct a)) (poly_of (reduct b))" using reduct pcong_trans pcong_sym by metis
  then show "reduct a = reduct b" using reduct [of a] reduct [of b] unfolding f571_def
    by (intro pcong_unique [of n571]) (simp_all add: blen_n571)
next
  assume "reduct a = reduct b"
  then show "pcong f571 (poly_of a) (poly_of b)" using reduct [of a] reduct [of b] pcong_trans pcong_sym by metis
qed

lemma reduct_small: "n < 2 ^ 571 \<Longrightarrow> reduct n = n"
proof -
  assume "n < 2 ^ 571"
  then have "blen n \<le> 571" by (simp only: blen_le_iff)
  then have "blen n < 572" by simp
  then show ?thesis by (subst reduct.simps) simp
qed

typedef gf571 = "{n :: nat. n < 2 ^ 571}" morphisms rep_gf571 abs_gf571
  by (rule exI [of _ 0]) simp

definition elem :: "nat \<Rightarrow> gf571" where
  "elem n = abs_gf571 (reduct n)"

lemma rep_elem: "rep_gf571 (elem n) = reduct n"
proof -
  have "blen (reduct n) \<le> 571" using reduct [of n] by simp
  then have "reduct n < 2 ^ 571" by (simp only: blen_le_iff)
  then show ?thesis by (simp add: elem_def abs_gf571_inverse del: power_numeral)
qed

lemma elem_eq_iff: "elem a = elem b \<longleftrightarrow> pcong f571 (poly_of a) (poly_of b)"
  unfolding reduct_cong by (metis elem_def rep_elem)

lemma rep_less: "rep_gf571 x < 2 ^ 571"
  using rep_gf571 [of x] by simp

lemma elem_rep [simp]: "elem (rep_gf571 x) = x"
  using reduct_small [OF rep_less] by (simp add: elem_def rep_gf571_inverse)

lemma elem_cases: obtains n where "x = elem n" "n < 2 ^ 571"
  using elem_rep rep_less by metis

lemma elem_inject: "a < 2 ^ 571 \<Longrightarrow> b < 2 ^ 571 \<Longrightarrow> elem a = elem b \<longleftrightarrow> a = b"
  by (metis elem_eq_iff reduct_cong reduct_small)

instantiation gf571 :: comm_ring_1
begin

definition "zero_gf571 = elem 0"
definition "one_gf571 = elem 1"
definition "plus_gf571 x y = elem (rep_gf571 x XOR rep_gf571 y)"
definition "minus_gf571 x y = elem (rep_gf571 x XOR rep_gf571 y)"
definition "uminus_gf571 x = (x :: gf571)"
definition "times_gf571 x y = elem (clmul (rep_gf571 x) (rep_gf571 y))"

lemma elem_xor: "elem (a XOR b) = elem a + elem b"
  unfolding plus_gf571_def elem_eq_iff rep_elem poly_of_xor using reduct by (intro pcong_add) simp_all

lemma elem_clmul: "elem (clmul a b) = elem a * elem b"
  unfolding times_gf571_def elem_eq_iff rep_elem poly_of_clmul using reduct by (intro pcong_mult) simp_all

instance
proof
  fix x y z :: gf571
  obtain a b c where xyz: "x = elem a" "y = elem b" "z = elem c" by (metis elem_rep)
  show "x * y * z = x * (y * z)" unfolding xyz by (simp add: clmul_assoc flip: elem_clmul)
  show "x * y = y * x" unfolding xyz by (simp add: clmul_commute flip: elem_clmul)
  show "1 * x = x" unfolding xyz one_gf571_def by (simp flip: elem_clmul)
  show "x + y + z = x + (y + z)" unfolding xyz by (simp add: xor.assoc flip: elem_xor)
  show "x + y = y + x" unfolding xyz by (simp add: xor.commute flip: elem_xor)
  show "0 + x = x" unfolding xyz zero_gf571_def by (simp flip: elem_xor)
  show "- x + x = 0" unfolding xyz zero_gf571_def uminus_gf571_def by (simp flip: elem_xor)
  show "x - y = x + - y" unfolding minus_gf571_def plus_gf571_def uminus_gf571_def ..
  show "(x + y) * z = x * z + y * z" unfolding xyz by (simp add: clmul_xor_left flip: elem_xor elem_clmul)
  show "(0 :: gf571) \<noteq> 1" unfolding zero_gf571_def one_gf571_def by (subst elem_inject) simp_all
qed

end

lemma elem_0 [simp]: "elem 0 = 0" and elem_1 [simp]: "elem (Suc 0) = 1"
  by (simp_all add: zero_gf571_def one_gf571_def)

lemma gf571_has_inverse: "x \<noteq> 0 \<Longrightarrow> \<exists>y. x * y = (1 :: gf571)"
proof -
  assume "x \<noteq> 0"
  obtain a where a: "x = elem a" "a < 2 ^ 571" by (rule elem_cases)
  then have "a \<noteq> 0" using \<open>x \<noteq> 0\<close> by (metis elem_0)
  then obtain b where "f571 dvd poly_of a * b - 1" using f571_field a(2) unfolding coprime_polys_inverse by blast
  moreover obtain c where "b = poly_of c" by (rule poly_of_cases)
  ultimately have "pcong f571 (poly_of (clmul a c)) (poly_of (Suc 0))" by (simp add: pcong_def poly_of_clmul)
  then have "elem (clmul a c) = elem (Suc 0)" unfolding elem_eq_iff .
  then have "elem a * elem c = 1" by (simp add: elem_clmul)
  then show ?thesis using a(1) by blast
qed

instantiation gf571 :: field
begin

definition "inverse_gf571 x = (if x = 0 then 0 else SOME y. x * y = (1 :: gf571))"
definition "divide_gf571 x y = x * inverse (y :: gf571)"

instance
proof
  fix x y :: gf571
  show "inverse (0 :: gf571) = 0" by (simp add: inverse_gf571_def)
  show "x div y = x * inverse y" by (rule divide_gf571_def)
  show "x \<noteq> 0 \<Longrightarrow> inverse x * x = 1"
    using someI_ex [OF gf571_has_inverse [of x]] by (simp add: inverse_gf571_def mult.commute)
qed

end

lemma gf571_add_self [simp]: "x + x = (0 :: gf571)"
proof -
  obtain a where "x = elem a" by (metis elem_rep)
  then show ?thesis by (simp flip: elem_xor)
qed

lemma gf571_minus [simp]: "- x = (x :: gf571)"
  by (rule uminus_gf571_def)

lemma gf571_diff [simp]: "x - y = (x + y :: gf571)"
  by (simp add: diff_conv_add_uminus del: add_uminus_conv_diff)

lemma gf571_add_cancel [simp]: "x + (x + y) = (y :: gf571)"
  by (simp flip: add.assoc)

lemma gf571_two [simp]: "(2 :: gf571) = 0"
  using gf571_add_self [of 1] by (simp only: one_add_one)

lemma gf571_add_eq_0_iff: "x + y = 0 \<longleftrightarrow> x = (y :: gf571)"
  by (metis add.right_neutral gf571_add_cancel gf571_add_self)

section \<open>Operands\<close>

definition el :: "opnd \<Rightarrow> gf571" where
  "el p = elem (num p)"

lemma el_inject: "gf571_ok p \<Longrightarrow> gf571_ok q \<Longrightarrow> el p = el q \<longleftrightarrow> p = q"
  unfolding el_def gf571_ok_def using elem_inject num_eqI by metis

lemma gf571_ok_one [simp]: "gf571_ok gf571_one"
  by (simp add: gf571_ok_def num_gf571_constants)

lemma el_zero [simp]: "el gf571_zero = 0" and el_one [simp]: "el gf571_one = 1"
  by (simp_all add: el_def num_gf571_constants)

lemma el_add [simp]: "gf571_ok p \<Longrightarrow> gf571_ok q \<Longrightarrow> el (gf571_add p q) = el p + el q"
  by (simp add: el_def num_gf571_add gf571_ok_def elem_xor)

lemma el_mul [simp]: "gf571_ok p \<Longrightarrow> gf571_ok q \<Longrightarrow> el (gf571_mul p q) = el p * el q"
  using gf571_mul_poly [of p q] by (simp add: el_def gf571_ok_def elem_eq_iff poly_of_clmul flip: elem_clmul)

lemma gf571_ok_mul: "gf571_ok p \<Longrightarrow> gf571_ok q \<Longrightarrow> gf571_ok (gf571_mul p q)"
  using gf571_mul_poly [of p q] by (simp add: gf571_ok_def)

lemma el_oneplus [simp]: "gf571_ok p \<Longrightarrow> el (gf571_oneplus p) = el p + 1"
  by (simp add: el_def num_gf571_oneplus gf571_ok_def elem_xor)

lemma gf571_ok_oneplus: "gf571_ok p \<Longrightarrow> gf571_ok (gf571_oneplus p)"
  using le_less_trans [OF blen_xor_le [of "num p" 1]] by (simp add: gf571_ok_blen num_gf571_oneplus blen_n571)

lemma el_is_zero: "gf571_ok p \<Longrightarrow> gf571_is_zero p \<longleftrightarrow> el p = 0"
  using el_inject [of p gf571_zero] num_eqI [of p gf571_zero]
  by (auto simp: gf571_is_zero gf571_ok_def num_gf571_constants)

lemma el_eq: "gf571_ok p \<Longrightarrow> gf571_ok q \<Longrightarrow> gf571_eq p q \<longleftrightarrow> el p = el q"
  by (simp add: el_inject) (simp add: gf571_ok_def gf571_eq)

lemma gf571_inv_el:
  assumes "gf571_ok p"
  shows "el p = 0 \<Longrightarrow> gf571_inv p = None"
    and "el p \<noteq> 0 \<Longrightarrow> \<exists>r. gf571_inv p = Some r \<and> gf571_ok r \<and> el r = inverse (el p)"
proof -
  assume "el p = 0"
  then have "num p = 0" using assms elem_inject [of "num p" 0] by (simp add: el_def gf571_ok_def)
  moreover have "n571 \<noteq> 1" using blen_n571 by (metis blen_1 numeral_eq_one_iff One_nat_def num.distinct(1) semiring_norm(85))
  ultimately have "\<not> coprime_polys (poly_of (num p)) f571" by (simp add: f571_def coprime_polys_0)
  then show "gf571_inv p = None" by (rule gf571_inv_diverges [OF assms])
next
  assume nz: "el p \<noteq> 0"
  then have "num p \<noteq> 0" unfolding el_def by (metis elem_0)
  then have "coprime_polys (poly_of (num p)) f571" using assms f571_field by (simp add: gf571_ok_def del: power_numeral)
  then obtain r where r: "gf571_inv p = Some r" "gf571_ok r" "pcong f571 (poly_of (num r) * poly_of (num p)) 1"
    using gf571_inv_returns [OF assms] by blast
  have "el r * el p = 1"
    using r(3) elem_eq_iff [of "clmul (num r) (num p)" "Suc 0"] by (simp add: el_def poly_of_clmul elem_clmul)
  then have "el r = inverse (el p)" using nz by (metis inverse_unique mult.commute)
  then show "\<exists>r. gf571_inv p = Some r \<and> gf571_ok r \<and> el r = inverse (el p)" using r by blast
qed

lemma gf571_div_el:
  assumes "gf571_ok p" "gf571_ok q" "el q \<noteq> 0"
  obtains r where "gf571_div p q = Some r" "gf571_ok r" "el r = el p / el q"
  using gf571_inv_el(2) [OF assms(2,3)] assms(1) that
  by (auto simp: gf571_div_def gf571_ok_mul divide_inverse)

end
