(* ===== verification/Ecc571_Spec.thy ===== *)
theory Ecc571_Spec
  imports Gf571_Ring
begin

text \<open>
  The curves \<open>y^2 + x y = x^3 + a x^2 + b\<close> over the field of 2^571 elements with the chord and
  tangent law of the textbooks: slopes are quotients, the result is the third intersection
  reflected. The points of a curve are closed under the law. Multiples are taken by doubling and
  adding.
\<close>

datatype cpoint = Infinity | Point gf571 gf571

fun ecc_curve :: "gf571 \<Rightarrow> gf571 \<Rightarrow> cpoint \<Rightarrow> bool" where
  "ecc_curve a b Infinity \<longleftrightarrow> True"
| "ecc_curve a b (Point x y) \<longleftrightarrow> y ^ 2 + x * y = x ^ 3 + a * x ^ 2 + b"

fun c_neg :: "cpoint \<Rightarrow> cpoint" where
  "c_neg Infinity = Infinity"
| "c_neg (Point x y) = Point x (x + y)"

text \<open>The third point on the line of slope \<open>s\<close> through \<open>(x1, y1)\<close>, reflected.\<close>

definition third :: "gf571 \<Rightarrow> gf571 \<Rightarrow> gf571 \<Rightarrow> gf571 \<Rightarrow> gf571 \<Rightarrow> cpoint" where
  "third a s x1 y1 x2 = (let x3 = s ^ 2 + s + x1 + x2 + a in Point x3 (s * (x1 + x3) + x3 + y1))"

fun c_double :: "gf571 \<Rightarrow> cpoint \<Rightarrow> cpoint" where
  "c_double a Infinity = Infinity"
| "c_double a (Point x y) = (if x = 0 then Infinity else third a (x + y / x) x y x)"

fun c_add :: "gf571 \<Rightarrow> cpoint \<Rightarrow> cpoint \<Rightarrow> cpoint" where
  "c_add a Infinity Q = Q"
| "c_add a P Infinity = P"
| "c_add a (Point x1 y1) (Point x2 y2) =
    (if x1 = x2 then if y2 = x1 + y1 then Infinity else c_double a (Point x1 y1)
     else third a ((y1 + y2) / (x1 + x2)) x1 y1 x2)"

function c_mul :: "gf571 \<Rightarrow> nat \<Rightarrow> cpoint \<Rightarrow> cpoint" where
  "c_mul a n P =
    (if n = 0 then Infinity else if n = 1 then P
     else let D = c_double a (c_mul a (n div 2) P) in if odd n then c_add a D P else D)"
  by pat_completeness auto
termination by (relation "measure (\<lambda>(a, n, P). n)") auto

declare c_mul.simps [simp del]

lemma c_mul_0 [simp]: "c_mul a 0 P = Infinity"
  by (subst c_mul.simps) simp

lemma c_mul_1 [simp]: "c_mul a (Suc 0) P = P"
  by (subst c_mul.simps) simp

lemma c_mul_bit:
  "t \<noteq> 0 \<Longrightarrow> c_mul a (2 * t + of_bool b) P = (if b then c_add a (c_double a (c_mul a t P)) P else c_double a (c_mul a t P))"
  by (subst c_mul.simps) simp

section \<open>The law stays on the curve\<close>

lemma same_x:
  assumes "ecc_curve a b (Point x y1)" "ecc_curve a b (Point x y2)"
  shows "y2 = y1 \<or> y2 = x + y1"
proof -
  have "y1 ^ 2 + x * y1 = y2 ^ 2 + x * y2" using assms by simp
  then have "(y1 ^ 2 + x * y1) + (y2 ^ 2 + x * y2) = 0" by simp
  then have "(y1 + y2) * (y1 + y2 + x) = 0" by (simp add: power2_eq_square algebra_simps)
  then show ?thesis by (auto simp: gf571_add_eq_0_iff)
qed

text \<open>The curve on the line \<open>s (X + x1) + y1\<close>, as a cubic in \<open>X\<close>.\<close>

lemma on_line:
  "ecc_curve a b (Point w (s * (w + x1) + y1)) \<longleftrightarrow>
    w ^ 3 + (s ^ 2 + s + a) * w ^ 2 + (s * x1 + y1) * w + ((s * x1 + y1) ^ 2 + b) = 0"
proof -
  let ?Y = "s * (w + x1) + y1"
  have e: "w ^ 3 + (s ^ 2 + s + a) * w ^ 2 + (s * x1 + y1) * w + ((s * x1 + y1) ^ 2 + b) =
    (?Y ^ 2 + w * ?Y) + (w ^ 3 + a * w ^ 2 + b)"
    by (simp add: power2_eq_square power3_eq_cube algebra_simps)
  show ?thesis unfolding e gf571_add_eq_0_iff by simp
qed

lemma reflect: "ecc_curve a b (Point x (x + y)) \<longleftrightarrow> ecc_curve a b (Point x y)"
  by (simp add: power2_eq_square algebra_simps)

lemma third_ecc_curve:
  assumes "x3 = s ^ 2 + s + x1 + x2 + a" "ecc_curve a b (Point x1 y1)"
    and c: "x1 * x2 + (x1 + x2) * x3 + (s * x1 + y1) = 0"
  shows "ecc_curve a b (third a s x1 y1 x2)"
proof -
  let ?c2 = "s ^ 2 + s + a" and ?c1 = "s * x1 + y1" and ?c0 = "(s * x1 + y1) ^ 2 + b"
  have c2: "?c2 = x1 + x2 + x3" unfolding assms(1) by (simp add: algebra_simps)
  have "ecc_curve a b (Point x1 (s * (x1 + x1) + y1))" using assms(2) by simp
  then have r1: "x1 ^ 3 + ?c2 * x1 ^ 2 + ?c1 * x1 + ?c0 = 0" unfolding on_line .
  have "(x3 ^ 3 + ?c2 * x3 ^ 2 + ?c1 * x3 + ?c0) + (x1 ^ 3 + ?c2 * x1 ^ 2 + ?c1 * x1 + ?c0) =
      (x1 + x3) * (x1 * x2 + (x1 + x2) * x3 + ?c1)"
    unfolding c2 by (simp add: power2_eq_square power3_eq_cube algebra_simps)
  then have "x3 ^ 3 + ?c2 * x3 ^ 2 + ?c1 * x3 + ?c0 = 0" using r1 c by simp
  then have "ecc_curve a b (Point x3 (s * (x3 + x1) + y1))" unfolding on_line .
  moreover have "s * (x1 + x3) + x3 + y1 = x3 + (s * (x3 + x1) + y1)" by (simp add: ac_simps)
  ultimately show ?thesis unfolding third_def Let_def assms(1) [symmetric] by (simp only: reflect)
qed

lemma c_double_ecc_curve: "ecc_curve a b P \<Longrightarrow> ecc_curve a b (c_double a P)"
proof (cases P)
  case (Point x y)
  assume "ecc_curve a b P"
  then have P: "ecc_curve a b (Point x y)" using Point by simp
  show ?thesis
  proof (cases "x = 0")
    case False
    let ?s = "x + y / x"
    have "?s * x = x ^ 2 + y" using False by (simp add: power2_eq_square distrib_right)
    then have "x * x + (x + x) * (?s ^ 2 + ?s + x + x + a) + (?s * x + y) = 0" by (simp add: power2_eq_square)
    then show ?thesis using third_ecc_curve [OF refl P] False Point by simp
  qed (use Point in simp)
qed simp

lemma c_add_ecc_curve: "ecc_curve a b P \<Longrightarrow> ecc_curve a b Q \<Longrightarrow> ecc_curve a b (c_add a P Q)"
proof (cases P)
  case P: (Point x1 y1)
  assume on: "ecc_curve a b P" "ecc_curve a b Q"
  show ?thesis
  proof (cases Q)
    case Q: (Point x2 y2)
    show ?thesis
    proof (cases "x1 = x2")
      case True
      then show ?thesis using c_double_ecc_curve [OF on(1)] P Q by simp
    next
      case False
      define u where "u = x1 + x2"
      define s where "s = (y1 + y2) / u"
      define x3 where "x3 = s ^ 2 + s + x1 + x2 + a"
      have u: "u \<noteq> 0" using False by (simp add: u_def gf571_add_eq_0_iff)
      then have su: "s * u = y1 + y2" by (simp add: s_def)
      have x2: "x2 = x1 + u" and y2: "y2 = s * (x2 + x1) + y1"
        using su by (simp_all add: u_def add.commute [of x2 x1] ac_simps)
      let ?c2 = "s ^ 2 + s + a" and ?c1 = "s * x1 + y1" and ?c0 = "(s * x1 + y1) ^ 2 + b"
      have c2: "?c2 = x1 + x2 + x3" unfolding x3_def by (simp add: algebra_simps)
      have "ecc_curve a b (Point x1 (s * (x1 + x1) + y1))" "ecc_curve a b (Point x2 (s * (x2 + x1) + y1))"
        using on y2 by (simp_all add: P Q)
      then have r: "x1 ^ 3 + ?c2 * x1 ^ 2 + ?c1 * x1 + ?c0 = 0" "x2 ^ 3 + ?c2 * x2 ^ 2 + ?c1 * x2 + ?c0 = 0"
        unfolding on_line .
      have "(x2 ^ 3 + ?c2 * x2 ^ 2 + ?c1 * x2 + ?c0) + (x1 ^ 3 + ?c2 * x1 ^ 2 + ?c1 * x1 + ?c0) =
          u * (x1 * x2 + (x1 + x2) * x3 + ?c1)"
        unfolding c2 u_def by (simp add: power2_eq_square power3_eq_cube algebra_simps)
      then have "x1 * x2 + (x1 + x2) * x3 + (s * x1 + y1) = 0" using r u by simp
      then have "ecc_curve a b (third a s x1 y1 x2)"
        using on P by (intro third_ecc_curve [OF x3_def]) simp_all
      then show ?thesis using False P Q by (simp add: s_def u_def)
    qed
  qed (use on P in simp)
qed simp

lemma c_mul_ecc_curve: "ecc_curve a b P \<Longrightarrow> ecc_curve a b (c_mul a n P)"
proof (induction a n P rule: c_mul.induct)
  case (1 a n P)
  show ?case
  proof (cases "n = 0 \<or> n = 1")
    case True
    then show ?thesis using 1(2) by auto
  next
    case False
    then have "ecc_curve a b (c_mul a (n div 2) P)" using 1 by simp
    then show ?thesis using c_double_ecc_curve c_add_ecc_curve 1(2) False by (subst c_mul.simps) (simp add: Let_def)
  qed
qed

lemma c_neg_ecc_curve: "ecc_curve a b P \<Longrightarrow> ecc_curve a b (c_neg P)"
  using reflect by (cases P) (simp_all only: c_neg.simps ecc_curve.simps(1))

end
