(* ===== verification/Ecc571_Proofs.thy ===== *)
theory Ecc571_Proofs
  imports Ecc571 Ecc571_Spec
begin

unbundle bit_operations_syntax

text \<open>
  The point functions of \<open>eccl_le.cpp\<close> against the chord and tangent law: the affine functions
  always return on points of the curve, and the Jacobian functions compute the same points
  without divisions.
\<close>

section \<open>Points\<close>

definition curve_ok :: "ecc571_curve \<Rightarrow> bool" where
  "curve_ok E \<longleftrightarrow> gf571_ok (curve_a E) \<and> gf571_ok (curve_b E) \<and> el (curve_b E) \<noteq> 0"

definition pt_ok :: "ecc571_affine_pt \<Rightarrow> bool" where
  "pt_ok p \<longleftrightarrow> gf571_ok (ax p) \<and> gf571_ok (ay p)"

definition pt :: "ecc571_affine_pt \<Rightarrow> cpoint" where
  "pt p = (if el (ax p) = 0 \<and> el (ay p) = 0 then Infinity else Point (el (ax p)) (el (ay p)))"

definition on :: "ecc571_curve \<Rightarrow> cpoint \<Rightarrow> bool" where
  "on E P \<longleftrightarrow> ecc_curve (el (curve_a E)) (el (curve_b E)) P"

abbreviation ea :: "ecc571_curve \<Rightarrow> gf571" where
  "ea E \<equiv> el (curve_a E)"

lemmas gf_ok = gf571_ok_add gf571_ok_mul gf571_ok_oneplus

lemma pt_infinite [simp]: "pt infinite = Infinity" "pt_ok infinite"
  by (simp_all add: pt_def pt_ok_def infinite_def)

lemma infinite_p: "pt_ok p \<Longrightarrow> infinite_p p \<longleftrightarrow> pt p = Infinity"
  by (simp add: infinite_p_def pt_def pt_ok_def el_is_zero)

lemma pt_inject: "pt_ok p \<Longrightarrow> pt_ok q \<Longrightarrow> pt p = pt q \<longleftrightarrow> p = q"
  by (cases p, cases q) (auto simp: pt_def pt_ok_def el_inject split: if_splits; metis el_inject el_zero gf571_ok_zero)

text \<open>The origin is not on a curve with \<open>b \<noteq> 0\<close>.\<close>

lemma pt_Point:
  assumes "curve_ok E" "on E (Point (el x) (el y))"
  shows "pt \<lparr>ax = x, ay = y\<rparr> = Point (el x) (el y)"
  using assms by (auto simp: pt_def on_def curve_ok_def)

section \<open>The affine functions\<close>

lemma ecc571_double_pt:
  assumes E: "curve_ok E" and p: "pt_ok p" "on E (pt p)"
  obtains r where "ecc571_double E p = Some r" "pt_ok r" "pt r = c_double (ea E) (pt p)"
proof (cases "el (ax p) = 0")
  case True
  then have "ecc571_double E p = Some infinite" using p by (simp add: ecc571_double_def el_is_zero pt_ok_def)
  moreover have "c_double (ea E) (pt p) = Infinity" using True by (simp add: pt_def)
  ultimately show ?thesis using that by simp
next
  case False
  let ?x = "el (ax p)" and ?y = "el (ay p)"
  have ok: "gf571_ok (ax p)" "gf571_ok (ay p)" "gf571_ok (curve_a E)" using p E by (simp_all add: pt_ok_def curve_ok_def)
  obtain q where q: "gf571_div (ay p) (ax p) = Some q" "gf571_ok q" "el q = ?y / ?x"
    using gf571_div_el [OF ok(2,1) False] .
  define s where "s = gf571_add (ax p) q"
  define x3 where "x3 = gf571_add (gf571_mul s s) (gf571_add s (curve_a E))"
  define y3 where "y3 = gf571_add (gf571_mul (gf571_oneplus s) x3) (gf571_mul (ax p) (ax p))"
  have r: "ecc571_double E p = Some \<lparr>ax = x3, ay = y3\<rparr>"
    using False ok q by (simp add: ecc571_double_def el_is_zero s_def x3_def y3_def Let_def)
  have oks: "gf571_ok s" "gf571_ok x3" "gf571_ok y3" using ok q by (simp_all add: s_def x3_def y3_def gf_ok)
  have es: "el s = ?x + ?y / ?x" using ok q by (simp add: s_def)
  have ex: "el x3 = el s ^ 2 + el s + ?x + ?x + ea E"
    using ok oks by (simp add: x3_def power2_eq_square add.assoc gf_ok)
  have "el s * ?x = ?x * ?x + ?y" using False unfolding es by (simp add: distrib_right)
  then have ey: "el y3 = el s * (?x + el x3) + el x3 + ?y"
    using ok oks by (simp add: y3_def gf_ok distrib_left distrib_right)
  have d: "c_double (ea E) (pt p) = Point (el x3) (el y3)"
    using False by (simp add: pt_def third_def Let_def flip: es) (simp add: ex ey)
  then have "on E (Point (el x3) (el y3))" using c_double_ecc_curve p(2) unfolding on_def by metis
  then have "pt \<lparr>ax = x3, ay = y3\<rparr> = Point (el x3) (el y3)" by (rule pt_Point [OF E])
  then show ?thesis using that r oks d by (simp add: pt_ok_def)
qed

lemma ecc571_add_pt:
  assumes E: "curve_ok E" and p: "pt_ok p" "on E (pt p)" and q: "pt_ok q" "on E (pt q)"
  obtains r where "ecc571_add E p q = Some r" "pt_ok r" "pt r = c_add (ea E) (pt p) (pt q)"
proof -
  consider "pt p = Infinity" | "pt q = Infinity" "pt p \<noteq> Infinity" | "pt p \<noteq> Infinity" "pt q \<noteq> Infinity" by blast
  then show thesis
  proof cases
    case 1
    then show ?thesis using that p q by (simp add: ecc571_add_def infinite_p)
  next
    case 2
    then show ?thesis using that p q by (cases "pt p") (simp_all add: ecc571_add_def infinite_p)
  next
    case 3
    let ?x1 = "el (ax p)" and ?y1 = "el (ay p)" and ?x2 = "el (ax q)" and ?y2 = "el (ay q)"
    have pq: "pt p = Point ?x1 ?y1" "pt q = Point ?x2 ?y2" using 3 by (auto simp: pt_def)
    have ok: "gf571_ok (ax p)" "gf571_ok (ay p)" "gf571_ok (ax q)" "gf571_ok (ay q)" "gf571_ok (curve_a E)"
      using p q E by (simp_all add: pt_ok_def curve_ok_def)
    show ?thesis
    proof (cases "?x1 = ?x2")
      case x: True
      have y2: "?y2 = ?y1 \<or> ?y2 = ?x1 + ?y1" using same_x p(2) q(2) unfolding on_def pq x by blast
      show ?thesis
      proof (cases "?y2 = ?x1 + ?y1")
        case True
        then have "?x1 = 0 \<or> ?y1 \<noteq> ?y2" by auto
        then have "ecc571_add E p q = Some infinite" using 3 p q x ok
          by (auto simp: ecc571_add_def infinite_p el_is_zero el_eq)
        then show ?thesis using that True x pq by simp
      next
        case False
        then have "?y1 = ?y2" "?x1 \<noteq> 0" using y2 by auto
        then have "ecc571_add E p q = ecc571_double E p" using 3 p q x ok
          by (simp add: ecc571_add_def infinite_p el_is_zero el_eq)
        then show ?thesis using that ecc571_double_pt [OF E p] False x pq by (metis c_add.simps(3))
      qed
    next
      case False
      define n where "n = gf571_add (ay p) (ay q)"
      define u where "u = gf571_add (ax q) (ax p)"
      have okn: "gf571_ok n" "gf571_ok u" using ok by (simp_all add: n_def u_def gf_ok)
      have eu: "el u = ?x1 + ?x2" using ok by (simp add: u_def add.commute)
      then have "el u \<noteq> 0" using False by (simp add: gf571_add_eq_0_iff)
      then obtain s where s: "gf571_div n u = Some s" "gf571_ok s" "el s = el n / el u"
        using gf571_div_el [OF okn] by blast
      define x3 where "x3 = gf571_add (gf571_add (gf571_mul s s) s) (gf571_add u (curve_a E))"
      define y3 where "y3 = gf571_add (ay p) (gf571_add x3 (gf571_mul s (gf571_add (ax p) x3)))"
      have r: "ecc571_add E p q = Some \<lparr>ax = x3, ay = y3\<rparr>"
        using False 3 p q ok s by (simp add: ecc571_add_def infinite_p el_eq n_def u_def x3_def y3_def Let_def)
      have oks: "gf571_ok x3" "gf571_ok y3" using ok okn s by (simp_all add: x3_def y3_def gf_ok)
      have es: "el s = (?y1 + ?y2) / (?x1 + ?x2)" using ok unfolding s(3) eu by (simp add: n_def)
      have ex: "el x3 = el s ^ 2 + el s + ?x1 + ?x2 + ea E"
        using ok okn s(2) by (simp add: x3_def gf_ok eu power2_eq_square add.assoc)
      have ey: "el y3 = el s * (?x1 + el x3) + el x3 + ?y1"
        using ok oks s(2) by (simp add: y3_def gf_ok ac_simps)
      have d: "c_add (ea E) (pt p) (pt q) = Point (el x3) (el y3)"
        unfolding pq using False by (simp add: third_def Let_def flip: es) (simp add: ex ey)
      then have "on E (Point (el x3) (el y3))" using c_add_ecc_curve p(2) q(2) unfolding on_def by metis
      then have "pt \<lparr>ax = x3, ay = y3\<rparr> = Point (el x3) (el y3)" by (rule pt_Point [OF E])
      then show ?thesis using that r oks d by (simp add: pt_ok_def)
    qed
  qed
qed

lemma ecc571_neg_pt:
  assumes "pt_ok p"
  shows "pt_ok (ecc571_neg p)" "pt (ecc571_neg p) = c_neg (pt p)"
  using assms by (auto simp: pt_ok_def ecc571_neg_def pt_def gf_ok)

section \<open>Jacobian coordinates\<close>

definition proj_ok :: "ecc571_projective_pt \<Rightarrow> bool" where
  "proj_ok P \<longleftrightarrow> gf571_ok (jx P) \<and> gf571_ok (jy P) \<and> gf571_ok (jz P)"

definition proj :: "ecc571_projective_pt \<Rightarrow> cpoint" where
  "proj P = (if el (jz P) = 0 then Infinity else Point (el (jx P) / el (jz P) ^ 2) (el (jy P) / el (jz P) ^ 3))"

lemma proj_infinite_p: "proj_ok P \<Longrightarrow> proj_infinite_p P \<longleftrightarrow> el (jz P) = 0"
  by (simp add: proj_infinite_p_def proj_ok_def el_is_zero)

lemma proj_infinite [simp]: "proj proj_infinite = Infinity" "proj_ok proj_infinite"
  by (simp_all add: proj_def proj_ok_def proj_infinite_def)

lemma proj_eq_Infinity: "proj P = Infinity \<longleftrightarrow> el (jz P) = 0"
  by (simp add: proj_def)

text \<open>A finite point gives its coordinates scaled.\<close>

lemma proj_coords:
  assumes "el (jz P) \<noteq> 0"
  obtains x y where "proj P = Point x y" "el (jx P) = x * el (jz P) ^ 2" "el (jy P) = y * el (jz P) ^ 3"
proof (rule that)
  show "proj P = Point (el (jx P) / el (jz P) ^ 2) (el (jy P) / el (jz P) ^ 3)" using assms by (simp add: proj_def)
qed (use assms in simp_all)

lemma proj_Point: "el z \<noteq> 0 \<Longrightarrow> el x = x0 * el z ^ 2 \<Longrightarrow> el y = y0 * el z ^ 3 \<Longrightarrow> proj \<lparr>jx = x, jy = y, jz = z\<rparr> = Point x0 y0"
  by (simp add: proj_def)

lemma proj_double:
  assumes E: "curve_ok E" and P: "proj_ok P"
  shows "proj_ok (proj_double E P)" "proj (proj_double E P) = c_double (ea E) (proj P)"
proof -
  have ok: "gf571_ok (jx P)" "gf571_ok (jy P)" "gf571_ok (jz P)" "gf571_ok (curve_a E)"
    using P E by (simp_all add: proj_ok_def curve_ok_def)
  show "proj_ok (proj_double E P)"
    using ok by (simp add: proj_double_def Let_def gf_ok) (simp add: proj_ok_def gf_ok)
  show "proj (proj_double E P) = c_double (ea E) (proj P)"
  proof (cases "el (jz P) = 0")
    case True
    then show ?thesis using P by (simp add: proj_double_def proj_infinite_p proj_def [of P])
  next
    case False
    define z3 where "z3 = gf571_mul (jx P) (gf571_mul (jz P) (jz P))"
    define t where "t = gf571_add (gf571_mul (jy P) (jz P)) (gf571_mul (jx P) (jx P))"
    define x3 where "x3 = gf571_add (gf571_mul t t) (gf571_mul z3 (gf571_add (gf571_mul (curve_a E) z3) t))"
    define y3 where "y3 = gf571_add (gf571_mul z3 (gf571_add x3 (gf571_mul (jx P) (gf571_mul (jx P) (gf571_mul (jx P) (jx P)))))) (gf571_mul t x3)"
    have r: "proj_double E P = \<lparr>jx = x3, jy = y3, jz = z3\<rparr>"
      using False P by (simp add: proj_double_def proj_infinite_p z3_def t_def x3_def y3_def Let_def)
    obtain x y where xy: "proj P = Point x y" "el (jx P) = x * el (jz P) ^ 2" "el (jy P) = y * el (jz P) ^ 3"
      using proj_coords [OF False] .
    let ?z = "el (jz P)"
    have oks: "gf571_ok z3" "gf571_ok t" "gf571_ok x3" using ok by (simp_all add: z3_def t_def x3_def gf_ok)
    have ez: "el z3 = x * ?z ^ 4" using ok by (simp add: z3_def gf_ok xy power2_eq_square power4_eq_xxxx mult.assoc)
    show ?thesis
    proof (cases "x = 0")
      case True
      then have "el z3 = 0" using ez by simp
      then show ?thesis unfolding r xy using True by (simp add: proj_def)
    next
      case x: False
      define s where "s = x + y / x"
      have sx: "s * x = x * x + y" using x by (simp add: s_def distrib_right)
      have "el t = (x * x + y) * ?z ^ 4" using ok
        by (simp add: t_def gf_ok xy power2_eq_square power3_eq_cube power4_eq_xxxx algebra_simps)
      then have et: "el t = s * el z3" unfolding ez sx [symmetric] by (simp add: ac_simps)
      have ex: "el x3 = (s ^ 2 + s + x + x + ea E) * el z3 ^ 2" using ok oks
        by (simp add: x3_def gf_ok et power2_eq_square algebra_simps)
      have "el (jx P) * (el (jx P) * (el (jx P) * el (jx P))) = el z3 * el z3 * (x * x)"
        unfolding ez xy by (simp add: power2_eq_square power4_eq_xxxx ac_simps)
      then have ey0: "el y3 = el z3 * el x3 + el z3 * el z3 * el z3 * (x * x) + s * el z3 * el x3" using ok oks
        by (simp add: y3_def gf_ok et algebra_simps)
      define x0 where "x0 = s ^ 2 + s + x + x + ea E"
      have ey: "el y3 = (s * (x + x0) + x0 + y) * el z3 ^ 3"
        unfolding ey0 ex x0_def [symmetric] distrib_left sx
        by (simp add: power2_eq_square power3_eq_cube algebra_simps)
      have "el z3 \<noteq> 0" using x False by (simp add: ez)
      then have "proj (proj_double E P) = Point x0 (s * (x + x0) + x0 + y)"
        unfolding r using ex ey by (intro proj_Point) (simp_all add: x0_def)
      then show ?thesis unfolding xy using x by (simp add: third_def Let_def x0_def flip: s_def)
    qed
  qed
qed

lemma proj_add:
  assumes E: "curve_ok E" and P: "proj_ok P" "on E (proj P)" and Q: "proj_ok Q" "on E (proj Q)"
  shows "proj_ok (proj_add E P Q)" "proj (proj_add E P Q) = c_add (ea E) (proj P) (proj Q)"
proof -
  have ok: "gf571_ok (jx P)" "gf571_ok (jy P)" "gf571_ok (jz P)" "gf571_ok (jx Q)" "gf571_ok (jy Q)" "gf571_ok (jz Q)"
    "gf571_ok (curve_a E)" using P Q E by (simp_all add: proj_ok_def curve_ok_def)
  define ta where "ta = gf571_add (gf571_mul (jx P) (gf571_mul (jz Q) (jz Q))) (gf571_mul (jx Q) (gf571_mul (jz P) (jz P)))"
  define w where "w = gf571_mul (jz Q) ta"
  define z3 where "z3 = gf571_mul (jz P) w"
  define c where "c = gf571_mul ta (gf571_mul ta ta)"
  define tb where "tb = gf571_add (gf571_mul (jy P) (gf571_mul (jz Q) (gf571_mul (jz Q) (jz Q))))
    (gf571_mul (jy Q) (gf571_mul (jz P) (gf571_mul (jz P) (jz P))))"
  define x3 where "x3 = gf571_add c (gf571_add (gf571_mul (curve_a E) (gf571_mul z3 z3))
    (gf571_add (gf571_mul tb z3) (gf571_mul tb tb)))"
  define y3 where "y3 = gf571_add
    (gf571_mul w (gf571_add (gf571_mul (jz P) x3) (gf571_mul (jy P) (gf571_mul w w))))
    (gf571_mul tb (gf571_add x3 (gf571_mul (jx P) (gf571_mul w w))))"
  have r: "proj_add E P Q =
      (if proj_infinite_p P then Q else if proj_infinite_p Q then P
       else if gf571_is_zero c then if gf571_is_zero tb then proj_double E Q else proj_infinite
       else \<lparr>jx = x3, jy = y3, jz = z3\<rparr>)"
    unfolding proj_add_def Let_def ta_def w_def z3_def c_def tb_def x3_def y3_def ..
  have oks: "gf571_ok ta" "gf571_ok w" "gf571_ok z3" "gf571_ok c" "gf571_ok tb" "gf571_ok x3" "gf571_ok y3"
    using ok by (simp_all add: ta_def w_def z3_def c_def tb_def x3_def y3_def gf_ok)
  have "proj_ok \<lparr>jx = x3, jy = y3, jz = z3\<rparr>" using oks by (simp add: proj_ok_def)
  then show "proj_ok (proj_add E P Q)"
    unfolding r using P(1) Q(1) proj_double(1) [OF E Q(1)] by simp
  show "proj (proj_add E P Q) = c_add (ea E) (proj P) (proj Q)"
  proof (cases "el (jz P) = 0 \<or> el (jz Q) = 0")
    case True
    then show ?thesis unfolding r using P(1) Q(1)
      by (cases "proj P") (auto simp: proj_infinite_p proj_eq_Infinity simp flip: proj_eq_Infinity)
  next
    case False
    then have nz: "el (jz P) \<noteq> 0" "el (jz Q) \<noteq> 0" by simp_all
    let ?z = "el (jz P)" and ?u = "el (jz Q)"
    obtain x1 y1 where p: "proj P = Point x1 y1" "el (jx P) = x1 * ?z ^ 2" "el (jy P) = y1 * ?z ^ 3"
      using proj_coords [OF nz(1)] .
    obtain x2 y2 where q: "proj Q = Point x2 y2" "el (jx Q) = x2 * ?u ^ 2" "el (jy Q) = y2 * ?u ^ 3"
      using proj_coords [OF nz(2)] .
    have eta: "el ta = (x1 + x2) * (?z ^ 2 * ?u ^ 2)" using ok
      by (simp add: ta_def gf_ok p q power2_eq_square algebra_simps)
    have etb: "el tb = (y1 + y2) * (?z ^ 3 * ?u ^ 3)" using ok
      by (simp add: tb_def gf_ok p q power3_eq_cube algebra_simps)
    have ec: "el c = el ta ^ 3" using oks by (simp add: c_def gf_ok power3_eq_cube)
    have fin: "\<not> proj_infinite_p P" "\<not> proj_infinite_p Q" using P Q nz by (simp_all add: proj_infinite_p)
    show ?thesis
    proof (cases "x1 = x2")
      case x: True
      then have "el c = 0" unfolding ec eta by simp
      have tb0: "el tb = 0 \<longleftrightarrow> y1 = y2" unfolding etb using nz by (simp add: gf571_add_eq_0_iff)
      have y: "y2 = y1 \<or> y2 = x1 + y1" using same_x P(2) Q(2) unfolding on_def p q x by blast
      show ?thesis
      proof (cases "y1 = y2")
        case True
        then have "proj (proj_add E P Q) = c_double (ea E) (Point x1 y1)"
          unfolding r using fin oks \<open>el c = 0\<close> tb0 proj_double(2) [OF E Q(1)] q x by (simp add: el_is_zero)
        then show ?thesis unfolding p q using x True by simp
      next
        case False
        then have "proj (proj_add E P Q) = Infinity"
          unfolding r using fin oks \<open>el c = 0\<close> tb0 by (simp add: el_is_zero)
        then show ?thesis unfolding p q using x y False by simp
      qed
    next
      case x: False
      define s where "s = (y1 + y2) / (x1 + x2)"
      have d: "x1 + x2 \<noteq> 0" using x by (simp add: gf571_add_eq_0_iff)
      then have ta0: "el ta \<noteq> 0" unfolding eta using nz by simp
      then have c0: "el c \<noteq> 0" unfolding ec by simp
      have ew: "el w = ?u * el ta" using ok oks by (simp add: w_def)
      have ez: "el z3 = ?z * el w" using ok oks by (simp add: z3_def)
      have z0: "el z3 \<noteq> 0" unfolding ez ew using nz ta0 by simp
      have "y1 + y2 = s * (x1 + x2)" using d by (simp add: s_def)
      then have etb2: "el tb = s * el z3" unfolding etb ez ew eta
        by (simp add: power2_eq_square power3_eq_cube ac_simps)
      have "el z3 ^ 2 * (x1 + x2) = el ta ^ 3" unfolding ez ew power3_eq_cube [of "el ta"]
        by (subst (3) eta) (simp add: power2_eq_square ac_simps)
      then have ex: "el x3 = (s ^ 2 + s + x1 + x2 + ea E) * el z3 ^ 2"
        using ok oks by (simp add: x3_def gf_ok etb2 ec power2_eq_square algebra_simps)
      define x0 where "x0 = s ^ 2 + s + x1 + x2 + ea E"
      have "el y3 = el w * (?z * el x3 + y1 * ?z ^ 3 * (el w * el w)) + el tb * (el x3 + x1 * ?z ^ 2 * (el w * el w))"
        using ok oks by (simp add: y3_def gf_ok p)
      then have ey: "el y3 = (s * (x1 + x0) + x0 + y1) * el z3 ^ 3"
        unfolding etb2 ex x0_def [symmetric] ez by (simp add: power2_eq_square power3_eq_cube algebra_simps)
      have "proj (proj_add E P Q) = Point x0 (s * (x1 + x0) + x0 + y1)"
        unfolding r using fin oks c0 z0 ex ey by (simp add: el_is_zero x0_def proj_Point)
      then show ?thesis unfolding p q using x by (simp add: third_def Let_def x0_def flip: s_def)
    qed
  qed
qed

section \<open>Multiples\<close>

lemma first_bit_0: "gf571_ok n \<Longrightarrow> num n \<noteq> 0 \<Longrightarrow> \<exists>ix msk. first_bit 9 n = Some (ix, msk)"
  using first_bit_Some [of n 9] by (metis gf571_ok_def)

lemma proj_mul:
  assumes E: "curve_ok E" and P: "proj_ok P" "on E (proj P)" and n: "length n = 9"
  shows "proj_ok (proj_mul E P n)" "proj (proj_mul E P n) = (if proj P = Infinity then Infinity else c_mul (ea E) (num n) (proj P))"
proof -
  have "proj_ok (proj_mul E P n) \<and> proj (proj_mul E P n) = (if proj P = Infinity then Infinity else c_mul (ea E) (num n) (proj P))"
  proof (cases "num n = 0 \<or> el (jz P) = 0")
    case True
    then have "proj_mul E P n = proj_infinite" using P n by (auto simp: proj_mul_def gf571_is_zero proj_infinite_p)
    then show ?thesis using True by (auto simp: proj_eq_Infinity)
  next
    case False
    let ?R = "\<lambda>a t. t \<noteq> 0 \<and> proj_ok a \<and> proj a = c_mul (ea E) t (proj P)"
    obtain ix msk where f: "first_bit 9 n = Some (ix, msk)" using first_bit_Some [OF n] False by metis
    have "?R (byte_loop (proj_mul_body E P) n ix msk P) (num n)"
    proof (rule first_bit_loop [OF n _ _ _ f])
      show "num n \<noteq> 0" "?R P 1" using False P by simp_all
    next
      fix a t b
      assume a: "?R a t"
      then have d: "proj_ok (proj_double E a)" "proj (proj_double E a) = c_double (ea E) (c_mul (ea E) t (proj P))"
        using proj_double [OF E] by simp_all
      have "on E (proj (proj_double E a))" using d(2) P(2) c_double_ecc_curve c_mul_ecc_curve unfolding on_def by metis
      then have s: "proj_ok (proj_add E (proj_double E a) P)"
        "proj (proj_add E (proj_double E a) P) = c_add (ea E) (c_double (ea E) (c_mul (ea E) t (proj P))) (proj P)"
        using proj_add [OF E d(1) _ P] d(2) by simp_all
      show "?R (proj_mul_body E P a b) (2 * t + of_bool b)"
        using a d s c_mul_bit [of t "ea E" b "proj P"] by (simp add: proj_mul_body_def Let_def)
    qed
    then show ?thesis using False P n
      by (simp add: proj_mul_def gf571_is_zero proj_infinite_p gf571_first_bit_def f) (simp add: proj_def)
  qed
  then show "proj_ok (proj_mul E P n)" "proj (proj_mul E P n) = (if proj P = Infinity then Infinity else c_mul (ea E) (num n) (proj P))"
    by simp_all
qed

lemma convert_to_affine:
  assumes "proj_ok P"
  obtains r where "convert_to_affine P = Some r" "pt_ok r"
    "\<And>x y. proj P = Point x y \<Longrightarrow> el (ax r) = x \<and> el (ay r) = y" "proj P = Infinity \<Longrightarrow> r = infinite"
proof (cases "el (jz P) = 0")
  case True
  then have "convert_to_affine P = Some infinite" "proj P = Infinity"
    using assms by (simp_all add: convert_to_affine_def proj_infinite_p proj_def)
  then show ?thesis using that by simp
next
  case False
  have ok: "gf571_ok (jx P)" "gf571_ok (jy P)" "gf571_ok (jz P)" using assms by (simp_all add: proj_ok_def)
  obtain i where i: "gf571_inv (jz P) = Some i" "gf571_ok i" "el i = inverse (el (jz P))"
    using gf571_inv_el(2) [OF ok(3) False] by blast
  define r where "r = \<lparr>ax = gf571_mul (jx P) (gf571_mul i i), ay = gf571_mul (jy P) (gf571_mul (gf571_mul i i) i)\<rparr>"
  have "convert_to_affine P = Some r" using False assms i by (simp add: convert_to_affine_def proj_infinite_p r_def Let_def)
  moreover have "pt_ok r" using ok i by (simp add: r_def pt_ok_def gf_ok)
  moreover have "el (ax r) = el (jx P) / el (jz P) ^ 2" "el (ay r) = el (jy P) / el (jz P) ^ 3"
    using ok i False by (simp_all add: r_def gf_ok divide_inverse power2_eq_square power3_eq_cube)
  ultimately show ?thesis using that False by (simp add: proj_def)
qed

lemma static_projective:
  assumes "pt_ok p" "gf571_ok rnd" "el rnd \<noteq> 0"
  shows "proj_ok (static_ecc571_projective_pt p rnd)"
    "proj (static_ecc571_projective_pt p rnd) = Point (el (ax p)) (el (ay p))"
  using assms by (simp_all add: static_ecc571_projective_pt_def Let_def proj_ok_def pt_ok_def gf_ok proj_def
      power2_eq_square power3_eq_cube mult.commute)

end
