(* ===== verification/Gf571_Strings.thy ===== *)
theory Gf571_Strings
  imports Gf571_Ring
begin

unbundle bit_operations_syntax

text \<open>
  What \<open>init_from_string\<close> makes of a string of hexadecimal digits: the number it denotes, modulo
  the size of the operand.
\<close>

definition hexnum :: "byte list \<Rightarrow> nat" where
  "hexnum s = foldl (\<lambda>n c. 16 * n + unat (the (hexval c))) 0 s"

lemma hexnum_simps [simp]: "hexnum [] = 0" "hexnum (s @ [c]) = 16 * hexnum s + unat (the (hexval c))"
  by (simp_all add: hexnum_def)

text \<open>The digits from a position on, and the two before it.\<close>

lemma hexnum_append: "hexnum (a @ b) = hexnum a * 16 ^ length b + hexnum b"
  by (induction b rule: rev_induct) (simp_all flip: append_assoc add: algebra_simps)

lemma hexnum_less: "hex_digits s \<Longrightarrow> hexnum s < 16 ^ length s"
proof (induction s rule: rev_induct)
  case (snoc c s)
  then have s: "hexnum s < 16 ^ length s" and "\<exists>v. hexval c = Some v" by (auto simp: hex_digits_def)
  then obtain v where v: "hexval c = Some v" "unat v < 16" using hexval_cases(1) by blast
  then show ?case using s by simp
qed simp

lemma hexnum_pair:
  assumes "hex_digits s" "length s = i + 2 + 2 * j"
  shows "\<exists>x. scan_2X (drop i s) = Some x \<and> unat x = hexnum s div 2 ^ (8 * j) mod 256"
proof -
  have "i < length s" "Suc i < length s" using assms by simp_all
  then obtain v w where vw: "hexval (s ! i) = Some v" "hexval (s ! Suc i) = Some w"
    using hex_digits_nth [OF assms(1)] by metis
  have d: "drop i s = s ! i # s ! Suc i # drop (i + 2) s"
    using assms(2) by (simp add: Cons_nth_drop_Suc)
  have t: "take (i + 2) s = (take i s @ [s ! i]) @ [s ! Suc i]"
    using assms(2) by (simp add: take_Suc_conv_app_nth)
  have "hex_digits (drop (i + 2) s)" using assms(1) by (auto simp: hex_digits_def list_all_iff dest: in_set_dropD)
  then have lo: "hexnum (drop (i + 2) s) < 2 ^ (8 * j)"
    using hexnum_less [of "drop (i + 2) s"] assms(2) by (simp add: power_mult)
  have "hexnum s = hexnum (take (i + 2) s) * 2 ^ (8 * j) + hexnum (drop (i + 2) s)"
    using hexnum_append [of "take (i + 2) s" "drop (i + 2) s"] assms(2) by (simp add: power_mult)
  then have "hexnum s div 2 ^ (8 * j) = hexnum (take (i + 2) s)" using lo by simp
  also have "\<dots> = 256 * hexnum (take i s) + (16 * unat v + unat w)" unfolding t hexnum_simps vw by simp
  also have "\<dots> mod 256 = 16 * unat v + unat w"
    using hexval_cases(1) [OF vw(1)] hexval_cases(1) [OF vw(2)] by simp
  finally show ?thesis unfolding d using scan_pair [OF vw] by simp
qed

lemma num_update_take:
  assumes "i < 8 * length p" "num p = take_bit (8 * i) n" "unat b = n div 2 ^ (8 * i) mod 256"
  shows "num (opnd_update p i b) = take_bit (8 * Suc i) n"
proof (rule bit_eqI)
  fix k
  have b: "bit b r \<longleftrightarrow> r < 8 \<and> bit n (8 * i + r)" for r
  proof -
    have "unat b = take_bit 8 (drop_bit (8 * i) n)" by (simp add: assms(3) take_bit_eq_mod drop_bit_eq_div)
    then have "bit (unat b) r \<longleftrightarrow> r < 8 \<and> bit n (8 * i + r)" by (simp add: bit_simps)
    then show ?thesis by (simp add: bit_simps)
  qed
  have k: "k = 8 * (k div 8) + k mod 8" "k mod 8 < 8" for k :: nat by simp_all
  show "bit (num (opnd_update p i b)) k = bit (take_bit (8 * Suc i) n) k"
  proof (cases "k div 8 = i")
    case True
    then have "8 * i + k mod 8 = k" using k [of k] by simp
    moreover from this have "k < 8 * Suc i" using k(2) [of k] by simp
    ultimately have "8 * i + k mod 8 = k" "k < 8 * Suc i" .
    then show ?thesis using True assms(1) by (simp add: bit_num_update b bit_take_bit_iff)
  next
    case False
    then have "k < 8 * i \<longleftrightarrow> k < 8 * Suc i"
      using div_less_iff_less_mult [of 8 k i] div_less_iff_less_mult [of 8 k "Suc i"] by (auto simp: mult.commute)
    then show ?thesis using False assms(1,2) by (simp add: bit_num_update bit_take_bit_iff)
  qed
qed

lemma from_string_loop_hex:
  assumes "hex_digits s" "m \<le> 8 * length p" "j \<le> m" "2 * j \<le> length s" "num p = take_bit (8 * j) (hexnum s)"
  shows "\<exists>q k. from_string_loop s m p j (int (length s) - 2 * int j) = Some (q, k, int (length s) - 2 * int k - 2)
    \<and> length q = length p \<and> num q = take_bit (8 * k) (hexnum s) \<and> k \<le> m \<and> 2 * k \<le> length s
    \<and> (k = m \<or> length s < 2 * k + 2)"
  using assms
proof (induction "m - j" arbitrary: p j rule: less_induct)
  case less
  let ?ix = "int (length s) - 2 * int j - 2"
  show ?case
  proof (cases "j < m \<and> ?ix \<ge> 0")
    case True
    then obtain i where i: "?ix = int i" by (metis nonneg_int_cases)
    then have len: "length s = i + 2 + 2 * j" by linarith
    obtain x where x: "scan_2X (drop i s) = Some x" "unat x = hexnum s div 2 ^ (8 * j) mod 256"
      using hexnum_pair [OF less.prems(1) len] by blast
    have j: "j < 8 * length p" using True less.prems(2) by linarith
    have "from_string_loop s m p j (int (length s) - 2 * int j) = from_string_loop s m (opnd_update p j x) (Suc j) ?ix"
      using True by (subst from_string_loop.simps) (simp add: i x Let_def)
    moreover have "?ix = int (length s) - 2 * int (Suc j)" by simp
    moreover note less.hyps [of "Suc j" "opnd_update p j x"]
    ultimately show ?thesis
      using True less.prems len num_update_take [OF j less.prems(5) x(2)] by simp
  next
    case False
    then have "from_string_loop s m p j (int (length s) - 2 * int j) = Some (p, j, ?ix)"
      by (subst from_string_loop.simps) (auto simp: Let_def)
    then show ?thesis using False less.prems by (intro exI [of _ p] exI [of _ j]) auto
  qed
qed

lemma init_from_hex:
  assumes "hex_digits s" "num p = 0" "length p = n"
  obtains q where "init_from_string_for_nbytes s p (8 * n) = Some q" "length q = n" "num q = take_bit (64 * n) (hexnum s)"
proof -
  obtain q k where q: "from_string_loop s (8 * n) p 0 (int (length s)) = Some (q, k, int (length s) - 2 * int k - 2)"
    "length q = n" "num q = take_bit (8 * k) (hexnum s)" "k \<le> 8 * n" "2 * k \<le> length s" "k = 8 * n \<or> length s < 2 * k + 2"
    using from_string_loop_hex [OF assms(1), of "8 * n" p 0] assms(2,3) by auto
  have all: "take_bit (64 * n) (hexnum s) = hexnum s" if "length s \<le> 2 * i" "i \<le> 8 * n" for i
  proof -
    have "hexnum s < 16 ^ length s" using assms(1) by (rule hexnum_less)
    also have "\<dots> = 2 ^ (4 * length s)" by (simp add: power_mult)
    also have "\<dots> \<le> 2 ^ (64 * n)" using that by (intro power_increasing) simp_all
    finally show ?thesis by (simp add: take_bit_nat_eq_self_iff)
  qed
  show ?thesis
  proof (cases "k < 8 * n \<and> length s = 2 * k + 1")
    case True
    then obtain c r where s: "s = c # r" by (cases s) auto
    then obtain v where v: "hexval c = Some v" using assms(1) by (auto simp: hex_digits_def)
    have "hexnum s div 2 ^ (8 * k) = unat v"
    proof -
      have "hex_digits r" using assms(1) by (simp add: s hex_digits_def)
      then have "hexnum r < 2 ^ (8 * k)" using hexnum_less [of r] True by (simp add: s power_mult)
      moreover have "hexnum s = unat v * 2 ^ (8 * k) + hexnum r"
        using hexnum_append [of "[c]" r] hexnum_simps(2) [of "[]" c] True by (simp add: s v power_mult)
      ultimately show ?thesis by simp
    qed
    then have "unat v = hexnum s div 2 ^ (8 * k) mod 256" using hexval_cases(1) [OF v] by simp
    then have "num (opnd_update q k v) = take_bit (8 * Suc k) (hexnum s)"
      using num_update_take [of k q "hexnum s" v] q True by simp
    also have "\<dots> = hexnum s"
    proof -
      have "hexnum s < 16 ^ length s" using assms(1) by (rule hexnum_less)
      also have "\<dots> = 2 ^ (4 * length s)" by (simp add: power_mult)
      also have "\<dots> \<le> 2 ^ (8 * Suc k)" using True by (intro power_increasing) simp_all
      finally show ?thesis by (simp only: take_bit_nat_eq_self_iff)
    qed
    also have "\<dots> = take_bit (64 * n) (hexnum s)" using all [of "Suc k"] True by simp
    finally have "num (opnd_update q k v) = take_bit (64 * n) (hexnum s)" .
    moreover have "scan_1x s = Some v"
      using hexval_cases [OF v] v by (simp add: scan_1x_def s c_string_def)
    ultimately show ?thesis using that [of "opnd_update q k v"] True q
      by (simp add: init_from_string_for_nbytes_def c_string_hex [OF assms(1)])
  next
    case False
    then have "\<not> (k < 8 * n \<and> int (length s) - 2 * int k - 2 = - 1)" by auto
    then have "init_from_string_for_nbytes s p (8 * n) = Some q"
      unfolding init_from_string_for_nbytes_def c_string_hex [OF assms(1)] q(1) option.case prod.case
      by (simp only: if_False)
    moreover have "num q = take_bit (64 * n) (hexnum s)"
    proof (cases "k = 8 * n")
      case True
      then show ?thesis using q(3) by (simp add: mult.assoc)
    next
      case neq: False
      then have len: "length s = 2 * k" using q False by linarith
      have "take_bit (8 * k) (hexnum s) = hexnum s"
        using hexnum_less [OF assms(1)] len by (simp add: take_bit_nat_eq_self_iff power_mult)
      then show ?thesis using q(3,4) all [of k] len by simp
    qed
    ultimately show ?thesis using that q(2) by blast
  qed
qed

theorem gf571_init_from_hex:
  assumes "hex_digits s"
  obtains q where "gf571_init_from_string s = Some q" "gf571_ok q" "num q = take_bit 571 (hexnum s)"
proof -
  obtain q where q: "init_from_string_for_nbytes s gf571_zero (8 * 9) = Some q" "length q = 9"
    "num q = take_bit (64 * 9) (hexnum s)"
    using init_from_hex [OF assms, of gf571_zero 9] by (auto simp: num_gf571_constants)
  define r where "r = opnd_update q 71 (opnd_byte q 71 AND mask 3)"
  have "num r = take_bit 571 (num q)" using num_update_mask [of q 8 3] q(2) by (simp add: r_def)
  then have "num r = take_bit 571 (hexnum s)" using q(3) by simp
  moreover have "mask 3 = (7 :: byte)" by (simp add: mask_eq_exp_minus_1)
  ultimately show ?thesis
    using that [of r] q by (simp add: gf571_init_from_string_def r_def gf571_ok_def del: power_numeral)
qed

section \<open>The coefficients of a hexadecimal constant\<close>

definition hex_bits :: "byte list \<Rightarrow> bool list" where
  "hex_bits s = concat (map (\<lambda>c. map (bit (the (hexval c))) [0..<4]) (rev s))"

lemma pol_append: "pol (a @ b) = pol a + X ^ length a * pol b"
  by (induction a) (simp_all add: algebra_simps)

lemma poly_of_bits: "poly_of (take_bit k n) = pol (map (bit n) [0..<k])"
proof (induction k arbitrary: n)
  case (Suc k)
  have "take_bit (Suc k) n = 2 * take_bit k (n div 2) + of_bool (odd n)" by (simp add: take_bit_Suc mod_2_eq_odd)
  moreover have "map (bit n) [0..<Suc k] = odd n # map (bit (n div 2)) [0..<k]"
    by (simp add: upt_rec [of 0] map_Suc_upt [symmetric] bit_Suc bit_0 comp_def del: upt_Suc)
  ultimately show ?case by (simp add: poly_of_bit Suc.IH)
qed simp

lemma poly_of_hexnum: "hex_digits s \<Longrightarrow> poly_of (hexnum s) = pol (hex_bits s)"
proof (induction s rule: rev_induct)
  case (snoc c s)
  then have IH: "poly_of (hexnum s) = pol (hex_bits s)" and "\<exists>v. hexval c = Some v" by (auto simp: hex_digits_def)
  then obtain v where v: "hexval c = Some v" "unat v < 16" using hexval_cases(1) by blast
  have "16 * hexnum s + unat v = push_bit 4 (hexnum s) XOR unat v"
  proof -
    have "push_bit 4 (hexnum s) + unat v = push_bit 4 (hexnum s) XOR unat v"
    proof (rule disjunctive_add_eq_xor)
      have "\<not> bit (unat v) i" if "4 \<le> i" for i
        using v(2) that less_exp_iff_bits [of "unat v" 4] by simp
      then show "push_bit 4 (hexnum s) AND unat v = 0" by (intro bit_eqI) (auto simp: bit_simps)
    qed
    then show ?thesis by (simp add: push_bit_eq_mult mult.commute)
  qed
  moreover have "poly_of (unat v) = pol (map (bit v) [0..<4])"
    using poly_of_bits [of 4 "unat v"] v(2) by (simp add: take_bit_nat_eq_self bit_simps bit_imp_le_length cong: map_cong)
  ultimately show ?case using IH v by (simp add: hex_bits_def poly_of_xor poly_of_push_bit pol_append)
qed (simp add: hex_bits_def)

end
