(* ===== verification/Ecc571_Const.thy ===== *)
theory Ecc571_Const
  imports Ecc571_Proofs Gf571_Strings
begin

unbundle bit_operations_syntax

text \<open>
  The constants of the B-571 curve: the strings of \<open>gEcc571\<close> and \<open>gGen\<close>, their coefficients, and
  that the generator lies on the curve.
\<close>

section \<open>Products of lists of coefficients\<close>

fun pmul :: "bool list \<Rightarrow> bool list \<Rightarrow> bool list" where
  "pmul [] ys = []"
| "pmul (True # xs) ys = sxor ys (False # pmul xs ys)"
| "pmul (False # xs) ys = False # pmul xs ys"

lemma pol_pmul: "pol (pmul xs ys) = pol xs * pol ys"
  by (induction xs ys rule: pmul.induct) (simp_all add: pol_sxor algebra_simps)

section \<open>The strings\<close>

definition b_bits :: "bool list" where
  "b_bits = [False, True, False, True, True, True, True, False, False, True, False, False, True, True, True, False,
      True, False, True, False, True, False, True, False, True, False, False, True, False, True, False, False,
      True, True, True, True, True, True, True, False, True, True, True, True, True, True, True, True, False,
      True, True, True, True, True, True, True, True, True, True, True, True, True, True, False, False, False,
      True, True, False, False, False, False, False, True, False, True, False, False, True, True, False, True,
      False, True, True, True, False, True, True, False, False, True, True, True, False, False, True, True,
      True, False, False, True, True, True, True, False, True, True, False, False, True, False, False, True,
      True, True, False, False, False, False, False, True, False, False, True, False, True, False, False,
      True, False, True, False, True, False, True, False, True, False, False, True, False, False, False, True,
      True, True, True, True, True, True, True, False, False, False, True, True, True, True, False, False,
      True, False, True, True, False, True, False, False, False, False, True, True, False, False, False, True,
      False, True, True, True, True, True, True, False, True, False, True, False, False, True, False, True,
      False, False, True, False, True, False, False, False, True, True, True, False, True, True, False, False,
      True, True, False, False, True, False, True, False, True, True, False, True, False, True, False, True,
      True, True, False, False, True, True, False, True, False, True, True, False, True, False, True, True,
      True, True, False, False, True, True, True, True, True, False, True, False, True, False, False, True,
      True, False, False, True, True, False, False, True, False, False, True, True, False, True, False, False,
      True, False, True, True, True, True, True, False, True, True, True, False, False, False, True, True,
      False, True, True, True, True, False, True, True, True, False, True, False, True, False, True, True,
      True, True, True, True, True, True, True, False, False, True, False, False, False, False, True, True,
      False, True, True, False, True, False, True, False, False, False, True, True, False, False, False,
      False, True, False, True, True, False, False, True, False, True, False, True, False, False, True, False,
      False, True, True, True, False, False, True, True, False, False, False, True, False, True, False, True,
      True, True, False, True, False, True, True, False, True, False, True, True, False, False, True, True,
      True, False, False, False, True, True, True, True, True, True, True, True, False, True, True, True,
      False, False, True, True, False, False, False, True, True, True, False, True, False, False, True, True,
      True, True, True, True, True, True, True, True, True, True, True, False, True, False, False, True,
      False, True, False, True, False, True, True, False, False, False, True, True, True, False, True, False,
      True, True, True, True, False, True, False, False, False, True, True, False, True, False, True, True,
      True, True, False, False, True, True, True, True, True, True, True, False, True, True, False, True,
      True, True, True, False, True, False, False, False, True, False, False, False, True, True, True, False,
      True, False, False, True, False, True, False, False, False, True, True, True, True, False, True, True,
      True, False, True, False, True, False, False, True, False, True, False, False, True, True, True, True,
      True, False, False, False, False, True, False, False, False, True, False, False, False, True, False,
      False, False, True, True, True, True, True, True, False, False, True, True, True, False, False, False,
      False, False, False, True, False, True, True, True, True, False, True, False, False]"

definition gx_bits :: "bool list" where
  "gx_bits = [True, False, False, True, True, False, False, False, True, False, True, True, False, True, False,
      False, False, False, True, True, False, True, True, True, False, True, True, True, False, False, False,
      True, False, False, True, True, True, False, False, True, False, True, True, False, True, True, True,
      False, True, True, True, False, False, True, True, True, True, False, False, False, False, True, True,
      True, True, True, True, False, False, True, False, False, True, False, False, True, True, False, True,
      True, False, False, False, False, True, False, True, False, False, False, False, True, False, False,
      True, True, False, False, True, False, True, True, False, True, True, True, False, False, False, True,
      False, True, True, True, True, True, True, True, False, True, False, True, False, True, False, False,
      True, False, True, False, False, True, True, True, False, False, True, False, False, False, True, True,
      True, True, False, False, True, False, True, False, False, False, False, True, True, False, False,
      False, False, True, True, True, False, False, False, False, False, False, False, False, False, False,
      False, True, True, False, False, True, True, True, False, True, False, True, True, False, False, True,
      True, False, False, True, False, False, True, False, True, False, False, False, True, True, False, True,
      True, True, True, True, True, True, True, False, False, True, True, False, True, True, False, True,
      True, False, True, False, True, True, False, False, False, True, False, True, True, False, False, False,
      True, False, False, False, True, True, True, False, True, False, True, True, True, False, True, True,
      False, False, True, True, True, True, False, False, True, False, False, True, False, True, False, False,
      True, False, True, True, False, False, False, False, False, False, True, True, False, False, True,
      False, True, True, True, True, False, False, False, False, True, False, True, False, True, False, False,
      True, True, True, False, False, True, False, True, False, False, True, True, True, True, False, True,
      True, True, True, False, True, True, False, True, True, True, True, False, True, False, True, False,
      True, False, True, False, False, True, True, False, True, True, True, True, False, True, True, False,
      True, True, False, True, True, False, False, False, True, False, False, True, True, True, True, True,
      True, False, False, False, False, False, False, True, False, True, True, True, True, True, False, True,
      False, False, True, False, True, False, True, False, True, False, False, False, False, False, False,
      False, True, False, True, False, True, True, True, True, True, True, False, True, False, True, False,
      True, False, True, False, False, True, False, True, False, False, True, False, True, True, True, False,
      False, False, True, False, True, True, True, True, False, False, True, False, False, True, False, True,
      False, True, False, False, False, False, True, False, True, False, True, True, True, False, True, True,
      True, False, True, False, True, True, False, False, True, True, True, True, False, False, True, False,
      True, True, False, False, False, False, False, False, True, False, True, False, True, True, False,
      False, False, False, False, False, True, True, False, True, True, False, True, False, False, False,
      False, False, True, True, False, True, True, False, True, False, False, True, False, True, False, False,
      False, True, True, False, True, False, True, False, False, False, False, True, True, True, False, True,
      False, False, True, False, True, True, False, False, True, False, True, True, True, False, False, False,
      False, False, False, False, False, False, False, False, True, True, False, False, False, False, False,
      False, True, True, False, False]"

definition gy_bits :: "bool list" where
  "gy_bits = [True, True, False, True, True, False, True, False, True, False, False, False, False, False, True, True,
      False, True, False, True, False, False, False, True, True, True, False, True, True, False, False, False,
      True, True, True, True, False, True, False, True, True, True, True, False, False, True, False, False,
      False, False, False, True, False, False, True, False, False, True, False, True, True, False, False,
      False, False, False, True, True, True, True, False, False, True, False, True, True, True, False, True,
      True, True, True, False, False, False, True, False, False, False, True, True, True, False, True, True,
      False, True, False, False, False, True, False, True, False, True, False, False, False, True, True, True,
      True, False, True, False, False, False, True, True, True, False, True, True, False, True, False, False,
      False, True, True, False, True, True, False, False, True, True, False, False, False, False, False, True,
      True, True, False, True, False, False, False, False, True, False, False, True, False, False, False,
      False, False, True, True, True, True, False, True, False, False, True, False, True, True, True, False,
      False, False, True, True, False, False, True, False, True, False, True, True, False, False, True, True,
      False, True, False, False, False, True, False, True, False, True, False, True, False, False, True, True,
      False, True, True, True, False, True, True, False, False, False, False, True, True, False, False, False,
      True, False, True, True, True, True, False, False, False, True, True, True, True, True, False, True,
      False, True, True, False, False, False, True, False, False, True, False, True, False, False, False,
      True, True, False, True, True, True, False, True, False, True, False, False, True, False, True, False,
      False, False, True, False, False, False, False, True, True, False, True, False, True, False, True, True,
      True, False, True, True, True, False, False, False, False, True, False, False, True, True, True, True,
      True, False, False, False, True, False, False, False, False, True, False, False, False, True, False,
      False, False, False, True, False, True, True, False, False, True, False, True, False, False, False,
      True, False, True, True, True, True, False, False, False, False, True, False, False, True, False, False,
      True, True, True, False, False, True, True, False, False, True, False, True, False, False, False, False,
      True, True, True, True, True, False, False, False, False, False, False, False, True, True, False, False,
      True, True, False, False, False, False, True, False, True, False, False, True, True, True, True, False,
      True, True, True, False, True, False, False, True, True, True, False, False, True, False, False, False,
      False, False, False, False, False, False, True, True, False, False, True, False, True, True, True, True,
      False, False, True, False, False, False, False, True, True, False, True, True, False, False, False,
      True, True, False, False, False, True, True, True, True, False, True, False, True, True, True, False,
      False, True, False, True, True, False, True, False, True, True, True, True, False, False, True, True,
      True, False, True, True, False, True, False, True, True, True, True, True, True, True, True, True, True,
      True, True, True, True, True, False, False, True, True, False, False, True, True, True, False, True,
      True, False, True, True, False, True, True, False, True, True, False, False, True, True, True, False,
      False, False, True, True, False, False, True, False, True, True, False, True, True, False, True, False,
      False, False, False, True, False, True, True, False, False, True, True, True, False, False, True, False,
      False, True, True, True, True, True, True, False, True, True, True, True, False, True, True, False,
      False]"

definition b_string :: "byte list" where
  "b_string = ascii
    ''2f40e7e2221f295de297117b7f3d62f5c6a97ffcb8ceff1cd6ba8ce4a9a18ad84ffabbd8efa59332be7ad6756a66e294afd185a78ff12aa520e4de739baca0c7ffeff7f2955727a''"

definition gx_string :: "byte list" where
  "gx_string = ascii
    ''303001d34b856296c16c0d40d3cd7750a93d1d2955fa80aa5f40fc8db7b2abdbde53950f4c0d293cdd711a35b67fb1499ae60038614f1394abfa3b4c850d927e1e7769c8eec2d19''"

definition gy_string :: "byte list" where
  "gy_string = ascii
    ''37bf27342da639b6dccfffeb73d69d78c6c27a6009cbbca1980f8533921e8a684423e43bab08a576291af8f461bb2a8b3531d2f0485c19b16e2f1516e23dd3c1a4827af1b8ac15b''"

lemma b_digits: "hex_bits b_string = b_bits" "hex_digits b_string"
  unfolding b_string_def b_bits_def by code_simp+

lemma gx_digits: "hex_bits gx_string = gx_bits" "hex_digits gx_string"
  unfolding gx_string_def gx_bits_def by code_simp+

lemma gy_digits: "hex_bits gy_string = gy_bits" "hex_digits gy_string"
  unfolding gy_string_def gy_bits_def by code_simp+

lemma one_digits: "hex_bits (ascii ''1'') = [True, False, False, False]" "hex_digits (ascii ''1'')"
  by code_simp+

lemma sizes:
  "length b_string = 143" "hexval (hd b_string) = Some 2"
  "length gx_string = 143" "hexval (hd gx_string) = Some 3"
  "length gy_string = 143" "hexval (hd gy_string) = Some 3"
  unfolding b_string_def gx_string_def gy_string_def by code_simp+

text \<open>143 digits of which the first is below 8 denote a reduced operand.\<close>

lemma hex_143:
  assumes "hex_digits s" "length s = 143" "hexval (hd s) = Some v" "unat v < 8"
  obtains q where "gf571_init_from_string s = Some q" "gf571_ok q" "num q = hexnum s" "v \<noteq> 0 \<Longrightarrow> num q \<noteq> 0"
proof -
  obtain c r where s: "s = c # r" using assms(2) by (cases s) auto
  have p: "(16 :: nat) ^ 142 = 2 ^ 568" using power_mult [of "2 :: nat" 4 142] by simp
  have r: "hexnum r < 2 ^ 568"
    using hexnum_less [of r] assms(1,2) by (simp add: s hex_digits_def p del: power_numeral)
  have n: "hexnum s = unat v * 2 ^ 568 + hexnum r"
    using hexnum_append [of "[c]" r] hexnum_simps(2) [of "[]" c] assms(2,3)
    by (simp add: s p del: power_numeral)
  also have "\<dots> < Suc (unat v) * 2 ^ 568" using r by (simp del: power_numeral)
  also have "\<dots> \<le> 8 * 2 ^ 568" using assms(4) by (intro mult_le_mono1) simp
  also have "8 * 2 ^ 568 = (2 ^ 571 :: nat)" by (simp flip: power_add [of _ 3, simplified])
  finally have "take_bit 571 (hexnum s) = hexnum s" by (simp only: take_bit_nat_eq_self_iff)
  moreover have "v \<noteq> 0 \<Longrightarrow> hexnum s \<noteq> 0" unfolding n by (simp add: unat_eq_0)
  ultimately show ?thesis using gf571_init_from_hex [OF assms(1)] that by metis
qed

section \<open>The curve\<close>

lemma gEcc571:
  obtains a b where "gEcc571 = Some \<lparr>curve_a = a, curve_b = b\<rparr>" "gf571_ok a" "gf571_ok b" "num a = 1"
    "num b = hexnum b_string" "num b \<noteq> 0"
proof -
  obtain a where a: "gf571_init_from_string (ascii ''1'') = Some a" "gf571_ok a" "num a = take_bit 571 (hexnum (ascii ''1''))"
    using gf571_init_from_hex [OF one_digits(2)] .
  have "hexnum (ascii ''1'') = 1" by code_simp
  then have "num a = 1" using a(3) by (simp add: take_bit_nat_eq_self_iff)
  moreover obtain b where "gf571_init_from_string b_string = Some b" "gf571_ok b" "num b = hexnum b_string" "num b \<noteq> 0"
    by (rule hex_143 [OF b_digits(2) sizes(1,2)]) simp_all
  ultimately show ?thesis using that [of a b] a(1,2) unfolding gEcc571_def b_string_def by simp
qed

lemma gGen:
  obtains x y where "gGen = Some \<lparr>ax = x, ay = y\<rparr>" "gf571_ok x" "gf571_ok y"
    "num x = hexnum gx_string" "num y = hexnum gy_string"
proof -
  obtain x where x: "gf571_init_from_string gx_string = Some x" "gf571_ok x" "num x = hexnum gx_string"
    by (rule hex_143 [OF gx_digits(2) sizes(3,4)]) simp_all
  obtain y where "gf571_init_from_string gy_string = Some y" "gf571_ok y" "num y = hexnum gy_string"
    by (rule hex_143 [OF gy_digits(2) sizes(5,6)]) simp_all
  then show ?thesis using that [of x y] x
    unfolding gGen_def static_ecc571_affine_pt_def gx_string_def gy_string_def by simp
qed

section \<open>The generator\<close>

lemma pol_False: "list_all Not a \<Longrightarrow> pol a = 0"
  by (induction a) simp_all

lemma gen_eval:
  "list_all Not
    (sq_red2 (replicate 571 True) (sq_red2 (replicate 571 True)
      (sxor (sq (replicate 286 True) (replicate 571 True) gy_bits) (sxor b_bits
        (pmul gx_bits (sxor gy_bits (sxor (sq (replicate 286 True) (replicate 571 True) gx_bits) gx_bits)))))))"
  by (simp only: eval_nat_numeral replicate.simps sxor.simps front.simps rest.simps merge.simps sq_half_def
      sq_red_def sq_red2_def sq_def pmul.simps b_bits_def gx_bits_def gy_bits_def list.pred_inject
      simp_thms not_True_eq_False not_False_eq_True BitM.simps)

lemma gen_pcong:
  "pcong f571 (pol gy_bits ^ 2 + (pol b_bits + pol gx_bits * (pol gy_bits + (pol gx_bits ^ 2 + pol gx_bits)))) 0"
proof -
  let ?h = "replicate 286 True" and ?m = "replicate 571 True"
  have sq: "pcong f571 (pol a ^ 2) (pol (sq ?h ?m a))" for a
  proof -
    have "pcong f571 (pol a ^ 2 ^ length [True]) (pol (sq_iter ?h ?m [True] a))"
      by (rule sq_iter_pol) (simp_all only: length_replicate)
    moreover have "length [True] = 1" by simp
    ultimately show ?thesis by (simp only: sq_iter.simps power_one_right)
  qed
  let ?e = "sxor (sq ?h ?m gy_bits) (sxor b_bits (pmul gx_bits (sxor gy_bits (sxor (sq ?h ?m gx_bits) gx_bits))))"
  have "pcong f571 (pol ?e) (pol (sq_red2 ?m (sq_red2 ?m ?e)))"
    by (rule pcong_trans [OF sq_red2_pol sq_red2_pol]) (rule length_replicate)+
  then have "pcong f571 (pol ?e) 0" unfolding pol_False [OF gen_eval] .
  moreover have "pcong f571 (pol gy_bits ^ 2 + (pol b_bits + pol gx_bits * (pol gy_bits + (pol gx_bits ^ 2 + pol gx_bits)))) (pol ?e)"
    unfolding pol_sxor pol_pmul by (intro pcong_add pcong_mult pcong_refl sq)
  ultimately show ?thesis using pcong_trans by blast
qed

lemma generator_ecc_curve:
  "\<exists>E g. gEcc571 = Some E \<and> gGen = Some g \<and> curve_ok E \<and> pt_ok g \<and> on E (pt g)
    \<and> pt g = Point (el (ax g)) (el (ay g))"
proof -
  obtain a b where E: "gEcc571 = Some \<lparr>curve_a = a, curve_b = b\<rparr>" "gf571_ok a" "gf571_ok b" "num a = 1"
    "num b = hexnum b_string" "num b \<noteq> 0" by (rule gEcc571)
  obtain x y where g: "gGen = Some \<lparr>ax = x, ay = y\<rparr>" "gf571_ok x" "gf571_ok y"
    "num x = hexnum gx_string" "num y = hexnum gy_string" by (rule gGen)
  let ?x = "num x" and ?y = "num y" and ?b = "num b"
  have p: "poly_of ?x = pol gx_bits" "poly_of ?y = pol gy_bits" "poly_of ?b = pol b_bits"
    using poly_of_hexnum [OF gx_digits(2)] poly_of_hexnum [OF gy_digits(2)] poly_of_hexnum [OF b_digits(2)]
    by (simp_all add: E g gx_digits gy_digits b_digits)
  let ?n = "clmul ?y ?y XOR (?b XOR clmul ?x (?y XOR (clmul ?x ?x XOR ?x)))"
  have "poly_of ?n = pol gy_bits ^ 2 + (pol b_bits + pol gx_bits * (pol gy_bits + (pol gx_bits ^ 2 + pol gx_bits)))"
    by (simp add: poly_of_xor poly_of_clmul p power2_eq_square)
  then have "pcong f571 (poly_of ?n) (poly_of 0)" using gen_pcong by simp
  then have "elem ?n = 0" by (metis elem_eq_iff elem_0)
  then have e: "el y * el y + (el b + el x * (el y + (el x * el x + el x))) = 0"
    by (simp add: el_def elem_xor elem_clmul)
  have "el a = 1" using E(4) by (simp add: el_def)
  have on: "ecc_curve (el a) (el b) (Point (el x) (el y))"
  proof -
    have "(el y ^ 2 + el x * el y) + (el x ^ 3 + el a * el x ^ 2 + el b) = 0"
      using e \<open>el a = 1\<close> by (simp add: power2_eq_square power3_eq_cube algebra_simps)
    then show ?thesis by (simp add: gf571_add_eq_0_iff)
  qed
  have "el b \<noteq> 0" using E(3,6) elem_inject [of "num b" 0] by (simp add: el_def gf571_ok_def del: power_numeral)
  then have "curve_ok \<lparr>curve_a = a, curve_b = b\<rparr>" using E by (simp add: curve_ok_def)
  moreover have "pt \<lparr>ax = x, ay = y\<rparr> = Point (el x) (el y)"
    using pt_Point [OF calculation] on by (simp add: on_def)
  ultimately show ?thesis using E(1) g on
    by (intro exI [of _ "\<lparr>curve_a = a, curve_b = b\<rparr>"] exI [of _ "\<lparr>ax = x, ay = y\<rparr>"])
      (simp add: pt_ok_def on_def del: power_numeral)
qed

end
