(* ===== verification/Gf128_Field.thy ===== *)
theory Gf128_Field
  imports Gf571 Gf_Product
begin

unbundle bit_operations_syntax

text \<open>
  The operations of \<open>gf128_opnd\<close> on polynomials over the field of two elements, and where its
  inversion goes wrong.
\<close>

definition n128 :: nat where
  "n128 = 2 ^ 128 XOR 0x87"

definition f128 :: bpoly where
  "f128 = poly_of n128"

definition gf128_ok :: "opnd \<Rightarrow> bool" where
  "gf128_ok p \<longleftrightarrow> length p = 2"

lemma gf128_ok_cases:
  assumes "gf128_ok p"
  obtains a b where "p = [a, b]"
  using assms unfolding gf128_ok_def by (auto simp: numeral_2_eq_2 length_Suc_conv)

lemma gf128_ok_add: "gf128_ok (gf128_add p q)"
  by (simp add: gf128_ok_def gf128_add_def)

lemma num_gf128_add: "gf128_ok p \<Longrightarrow> gf128_ok q \<Longrightarrow> num (gf128_add p q) = num p XOR num q"
proof -
  assume "gf128_ok p" "gf128_ok q"
  then obtain a b c d where "p = [a, b]" "q = [c, d]" by (metis gf128_ok_cases)
  then have "gf128_add p q = map2 (XOR) p q" "length p = length q" by (simp_all add: gf128_add_def)
  then show ?thesis by (simp add: num_xor)
qed

lemma top_bit: "b AND 0x80 \<noteq> 0 \<longleftrightarrow> bit b 7" for b :: byte
proof -
  have "list_all (\<lambda>b. (b AND 0x80 \<noteq> 0) = bit b 7) all_bytes" by code_simp
  from byte_exhaust [OF this] show "b AND 0x80 \<noteq> 0 \<longleftrightarrow> bit b 7" by blast
qed

lemma high_byte: "drop_bit 7 (ucast (opnd_byte p 7)) = drop_bit 63 (p ! 0)"
  by (rule bit_word_eqI) (auto simp: opnd_byte_def bit_simps dest: bit_imp_le_length)

lemma gf128_step_num:
  assumes "gf128_ok p"
  shows "num (gf128_step p) = (if bit (num p) 127 then 2 * num p XOR n128 else 2 * num p)" "gf128_ok (gf128_step p)"
proof -
  define s where "s = map (shifted p 0 1) [0..<2]"
  have [simp]: "length s = 2" "length p = 2" using assms by (simp_all add: s_def gf128_ok_def)
  have m: "map f [0..<2] = [f 0, f (1 :: nat)]" for f :: "nat \<Rightarrow> u64" by (simp add: upt_rec eval_nat_numeral)
  have step: "gf128_step p = (if opnd_byte p 15 AND 0x80 \<noteq> 0 then opnd_update s 0 (opnd_byte s 0 XOR 0x87) else s)"
    unfolding gf128_step_def s_def m Let_def high_byte by (simp add: shifted_def)
  show "gf128_ok (gf128_step p)" unfolding step gf128_ok_def by simp
  have "num s = take_bit (64 * 2) (push_bit (64 * 0 + 1) (num p))"
    unfolding s_def by (rule num_shifted) simp_all
  then have s: "num s = take_bit 128 (2 * num p)" by (simp add: push_bit_eq_mult mult.commute)
  have hi: "opnd_byte p 15 AND 0x80 \<noteq> 0 \<longleftrightarrow> bit (num p) 127"
    using bit_opnd_byte [of 15 p 7] by (simp add: top_bit)
  have "blen (2 * num p) \<le> Suc 128" unfolding blen_le_iff using num_less [of p] by simp
  then have mm: "num s = (if bit (num p) 127 then 2 * num p XOR 2 ^ 128 else 2 * num p)"
    unfolding s using take_bit_top [of "2 * num p" 128] by (simp add: bit_double_iff del: power_numeral)
  have x: "num (opnd_update s 0 (opnd_byte s 0 XOR 0x87)) = num s XOR 0x87"
    using num_update_xor [of 0 s "0x87"] by simp
  show "num (gf128_step p) = (if bit (num p) 127 then 2 * num p XOR n128 else 2 * num p)"
    by (cases "bit (num p) 127") (simp_all only: step hi if_True if_False x mm xor.assoc n128_def)
qed

lemma gf128_step_poly: "gf128_ok p \<Longrightarrow> pcong f128 (poly_of (num (gf128_step p))) (X * poly_of (num p))"
  by (simp add: pcong_def gf128_step_num f128_def poly_of_xor poly_of_double)

interpretation g128: gf_product 2 f128 gf128_ok gf128_step gf128_add
  by unfold_locales (rule gf128_step_num(2) gf128_step_poly gf128_ok_add num_gf128_add; assumption)+

lemma gf128_mul_poly:
  assumes "gf128_ok p" "gf128_ok q"
  shows "gf128_ok (gf128_mul p q) \<and> pcong f128 (poly_of (num (gf128_mul p q))) (poly_of (num p) * poly_of (num q))"
proof (cases "num q = 0")
  case True
  then show ?thesis using first_bit_None [of q 2] assms
    by (simp add: gf128_mul_def gf128_first_bit_def gf128_ok_def gf128_zero_def)
next
  case False
  have q: "length q = 2" using assms(2) by (simp add: gf128_ok_def)
  obtain ix msk where f: "first_bit 2 q = Some (ix, msk)"
    using first_bit_Some [OF q False] by metis
  show ?thesis using g128.product [OF assms(1) q False f] by (simp add: gf128_mul_def gf128_first_bit_def f)
qed

section \<open>The inversion\<close>

lemma gf128_is_one: "gf128_ok p \<Longrightarrow> gf128_is_one p \<longleftrightarrow> num p = 1"
proof -
  assume p: "gf128_ok p"
  have "gf128_is_one p \<longleftrightarrow> p = gf128_one"
    by (rule gf128_ok_cases [OF p]) (auto simp: gf128_is_one_def gf128_one_def)
  also have "\<dots> \<longleftrightarrow> num p = num gf128_one" using p num_eqI [of p gf128_one] by (auto simp: gf128_ok_def gf128_one_def)
  also have "num gf128_one = 1" by (simp add: gf128_one_def)
  finally show ?thesis .
qed

lemma gf128_inv_small:
  assumes "gf128_ok p" "num p < 2 ^ 25" "num p \<noteq> 1"
  shows "gf128_inv p = None"
proof -
  have "gf128_integer_length p \<le> 1"
    using assms(1,2) integer_length [of p 2] blen_le_iff [of "num p" 25]
    by (auto simp: gf128_integer_length_def gf128_ok_def)
  then have "128 \<le> nat (129 - gf128_integer_length p)" by simp
  then have "nat (129 - gf128_integer_length p) div 64 \<ge> 2" by simp
  then have "gf128_shiftl p (nat (129 - gf128_integer_length p)) = None" by (auto simp: gf128_shiftl_def Let_def)
  then show ?thesis using assms(1,3) gf128_is_one [of p] by (simp add: gf128_inv_def Let_def)
qed

section \<open>An inverse that is none\<close>

lemma clmul_numeral:
  "clmul a (numeral (Num.Bit0 n)) = 2 * clmul a (numeral n)"
  "clmul a (numeral (Num.Bit1 n)) = a XOR 2 * clmul a (numeral n)"
  "clmul a (numeral Num.One) = a"
  using clmul_double [of a "numeral n"] clmul_odd [of a "numeral n"]
  by (simp_all add: numeral_Bit0 numeral_Bit1 mult_2)

lemma blen_numeral:
  "blen (numeral (Num.Bit0 n)) = Suc (blen (numeral n))" "blen (numeral (Num.Bit1 n)) = Suc (blen (numeral n))"
  "blen (numeral Num.One) = 1"
  by (subst blen.simps, simp)+

lemma gf128_integer_length:
  "length p = 2 \<Longrightarrow> gf128_integer_length p = (if num p = 0 then 0 else int (blen (num p)) - 24)"
  unfolding gf128_integer_length_def by (rule integer_length)

lemma gf128_inv_eval: "gf128_inv [33554450, 0] = Some [1, 9223372036854775808]"
  by (simp add: gf128_inv_def gf128_is_one_def gf128_one_def gf128_integer_length blen_numeral gf128_shiftl_def Let_def
      opnd_update_def opnd_byte_def while_option_unfold gf128_inv_body_def gf128_add_def)

lemma gf128_mul_eval: "gf128_mul [1, 9223372036854775808] [33554450, 0] = [2231370925, 0]"
proof -
  let ?r = "[1, 9223372036854775808] :: opnd" and ?v = "[33554450, 0] :: opnd"
  have ok: "gf128_ok ?r" "gf128_ok ?v" by (simp_all add: gf128_ok_def)
  have n: "num ?r = 170141183460469231731687303715884105729" "num ?v = 33554450" by simp_all
  have "clmul 170141183460469231731687303715884105729 33554450 XOR 2231370925 = clmul n128 16777225"
    unfolding n128_def by (simp add: clmul_numeral)
  then have "pcong f128 (poly_of (clmul (num ?r) (num ?v))) (poly_of 2231370925)"
    unfolding n pcong_def f128_def bpoly_diff by (metis poly_of_xor poly_of_clmul dvd_triv_left)
  then have "pcong f128 (poly_of (num (gf128_mul ?r ?v))) (poly_of 2231370925)"
    using gf128_mul_poly [OF ok] pcong_trans unfolding poly_of_clmul by blast
  moreover have "blen (num (gf128_mul ?r ?v)) < blen n128" "blen 2231370925 < blen n128"
  proof -
    have "blen n128 = 129" by (rule blen_eqI [of 128, simplified]) (simp_all add: n128_def)
    moreover have "num (gf128_mul ?r ?v) < 2 ^ 128" using num_less [of "gf128_mul ?r ?v"] gf128_mul_poly [OF ok] by (simp add: gf128_ok_def)
    then have "blen (num (gf128_mul ?r ?v)) \<le> 128" by (simp only: blen_le_iff)
    moreover have "blen 2231370925 \<le> 128" unfolding blen_le_iff by simp
    ultimately show "blen (num (gf128_mul ?r ?v)) < blen n128" "blen 2231370925 < blen n128" by simp_all
  qed
  ultimately have "num (gf128_mul ?r ?v) = num [2231370925, 0]" unfolding f128_def by (simp add: pcong_unique)
  then show ?thesis using gf128_mul_poly [OF ok] num_eqI by (simp add: gf128_ok_def)
qed

end
