(* ===== verification/Ecc571_Props.thy ===== *)
theory Ecc571_Props
  imports Ecc571_Const Gf128_Field
begin

unbundle bit_operations_syntax

text \<open>
  What holds of \<open>ECC/eccl_le.cpp\<close>: its two fields, the inversion in each, and the points of the
  curve in both coordinate systems.
\<close>

section \<open>Operands for the witnesses\<close>

definition opnd_5 :: opnd where
  "opnd_5 = [5, 0, 0, 0, 0, 0, 0, 0, 0]"

lemma opnd_5: "gf571_ok opnd_5" "length opnd_5 = 9" "num opnd_5 = 5"
  by (simp_all add: opnd_5_def gf571_ok_def)

text \<open>The curve with both coefficients one and its point \<open>(0, 1)\<close>.\<close>

definition small_curve :: ecc571_curve where
  "small_curve = \<lparr>curve_a = gf571_one, curve_b = gf571_one\<rparr>"

definition small_pt :: ecc571_affine_pt where
  "small_pt = \<lparr>ax = gf571_zero, ay = gf571_one\<rparr>"

lemma small: "curve_ok small_curve" "pt_ok small_pt" "on small_curve (pt small_pt)"
  by (simp_all add: small_curve_def small_pt_def curve_ok_def pt_ok_def on_def pt_def)

section \<open>The fields\<close>

text \<open>C33. The field of 2^571 elements. On reduced operands the functions return reduced operands; their
  values are sums, products and successors in the field, the product is the product of the
  polynomials modulo \<open>x^571 + x^10 + x^5 + x^2 + 1\<close>, and the comparisons decide equality.\<close>

theorem gf571_arithmetic:
  assumes "gf571_ok p" "gf571_ok q"
  shows "gf571_ok (gf571_add p q) \<and> el (gf571_add p q) = el p + el q
    \<and> gf571_ok (gf571_mul p q) \<and> el (gf571_mul p q) = el p * el q
    \<and> pcong (poly_of (2 ^ 571 XOR 0x425)) (poly_of (num (gf571_mul p q))) (poly_of (clmul (num p) (num q)))
    \<and> gf571_ok (gf571_oneplus p) \<and> el (gf571_oneplus p) = el p + 1
    \<and> (gf571_eq p q \<longleftrightarrow> el p = el q) \<and> (gf571_is_zero p \<longleftrightarrow> el p = 0)"
  using assms conjunct2 [OF gf571_mul_poly [OF assms(1), of q]]
  unfolding n571_def [symmetric] f571_def [symmetric] poly_of_clmul
  by (simp add: gf_ok gf571_ok_add el_eq el_is_zero gf571_ok_def [THEN iffD1, THEN conjunct1])

theorem gf571_arithmetic_witness:
  "el (gf571_mul opnd_5 opnd_5) = el opnd_5 * el opnd_5"
  using gf571_arithmetic [OF opnd_5(1) opnd_5(1)] by (elim conjE)

text \<open>C34. \<open>gf571_inv\<close> of a reduced operand: the loop ends exactly if the operand is not zero, and then the
  result is reduced and the product with the operand is one.\<close>

theorem gf571_inverse:
  assumes "gf571_ok p"
  shows "(case gf571_inv p of None \<Rightarrow> num p = 0
    | Some r \<Rightarrow> num p \<noteq> 0 \<and> gf571_ok r \<and> gf571_mul r p = gf571_one \<and> el r = inverse (el p))
    \<and> (gf571_inv p = None \<longleftrightarrow> num p = 0)"
proof (cases "el p = 0")
  case True
  then have "num p = 0" using assms el_is_zero [OF assms] gf571_is_zero [of p] by (simp add: gf571_ok_def)
  then show ?thesis using gf571_inv_el(1) [OF assms True] by simp
next
  case False
  then obtain r where r: "gf571_inv p = Some r" "gf571_ok r" "el r = inverse (el p)"
    using gf571_inv_el(2) [OF assms] by blast
  have "num p \<noteq> 0" using False unfolding el_def by (metis elem_0)
  moreover have "el (gf571_mul r p) = el gf571_one" using assms r False by simp
  then have "gf571_mul r p = gf571_one" using assms r by (simp add: el_inject gf571_ok_mul del: el_one el_mul)
  ultimately show ?thesis using r by simp
qed

theorem gf571_inverse_witness:
  "gf571_inv gf571_zero = None \<and> gf571_inv opnd_5 \<noteq> None"
  using gf571_inverse [OF gf571_ok_zero] gf571_inverse [OF opnd_5(1)]
  by (simp add: num_gf571_constants opnd_5)

text \<open>C35. The field of 2^128 elements: \<open>gf128_mul\<close> is the product modulo \<open>x^128 + x^7 + x^2 + x + 1\<close>. But
  \<open>gf128_inv\<close> has no result for an operand of at most 25 bits other than one, where \<open>gf128_shiftl\<close>
  writes behind its operand because \<open>integer_length\<close> is 24 too small; and where it returns, the
  product with the operand need not be one.\<close>

theorem gf128_product:
  assumes "length p = 2" "length q = 2"
  shows "length (gf128_mul p q) = 2
    \<and> pcong (poly_of (2 ^ 128 XOR 0x87)) (poly_of (num (gf128_mul p q))) (poly_of (clmul (num p) (num q)))
    \<and> (num p < 2 ^ 25 \<and> num p \<noteq> 1 \<longrightarrow> gf128_inv p = None)
    \<and> gf128_inv [33554450, 0] = Some [1, 9223372036854775808]
    \<and> gf128_mul [1, 9223372036854775808] [33554450, 0] = [2231370925, 0]"
  using assms gf128_mul_poly [of p q] gf128_inv_small [of p] gf128_inv_eval gf128_mul_eval
  unfolding n128_def [symmetric] f128_def [symmetric] poly_of_clmul gf128_ok_def by blast

theorem gf128_product_witness: "gf128_inv [2, 0] = None"
  using gf128_product [of "[2, 0]" "[0, 0]"] by simp

section \<open>The curve\<close>

text \<open>C36. On points of a curve whose coefficient \<open>b\<close> is not zero, the affine functions return, their
  results are points of the curve, and they are the sum, the difference and the double of the chord
  and tangent law.\<close>

theorem ecc571_add_law:
  assumes E: "curve_ok E" and p: "pt_ok p" "on E (pt p)" and q: "pt_ok q" "on E (pt q)"
  shows "(\<exists>r. ecc571_add E p q = Some r \<and> pt_ok r \<and> on E (pt r) \<and> pt r = c_add (el (curve_a E)) (pt p) (pt q))
    \<and> (\<exists>r. ecc571_sub E p q = Some r \<and> pt_ok r \<and> on E (pt r) \<and> pt r = c_add (el (curve_a E)) (pt p) (c_neg (pt q)))
    \<and> (\<exists>r. ecc571_double E p = Some r \<and> pt_ok r \<and> on E (pt r) \<and> pt r = c_double (el (curve_a E)) (pt p))"
proof (intro conjI)
  note on = c_add_ecc_curve c_double_ecc_curve c_neg_ecc_curve
  show "\<exists>r. ecc571_add E p q = Some r \<and> pt_ok r \<and> on E (pt r) \<and> pt r = c_add (ea E) (pt p) (pt q)"
    using ecc571_add_pt [OF assms] on(1) p(2) q(2) unfolding on_def by metis
  have n: "pt_ok (ecc571_neg q)" "pt (ecc571_neg q) = c_neg (pt q)" using ecc571_neg_pt [OF q(1)] by simp_all
  then have "on E (pt (ecc571_neg q))" using q(2) on(3) unfolding on_def by metis
  then show "\<exists>r. ecc571_sub E p q = Some r \<and> pt_ok r \<and> on E (pt r) \<and> pt r = c_add (ea E) (pt p) (c_neg (pt q))"
    using ecc571_add_pt [OF E p n(1)] on(1) p(2) n(2) unfolding on_def ecc571_sub_def by metis
  show "\<exists>r. ecc571_double E p = Some r \<and> pt_ok r \<and> on E (pt r) \<and> pt r = c_double (ea E) (pt p)"
    using ecc571_double_pt [OF E p] on(2) p(2) unfolding on_def by metis
qed

theorem ecc571_add_law_witness:
  "\<exists>r. ecc571_add small_curve small_pt small_pt = Some r \<and> pt r = Infinity"
proof -
  have "c_add (el (curve_a small_curve)) (pt small_pt) (pt small_pt) = Infinity" by (simp add: small_pt_def pt_def)
  then show ?thesis using ecc571_add_law [OF small small(2,3)] by metis
qed

section \<open>Multiples\<close>

lemma proj_infinity_operand:
  assumes E: "curve_ok E" and n: "length n = 9" and r: "gf571_ok rnd"
  defines "P \<equiv> static_ecc571_projective_pt infinite rnd"
  shows "proj_ok (proj_mul E P n)" "proj_mul E P n = P \<or> proj (proj_mul E P n) = Infinity"
proof -
  have P: "proj_ok P" "el (jx P) = 0"
    using r by (simp_all add: P_def static_ecc571_projective_pt_def infinite_def Let_def proj_ok_def gf_ok)
  let ?R = "\<lambda>a t. proj_ok a \<and> (a = P \<or> proj a = Infinity)"
  have "?R (proj_mul E P n) (0 :: nat)"
  proof (cases "num n = 0 \<or> el (jz P) = 0")
    case True
    then have "proj_mul E P n = proj_infinite" using P n by (auto simp: proj_mul_def gf571_is_zero proj_infinite_p)
    then show ?thesis by simp
  next
    case False
    obtain ix msk where f: "first_bit 9 n = Some (ix, msk)" using first_bit_Some [OF n] False by metis
    have "?R (byte_loop (proj_mul_body E P) n ix msk P) (num n)"
    proof (rule first_bit_loop [OF n _ _ _ f])
      show "num n \<noteq> 0" "?R P 1" using False P by simp_all
    next
      fix a t b
      assume a: "?R a t"
      have d: "proj_ok (proj_double E a)" "proj (proj_double E a) = Infinity"
      proof -
        show "proj_ok (proj_double E a)" using proj_double(1) [OF E] a by blast
        have "c_double (ea E) (proj a) = Infinity" using a P by (auto simp: proj_def)
        then show "proj (proj_double E a) = Infinity" using proj_double(2) [OF E] a by simp
      qed
      then have "proj_add E (proj_double E a) P = P"
        by (simp add: proj_add_def proj_infinite_p proj_eq_Infinity)
      then show "?R (proj_mul_body E P a b) (2 * t + of_bool b)"
        using d P by (simp add: proj_mul_body_def Let_def)
    qed
    then show ?thesis using False P n
      by (simp add: proj_mul_def gf571_is_zero proj_infinite_p gf571_first_bit_def f)
  qed
  then show "proj_ok (proj_mul E P n)" "proj_mul E P n = P \<or> proj (proj_mul E P n) = Infinity" by simp_all
qed

lemma c_mul_Infinity [simp]: "c_mul a n Infinity = Infinity"
proof (induction n rule: less_induct)
  case (less n)
  then show ?case by (subst c_mul.simps) (auto simp: Let_def)
qed

lemma ecc571_mul_pt:
  assumes E: "curve_ok E" and p: "pt_ok p" "on E (pt p)" and n: "length n = 9" and r: "gf571_ok rnd" "el rnd \<noteq> 0"
  obtains q where "ecc571_mul E p n rnd = Some q" "pt_ok q" "pt q = c_mul (ea E) (num n) (pt p)"
proof (cases "pt p")
  case Infinity
  then have "p = infinite" using pt_inject [OF p(1) pt_infinite(2)] by simp
  let ?P = "static_ecc571_projective_pt infinite rnd"
  have S: "proj_ok ?P" "proj ?P = Point 0 0"
    using static_projective [OF pt_infinite(2) r] by (simp_all add: infinite_def)
  note M = proj_infinity_operand [OF E n r(1)]
  obtain q where q: "convert_to_affine (proj_mul E ?P n) = Some q" "pt_ok q"
    "\<And>x y. proj (proj_mul E ?P n) = Point x y \<Longrightarrow> el (ax q) = x \<and> el (ay q) = y" "proj (proj_mul E ?P n) = Infinity \<Longrightarrow> q = infinite"
    using convert_to_affine [OF M(1)] by metis
  have "pt q = Infinity"
    using M(2)
  proof
    assume "proj_mul E ?P n = ?P"
    then show ?thesis using q(3) S(2) by (simp add: pt_def)
  qed (use q(4) in simp)
  then show ?thesis using that q(1,2) Infinity \<open>p = infinite\<close> by (simp add: ecc571_mul_def)
next
  case (Point x y)
  let ?P = "static_ecc571_projective_pt p rnd"
  have S: "proj_ok ?P" "proj ?P = pt p"
    using static_projective [OF p(1) r] Point by (auto simp: pt_def split: if_splits)
  have M: "proj_ok (proj_mul E ?P n)" "proj (proj_mul E ?P n) = c_mul (ea E) (num n) (pt p)"
    using proj_mul [OF E S(1) _ n] p(2) Point unfolding S(2) by simp_all
  have on: "on E (c_mul (ea E) (num n) (pt p))" using c_mul_ecc_curve p(2) unfolding on_def by blast
  obtain q where q: "convert_to_affine (proj_mul E ?P n) = Some q" "pt_ok q"
    "\<And>x y. proj (proj_mul E ?P n) = Point x y \<Longrightarrow> el (ax q) = x \<and> el (ay q) = y" "proj (proj_mul E ?P n) = Infinity \<Longrightarrow> q = infinite"
    using convert_to_affine [OF M(1)] by metis
  have "pt q = c_mul (ea E) (num n) (pt p)"
  proof (cases "c_mul (ea E) (num n) (pt p)")
    case Infinity
    then show ?thesis using q(4) M(2) by simp
  next
    case (Point u v)
    then have "el (ax q) = u" "el (ay q) = v" using q(3) M(2) by simp_all
    then show ?thesis using pt_Point [OF E, of "ax q" "ay q"] on Point by (cases q) simp
  qed
  then show ?thesis using that q by (simp add: ecc571_mul_def)
qed

text \<open>C37. \<open>ecc571_mul\<close>: for a point of the curve, any nine words as the factor and any reduced noise, the
  function returns. With a noise that is not zero the result is the multiple of the point, whatever
  the noise is; with zero it is the point at infinity.\<close>

theorem ecc571_mul_multiple:
  assumes "curve_ok E" "pt_ok p" "on E (pt p)" "length n = 9" "gf571_ok rnd"
  shows "\<exists>q. ecc571_mul E p n rnd = Some q \<and> pt_ok q \<and> on E (pt q)
    \<and> pt q = (if num rnd = 0 then Infinity else c_mul (el (curve_a E)) (num n) (pt p))"
proof (cases "el rnd = 0")
  case True
  have rnd: "num rnd = 0" using True assms(5) el_is_zero [of rnd] gf571_is_zero [of rnd] by (simp add: gf571_ok_def)
  have "proj_infinite_p (static_ecc571_projective_pt p rnd)"
    using True assms(5) by (simp add: static_ecc571_projective_pt_def Let_def proj_infinite_p_def el_is_zero)
  then have "ecc571_mul E p n rnd = Some infinite"
    by (simp add: ecc571_mul_def proj_mul_def convert_to_affine_def proj_infinite_p flip: proj_eq_Infinity)
  then show ?thesis using rnd by (simp add: on_def)
next
  case False
  then have "num rnd \<noteq> 0" unfolding el_def by (metis elem_0)
  moreover obtain q where "ecc571_mul E p n rnd = Some q" "pt_ok q" "pt q = c_mul (ea E) (num n) (pt p)"
    using ecc571_mul_pt [OF assms False] .
  moreover have "on E (c_mul (ea E) (num n) (pt p))" using c_mul_ecc_curve assms(3) unfolding on_def by blast
  ultimately show ?thesis by simp
qed

theorem ecc571_mul_multiple_witness:
  "\<exists>q. ecc571_mul small_curve small_pt opnd_5 gf571_one = Some q \<and> on small_curve (pt q)"
  using ecc571_mul_multiple [OF small opnd_5(2) gf571_ok_one] by blast

text \<open>C38. The constants: the strings of the curve and of its generator are read, the generator is a point of
  the curve, and \<open>ecc571_mulGen\<close> returns its multiples.\<close>

theorem ecc571_generator:
  assumes "length n = 9"
  shows "\<exists>E g q. gEcc571 = Some E \<and> gGen = Some g \<and> curve_ok E \<and> pt_ok g \<and> on E (Point (el (ax g)) (el (ay g)))
    \<and> ecc571_mulGen E n = Some q \<and> pt_ok q \<and> on E (pt q)
    \<and> pt q = c_mul (el (curve_a E)) (num n) (Point (el (ax g)) (el (ay g)))"
proof -
  obtain E g where g: "gEcc571 = Some E" "gGen = Some g" "curve_ok E" "pt_ok g" "on E (pt g)"
    "pt g = Point (el (ax g)) (el (ay g))" using generator_ecc_curve by blast
  obtain q where "ecc571_mul E g n gf571_one = Some q" "pt_ok q" "pt q = c_mul (ea E) (num n) (pt g)"
    by (rule ecc571_mul_pt [OF g(3-5) assms gf571_ok_one]) simp_all
  moreover from this have "on E (pt q)" using c_mul_ecc_curve g(5) unfolding on_def by metis
  moreover have "ecc571_mulGen E n = ecc571_mul E g n gf571_one" by (simp add: ecc571_mulGen_def g(2))
  ultimately show ?thesis using g by metis
qed

theorem ecc571_generator_witness:
  "\<exists>E g q. gEcc571 = Some E \<and> gGen = Some g \<and> ecc571_mulGen E opnd_5 = Some q
    \<and> pt q = c_mul (el (curve_a E)) 5 (Point (el (ax g)) (el (ay g)))"
  using ecc571_generator [OF opnd_5(2)] opnd_5(3) by fastforce

end
