(* ===== verification/Siphash.thy ===== *)
theory Siphash
  imports Prelude
begin

unbundle bit_operations_syntax

text \<open>
  Model and properties of \<open>ECC/siphash.cpp\<close>: SipHash over a sequence of 64-bit words, in one call
  or word by word on the static state, against the definition of its authors.
\<close>

section \<open>Model\<close>

text \<open>The struct \<open>_T_siphash\<close>.\<close>

record siphash =
  sip_k0 :: u64
  sip_k1 :: u64
  sip_v0 :: u64
  sip_v1 :: u64
  sip_v2 :: u64
  sip_v3 :: u64
  sip_c :: u32
  sip_d :: u32

definition sip_rotl :: "u64 \<Rightarrow> nat \<Rightarrow> u64" where
  "sip_rotl x n = drop_bit (64 - n) x OR push_bit n x"

definition sipRound :: "siphash \<Rightarrow> siphash" where
  "sipRound s =
    (let s = s\<lparr>sip_v0 := sip_v0 s + sip_v1 s\<rparr>;
         s = s\<lparr>sip_v2 := sip_v2 s + sip_v3 s\<rparr>;
         s = s\<lparr>sip_v1 := sip_rotl (sip_v1 s) 13\<rparr>;
         s = s\<lparr>sip_v3 := sip_rotl (sip_v3 s) 16\<rparr>;
         s = s\<lparr>sip_v1 := sip_v1 s XOR sip_v0 s\<rparr>;
         s = s\<lparr>sip_v3 := sip_v3 s XOR sip_v2 s\<rparr>;
         s = s\<lparr>sip_v0 := sip_rotl (sip_v0 s) 32\<rparr>;
         s = s\<lparr>sip_v2 := sip_v2 s + sip_v1 s\<rparr>;
         s = s\<lparr>sip_v0 := sip_v0 s + sip_v3 s\<rparr>;
         s = s\<lparr>sip_v1 := sip_rotl (sip_v1 s) 17\<rparr>;
         s = s\<lparr>sip_v3 := sip_rotl (sip_v3 s) 21\<rparr>;
         s = s\<lparr>sip_v1 := sip_v1 s XOR sip_v2 s\<rparr>;
         s = s\<lparr>sip_v3 := sip_v3 s XOR sip_v0 s\<rparr>;
         s = s\<lparr>sip_v2 := sip_rotl (sip_v2 s) 32\<rparr>
     in s)"

text \<open>The loops \<open>for(int ix = c; --ix >= 0;) sipRound()\<close>: the count becomes an \<open>int\<close>.\<close>

function sip_rounds :: "int \<Rightarrow> siphash \<Rightarrow> siphash" where
  "sip_rounds ix s = (let ix = ix - 1 in if ix \<ge> 0 then sip_rounds ix (sipRound s) else s)"
  by pat_completeness auto
termination by (relation "measure (\<lambda>(ix, s). nat ix)") auto

declare sip_rounds.simps [simp del]

definition sip_compression :: "u64 \<Rightarrow> siphash \<Rightarrow> siphash" where
  "sip_compression w s =
    (let s = s\<lparr>sip_v3 := sip_v3 s XOR w\<rparr>;
         s = sip_rounds (sint (sip_c s)) s
     in s\<lparr>sip_v0 := sip_v0 s XOR w\<rparr>)"

definition sip_finalization :: "siphash \<Rightarrow> u64 \<times> siphash" where
  "sip_finalization s =
    (let s = s\<lparr>sip_v2 := sip_v2 s XOR 0x00ff\<rparr>;
         s = sip_rounds (sint (sip_d s)) s
     in (sip_v0 s XOR sip_v1 s XOR sip_v2 s XOR sip_v3 s, s))"

definition sipHash :: "u64 list \<Rightarrow> nat \<Rightarrow> siphash \<Rightarrow> u64 \<times> siphash" where
  "sipHash wds nwds s =
    (let s = s\<lparr>sip_v0 := sip_k0 s XOR 0x736f6d6570736575\<rparr>;
         s = s\<lparr>sip_v1 := sip_k1 s XOR 0x646f72616e646f6d\<rparr>;
         s = s\<lparr>sip_v2 := sip_k0 s XOR 0x6c7967656e657261\<rparr>;
         s = s\<lparr>sip_v3 := sip_k1 s XOR 0x7465646279746573\<rparr>;
         s = foldl (\<lambda>s ix. sip_compression (wds ! ix) s) s [0..<nwds]
     in sip_finalization s)"

text \<open>The functions for Lisp; the first three work on the static \<open>gSipHash\<close>.\<close>

definition c_siphash_init :: "u32 \<Rightarrow> u32 \<Rightarrow> u64 \<Rightarrow> u64 \<Rightarrow> u64 \<Rightarrow> u64 \<Rightarrow> siphash \<Rightarrow> siphash" where
  "c_siphash_init c d v0 v1 v2 v3 g =
    g\<lparr>sip_c := c, sip_d := d, sip_v0 := v0, sip_v1 := v1, sip_v2 := v2, sip_v3 := v3\<rparr>"

definition c_siphash_compression :: "u64 \<Rightarrow> siphash \<Rightarrow> siphash" where
  "c_siphash_compression w g = sip_compression w g"

definition c_siphash_finalization :: "siphash \<Rightarrow> u64 \<times> siphash" where
  "c_siphash_finalization g = sip_finalization g"

definition c_siphash :: "siphash \<Rightarrow> u64 list \<Rightarrow> nat \<Rightarrow> u64 \<times> siphash" where
  "c_siphash state wds nwds = sipHash wds nwds state"

section \<open>Specification\<close>

text \<open>
  SipHash-c-d on the words of a padded message. A half round mixes two of the four words; a
  round is four of them and two exchanges of the halves of a word.
\<close>

definition half_round :: "nat \<Rightarrow> u64 \<times> u64 \<Rightarrow> u64 \<times> u64" where
  "half_round s = (\<lambda>(a, b). (a + b, word_rotl s b XOR (a + b)))"

definition sip_round :: "u64 \<times> u64 \<times> u64 \<times> u64 \<Rightarrow> u64 \<times> u64 \<times> u64 \<times> u64" where
  "sip_round = (\<lambda>(a, b, c, d).
    let (a, b) = half_round 13 (a, b);
        (c, d) = half_round 16 (c, d);
        (c, b) = half_round 17 (c, b);
        (a, d) = half_round 21 (word_rotl 32 a, d)
    in (a, b, word_rotl 32 c, d))"

definition sip_absorb :: "nat \<Rightarrow> u64 \<times> u64 \<times> u64 \<times> u64 \<Rightarrow> u64 \<Rightarrow> u64 \<times> u64 \<times> u64 \<times> u64" where
  "sip_absorb n v m = (case v of (a, b, c, d) \<Rightarrow> case (sip_round ^^ n) (a, b, c, d XOR m) of (a, b, c, d) \<Rightarrow> (a XOR m, b, c, d))"

definition sip_squeeze :: "nat \<Rightarrow> u64 \<times> u64 \<times> u64 \<times> u64 \<Rightarrow> u64" where
  "sip_squeeze n v = (case v of (a, b, c, d) \<Rightarrow> case (sip_round ^^ n) (a, b, c XOR 0xff, d) of (a, b, c, d) \<Rightarrow> a XOR b XOR c XOR d)"

definition sip_start :: "u64 \<Rightarrow> u64 \<Rightarrow> u64 \<times> u64 \<times> u64 \<times> u64" where
  "sip_start k0 k1 = (k0 XOR 0x736f6d6570736575, k1 XOR 0x646f72616e646f6d, k0 XOR 0x6c7967656e657261, k1 XOR 0x7465646279746573)"

definition sip_hash :: "nat \<Rightarrow> nat \<Rightarrow> u64 \<Rightarrow> u64 \<Rightarrow> u64 list \<Rightarrow> u64" where
  "sip_hash c d k0 k1 ms = sip_squeeze d (foldl (sip_absorb c) (sip_start k0 k1) ms)"

section \<open>The functions against the specification\<close>

definition sip_v :: "siphash \<Rightarrow> u64 \<times> u64 \<times> u64 \<times> u64" where
  "sip_v s = (sip_v0 s, sip_v1 s, sip_v2 s, sip_v3 s)"

definition sip_key :: "siphash \<Rightarrow> u64 \<times> u64 \<times> u32 \<times> u32" where
  "sip_key s = (sip_k0 s, sip_k1 s, sip_c s, sip_d s)"

lemma sip_rotl: "0 < n \<Longrightarrow> n < 64 \<Longrightarrow> sip_rotl x n = word_rotl n x"
proof (rule bit_word_eqI)
  fix k
  assume n: "0 < n" "n < 64" and "k < LENGTH(64)"
  then have k: "k < 64" by simp
  have "bit (word_rotl n x) k = bit x ((k + (64 - n)) mod 64)" using n k by (simp add: bit_word_rotl_iff)
  also have "(k + (64 - n)) mod 64 = (if n \<le> k then k - n else k + (64 - n))"
  proof (cases "n \<le> k")
    case True
    then have "k + (64 - n) = (k - n) + 64" using n by simp
    then have "(k + (64 - n)) mod 64 = (k - n) mod 64" by (simp only: mod_add_self2)
    then show ?thesis using True k by simp
  qed (use n in simp)
  also have "bit x (if n \<le> k then k - n else k + (64 - n)) = bit (sip_rotl x n) k"
  proof (cases "n \<le> k")
    case True
    then have "\<not> bit x (64 - n + k)" using n bit_imp_le_length [of x "64 - n + k"] by auto
    then show ?thesis using True n k by (simp add: sip_rotl_def bit_or_iff bit_push_bit_iff bit_drop_bit_eq)
  qed (use n k in \<open>simp add: sip_rotl_def bit_or_iff bit_push_bit_iff bit_drop_bit_eq add.commute\<close>)
  finally show "bit (sip_rotl x n) k = bit (word_rotl n x) k" by simp
qed

lemma sipRound: "sip_v (sipRound s) = sip_round (sip_v s)" "sip_key (sipRound s) = sip_key s"
  by (simp_all add: sipRound_def sip_round_def half_round_def sip_v_def sip_key_def Let_def sip_rotl)

lemma sip_rounds_n: "sip_v (sip_rounds (int n) s) = (sip_round ^^ n) (sip_v s) \<and> sip_key (sip_rounds (int n) s) = sip_key s"
proof (induction n arbitrary: s)
  case 0
  then show ?case by (subst (1 2) sip_rounds.simps) simp
next
  case (Suc n)
  have "sip_rounds (int (Suc n)) s = sip_rounds (int n) (sipRound s)" by (subst sip_rounds.simps) simp
  then show ?case using Suc [of "sipRound s"] by (simp add: sipRound funpow_swap1)
qed

lemma sint_count: "unat c < 2 ^ 31 \<Longrightarrow> sint c = int (unat c)" for c :: u32
proof -
  assume "unat c < 2 ^ 31"
  then have "uint c < 2 ^ 31" using of_nat_less_iff [of "unat c" "2 ^ 31", where 'a = int] by simp
  moreover have "- (2 ^ 31) \<le> uint c" by (rule order_trans [OF _ uint_ge_0]) simp
  ultimately have "signed_take_bit 31 (uint c) = uint c" by (intro signed_take_bit_int_eq_self)
  then have "sint c = uint c" by (simp add: sint_uint)
  then show ?thesis by simp
qed

lemma sip_compression:
  assumes "unat (sip_c s) < 2 ^ 31"
  shows "sip_v (sip_compression w s) = sip_absorb (unat (sip_c s)) (sip_v s) w" "sip_key (sip_compression w s) = sip_key s"
proof -
  let ?s = "s\<lparr>sip_v3 := sip_v3 s XOR w\<rparr>"
  have r: "sip_v (sip_rounds (int (unat (sip_c s))) ?s) = (sip_round ^^ unat (sip_c s)) (sip_v ?s)"
    "sip_key (sip_rounds (int (unat (sip_c s))) ?s) = sip_key ?s" using sip_rounds_n by blast+
  show "sip_v (sip_compression w s) = sip_absorb (unat (sip_c s)) (sip_v s) w" "sip_key (sip_compression w s) = sip_key s"
    using r assms by (auto simp: sip_compression_def sip_absorb_def sip_v_def sip_key_def Let_def sint_count split: prod.splits)
qed

lemma sip_finalization:
  assumes "unat (sip_d s) < 2 ^ 31"
  shows "fst (sip_finalization s) = sip_squeeze (unat (sip_d s)) (sip_v s)"
proof -
  let ?s = "s\<lparr>sip_v2 := sip_v2 s XOR 0x00ff\<rparr>"
  have "sip_v (sip_rounds (int (unat (sip_d s))) ?s) = (sip_round ^^ unat (sip_d s)) (sip_v ?s)" using sip_rounds_n by blast
  then show ?thesis using assms
    by (auto simp: sip_finalization_def sip_squeeze_def sip_v_def Let_def sint_count split: prod.splits)
qed

lemma sip_compressions:
  assumes "unat (sip_c s) < 2 ^ 31"
  shows "sip_v (foldl (\<lambda>s w. sip_compression w s) s ws) = foldl (sip_absorb (unat (sip_c s))) (sip_v s) ws \<and>
    sip_key (foldl (\<lambda>s w. sip_compression w s) s ws) = sip_key s"
proof (induction ws rule: rev_induct)
  case (snoc w ws)
  then have "sip_c (foldl (\<lambda>s w. sip_compression w s) s ws) = sip_c s" by (simp add: sip_key_def)
  then show ?case using snoc sip_compression [of "foldl (\<lambda>s w. sip_compression w s) s ws" w] assms by simp
qed simp

text \<open>From a state that holds the start value, the words in order and the end give the hash.\<close>

lemma sip_run:
  assumes "unat (sip_c s) < 2 ^ 31" "unat (sip_d s) < 2 ^ 31" "sip_v s = sip_start k0 k1"
  shows "fst (sip_finalization (foldl (\<lambda>s w. sip_compression w s) s ws)) = sip_hash (unat (sip_c s)) (unat (sip_d s)) k0 k1 ws"
proof -
  note f = sip_compressions [OF assms(1), of ws]
  then have "sip_d (foldl (\<lambda>s w. sip_compression w s) s ws) = sip_d s" by (simp add: sip_key_def)
  then show ?thesis using f sip_finalization [of "foldl (\<lambda>s w. sip_compression w s) s ws"] assms by (simp add: sip_hash_def)
qed

lemma fold_take: "n \<le> length ws \<Longrightarrow> foldl (\<lambda>s ix. f (ws ! ix) s) s [0..<n] = foldl (\<lambda>s w. f w s) s (take n ws)"
  by (induction n) (simp_all add: take_Suc_conv_app_nth)

text \<open>C39. SipHash: \<open>c_siphash\<close> over the first words of an array is SipHash-c-d of those words under the
  key of the state. So is the way through the static state: \<open>c_siphash_init\<close> with the start values
  of the key, \<open>c_siphash_compression\<close> of each word, and \<open>c_siphash_finalization\<close>.\<close>

theorem siphash_reference:
  assumes "unat (sip_c s) < 2 ^ 31" "unat (sip_d s) < 2 ^ 31" "n \<le> length wds"
  shows "fst (c_siphash s wds n) = sip_hash (unat (sip_c s)) (unat (sip_d s)) (sip_k0 s) (sip_k1 s) (take n wds)
    \<and> fst (c_siphash_finalization (foldl (\<lambda>g w. c_siphash_compression w g)
        (c_siphash_init (sip_c s) (sip_d s) (k0 XOR 0x736f6d6570736575) (k1 XOR 0x646f72616e646f6d)
          (k0 XOR 0x6c7967656e657261) (k1 XOR 0x7465646279746573) g) wds))
      = sip_hash (unat (sip_c s)) (unat (sip_d s)) k0 k1 wds"
proof
  show "fst (c_siphash s wds n) = sip_hash (unat (sip_c s)) (unat (sip_d s)) (sip_k0 s) (sip_k1 s) (take n wds)"
    unfolding c_siphash_def sipHash_def Let_def fold_take [OF assms(3), of sip_compression]
    using assms by (subst sip_run [of _ "sip_k0 s" "sip_k1 s"]) (simp_all add: sip_v_def sip_start_def)
  show "fst (c_siphash_finalization (foldl (\<lambda>g w. c_siphash_compression w g)
        (c_siphash_init (sip_c s) (sip_d s) (k0 XOR 0x736f6d6570736575) (k1 XOR 0x646f72616e646f6d)
          (k0 XOR 0x6c7967656e657261) (k1 XOR 0x7465646279746573) g) wds))
      = sip_hash (unat (sip_c s)) (unat (sip_d s)) k0 k1 wds"
    unfolding c_siphash_finalization_def c_siphash_compression_def
    using assms by (subst sip_run [of _ k0 k1]) (simp_all add: sip_v_def sip_start_def c_siphash_init_def)
qed

text \<open>The value its authors publish for SipHash-2-4 of the bytes \<open>00\<close> to \<open>0e\<close> under the key \<open>00\<close> to \<open>0f\<close>.\<close>

lemma rotations: "word_rotl 13 x = sip_rotl x 13" "word_rotl 16 x = sip_rotl x 16" "word_rotl 17 x = sip_rotl x 17"
  "word_rotl 21 x = sip_rotl x 21" "word_rotl 32 x = sip_rotl x 32"
  by (simp_all add: sip_rotl)

lemma round_numeral:
  "sip_round (a, b, c, d) =
    (let a = a + b; b = sip_rotl b 13 XOR a; c = c + d; d = sip_rotl d 16 XOR c;
         c = c + b; b = sip_rotl b 17 XOR c; a = sip_rotl a 32 + d; d = sip_rotl d 21 XOR a
     in (a, b, sip_rotl c 32, d))"
  by (simp add: sip_round_def half_round_def Let_def rotations)

lemma sip_vector:
  "sip_hash 2 4 0x0706050403020100 0x0f0e0d0c0b0a0908 [0x0706050403020100, 0x0f0e0d0c0b0a0908] = 0xa129ca6149be45e5"
proof -
  have n: "sip_round ^^ 2 = sip_round \<circ> sip_round" "sip_round ^^ 4 = sip_round \<circ> sip_round \<circ> (sip_round \<circ> sip_round)"
    by (simp_all add: eval_nat_numeral comp_assoc)
  show ?thesis
    by (simp add: sip_hash_def sip_start_def sip_absorb_def sip_squeeze_def n round_numeral sip_rotl_def
        push_bit_eq_mult drop_bit_eq_div)
qed

theorem siphash_reference_witness:
  "fst (c_siphash \<lparr>sip_k0 = 0x0706050403020100, sip_k1 = 0x0f0e0d0c0b0a0908, sip_v0 = 0, sip_v1 = 0, sip_v2 = 0, sip_v3 = 0,
      sip_c = 2, sip_d = 4\<rparr> [0x0706050403020100, 0x0f0e0d0c0b0a0908] 2) = 0xa129ca6149be45e5"
  by (subst siphash_reference [THEN conjunct1]) (simp_all add: sip_vector)

end
