(* ===== verification/Spec2Isabelle.thy ===== *)
theory Spec2Isabelle
  imports Sha2_Props Aes_Props Twofish_Props Serpent_Props Ctr3_Main_Props Aescrypt2_Props Ldb_Dpb Ed3363_Props Curve1174_Props Ecc571_Props Siphash
begin

text \<open>
  A verification library of the C and C++ code of Lisp-Actors: the cryptographic primitives
  under \<open>src/Crypto\<close> that the Lisp actors call through foreign functions, and the command line
  tools built from them.

  \<^bold>\<open>The program.\<close> Three layers. At the bottom are hash and block ciphers: SHA-224/256 with HMAC
  (\<open>AES256/sha2.c\<close>), AES (\<open>aes.c\<close>), the author's AES with twice the rounds (\<open>aesx.c\<close>), Twofish and
  Serpent. On them stand two file encryptors with different formats: \<open>ctr-hmac-crypt\<close>
  (\<open>C-Code/main.cpp\<close>: counter mode over the cascade AESX, Twofish, Twofish, authenticated by
  HMAC) and \<open>aescrypt2\<close> (\<open>AES256/main.cpp\<close>: AES-256 in cipher block chaining), the decryptor of
  the second format in memory (\<open>decrypt.cpp\<close>), the parser of key texts (\<open>parse_keytext.cpp\<close>) and
  \<open>Sha2Sum\<close>. Beside them are the curves: E-3363 and Curve1174 in Edwards form
  (\<open>Ed3363-C-Code\<close>), whose numbers are arrays of signed limbs; the curve B-571 with the fields
  of 2^571 and 2^128 elements (\<open>ECC/eccl_le.cpp\<close>), whose elements are polynomials packed in words;
  SipHash (\<open>ECC/siphash.cpp\<close>); and bit fields for Lisp bignums (\<open>ldb-dpb.c\<close>).

  \<^bold>\<open>The theories.\<close> \<open>Prelude\<close> has the machine types, \<open>blit\<close> (\<open>memcpy\<close>) and the macros that read and
  write words in buffers. A component has a theory named after it with its records and
  functions, in the order of the source; theories ending in \<open>_Spec\<close> state the standard it
  implements, those ending in \<open>_Props\<close> its properties.

  \<^item> \<open>Sha2\<close> (model of \<open>sha2.c\<close>), \<open>Sha2_Spec\<close> (FIPS 180 on byte strings, and the unrolled compression
    function against it), \<open>Sha2_Stream\<close>, \<open>Sha2_Hmac\<close>, \<open>Sha2_File\<close>, \<open>Sha2_Vectors\<close>. The contract of a
    hash that is fed in pieces is the locale \<open>stream_hash\<close> (\<open>Stream_Hash\<close>); hash and HMAC are two
    interpretations, and the file and key derivation code uses only its lemmas.
  \<^item> \<open>Aes_Tables\<close>, \<open>Aes\<close>, \<open>Aesx\<close> (models), \<open>Aes_Spec\<close> (FIPS 197), \<open>Aes_Gen\<close> (the table generator),
    \<open>Aes_Keys\<close>, \<open>Aes_Ecb\<close>, \<open>Aes_Cbc\<close>; \<open>Twofish\<close>, \<open>Twofish_Spec\<close>, \<open>Twofish_Proofs\<close>; \<open>Serpent\<close>,
    \<open>Serpent_Spec\<close>, \<open>Serpent_Keys\<close>, \<open>Serpent_Proofs\<close>. The contract of a cipher is the locale
    \<open>block_cipher\<close> over \<open>block_fun\<close> (\<open>Block_Cipher\<close>), which also specifies cipher block chaining and
    counter mode; the four ciphers and the cascade of \<open>main.cpp\<close> are its interpretations.
  \<^item> \<open>File_Io\<close> (streams as the C library delivers them), \<open>Keytext\<close>, \<open>Ctr3\<close>, \<open>Ctr3_Main\<close> and
    \<open>Aescrypt2\<close> model the tools, every error exit included: a C++ exception is the left value of
    a sum, an exit status an integer. \<open>Ctr3_Proofs\<close> and \<open>Aescrypt2_Proofs\<close> describe the file formats
    as functions on byte strings.
  \<^item> \<open>Limbs\<close> (wrap-around of \<open>int64_t\<close> and \<open>__int128\<close>), \<open>Edwards\<close> (the point functions, whose text the
    two curve files share, over the record \<open>field_ops\<close> of field functions), \<open>Ed3363\<close> and \<open>Curve1174\<close>
    (the fields, buffers and exported functions). \<open>Mixed_Radix\<close> and the locale \<open>radix_field\<close>
    (\<open>Radix_Field\<close>) treat carry chains for any limb widths; the locale \<open>limb_field\<close> (\<open>Edwards_Field\<close>)
    is what the point functions ask of a field. Both are interpreted for both curves
    (\<open>Ed3363_Field\<close>, \<open>Ed3363_Inv\<close>, \<open>Curve1174_Field\<close>, \<open>Curve1174_Inv\<close>). \<open>Edwards_Spec\<close> states the
    addition law in rational form, \<open>Edwards_Scalar\<close> the signed digits of a scalar.
  \<^item> \<open>Gf_Buffers\<close> (operands as words and bytes, hexadecimal strings and the loops that the two field
    classes share), \<open>Gf571\<close> (both fields) and \<open>Ecc571\<close> (points, multiples, the functions for Lisp) model
    \<open>eccl_le.cpp\<close>. \<open>Gf2_Poly\<close> is the ring of polynomials over two elements on natural numbers,
    \<open>Gf_Bits\<close> relates the buffers to it; the locale \<open>gf_product\<close> (\<open>Gf_Product\<close>) is the product loop,
    interpreted for both fields (\<open>Gf571_Field\<close>, \<open>Gf128_Field\<close>). \<open>Gf571_Inverse\<close> has the invariant and
    the measure of the inversion loop; \<open>Gf2_Irreducible\<close> (Rabin's test) and \<open>Gf571_Prime\<close> show that
    the modulus is irreducible, so that \<open>Gf571_Ring\<close> makes the operands a type of class \<open>field\<close>.
    \<open>Ecc571_Spec\<close> states the chord and tangent law, \<open>Ecc571_Proofs\<close> refines it, \<open>Gf571_Strings\<close> and
    \<open>Ecc571_Const\<close> treat the constants.
  \<^item> \<open>Siphash\<close>, \<open>Ldb_Dpb\<close>: model and properties of \<open>siphash.cpp\<close> and of \<open>ldb-dpb.c\<close>.

  \<^bold>\<open>What the properties show.\<close> Hash, HMAC, AES, Twofish and Serpent compute their standards for
  all inputs, keys and any earlier contents of the contexts; the ciphers are inverted by their
  decryption functions. The tools write the formats that \<open>Ctr3_Proofs\<close> and
  \<open>Aescrypt2_Proofs\<close> describe, with the HMAC in the clear, read back what they wrote, and reject every
  file whose authentication does not match. Errors are characterised, not assumed
  away: refused key lengths, short files, failing reads. The limb functions compute
  modulo the prime, and overflow never affects their results; scalar multiplication computes the multiple of the point by the
  number in the buffer. Where the code is wrong, a theorem says what it does instead: round
  keys \<open>aesx\<close> never fills for 192 bits, a key text with an odd number of digits that reads past
  its end, an \<open>E-3363\<close> store that writes unnormalised limbs (and when that is harmless), bit fields
  across words, an
  inversion of 2^128 that writes behind its operand or returns no inverse, and one of 2^571 that
  never returns for zero.

  \<^bold>\<open>Bounds and fuel.\<close> Limbs of E-3363 stay below \<open>2 ^ 57\<close> between operations and may reach \<open>2 ^ 60\<close> at
  the entry of a multiplication; those of Curve1174 below \<open>2 ^ 52\<close> and \<open>2 ^ 55\<close>: the sums and
  differences of two or three results that the point formulas build stay inside, and the
  accumulated products inside 128 bits. Numbers that are normalised are below \<open>7 * 2 ^ 332\<close> and
  \<open>7 * 2 ^ 252\<close>, so that the two subtractions of the modulus in \<open>gnorm\<close> suffice. Counters of type \<open>int\<close> that run
  against a wider length (\<open>kdf\<close>, \<open>Acudora_decrypt_buffer\<close>) and shifts of an \<open>int\<close> (\<open>ldb-dpb.c\<close>) have no
  defined result where they overflow: the model returns \<open>None\<close> there, and the properties say from
  which length on. No function has
  fuel: every loop is structural or has a measure, except the two inversion loops of
  \<open>eccl_le.cpp\<close>. They are \<open>while_option\<close>, so that not returning is \<open>None\<close>: the loop of \<open>gf571_inv\<close> is
  proved to return exactly for operands that are not zero.

  \<^bold>\<open>Assumptions.\<close> Files, the random device and the clock are arguments: what the C library returned.
  Inverses and square roots in the Edwards curve fields are stated as the powers the code computes,
  so that no theorem rests on the primality of the moduli. Results of \<open>eccl_le.cpp\<close> are values: a
  destination that is also an operand is written last, or word by word where the order does not
  matter. The points are those of a curve with \<open>b\<close> other than zero, which the built-in curve is shown
  to be. A multiple is what doubling and adding from the highest bit gives; that the law is
  associative is not shown.

  \<^bold>\<open>Not modelled.\<close> \<open>padlock.c\<close> is inline assembly that \<open>config.h\<close> switches off. \<open>ecc.cpp\<close> and \<open>eccl.cpp\<close> are earlier versions of
  \<open>eccl_le.cpp\<close>, on bytes and for big-endian machines, in no build. \<open>pbc_intf.cpp\<close> hands
  buffers to the PBC and GMP libraries and keeps no logic of its own; those libraries and
  their headers under \<open>Crypto/var\<close> are vendored. \<open>old-code/old-c-code.cpp\<close> is a collection of
  superseded versions that no build uses. Self tests and benchmarks are compiled out. Printing
  to the console and the Lisp sources are outside the development.
\<close>

end
